(* ===== verification/Prelude.thy ===== *)
theory Prelude
  imports Main "HOL-Library.Word" "HOL-Library.List_Lexorder" "HOL-Library.Char_ord"
begin

text \<open>
  Shared material of the LibreAgent development: the machine types, the two result
  shapes the C++ code uses (\<^verbatim>\<open>std::expected\<close> as a sum, \<^verbatim>\<open>std::optional\<close> as an option) with
  the early-return sequencing of each, and ordered association lists as the model of
  \<^verbatim>\<open>std::map\<close>: iteration follows the comparator, \<open>emplace\<close> keeps the first value of a key.
\<close>

named_theorems wire_simps \<open>unfolding rules of the wire encoders and decoders\<close>
named_theorems step_simps \<open>unfolding rules of the state-changing operations\<close>

type_synonym u8 = "8 word"
type_synonym u16 = "16 word"
type_synonym u32 = "32 word"
type_synonym u64 = "64 word"
type_synonym bytes = "8 word list"

section \<open>Early returns\<close>

text \<open>\<^verbatim>\<open>auto x = f(); if (!x) return std::unexpected(x.error());\<close> followed by the rest.\<close>

definition sum_bind :: "'e + 'a \<Rightarrow> ('a \<Rightarrow> 'e + 'b) \<Rightarrow> 'e + 'b" where
  "sum_bind x f = (case x of Inl e \<Rightarrow> Inl e | Inr v \<Rightarrow> f v)"

lemma sum_bind_simps [simp]:
  "sum_bind (Inl e) f = Inl e"
  "sum_bind (Inr v) f = f v"
  by (simp_all add: sum_bind_def)

lemma sum_bind_Inr_iff:
  "sum_bind x f = Inr y \<longleftrightarrow> (\<exists>v. x = Inr v \<and> f v = Inr y)"
  by (cases x) auto

lemma case_option_Inr_iff:
  "(case x of None \<Rightarrow> Inl e | Some v \<Rightarrow> f v) = Inr y \<longleftrightarrow> (\<exists>v. x = Some v \<and> f v = Inr y)"
  by (cases x) auto

lemma case_sum_Inr_iff:
  "(case x of Inl e \<Rightarrow> Inl (g e) | Inr v \<Rightarrow> f v) = Inr y \<longleftrightarrow> (\<exists>v. x = Inr v \<and> f v = Inr y)"
  by (cases x) auto

text \<open>What it means that a function with early returns succeeded.\<close>

lemmas early_return_iffs = sum_bind_Inr_iff case_option_Inr_iff case_sum_Inr_iff

text \<open>A loop over a vector that returns on the first element that fails.\<close>

fun sum_map :: "('a \<Rightarrow> 'e + 'b) \<Rightarrow> 'a list \<Rightarrow> 'e + 'b list" where
  "sum_map f [] = Inr []"
| "sum_map f (x # xs) = sum_bind (f x) (\<lambda>y. sum_bind (sum_map f xs) (\<lambda>ys. Inr (y # ys)))"

lemma sum_map_map:
  "(\<And>x. x \<in> set xs \<Longrightarrow> f (g x) = Inr x) \<Longrightarrow> sum_map f (map g xs) = Inr xs"
  by (induction xs) auto

lemma sum_map_list_all2:
  "sum_map f xs = Inr ys \<Longrightarrow> (\<And>x y. x \<in> set xs \<Longrightarrow> f x = Inr y \<Longrightarrow> P y x) \<Longrightarrow> list_all2 P ys xs"
  by (induction xs arbitrary: ys) (auto simp: sum_bind_Inr_iff)

fun opt_map :: "('a \<Rightarrow> 'b option) \<Rightarrow> 'a list \<Rightarrow> 'b list option" where
  "opt_map f [] = Some []"
| "opt_map f (x # xs) =
     (case f x of None \<Rightarrow> None
      | Some y \<Rightarrow> (case opt_map f xs of None \<Rightarrow> None | Some ys \<Rightarrow> Some (y # ys)))"

lemma opt_map_map:
  "(\<And>x. x \<in> set xs \<Longrightarrow> f (g x) = Some x) \<Longrightarrow> opt_map f (map g xs) = Some xs"
  by (induction xs) auto

text \<open>The same loop over the entries of a map: the key is kept, the value decoded.\<close>

definition opt_entries :: "('a \<Rightarrow> 'b option) \<Rightarrow> ('k \<times> 'a) list \<Rightarrow> ('k \<times> 'b) list option" where
  "opt_entries f = opt_map (\<lambda>(k, v). map_option (Pair k) (f v))"

lemma opt_entries_map_of:
  "opt_entries f m = Some m' \<Longrightarrow>
     map_of m' k = (case map_of m k of None \<Rightarrow> None | Some v \<Rightarrow> f v)"
  unfolding opt_entries_def
  by (induction m arbitrary: m') (auto split: option.splits)

lemma opt_entries_total:
  "(\<And>k v. (k, v) \<in> set m \<Longrightarrow> f v \<noteq> None) \<Longrightarrow> \<exists>m'. opt_entries f m = Some m'"
  unfolding opt_entries_def
proof (induction m)
  case Nil
  then show ?case by simp
next
  case (Cons p m)
  obtain k v where p: "p = (k, v)" by (cases p)
  from Cons.prems p obtain w where "f v = Some w" by fastforce
  moreover from Cons obtain m' where "opt_map (\<lambda>(k, v). map_option (Pair k) (f v)) m = Some m'"
    by fastforce
  ultimately show ?case by (simp add: p)
qed

section \<open>Width conversions\<close>

text \<open>\<^verbatim>\<open>static_cast\<close> between the integer widths of the wire.\<close>

lemma is_up_ucast: "LENGTH('a::len) \<le> LENGTH('b::len) \<Longrightarrow> is_up (ucast :: 'a word \<Rightarrow> 'b word)"
  by (simp add: is_up)

lemma ucast_ucast_up [simp]:
  "LENGTH('a::len) \<le> LENGTH('b::len) \<Longrightarrow> ucast (ucast (c :: 'a word) :: 'b word) = c"
  by (rule ucast_up_ucast_id[OF is_up_ucast])

lemma ucast32_le: "(ucast (c :: u32) :: u64) \<le> 0xFFFFFFFF"
  using uint_lt2p[of c] by (simp add: word_le_def uint_up_ucast[OF is_up_ucast])

lemma ucast8_le: "(ucast (c :: u8) :: u64) \<le> 0xFF"
  using uint_lt2p[of c] by (simp add: word_le_def uint_up_ucast[OF is_up_ucast])

lemma ucast_scast: "ucast (scast (c :: u32) :: u64) = c"
  by (rule bit_word_eqI) (simp add: bit_simps)


lemma uint_scast: "uint (scast (c :: u32) :: u64) = sint c mod 2 ^ 64"
proof -
  have "(scast c :: u64) = word_of_int (sint c)" by (rule scast_eq)
  then show ?thesis by (simp only: uint_word_of_int) simp
qed

lemma scast_bound: "(scast (c :: u32) :: u64) \<le> 0x7FFFFFFF \<longleftrightarrow> 0 \<le> sint c"
proof -
  have hi: "sint c < 2 ^ 31" and lo: "- (2 ^ 31) \<le> sint c"
    using sint_lt[of c] sint_ge[of c] by simp_all
  have "uint (scast c :: u64) \<le> 0x7FFFFFFF \<longleftrightarrow> 0 \<le> sint c"
  proof (cases "0 \<le> sint c")
    case True
    then have "sint c mod 2 ^ 64 = sint c" using hi by (intro mod_pos_pos_trivial) simp_all
    then show ?thesis using True hi by (simp add: uint_scast)
  next
    case False
    then have "sint c mod 2 ^ 64 = sint c + 2 ^ 64"
      using lo by (intro int_mod_pos_eq[of _ _ "-1"]) simp_all
    then show ?thesis using False lo by (simp add: uint_scast)
  qed
  then show ?thesis by (simp add: word_le_def)
qed

section \<open>Decimal numerals\<close>

text \<open>\<^verbatim>\<open>std::to_string\<close> of an unsigned number.\<close>

definition digitChar :: "nat \<Rightarrow> char" where
  "digitChar d = char_of (48 + d)"

fun to_string :: "nat \<Rightarrow> string" where
  "to_string n = (if n < 10 then [digitChar n] else to_string (n div 10) @ [digitChar (n mod 10)])"

declare to_string.simps [simp del]

definition decimalValue :: "string \<Rightarrow> nat" where
  "decimalValue s = foldl (\<lambda>v c. v * 10 + (of_char c - 48)) 0 s"

lemma of_char_digitChar: "d < 10 \<Longrightarrow> of_char (digitChar d) = 48 + d"
  by (simp add: digitChar_def of_char_of take_bit_eq_mod)

lemma decimalValue_to_string: "decimalValue (to_string n) = n"
proof (induction n rule: to_string.induct)
  case (1 n)
  then show ?case
    by (subst to_string.simps)
      (cases "n < 10", auto simp: decimalValue_def of_char_digitChar)
qed

lemma to_string_inject [simp]: "to_string m = to_string n \<longleftrightarrow> m = n"
  by (metis decimalValue_to_string)

lemma to_string_not_Nil [simp]: "to_string n \<noteq> []"
  by (subst to_string.simps) simp

section \<open>Ordered maps\<close>

text \<open>\<^verbatim>\<open>std::map<K, V, Less>\<close>: an association list in the comparator's order.\<close>

fun ins_by :: "('k \<Rightarrow> 'k \<Rightarrow> bool) \<Rightarrow> 'k \<Rightarrow> 'v \<Rightarrow> ('k \<times> 'v) list \<Rightarrow> ('k \<times> 'v) list" where
  "ins_by lt k v [] = [(k, v)]"
| "ins_by lt k v ((k', v') # m) =
     (if lt k k' then (k, v) # (k', v') # m else (k', v') # ins_by lt k v m)"

text \<open>\<^verbatim>\<open>emplace\<close>: no effect when the key is already there.\<close>

definition emplace_by :: "('k \<Rightarrow> 'k \<Rightarrow> bool) \<Rightarrow> 'k \<Rightarrow> 'v \<Rightarrow> ('k \<times> 'v) list \<Rightarrow> ('k \<times> 'v) list" where
  "emplace_by lt k v m = (case map_of m k of Some _ \<Rightarrow> m | None \<Rightarrow> ins_by lt k v m)"

text \<open>A sequence of \<^verbatim>\<open>emplace\<close> calls on an empty map.\<close>

definition emplaces_by :: "('k \<Rightarrow> 'k \<Rightarrow> bool) \<Rightarrow> ('k \<times> 'v) list \<Rightarrow> ('k \<times> 'v) list" where
  "emplaces_by lt kvs = fold (\<lambda>(k, v) m. emplace_by lt k v m) kvs []"

text \<open>\<^verbatim>\<open>m[k] = v\<close>, and a change through the reference \<^verbatim>\<open>find\<close> returned.\<close>

definition modify_key :: "'k \<Rightarrow> ('v \<Rightarrow> 'v) \<Rightarrow> ('k \<times> 'v) list \<Rightarrow> ('k \<times> 'v) list" where
  "modify_key k f m = map (\<lambda>(k', v). (k', if k' = k then f v else v)) m"

definition assign_by :: "('k \<Rightarrow> 'k \<Rightarrow> bool) \<Rightarrow> 'k \<Rightarrow> 'v \<Rightarrow> ('k \<times> 'v) list \<Rightarrow> ('k \<times> 'v) list" where
  "assign_by lt k v m =
     (case map_of m k of Some _ \<Rightarrow> modify_key k (\<lambda>_. v) m | None \<Rightarrow> ins_by lt k v m)"

definition sorted_keys :: "('k \<Rightarrow> 'k \<Rightarrow> bool) \<Rightarrow> ('k \<times> 'v) list \<Rightarrow> bool" where
  "sorted_keys lt m \<longleftrightarrow> sorted_wrt (\<lambda>a b. lt (fst a) (fst b)) m"

lemma set_ins_by [simp]: "set (ins_by lt k v m) = insert (k, v) (set m)"
  by (induction lt k v m rule: ins_by.induct) auto

lemma map_of_ins_by:
  "map_of m k = None \<Longrightarrow> map_of (ins_by lt k v m) = (map_of m)(k \<mapsto> v)"
  by (induction lt k v m rule: ins_by.induct) (auto simp: fun_eq_iff split: if_splits)

lemma map_of_emplace_by:
  "map_of (emplace_by lt k v m) k' =
     (if k' = k \<and> map_of m k = None then Some v else map_of m k')"
  by (auto simp: emplace_by_def map_of_ins_by split: option.splits)

lemma set_emplace_by: "set (emplace_by lt k v m) \<subseteq> insert (k, v) (set m)"
  by (auto simp: emplace_by_def split: option.splits)

lemma map_of_filter_keep:
  "distinct (map fst cs) \<Longrightarrow>
   map_of (filter P cs) k = (case map_of cs k of Some s \<Rightarrow> if P (k, s) then Some s else None | None \<Rightarrow> None)"
proof (induction cs)
  case (Cons p cs)
  obtain a b where p: "p = (a, b)" by (cases p)
  show ?case
  proof (cases "a = k")
    case True
    then have "map_of cs k = None" using Cons.prems p by (simp add: map_of_eq_None_iff)
    then show ?thesis using Cons p True by auto
  qed (use Cons p in auto)
qed simp

lemma map_of_filter_key [simp]:
  "map_of (filter (\<lambda>(k', v). k' \<noteq> k) m) k'' = (if k'' = k then None else map_of m k'')"
  by (induction m) auto

lemma map_of_modify_key [simp]:
  "map_of (modify_key k f m) k' = (if k' = k then map_option f (map_of m k') else map_of m k')"
  by (induction m) (auto simp: modify_key_def)

lemma set_modify_key: "(k', v) \<in> set (modify_key k f m) \<Longrightarrow>
   \<exists>v'. (k', v') \<in> set m \<and> v = (if k' = k then f v' else v')"
  by (auto simp: modify_key_def)

lemma keys_modify_key [simp]: "map fst (modify_key k f m) = map fst m"
  by (auto simp: modify_key_def)

lemma map_of_assign_by [simp]:
  "map_of (assign_by lt k v m) k' = (if k' = k then Some v else map_of m k')"
  by (auto simp: assign_by_def map_of_ins_by split: option.splits)

lemma distinct_ins_by: "distinct (map fst m) \<Longrightarrow> map_of m k = None \<Longrightarrow> distinct (map fst (ins_by lt k v m))"
  by (induction lt k v m rule: ins_by.induct) (auto simp: map_of_eq_None_iff split: if_splits)

lemma distinct_emplace_by: "distinct (map fst m) \<Longrightarrow> distinct (map fst (emplace_by lt k v m))"
  by (auto simp: emplace_by_def distinct_ins_by split: option.splits)

lemma distinct_assign_by: "distinct (map fst m) \<Longrightarrow> distinct (map fst (assign_by lt k v m))"
  by (simp add: assign_by_def distinct_ins_by split: option.splits)

lemma map_of_fold_emplace:
  "map_of (fold (\<lambda>(k, v) m. emplace_by lt k v m) kvs m) k =
     (case map_of m k of Some v \<Rightarrow> Some v | None \<Rightarrow> map_of kvs k)"
proof (induction kvs arbitrary: m)
  case Nil
  then show ?case by (simp split: option.splits)
next
  case (Cons p kvs)
  then show ?case
    by (cases p) (auto simp: map_of_emplace_by split: option.splits)
qed

text \<open>A map built by emplacing answers a lookup as the list of calls does: the first call wins.\<close>

lemma map_of_emplaces_by [simp]: "map_of (emplaces_by lt kvs) = map_of kvs"
  by (rule ext) (simp add: emplaces_by_def map_of_fold_emplace)

lemma set_fold_emplace:
  "set (fold (\<lambda>(k, v) m. emplace_by lt k v m) kvs m) \<subseteq> set kvs \<union> set m"
proof (induction kvs arbitrary: m)
  case Nil
  then show ?case by simp
next
  case (Cons p kvs)
  then show ?case
    using set_emplace_by[of lt "fst p" "snd p" m] by (fastforce simp: case_prod_beta)
qed

lemma set_emplaces_by: "set (emplaces_by lt kvs) \<subseteq> set kvs"
  using set_fold_emplace[of lt kvs "[]"] by (simp add: emplaces_by_def)

text \<open>What a strict linear comparator gives, proved once for both comparators of the wire.\<close>

locale std_map =
  fixes lt :: "'k \<Rightarrow> 'k \<Rightarrow> bool"
  assumes irrefl: "\<not> lt a a"
    and trans: "lt a b \<Longrightarrow> lt b c \<Longrightarrow> lt a c"
    and total: "a \<noteq> b \<Longrightarrow> lt a b \<or> lt b a"
begin

lemma sorted_distinct: "sorted_keys lt m \<Longrightarrow> distinct (map fst m)"
  unfolding sorted_keys_def
  by (induction m) (auto simp: irrefl)

lemma sorted_ins_by:
  "sorted_keys lt m \<Longrightarrow> map_of m k = None \<Longrightarrow> sorted_keys lt (ins_by lt k v m)"
  unfolding sorted_keys_def
proof (induction m)
  case Nil
  then show ?case by simp
next
  case (Cons p m)
  obtain k' v' where p: "p = (k', v')" by (cases p)
  have kk': "k \<noteq> k'" using Cons.prems(2) p by auto
  show ?case
  proof (cases "lt k k'")
    case True
    then show ?thesis using Cons.prems(1) p trans by auto
  next
    case False
    then have "lt k' k" using total[OF kk'] by blast
    then show ?thesis using False Cons p kk' by (auto split: if_splits)
  qed
qed

lemma sorted_emplace_by:
  "sorted_keys lt m \<Longrightarrow> sorted_keys lt (emplace_by lt k v m)"
  by (simp add: emplace_by_def sorted_ins_by split: option.splits)

lemma sorted_fold_emplace:
  "sorted_keys lt m \<Longrightarrow> sorted_keys lt (fold (\<lambda>(k, v) m. emplace_by lt k v m) kvs m)"
  by (induction kvs arbitrary: m) (auto simp: sorted_emplace_by)

lemma sorted_emplaces_by [simp]: "sorted_keys lt (emplaces_by lt kvs)"
  by (simp add: emplaces_by_def sorted_fold_emplace sorted_keys_def[of _ "[]"])

lemma sorted_unique:
  "sorted_keys lt m \<Longrightarrow> sorted_keys lt m' \<Longrightarrow> map_of m = map_of m' \<Longrightarrow> m = m'"
proof (induction m arbitrary: m')
  case Nil
  have "dom (map_of m') = {}" using Nil.prems(3)[symmetric] by simp
  then show ?case by (simp add: dom_map_of_conv_image_fst)
next
  case (Cons p m)
  obtain k v where p: "p = (k, v)" by (cases p)
  have "map_of m' k = Some v" using Cons.prems(3) p by (metis map_of_Cons_code(2))
  then obtain q m'' where m': "m' = q # m''" by (cases m') auto
  obtain k' v' where q: "q = (k', v')" by (cases q)
  have k'in: "k' \<in> dom (map_of (p # m))" using fun_cong[OF Cons.prems(3), of k'] m' q by auto
  have kin: "k \<in> dom (map_of (q # m''))" using fun_cong[OF Cons.prems(3)[symmetric], of k] m' p by auto
  have below: "\<And>x. x \<in> fst ` set m \<Longrightarrow> lt k x"
    using Cons.prems(1) p by (auto simp: sorted_keys_def)
  have below': "\<And>x. x \<in> fst ` set m'' \<Longrightarrow> lt k' x"
    using Cons.prems(2) m' q by (auto simp: sorted_keys_def)
  have kk': "k' = k"
  proof (rule ccontr)
    assume ne: "k' \<noteq> k"
    then have "k' \<in> fst ` set m" using k'in p
      by (metis (mono_tags) domIff map_of_Cons_code(2) map_of_eq_None_iff)
    moreover have "k \<in> fst ` set m''" using kin q ne
      by (metis (mono_tags) domIff map_of_Cons_code(2) map_of_eq_None_iff)
    ultimately show False using below below' irrefl trans by blast
  qed
  have vv': "v' = v" using fun_cong[OF Cons.prems(3), of k] m' p q kk' by auto
  have nk: "map_of m k = None" "map_of m'' k = None"
    using below below' kk' irrefl by (force simp: map_of_eq_None_iff)+
  have "map_of m = map_of m''"
  proof (rule ext)
    fix x show "map_of m x = map_of m'' x"
      using fun_cong[OF Cons.prems(3), of x] m' p q kk' nk by (cases "x = k") auto
  qed
  then have "m = m''"
    using Cons.IH[of m''] Cons.prems m' by (simp add: sorted_keys_def)
  then show ?case using m' p q kk' vv' by simp
qed

lemma emplaces_sorted_id: "sorted_keys lt m \<Longrightarrow> emplaces_by lt m = m"
  by (rule sorted_unique) simp_all

lemma emplaces_of_same_map:
  "sorted_keys lt m \<Longrightarrow> map_of kvs = map_of m \<Longrightarrow> emplaces_by lt kvs = m"
  by (rule sorted_unique) simp_all

end

end
