(* ===== verification/Cbor.thy ===== *)
theory Cbor
  imports Prelude
begin

text \<open>
  The CBOR value seam of the wire (\<^verbatim>\<open>src/wire/Cbor.cpp\<close>, \<^verbatim>\<open>include/LibreSCRS/Agent/wire/Cbor.h\<close>).
  The value tree and its accessors, the canonical key order, the encoder as the sequence of
  QCBOR encoder calls it makes, and the strict bounded decoder as it pulls items from a QCBOR
  decoding context. QCBOR itself is not part of the repository: it is the record \<open>qcbor\<close>, an
  argument of \<open>encode\<close> and \<open>decode\<close>.
\<close>

unbundle bit_operations_syntax

section \<open>Values\<close>

text \<open>\<^verbatim>\<open>CanonicalKeyLess\<close>: shorter keys first, then bytewise.\<close>

definition CanonicalKeyLess :: "string \<Rightarrow> string \<Rightarrow> bool" where
  "CanonicalKeyLess a b = (if length a \<noteq> length b then length a < length b else a < b)"

interpretation canon: std_map CanonicalKeyLess
  by unfold_locales (auto simp: CanonicalKeyLess_def split: if_splits)

text \<open>\<^verbatim>\<open>std::less<std::string>\<close>, the order of the maps inside the message structs.\<close>

definition string_less :: "string \<Rightarrow> string \<Rightarrow> bool" where
  "string_less a b = (a < b)"

interpretation strmap: std_map string_less
  by unfold_locales (auto simp: string_less_def)

text \<open>
  \<^verbatim>\<open>CborValue\<close>: one constructor per variant alternative. A double is its IEEE-754 bit
  pattern, an Int its two's-complement bit pattern.
\<close>

datatype CborValue =
    CNull
  | CBool bool
  | CUInt u64
  | CInt u64
  | CDouble u64
  | CText string
  | CBytes bytes
  | CArray "CborValue list"
  | CMap "(string \<times> CborValue) list"

datatype CborError = Malformed | NotCanonical | TooDeep | TooManyItems | TrailingBytes | UnsupportedType

type_synonym cbor_map = "(string \<times> CborValue) list"

abbreviation emplaces :: "(string \<times> CborValue) list \<Rightarrow> cbor_map" where
  "emplaces \<equiv> emplaces_by CanonicalKeyLess"

text \<open>The \<^verbatim>\<open>std::uint64_t\<close> constructor: a value that fits \<^verbatim>\<open>int64\<close> is stored as Int.\<close>

definition cbor_uint :: "u64 \<Rightarrow> CborValue" where
  "cbor_uint u = (if u \<le> 0x7FFFFFFFFFFFFFFF then CInt u else CUInt u)"

fun asBool :: "CborValue \<Rightarrow> bool option" where
  "asBool (CBool b) = Some b"
| "asBool _ = None"

fun asUInt :: "CborValue \<Rightarrow> u64 option" where
  "asUInt (CUInt u) = Some u"
| "asUInt (CInt i) = (if 0 \<le> sint i then Some i else None)"
| "asUInt _ = None"

fun asInt :: "CborValue \<Rightarrow> u64 option" where
  "asInt (CInt i) = Some i"
| "asInt _ = None"

fun asDouble :: "CborValue \<Rightarrow> u64 option" where
  "asDouble (CDouble d) = Some d"
| "asDouble _ = None"

fun asText :: "CborValue \<Rightarrow> string option" where
  "asText (CText s) = Some s"
| "asText _ = None"

fun asBytes :: "CborValue \<Rightarrow> bytes option" where
  "asBytes (CBytes b) = Some b"
| "asBytes _ = None"

fun asArray :: "CborValue \<Rightarrow> CborValue list option" where
  "asArray (CArray a) = Some a"
| "asArray _ = None"

fun asMap :: "CborValue \<Rightarrow> cbor_map option" where
  "asMap (CMap m) = Some m"
| "asMap _ = None"

definition cbor_find :: "CborValue \<Rightarrow> string \<Rightarrow> CborValue option" where
  "cbor_find v key = (case asMap v of None \<Rightarrow> None | Some m \<Rightarrow> map_of m key)"

lemma asText_Some_iff: "asText v = Some s \<longleftrightarrow> v = CText s"
  by (cases v) auto

lemma sint_nonneg_iff: "0 \<le> sint (u :: u64) \<longleftrightarrow> u \<le> 0x7FFFFFFFFFFFFFFF"
proof -
  have lt: "uint u < 2 ^ 64" using uint_lt2p[of u] by simp
  have "0 \<le> sint u \<longleftrightarrow> \<not> bit (uint u) 63"
    by (simp add: sint_uint)
  also have "\<dots> \<longleftrightarrow> even (uint u div 2 ^ 63)"
    by (simp add: bit_iff_odd)
  also have "\<dots> \<longleftrightarrow> uint u < 2 ^ 63"
  proof
    assume "even (uint u div 2 ^ 63)"
    moreover have "uint u div 2 ^ 63 < 2" using lt by simp
    moreover have "0 \<le> uint u div 2 ^ 63" by (simp add: pos_imp_zdiv_nonneg_iff)
    moreover have "\<And>x :: int. even x \<Longrightarrow> x < 2 \<Longrightarrow> 0 \<le> x \<Longrightarrow> x = 0" by presburger
    ultimately have "uint u div 2 ^ 63 = 0" by blast
    then show "uint u < 2 ^ 63" by simp
  qed simp
  finally show ?thesis by (auto simp: word_le_def)
qed

lemma asUInt_cbor_uint [simp]: "asUInt (cbor_uint u) = Some u"
  by (simp add: cbor_uint_def sint_nonneg_iff)


section \<open>The encoder\<close>

text \<open>The QCBOR encoder entry points \<^verbatim>\<open>Cbor.cpp\<close> calls, in the order it calls them.\<close>

datatype QCBOREncodeCall =
    AddNULL
  | AddBool bool
  | AddUInt64 u64
  | AddInt64 u64
  | AddDouble u64
  | AddDoubleNoPreferred u64
  | AddFloatNoPreferred u64 \<comment> \<open>the double that is narrowed to \<^verbatim>\<open>float\<close>\<close>
  | AddText string
  | AddBytes bytes
  | OpenArray
  | CloseArray
  | OpenMap
  | CloseMap

text \<open>
  \<^verbatim>\<open>addPreferredDouble\<close>: the width decision on the exponent and the significand bits, made
  before QCBOR would shift by an exponent-derived amount.
\<close>

definition double_exponent :: "u64 \<Rightarrow> int" where
  "double_exponent bits = uint (drop_bit 52 bits AND 0x7ff) - 1023"

definition addPreferredDouble :: "u64 \<Rightarrow> QCBOREncodeCall" where
  "addPreferredDouble bits =
     (let exponent = double_exponent bits;
          regular = (exponent \<noteq> -1023 \<and> exponent \<noteq> 1024);
          singleNormal = (exponent \<ge> -126 \<and> exponent \<le> 127 \<and> bits AND (2 ^ 29 - 1) = 0)
      in if regular \<and> \<not> singleNormal then
           (if exponent < -149 \<or> exponent > -127 then AddDoubleNoPreferred bits else AddDouble bits)
         else if regular then
           (let halfNormal = (exponent \<ge> -14 \<and> exponent \<le> 15 \<and> bits AND (2 ^ 42 - 1) = 0)
            in if \<not> halfNormal \<and> (exponent < -24 \<or> exponent > -15) then AddFloatNoPreferred bits
               else AddDouble bits)
         else AddDouble bits)"

fun encodeValue :: "CborValue \<Rightarrow> QCBOREncodeCall list" where
  "encodeValue CNull = [AddNULL]"
| "encodeValue (CBool b) = [AddBool b]"
| "encodeValue (CUInt u) = [AddUInt64 u]"
| "encodeValue (CInt i) = [AddInt64 i]"
| "encodeValue (CDouble d) = [addPreferredDouble d]"
| "encodeValue (CText s) = [AddText s]"
| "encodeValue (CBytes b) = [AddBytes b]"
| "encodeValue (CArray vs) = [OpenArray] @ concat (map encodeValue vs) @ [CloseArray]"
| "encodeValue (CMap m) =
     [OpenMap] @ concat (map (\<lambda>(k, v). AddText k # encodeValue v) m) @ [CloseMap]"

text \<open>
  What \<^verbatim>\<open>QCBORDecode_GetNext\<close> hands back: the item's type with its value, and its map label.
  A container's count is \<open>None\<close> for an indefinite length.
\<close>

datatype QCBORItemVal =
    QInt64 u64
  | QUInt64 u64
  | QTrue
  | QFalse
  | QNull
  | QDouble u64
  | QTextString string
  | QByteString bytes
  | QArray "nat option"
  | QMap "nat option"
  | QOther

datatype QCBORLabel = QLabelText string | QLabelOther

record QCBORItem =
  uVal :: QCBORItemVal
  uLabel :: QCBORLabel

text \<open>The QCBOR library: \<open>'c\<close> is its decoding context.\<close>

record 'c qcbor =
  q_size :: "QCBOREncodeCall list \<Rightarrow> nat option"
  q_finish :: "nat \<Rightarrow> QCBOREncodeCall list \<Rightarrow> bytes option"
  q_init :: "bytes \<Rightarrow> 'c"
  q_next :: "'c \<Rightarrow> (QCBORItem \<times> 'c) option"
  q_done :: "'c \<Rightarrow> bool"

text \<open>\<^verbatim>\<open>CborValue::encode\<close>: a size pass, then the real pass into the sized buffer.\<close>

definition encode :: "'c qcbor \<Rightarrow> CborValue \<Rightarrow> bytes" where
  "encode q v =
     (case q_size q (encodeValue v) of
        None \<Rightarrow> []
      | Some sz \<Rightarrow>
          (case q_finish q sz (encodeValue v) of None \<Rightarrow> [] | Some encoded \<Rightarrow> encoded))"

section \<open>The decoder\<close>

definition kMaxCborDepth :: nat where "kMaxCborDepth = 16"
definition kMaxCborItems :: nat where "kMaxCborItems = 4096"

text \<open>
  \<^verbatim>\<open>readValue\<close> with its two loops. The decoding context and the item budget are threaded
  through; after an error no caller reads either again.
\<close>

function (sequential) readValue ::
    "'c qcbor \<Rightarrow> 'c \<Rightarrow> QCBORItem \<Rightarrow> nat \<Rightarrow> nat \<Rightarrow> CborError + (CborValue \<times> 'c \<times> nat)"
  and readElems ::
    "'c qcbor \<Rightarrow> 'c \<Rightarrow> nat \<Rightarrow> nat \<Rightarrow> nat \<Rightarrow> CborError + (CborValue list \<times> 'c \<times> nat)"
  and readEntries ::
    "'c qcbor \<Rightarrow> 'c \<Rightarrow> nat \<Rightarrow> nat \<Rightarrow> nat \<Rightarrow> cbor_map \<Rightarrow> CborError + (cbor_map \<times> 'c \<times> nat)"
where
  "readValue q ctx item depth budget =
     (if depth > kMaxCborDepth then Inl TooDeep
      else if budget = 0 then Inl TooManyItems
      else (case uVal item of
              QInt64 i \<Rightarrow> Inr (CInt i, ctx, budget - 1)
            | QUInt64 u \<Rightarrow> Inr (cbor_uint u, ctx, budget - 1)
            | QTrue \<Rightarrow> Inr (CBool True, ctx, budget - 1)
            | QFalse \<Rightarrow> Inr (CBool False, ctx, budget - 1)
            | QNull \<Rightarrow> Inr (CNull, ctx, budget - 1)
            | QDouble d \<Rightarrow> Inr (CDouble d, ctx, budget - 1)
            | QTextString s \<Rightarrow> Inr (CText s, ctx, budget - 1)
            | QByteString b \<Rightarrow> Inr (CBytes b, ctx, budget - 1)
            | QArray None \<Rightarrow> Inl NotCanonical
            | QArray (Some count) \<Rightarrow>
                (case readElems q ctx count (Suc depth) (budget - 1) of
                   Inl e \<Rightarrow> Inl e
                 | Inr (vs, ctx', budget') \<Rightarrow> Inr (CArray vs, ctx', budget'))
            | QMap None \<Rightarrow> Inl NotCanonical
            | QMap (Some count) \<Rightarrow>
                (case readEntries q ctx count (Suc depth) (budget - 1) [] of
                   Inl e \<Rightarrow> Inl e
                 | Inr (m, ctx', budget') \<Rightarrow> Inr (CMap m, ctx', budget'))
            | QOther \<Rightarrow> Inl UnsupportedType))"
| "readElems q ctx 0 depth budget = Inr ([], ctx, budget)"
| "readElems q ctx (Suc n) depth budget =
     (case q_next q ctx of
        None \<Rightarrow> Inl Malformed
      | Some (child, ctx1) \<Rightarrow>
          (case readValue q ctx1 child depth budget of
             Inl e \<Rightarrow> Inl e
           | Inr (v, ctx2, budget2) \<Rightarrow>
               (case readElems q ctx2 n depth budget2 of
                  Inl e \<Rightarrow> Inl e
                | Inr (vs, ctx3, budget3) \<Rightarrow> Inr (v # vs, ctx3, budget3))))"
| "readEntries q ctx 0 depth budget m = Inr (m, ctx, budget)"
| "readEntries q ctx (Suc n) depth budget m =
     (case q_next q ctx of
        None \<Rightarrow> Inl Malformed
      | Some (child, ctx1) \<Rightarrow>
          (case uLabel child of
             QLabelOther \<Rightarrow> Inl UnsupportedType
           | QLabelText key \<Rightarrow>
               (case readValue q ctx1 child depth budget of
                  Inl e \<Rightarrow> Inl e
                | Inr (v, ctx2, budget2) \<Rightarrow>
                    if map_of m key \<noteq> None then Inl NotCanonical
                    else readEntries q ctx2 n depth budget2 (emplace_by CanonicalKeyLess key v m))))"
  by pat_completeness auto
termination
  by (relation "measures
       [\<lambda>x. case x of Inl (q, ctx, item, depth, budget) \<Rightarrow> 18 - depth
                    | Inr (Inl (q, ctx, n, depth, budget)) \<Rightarrow> 18 - depth
                    | Inr (Inr (q, ctx, n, depth, budget, m)) \<Rightarrow> 18 - depth,
        \<lambda>x. case x of Inl _ \<Rightarrow> 0
                    | Inr (Inl (q, ctx, n, depth, budget)) \<Rightarrow> Suc n
                    | Inr (Inr (q, ctx, n, depth, budget, m)) \<Rightarrow> Suc n]")
     (auto simp: kMaxCborDepth_def)

definition decode :: "'c qcbor \<Rightarrow> bytes \<Rightarrow> CborError + CborValue" where
  "decode q body =
     (case q_next q (q_init q body) of
        None \<Rightarrow> Inl Malformed
      | Some (item, ctx) \<Rightarrow>
          (case readValue q ctx item 0 kMaxCborItems of
             Inl e \<Rightarrow> Inl e
           | Inr (v, ctx', _) \<Rightarrow>
               if \<not> q_done q ctx' then Inl TrailingBytes
               else if encode q v = body then Inr v
               else Inl NotCanonical))"

text \<open>\<^verbatim>\<open>CborValue::scrub\<close>: text and byte payloads are zeroed in place, keys stay.\<close>

fun scrub :: "CborValue \<Rightarrow> CborValue" where
  "scrub (CText s) = CText (map (\<lambda>_. CHR 0x00) s)"
| "scrub (CBytes b) = CBytes (map (\<lambda>_. 0) b)"
| "scrub (CArray vs) = CArray (map scrub vs)"
| "scrub (CMap m) = CMap (map (\<lambda>(k, v). (k, scrub v)) m)"
| "scrub v = v"

section \<open>Well-formed values, depth and size\<close>

text \<open>
  A value as the C++ class keeps it: an Int wherever the number fits, map entries in key order.
\<close>

fun wf_cbor :: "CborValue \<Rightarrow> bool" where
  "wf_cbor (CUInt u) = (0x7FFFFFFFFFFFFFFF < u)"
| "wf_cbor (CArray vs) = (\<forall>v \<in> set vs. wf_cbor v)"
| "wf_cbor (CMap m) = (sorted_keys CanonicalKeyLess m \<and> (\<forall>(k, v) \<in> set m. wf_cbor v))"
| "wf_cbor _ = True"

text \<open>No node lies deeper than the cap when the root is at depth \<open>d\<close>; and the number of nodes.\<close>

fun fits_depth :: "nat \<Rightarrow> CborValue \<Rightarrow> bool" where
  "fits_depth d (CArray vs) = (d \<le> kMaxCborDepth \<and> (\<forall>v \<in> set vs. fits_depth (Suc d) v))"
| "fits_depth d (CMap m) = (d \<le> kMaxCborDepth \<and> (\<forall>(k, v) \<in> set m. fits_depth (Suc d) v))"
| "fits_depth d _ = (d \<le> kMaxCborDepth)"

fun cbor_items :: "CborValue \<Rightarrow> nat" where
  "cbor_items (CArray vs) = Suc (sum_list (map cbor_items vs))"
| "cbor_items (CMap m) = Suc (sum_list (map (\<lambda>(k, v). cbor_items v) m))"
| "cbor_items _ = 1"

lemma cbor_items_pos: "0 < cbor_items v"
  by (cases v) auto

lemma fits_depthD: "fits_depth d v \<Longrightarrow> d \<le> kMaxCborDepth"
  by (cases v) auto

section \<open>What the decoder is handed for an encoded value\<close>

text \<open>The item of a value, and the items of what it contains, in the order of the encoding.\<close>

fun itemVal :: "CborValue \<Rightarrow> QCBORItemVal" where
  "itemVal CNull = QNull"
| "itemVal (CBool b) = (if b then QTrue else QFalse)"
| "itemVal (CUInt u) = QUInt64 u"
| "itemVal (CInt i) = QInt64 i"
| "itemVal (CDouble d) = QDouble d"
| "itemVal (CText s) = QTextString s"
| "itemVal (CBytes b) = QByteString b"
| "itemVal (CArray vs) = QArray (Some (length vs))"
| "itemVal (CMap m) = QMap (Some (length m))"

definition item_of :: "QCBORLabel \<Rightarrow> CborValue \<Rightarrow> QCBORItem" where
  "item_of l v = \<lparr>uVal = itemVal v, uLabel = l\<rparr>"

fun restItems :: "CborValue \<Rightarrow> QCBORItem list" where
  "restItems (CArray vs) = concat (map (\<lambda>v. item_of QLabelOther v # restItems v) vs)"
| "restItems (CMap m) = concat (map (\<lambda>(k, v). item_of (QLabelText k) v # restItems v) m)"
| "restItems _ = []"

text \<open>The context yields exactly these items, one \<^verbatim>\<open>GetNext\<close> each.\<close>

fun feeds :: "'c qcbor \<Rightarrow> 'c \<Rightarrow> QCBORItem list \<Rightarrow> 'c option" where
  "feeds q c [] = Some c"
| "feeds q c (i # is) =
     (case q_next q c of None \<Rightarrow> None
      | Some (j, c') \<Rightarrow> if j = i then feeds q c' is else None)"

text \<open>
  QCBOR's documented behaviour on one value: encoding succeeds, and decoding the bytes yields
  the items that were encoded and then the end of the input.
\<close>

definition qcbor_faithful :: "'c qcbor \<Rightarrow> CborValue \<Rightarrow> bool" where
  "qcbor_faithful q v \<longleftrightarrow>
     (case q_size q (encodeValue v) of
        None \<Rightarrow> False
      | Some n \<Rightarrow>
          (case q_finish q n (encodeValue v) of
             None \<Rightarrow> False
           | Some bs \<Rightarrow>
               (case feeds q (q_init q bs) (item_of QLabelOther v # restItems v) of
                  None \<Rightarrow> False
                | Some c \<Rightarrow> q_done q c)))"

lemma feeds_append:
  "feeds q c (xs @ ys) = (case feeds q c xs of None \<Rightarrow> None | Some c' \<Rightarrow> feeds q c' ys)"
  by (induction q c xs rule: feeds.induct) (auto split: option.splits)

declare readValue.simps [simp del]

lemma readElems_items:
  assumes "\<And>v b c c'. v \<in> set vs \<Longrightarrow> cbor_items v \<le> b \<Longrightarrow> feeds q c (restItems v) = Some c' \<Longrightarrow>
      readValue q c (item_of QLabelOther v) d b = Inr (v, c', b - cbor_items v)"
    and "sum_list (map cbor_items vs) \<le> b"
    and "feeds q c (concat (map (\<lambda>v. item_of QLabelOther v # restItems v) vs)) = Some c'"
  shows "readElems q c (length vs) d b = Inr (vs, c', b - sum_list (map cbor_items vs))"
  using assms
proof (induction vs arbitrary: b c)
  case Nil
  then show ?case by simp
next
  case (Cons v vs)
  from Cons.prems(3) obtain c1 c2 where
      n: "q_next q c = Some (item_of QLabelOther v, c1)"
    and f: "feeds q c1 (restItems v) = Some c2"
    and g: "feeds q c2 (concat (map (\<lambda>v. item_of QLabelOther v # restItems v) vs)) = Some c'"
    by (auto simp: feeds_append split: option.splits if_splits prod.splits)
  have "readValue q c1 (item_of QLabelOther v) d b = Inr (v, c2, b - cbor_items v)"
    using Cons.prems(1)[OF _ _ f, of b] Cons.prems(2) by simp
  moreover have "readElems q c2 (length vs) d (b - cbor_items v) =
      Inr (vs, c', b - cbor_items v - sum_list (map cbor_items vs))"
    using Cons.IH[OF _ _ g, of "b - cbor_items v"] Cons.prems(1,2) by simp
  ultimately show ?case by (simp add: n)
qed

lemma emplace_last:
  assumes "\<And>x. x \<in> fst ` set m \<Longrightarrow> CanonicalKeyLess x k"
  shows "emplace_by CanonicalKeyLess k v m = m @ [(k, v)]"
proof -
  have none: "map_of m k = None"
    using assms canon.irrefl by (force simp: map_of_eq_None_iff)
  have "ins_by CanonicalKeyLess k v m = m @ [(k, v)]"
    using assms
  proof (induction m)
    case (Cons p m)
    then have "\<not> CanonicalKeyLess k (fst p)"
      using canon.irrefl canon.trans[of k "fst p" k] by auto
    then show ?case using Cons by (cases p) auto
  qed simp
  with none show ?thesis by (simp add: emplace_by_def)
qed

lemma readEntries_items:
  assumes "\<And>k v b c c'. (k, v) \<in> set m \<Longrightarrow> cbor_items v \<le> b \<Longrightarrow> feeds q c (restItems v) = Some c' \<Longrightarrow>
      readValue q c (item_of (QLabelText k) v) d b = Inr (v, c', b - cbor_items v)"
    and "sum_list (map (\<lambda>(k, v). cbor_items v) m) \<le> b"
    and "feeds q c (concat (map (\<lambda>(k, v). item_of (QLabelText k) v # restItems v) m)) = Some c'"
    and "sorted_keys CanonicalKeyLess (m0 @ m)"
  shows "readEntries q c (length m) d b m0 =
      Inr (m0 @ m, c', b - sum_list (map (\<lambda>(k, v). cbor_items v) m))"
  using assms
proof (induction m arbitrary: b c m0)
  case Nil
  then show ?case by simp
next
  case (Cons p m)
  obtain k v where p: "p = (k, v)" by (cases p)
  from Cons.prems(3) p obtain c1 c2 where
      n: "q_next q c = Some (item_of (QLabelText k) v, c1)"
    and f: "feeds q c1 (restItems v) = Some c2"
    and g: "feeds q c2 (concat (map (\<lambda>(k, v). item_of (QLabelText k) v # restItems v) m)) = Some c'"
    by (auto simp: feeds_append split: option.splits if_splits prod.splits)
  have below: "\<And>x. x \<in> fst ` set m0 \<Longrightarrow> CanonicalKeyLess x k"
    using Cons.prems(4) p by (auto simp: sorted_keys_def sorted_wrt_append)
  then have fresh: "map_of m0 k = None"
    using canon.irrefl by (force simp: map_of_eq_None_iff)
  have "readValue q c1 (item_of (QLabelText k) v) d b = Inr (v, c2, b - cbor_items v)"
    using Cons.prems(1)[OF _ _ f, of k b] Cons.prems(2) p by simp
  moreover have "readEntries q c2 (length m) d (b - cbor_items v) (m0 @ [(k, v)]) =
      Inr (m0 @ p # m, c', b - cbor_items v - sum_list (map (\<lambda>(k, v). cbor_items v) m))"
    using Cons.IH[OF _ _ g, of "b - cbor_items v" "m0 @ [(k, v)]"] Cons.prems(1,2,4) p by simp
  ultimately show ?case
    using fresh p by (simp add: n item_of_def emplace_last[OF below])
qed

lemma readValue_items:
  "wf_cbor v \<Longrightarrow> fits_depth d v \<Longrightarrow> cbor_items v \<le> b \<Longrightarrow> feeds q c (restItems v) = Some c' \<Longrightarrow>
   readValue q c (item_of l v) d b = Inr (v, c', b - cbor_items v)"
proof (induction v arbitrary: l d b c c')
  case (CArray vs)
  have "readElems q c (length vs) (Suc d) (b - 1) =
      Inr (vs, c', b - 1 - sum_list (map cbor_items vs))"
    by (rule readElems_items) (use CArray in auto)
  then show ?case using CArray.prems by (simp add: readValue.simps item_of_def)
next
  case (CMap m)
  have el: "readValue q c (item_of (QLabelText k) v) (Suc d) b = Inr (v, c', b - cbor_items v)"
    if "(k, v) \<in> set m" "cbor_items v \<le> b" "feeds q c (restItems v) = Some c'" for k v b c c'
    using CMap.IH[of "(k, v)" v "Suc d" b c c'] CMap.prems(1,2) that by fastforce
  have "readEntries q c (length m) (Suc d) (b - 1) [] =
      Inr ([] @ m, c', b - 1 - sum_list (map (\<lambda>(k, v). cbor_items v) m))"
    by (rule readEntries_items[OF el]) (use CMap.prems in auto)
  then show ?case using CMap.prems by (simp add: readValue.simps item_of_def)
qed (auto simp: readValue.simps item_of_def cbor_uint_def)

lemma decode_encode:
  assumes "wf_cbor v" and "fits_depth 0 v" and "cbor_items v \<le> kMaxCborItems"
    and "qcbor_faithful q v"
  shows "decode q (encode q v) = Inr v"
proof -
  from assms(4) obtain n bs c where
      sz: "q_size q (encodeValue v) = Some n" and fin: "q_finish q n (encodeValue v) = Some bs"
    and fd: "feeds q (q_init q bs) (item_of QLabelOther v # restItems v) = Some c"
    and dn: "q_done q c"
    by (auto simp: qcbor_faithful_def split: option.splits)
  from fd obtain c1 where nx: "q_next q (q_init q bs) = Some (item_of QLabelOther v, c1)"
    and rest: "feeds q c1 (restItems v) = Some c"
    by (auto split: option.splits if_splits)
  have "encode q v = bs" by (simp add: encode_def sz fin)
  moreover have "readValue q c1 (item_of QLabelOther v) 0 kMaxCborItems =
      Inr (v, c, kMaxCborItems - cbor_items v)"
    using assms(1-3) rest by (rule readValue_items)
  ultimately show ?thesis by (simp add: decode_def nx dn)
qed

lemma sum_ins_by:
  "sum_list (map f (ins_by lt k v m)) = (f (k, v) :: nat) + sum_list (map f m)"
  by (induction lt k v m rule: ins_by.induct) auto

lemma wf_cbor_uint [simp]: "wf_cbor (cbor_uint u)"
  by (auto simp: cbor_uint_def)
lemma fits_cbor_uint [simp]: "fits_depth d (cbor_uint u) = (d \<le> kMaxCborDepth)" "cbor_items (cbor_uint u) = 1"
  by (auto simp: cbor_uint_def)
lemma readValue_leaf_sound:
  assumes "readValue q ctx item d b = Inr (v, c', b')"
    and "\<And>n. uVal item \<noteq> QArray (Some n)" and "\<And>n. uVal item \<noteq> QMap (Some n)"
  shows "wf_cbor v \<and> fits_depth d v \<and> cbor_items v + b' = b"
proof -
  have "d \<le> kMaxCborDepth" "b \<noteq> 0"
    using assms(1) by (simp_all add: readValue.simps split: if_splits)
  then show ?thesis
    using assms by (cases "uVal item") (simp_all add: readValue.simps split: option.splits, auto)
qed

lemma read_sound:
  shows "readValue q c item d b = Inr (v, c', b') \<Longrightarrow>
      wf_cbor v \<and> fits_depth d v \<and> cbor_items v + b' = b"
    and "readElems q c n d b = Inr (vs, c', b') \<Longrightarrow>
      (\<forall>v \<in> set vs. wf_cbor v \<and> fits_depth d v) \<and> sum_list (map cbor_items vs) + b' = b"
    and "readEntries q c n d b m = Inr (m', c', b') \<Longrightarrow> sorted_keys CanonicalKeyLess m \<Longrightarrow>
      (\<forall>(k, v) \<in> set m. wf_cbor v \<and> fits_depth d v) \<Longrightarrow>
      sorted_keys CanonicalKeyLess m' \<and> (\<forall>(k, v) \<in> set m'. wf_cbor v \<and> fits_depth d v) \<and>
      sum_list (map (\<lambda>(k, v). cbor_items v) m') + b' = sum_list (map (\<lambda>(k, v). cbor_items v) m) + b"
proof (induction q c item d b and q c n d b and q c n d b m
       arbitrary: v c' b' and vs c' b' and m' c' b'
       rule: readValue_readElems_readEntries.induct)
  case (1 q ctx item depth budget)
  note eq = 1(3)[unfolded readValue.simps[of q ctx item depth budget]]
  have dp: "depth \<le> kMaxCborDepth" and bd: "budget \<noteq> 0" using eq by (auto split: if_splits)
  show ?case
  proof (cases "uVal item")
    case (QArray co)
    then obtain n vs where co: "co = Some n"
      and r: "readElems q ctx n (Suc depth) (budget - 1) = Inr (vs, c', b')" and v: "v = CArray vs"
      using eq dp bd by (auto split: option.splits sum.splits)
    show ?thesis using 1(1)[OF _ bd QArray co r] dp bd v by auto
  next
    case (QMap co)
    then obtain n m' where co: "co = Some n"
      and r: "readEntries q ctx n (Suc depth) (budget - 1) [] = Inr (m', c', b')" and v: "v = CMap m'"
      using eq dp bd by (auto split: option.splits sum.splits)
    show ?thesis using 1(2)[OF _ bd QMap co r] dp bd v by (auto simp: sorted_keys_def)
  qed (rule readValue_leaf_sound[OF 1(3)], simp, simp)+
next
  case (2 q ctx depth budget)
  then show ?case by simp
next
  case (3 q ctx n depth budget)
  from 3(3) obtain child ctx1 v ctx2 budget2 vs' where
      nx: "q_next q ctx = Some (child, ctx1)"
    and rv: "readValue q ctx1 child depth budget = Inr (v, ctx2, budget2)"
    and re: "readElems q ctx2 n depth budget2 = Inr (vs', c', b')"
    and vs: "vs = v # vs'"
    by (auto split: option.splits sum.splits)
  show ?case using 3(1)[OF nx refl rv] 3(2)[OF nx refl rv refl refl re] vs by auto
next
  case (4 q ctx depth budget m)
  then show ?case by simp
next
  case (5 q ctx n depth budget m)
  from 5(3) obtain child ctx1 key v ctx2 budget2 where
      nx: "q_next q ctx = Some (child, ctx1)"
    and lb: "uLabel child = QLabelText key"
    and rv: "readValue q ctx1 child depth budget = Inr (v, ctx2, budget2)"
    and fresh: "map_of m key = None"
    and re: "readEntries q ctx2 n depth budget2 (emplace_by CanonicalKeyLess key v m) = Inr (m', c', b')"
    by (auto split: option.splits sum.splits QCBORLabel.splits if_splits)
  have fresh': "\<not> map_of m key \<noteq> None" using fresh by simp
  have vok: "wf_cbor v \<and> fits_depth depth v \<and> cbor_items v + budget2 = budget"
    by (rule 5(1)[OF nx refl lb rv])
  have ins: "emplace_by CanonicalKeyLess key v m = ins_by CanonicalKeyLess key v m"
    by (simp add: emplace_by_def fresh)
  have srt: "sorted_keys CanonicalKeyLess (emplace_by CanonicalKeyLess key v m)"
    using 5(4) by (rule canon.sorted_emplace_by)
  have all: "\<forall>(k, v) \<in> set (emplace_by CanonicalKeyLess key v m). wf_cbor v \<and> fits_depth depth v"
    using 5(5) vok by (auto simp: ins)
  have sm: "sum_list (map (\<lambda>(k, v). cbor_items v) (emplace_by CanonicalKeyLess key v m)) =
      cbor_items v + sum_list (map (\<lambda>(k, v). cbor_items v) m)"
    by (simp add: ins sum_ins_by)
  have bud: "cbor_items v + budget2 = budget" using vok by blast
  show ?case
    using 5(2)[OF nx refl lb rv refl refl fresh' re srt all] sm bud by linarith
qed

lemma decode_bounded:
  assumes "decode q body = Inr v"
  shows "wf_cbor v \<and> fits_depth 0 v \<and> cbor_items v \<le> kMaxCborItems"
proof -
  from assms obtain item c c' b' where
    "readValue q c item 0 kMaxCborItems = Inr (v, c', b')"
    by (auto simp: decode_def split: option.splits sum.splits if_splits)
  from read_sound(1)[OF this] show ?thesis by auto
qed

lemma decode_canonical:
  assumes "decode q body = Inr v"
  shows "encode q v = body"
  using assms by (auto simp: decode_def split: option.splits sum.splits if_splits)

section \<open>The order of encoded keys\<close>

text \<open>The bytes of a text-string key: the length header (0x60 to 0x77, then 0x78, 0x79, 0x7a, 0x7b
  with a big-endian length) and the content.\<close>

fun be_bytes :: "nat \<Rightarrow> nat \<Rightarrow> bytes" where
  "be_bytes 0 n = []"
| "be_bytes (Suc w) n = of_nat (n div 256 ^ w) # be_bytes w (n mod 256 ^ w)"

definition text_header :: "nat \<Rightarrow> bytes" where
  "text_header n =
     (if n < 24 then [of_nat (0x60 + n)]
      else if n < 256 then 0x78 # be_bytes 1 n
      else if n < 256 ^ 2 then 0x79 # be_bytes 2 n
      else if n < 256 ^ 4 then 0x7a # be_bytes 4 n
      else 0x7b # be_bytes 8 n)"

definition char_byte :: "char \<Rightarrow> u8" where
  "char_byte c = of_nat (of_char c)"

definition encoded_key :: "string \<Rightarrow> bytes" where
  "encoded_key s = text_header (length s) @ map char_byte s"

lemma word8_less: "n < m \<Longrightarrow> m < 256 \<Longrightarrow> (of_nat n :: u8) < of_nat m"
  by (simp add: word_less_nat_alt unat_of_nat)

lemma length_be_bytes [simp]: "length (be_bytes w n) = w"
  by (induction w arbitrary: n) auto

lemma be_bytes_less:
  "n < m \<Longrightarrow> m < 256 ^ w \<Longrightarrow> be_bytes w n @ xs < be_bytes w m @ ys"
proof (induction w arbitrary: n m)
  case 0
  then show ?case by simp
next
  case (Suc w)
  have hm: "m div 256 ^ w < 256" using Suc.prems(2) by (simp add: less_mult_imp_div_less mult.commute)
  have le: "n div 256 ^ w \<le> m div 256 ^ w" using Suc.prems(1) by (simp add: div_le_mono)
  show ?case
  proof (cases "n div 256 ^ w = m div 256 ^ w")
    case True
    then have "n mod 256 ^ w < m mod 256 ^ w"
      using Suc.prems(1) by (metis add_less_cancel_left div_mult_mod_eq)
    then show ?thesis using Suc.IH True by simp
  next
    case False
    then have "(of_nat (n div 256 ^ w) :: u8) < of_nat (m div 256 ^ w)"
      using le hm by (intro word8_less) auto
    then show ?thesis by simp
  qed
qed

lemma text_header_less:
  assumes "n < m" and "m < 256 ^ 8"
  shows "text_header n @ xs < text_header m @ ys"
proof -
  have a: "n < 24 \<Longrightarrow> (of_nat (0x60 + n) :: u8) < 0x78"
    using word8_less[of "0x60 + n" "0x78"] by simp
  have a': "n < 24 \<Longrightarrow> (of_nat (0x60 + n) :: u8) < 0x79" "n < 24 \<Longrightarrow> (of_nat (0x60 + n) :: u8) < 0x7a"
    "n < 24 \<Longrightarrow> (of_nat (0x60 + n) :: u8) < 0x7b"
    using word8_less[of "0x60 + n" "0x79"] word8_less[of "0x60 + n" "0x7a"]
      word8_less[of "0x60 + n" "0x7b"] by simp_all
  have b: "m < 24 \<Longrightarrow> (of_nat (0x60 + n) :: u8) < of_nat (0x60 + m)"
    using assms(1) by (intro word8_less) auto
  have be: "m < 256 ^ w \<Longrightarrow> be_bytes w n @ xs < be_bytes w m @ ys" for w
    using assms(1) by (rule be_bytes_less)
  consider "m < 24" | "24 \<le> m" "m < 256" | "256 \<le> m" "m < 256 ^ 2" | "256 ^ 2 \<le> m" "m < 256 ^ 4"
    | "256 ^ 4 \<le> m" by linarith
  then show ?thesis
  proof cases
    case 1
    then show ?thesis using b assms by (simp add: text_header_def)
  next
    case 2
    then show ?thesis using a be[of 1] assms
      by (auto simp: text_header_def simp del: be_bytes.simps)
  next
    case 3
    then show ?thesis using a' be[of 2] assms
      by (auto simp: text_header_def simp del: be_bytes.simps of_nat_add)
  next
    case 4
    then show ?thesis using a' be[of 4] assms
      by (auto simp: text_header_def simp del: be_bytes.simps of_nat_add)
  next
    case 5
    then show ?thesis using a' be[of 8] assms
      by (auto simp: text_header_def simp del: be_bytes.simps of_nat_add)
  qed
qed

lemma append_less_cancel: "(xs :: bytes) @ ys < xs @ zs \<longleftrightarrow> ys < zs"
  by (induction xs) auto

lemma unat_char_byte [simp]: "unat (char_byte c) = of_char c"
  by (simp add: char_byte_def unat_of_nat)

lemma char_byte_less: "char_byte c < char_byte d \<longleftrightarrow> c < d"
  by (simp add: word_less_nat_alt less_char_def)

lemma char_byte_eq: "char_byte c = char_byte d \<longleftrightarrow> c = d"
  by (metis of_char_eq_iff unat_char_byte)

lemma map_char_byte_less: "map char_byte a < map char_byte b \<longleftrightarrow> a < b"
proof (induction a arbitrary: b)
  case Nil
  then show ?case by (cases b) auto
next
  case (Cons x a)
  show ?case by (cases b) (auto simp: Cons.IH char_byte_less char_byte_eq simp del: less_char_simp)
qed

lemma canonical_key_order:
  assumes "length a < 256 ^ 8" and "length b < 256 ^ 8"
  shows "CanonicalKeyLess a b \<longleftrightarrow> encoded_key a < encoded_key b"
proof (cases "length a" "length b" rule: linorder_cases)
  case less
  then show ?thesis
    using text_header_less[OF less assms(2)] by (simp add: CanonicalKeyLess_def encoded_key_def)
next
  case equal
  then show ?thesis
    by (simp add: CanonicalKeyLess_def encoded_key_def append_less_cancel map_char_byte_less)
next
  case greater
  then have "encoded_key b < encoded_key a"
    using text_header_less[OF greater assms(1)] by (simp add: encoded_key_def)
  then show ?thesis using greater by (auto simp: CanonicalKeyLess_def)
qed

section \<open>Scrubbing\<close>

fun zeroed :: "CborValue \<Rightarrow> bool" where
  "zeroed (CText s) = (\<forall>c \<in> set s. c = CHR 0x00)"
| "zeroed (CBytes b) = (\<forall>x \<in> set b. x = 0)"
| "zeroed (CArray vs) = (\<forall>v \<in> set vs. zeroed v)"
| "zeroed (CMap m) = (\<forall>(k, v) \<in> set m. zeroed v)"
| "zeroed _ = True"

text \<open>The tree's shape: everything but the contents of its text and byte strings.\<close>

fun shape :: "CborValue \<Rightarrow> CborValue" where
  "shape (CText s) = CText (replicate (length s) CHR 0x00)"
| "shape (CBytes b) = CBytes (replicate (length b) 0)"
| "shape (CArray vs) = CArray (map shape vs)"
| "shape (CMap m) = CMap (map (\<lambda>(k, v). (k, shape v)) m)"
| "shape v = v"

lemma scrub_zeroed: "zeroed (scrub v) \<and> shape (scrub v) = shape v"
  by (induction v) (fastforce simp: map_replicate_const)+

section \<open>Properties\<close>

text \<open>
  A decoding context for one value: the library as a tape of the items of \<open>v\<close>, filed under the
  bytes \<open>bs\<close>. It meets the documented behaviour for every value, so that hypothesis can hold.
\<close>

definition tape_qcbor :: "CborValue \<Rightarrow> bytes \<Rightarrow> QCBORItem list qcbor" where
  "tape_qcbor v bs =
     \<lparr>q_size = (\<lambda>_. Some (length bs)),
      q_finish = (\<lambda>n calls. if calls = encodeValue v then Some bs else None),
      q_init = (\<lambda>body. if body = bs then item_of QLabelOther v # restItems v else []),
      q_next = (\<lambda>c. case c of [] \<Rightarrow> None | i # is \<Rightarrow> Some (i, is)),
      q_done = (\<lambda>c. c = [])\<rparr>"

lemma tape_feeds: "feeds (tape_qcbor v bs) (is @ js) is = Some js"
  by (induction "is") (auto simp: tape_qcbor_def)

lemma tape_faithful: "qcbor_faithful (tape_qcbor v bs) v"
  using tape_feeds[of v bs "item_of QLabelOther v # restItems v" "[]"]
  by (simp add: qcbor_faithful_def tape_qcbor_def)


definition sample_value :: CborValue where
  "sample_value = CMap (emplaces [(''req'', cbor_uint 7), (''t'', CText ''Hello''),
     (''list'', CArray [CNull, CBool True, CBytes [1, 2], CUInt 0xFFFFFFFFFFFFFFFF])])"

lemma sample_value_eq:
  "sample_value = CMap [(''t'', CText ''Hello''), (''req'', CInt 7),
     (''list'', CArray [CNull, CBool True, CBytes [1, 2], CUInt 0xFFFFFFFFFFFFFFFF])]"
  by (simp add: sample_value_def emplaces_by_def emplace_by_def CanonicalKeyLess_def cbor_uint_def)

lemma sample_value_ok:
  "wf_cbor sample_value" "fits_depth 0 sample_value" "cbor_items sample_value \<le> kMaxCborItems"
  by (simp_all add: sample_value_eq sorted_keys_def CanonicalKeyLess_def kMaxCborDepth_def
      kMaxCborItems_def)


text \<open>C1. Whatever the decoder accepts is the canonical encoding of the value it returns, and that
  value has its maps in key order with no duplicate key, lies within the depth cap and the item
  cap. No assumption on the QCBOR context is made: a hostile byte string cannot get past these.\<close>

theorem decode_strict:
  assumes "decode q body = Inr v"
  shows "encode q v = body \<and> wf_cbor v \<and> fits_depth 0 v \<and> cbor_items v \<le> kMaxCborItems"
  using decode_canonical[OF assms] decode_bounded[OF assms] by blast

theorem decode_strict_witness:
  "encode (tape_qcbor sample_value [0xa3]) sample_value = [0xa3] \<and> wf_cbor sample_value \<and>
     fits_depth 0 sample_value \<and> cbor_items sample_value \<le> kMaxCborItems"
proof (rule decode_strict)
  have "encode (tape_qcbor sample_value [0xa3]) sample_value = [0xa3]"
    by (simp add: encode_def tape_qcbor_def)
  with decode_encode[OF sample_value_ok tape_faithful[of sample_value "[0xa3]"]]
  show "decode (tape_qcbor sample_value [0xa3]) [0xa3] = Inr sample_value" by simp
qed

text \<open>The comparator of the map keys is the order RFC 8949 asks for: the bytewise order of the
  encoded keys, header included, for every pair of keys a CBOR length can express.\<close>

theorem CanonicalKeyLess_is_encoded_order:
  assumes "length a < 256 ^ 8" and "length b < 256 ^ 8"
  shows "CanonicalKeyLess a b \<longleftrightarrow> encoded_key a < encoded_key b"
  using assms by (rule canonical_key_order)

theorem CanonicalKeyLess_is_encoded_order_witness:
  "CanonicalKeyLess ''req'' ''card'' \<longleftrightarrow> encoded_key ''req'' < encoded_key ''card''"
  by (rule CanonicalKeyLess_is_encoded_order) simp_all

text \<open>Scrubbing a tree leaves no byte of any text or byte string in it, at any depth, and
  changes nothing else: keys, numbers, container sizes and string lengths stay.\<close>

theorem scrub_wipes: "zeroed (scrub v) \<and> shape (scrub v) = shape v"
  by (rule scrub_zeroed)

end
