(* ===== verification/WireTypes.thy ===== *)
theory WireTypes
  imports Cbor
begin

text \<open>
  The message structs and closed vocabularies of the wire
  (\<^verbatim>\<open>include/LibreSCRS/Agent/wire/Messages.h\<close>, \<^verbatim>\<open>CredentialWire.h\<close>, \<^verbatim>\<open>SyncError.h\<close>, \<^verbatim>\<open>KeyType.h\<close>,
  \<^verbatim>\<open>ReaderInterface.h\<close>). A struct is a record whose fields carry a short prefix, a variant is a
  datatype with one constructor per alternative. The append-only numeric enums (\<^verbatim>\<open>ErrorCode\<close>,
  \<^verbatim>\<open>OperationPhase\<close>, \<^verbatim>\<open>OperationStatus\<close>, \<^verbatim>\<open>PreReadAuth\<close>, \<^verbatim>\<open>QuiesceReason\<close>) travel as raw numbers of
  their underlying width, so they are words here. A C++ \<^verbatim>\<open>int\<close> is a 32-bit word read as signed.
\<close>

type_synonym ErrorCode = u32
type_synonym OperationPhase = u32
type_synonym OperationStatus = u32
type_synonym PreReadAuth = u8
type_synonym QuiesceReason = u8
type_synonym cint = "32 word"

section \<open>Closed vocabularies\<close>

datatype SyncError =
    SE_UnknownCard
  | SE_KeyNotFound
  | SE_NotAuthorized
  | SE_UserNotLoggedIn
  | SE_UnknownConfigKey
  | SE_ReadOnlyConfig
  | SE_InvalidConfigValue
  | SE_UnsupportedProtocol
  | SE_AuthFailed
  | SE_CommunicationError
  | SE_NotSupported
  | SE_UnsupportedOnThisCard
  | SE_UnsupportedSignatureParameter
  | SE_InputTooLarge
  | SE_RateLimited
  | SE_UnknownCredential
  | SE_InvalidRequest
  | SE_NoResult
  | SE_MasterListReplayed
  | SE_Cancelled

fun syncErrorName :: "SyncError \<Rightarrow> string" where
  "syncErrorName SE_UnknownCard = ''UnknownCard''"
| "syncErrorName SE_KeyNotFound = ''KeyNotFound''"
| "syncErrorName SE_NotAuthorized = ''NotAuthorized''"
| "syncErrorName SE_UserNotLoggedIn = ''UserNotLoggedIn''"
| "syncErrorName SE_UnknownConfigKey = ''UnknownConfigKey''"
| "syncErrorName SE_ReadOnlyConfig = ''ReadOnlyConfig''"
| "syncErrorName SE_InvalidConfigValue = ''InvalidConfigValue''"
| "syncErrorName SE_UnsupportedProtocol = ''UnsupportedProtocol''"
| "syncErrorName SE_AuthFailed = ''AuthFailed''"
| "syncErrorName SE_CommunicationError = ''CommunicationError''"
| "syncErrorName SE_NotSupported = ''NotSupported''"
| "syncErrorName SE_UnsupportedOnThisCard = ''UnsupportedOnThisCard''"
| "syncErrorName SE_UnsupportedSignatureParameter = ''UnsupportedSignatureParameter''"
| "syncErrorName SE_InputTooLarge = ''InputTooLarge''"
| "syncErrorName SE_RateLimited = ''RateLimited''"
| "syncErrorName SE_UnknownCredential = ''UnknownCredential''"
| "syncErrorName SE_InvalidRequest = ''InvalidRequest''"
| "syncErrorName SE_NoResult = ''NoResult''"
| "syncErrorName SE_MasterListReplayed = ''MasterListReplayed''"
| "syncErrorName SE_Cancelled = ''Cancelled''"

text \<open>The walk over \<^verbatim>\<open>kAll\<close>: the first enumerator with that name, else \<^verbatim>\<open>CommunicationError\<close>.\<close>

definition kAllSyncErrors :: "SyncError list" where
  "kAllSyncErrors =
     [SE_UnknownCard, SE_KeyNotFound, SE_NotAuthorized, SE_UserNotLoggedIn, SE_UnknownConfigKey,
      SE_ReadOnlyConfig, SE_InvalidConfigValue, SE_UnsupportedProtocol, SE_AuthFailed,
      SE_CommunicationError, SE_NotSupported, SE_UnsupportedOnThisCard,
      SE_UnsupportedSignatureParameter, SE_InputTooLarge, SE_RateLimited, SE_UnknownCredential,
      SE_InvalidRequest, SE_NoResult, SE_MasterListReplayed, SE_Cancelled]"

definition decodeSyncError :: "string \<Rightarrow> SyncError" where
  "decodeSyncError name =
     (case find (\<lambda>e. syncErrorName e = name) kAllSyncErrors of
        Some e \<Rightarrow> e
      | None \<Rightarrow> SE_CommunicationError)"

datatype CredentialOutcome =
    CO_Unspecified
  | CO_Ok
  | CO_UserCancelled
  | CO_MissingFields
  | CO_InvalidPin
  | CO_Blocked
  | CO_PluginError
  | CO_Unsupported
  | CO_KeyActivationFailed
  | CO_CardRemoved
  | CO_EntryExpired

datatype ReaderInterface = RI_Unknown | RI_Contact | RI_Contactless

fun readerInterfaceToken :: "ReaderInterface \<Rightarrow> string" where
  "readerInterfaceToken RI_Unknown = ''unknown''"
| "readerInterfaceToken RI_Contact = ''contact''"
| "readerInterfaceToken RI_Contactless = ''contactless''"

definition readerInterfaceFromToken :: "string \<Rightarrow> ReaderInterface option" where
  "readerInterfaceFromToken token =
     find (\<lambda>iface. readerInterfaceToken iface = token) [RI_Unknown, RI_Contact, RI_Contactless]"

datatype KeyType = KT_Rsa | KT_Ec | KT_Other

fun keyTypeToken :: "KeyType \<Rightarrow> string" where
  "keyTypeToken KT_Rsa = ''RSA''"
| "keyTypeToken KT_Ec = ''EC''"
| "keyTypeToken KT_Other = ''OTHER''"

definition keyTypeFromToken :: "string \<Rightarrow> KeyType" where
  "keyTypeFromToken token =
     (if token = ''RSA'' then KT_Rsa else if token = ''EC'' then KT_Ec else KT_Other)"

record NistCurve =
  nc_keyBits :: u32
  nc_fieldBytes :: nat
  nc_crv :: string
  nc_group :: string
  nc_oidDer :: bytes

definition kNistCurves :: "NistCurve list" where
  "kNistCurves =
     [\<lparr>nc_keyBits = 256, nc_fieldBytes = 32, nc_crv = ''P-256'', nc_group = ''prime256v1'',
       nc_oidDer = [0x06, 0x08, 0x2A, 0x86, 0x48, 0xCE, 0x3D, 0x03, 0x01, 0x07]\<rparr>,
      \<lparr>nc_keyBits = 384, nc_fieldBytes = 48, nc_crv = ''P-384'', nc_group = ''secp384r1'',
       nc_oidDer = [0x06, 0x05, 0x2B, 0x81, 0x04, 0x00, 0x22]\<rparr>,
      \<lparr>nc_keyBits = 521, nc_fieldBytes = 66, nc_crv = ''P-521'', nc_group = ''secp521r1'',
       nc_oidDer = [0x06, 0x05, 0x2B, 0x81, 0x04, 0x00, 0x23]\<rparr>]"

definition nistCurveByBits :: "u32 \<Rightarrow> NistCurve option" where
  "nistCurveByBits bits = find (\<lambda>c. nc_keyBits c = bits) kNistCurves"

definition nistCurveByName :: "string \<Rightarrow> NistCurve option" where
  "nistCurveByName crv = find (\<lambda>c. nc_crv c = crv) kNistCurves"

section \<open>Structs\<close>

record VisualSignatureOpts =
  vs_page :: u64
  vs_x :: u64
  vs_y :: u64
  vs_width :: u64
  vs_height :: u64
  vs_text :: string

record SignOpts =
  so_format :: string
  so_level :: string
  so_packaging :: string
  so_allowExpired :: "bool option"
  so_displayName :: "string option"
  so_reason :: "string option"
  so_location :: "string option"
  so_tsaUrl :: "string option"
  so_visualSignature :: "VisualSignatureOpts option"

record ReaderState =
  rs_handle :: string
  rs_name :: string
  rs_hasCard :: bool
  rs_card :: "string option"
  rs_model :: string
  rs_iface :: ReaderInterface

record CardState =
  cs_handle :: string
  cs_reader :: string
  cs_caps :: u32
  cs_preAuth :: PreReadAuth
  cs_cardType :: "string option"
  cs_atr :: "string option"

record CertField =
  cf_labelKey :: string
  cf_labelFallback :: string
  cf_value :: string

record CertInfo =
  ci_certId :: string
  ci_signingCapable :: bool
  ci_fields :: "(string \<times> (string \<times> CertField) list) list"
  ci_keyUsageBits :: u32
  ci_ekus :: "string list"
  ci_chainSubjectCns :: "string list"
  ci_trustStatus :: u32
  ci_alwaysAuthenticate :: bool
  ci_keyId :: bytes
  ci_keyType :: KeyType
  ci_keyBits :: u32
  ci_canDerive :: bool

record SignMeta =
  sm_format :: string
  sm_level :: string
  sm_tsaUsed :: bool
  sm_chainComplete :: bool

record BatchDocument =
  bd_name :: string
  bd_fdIndex :: u64

record CredentialRecord =
  cr_id :: string
  cr_label :: string
  cr_kind :: string
  cr_state :: string
  cr_retriesLeft :: "cint option"
  cr_retriesMax :: "cint option"
  cr_usesLeft :: "cint option"
  cr_usesMax :: "cint option"
  cr_unblocksLeft :: "cint option"
  cr_canChange :: bool
  cr_unblockable :: bool
  cr_activatable :: bool
  cr_keyActivationPending :: bool
  cr_keyActivatable :: bool
  cr_recovery :: string
  cr_blockedGuidanceKey :: "string option"
  cr_blockedGuidanceFallback :: "string option"
  cr_keyActivationGuidanceKey :: "string option"
  cr_keyActivationGuidanceFallback :: "string option"

record CredentialOpResult =
  co_outcome :: CredentialOutcome
  co_retriesLeft :: "cint option"
  co_blocked :: bool

section \<open>Requests\<close>

datatype Request =
    Hello (rq_proto: u64) (rq_wantsEvents: bool)
  | GetState
  | ReadIdentity (rq_card: string)
  | GetPhoto (rq_card: string)
  | ReadCertificates (rq_card: string)
  | ReadTokenInfo (rq_card: string)
  | Sign (rq_card: string) (rq_cert: string) (rq_inFd: u64) (rq_opts: SignOpts)
  | SignBatch (rq_card: string) (rq_cert: string) (rq_docs: "BatchDocument list") (rq_opts: SignOpts)
  | GetCertDer (rq_reader: string) (rq_cert: string)
  | GetConfig
  | SetConfig (rq_key: string) (rq_value: CborValue)
  | ResetConfig (rq_key: string)
  | CancelOp (rq_op: u64)
  | GetSignResult (rq_op: u64)
  | PkLogin (rq_reader: string)
  | PkLogout (rq_reader: string)
  | PkPublicKey (rq_reader: string) (rq_cert: string)
  | PkSignRaw (rq_reader: string) (rq_cert: string) (rq_mech: string) (rq_data: bytes)
  | PkDecrypt (rq_reader: string) (rq_cert: string) (rq_mech: string) (rq_data: bytes)
  | ListCredentials (rq_card: string)
  | ManagePin (rq_card: string) (rq_pinId: string) (rq_verb: string) (rq_activateKey: "bool option")
  | ActivateSigningKey (rq_card: string)
  | LayoutVisual (rq_text: string) (rq_x: u64) (rq_y: u64) (rq_width: u64) (rq_height: u64)
  | GetAppearanceFont
  | ImportCscaMasterList (rq_list: u64)
  | PkDerive (rq_reader: string) (rq_cert: string) (rq_data: bytes)
  | PkLoginState (rq_reader: string)

record RequestEnvelope =
  env_req :: u64
  env_body :: Request

datatype WireError = NotDecodable | NotAMap | MissingField | WrongType | NoTag | UnknownMessage

section \<open>Replies, results and events\<close>

datatype PublicKeyReply =
    RsaPublicKey bytes bytes
  | EcPublicKey string bytes bytes

record CscaAnchorStateReply =
  ca_anchors :: u64
  ca_issuers :: u64
  ca_replayRefusalActive :: bool
  ca_signer :: "string option"
  ca_signerPinned :: "bool option"
  ca_acceptedAt :: "u64 option"
  ca_signedAt :: "u64 option"

record LayoutReply =
  lr_fontSize :: u64
  lr_lineHeight :: u64
  lr_lines :: "string list"
  lr_clipped :: bool

record ErrInfo =
  ei_code :: "ErrorCode + SyncError"
  ei_msgKey :: "string option"
  ei_msgFallback :: "string option"

record IdentityField =
  if_labelKey :: string
  if_labelFallback :: string
  if_type :: string
  if_value :: "string + bytes"

record PhotoItem =
  ph_key :: string
  ph_fd :: u64

record SignResult =
  sr_artifact :: u64
  sr_meta :: SignMeta

record SignBatchRow =
  br_displayName :: string
  br_artifact :: u64
  br_meta :: SignMeta
  br_code :: ErrorCode

datatype OpResult =
    IdentityResult "(string \<times> (string \<times> IdentityField) list) list"
  | PhotoResult "PhotoItem list"
  | CertListResult "CertInfo list"
  | SignResultArm SignResult
  | SignBatchResult "SignBatchRow list"
  | CredentialsResult CredentialOpResult "CredentialRecord list"

text \<open>The reply payloads, one constructor per \<^verbatim>\<open>makeReply\<close> overload and one for each of the two
  builders with a name of their own.\<close>

datatype Reply =
    HelloAck string "string list"
  | OpStarted u64
  | StateReply "ReaderState list" "CardState list"
  | CertListReply "CertInfo list"
  | CertDerReply bytes
  | PublicKeyReplyArm PublicKeyReply
  | ConfigReply "(string \<times> CborValue) list"
  | AckReply
  | LoginStateReply bool
  | RawSignatureReply bytes
  | DerivedSecretReply bytes
  | LayoutReplyArm LayoutReply
  | AppearanceFontReply u64
  | CscaAnchorStateArm CscaAnchorStateReply
  | SignRecoveryReply SignResult
  | ErrorReply ErrInfo

datatype Event =
    ReaderAdded ReaderState
  | ReaderRemoved string
  | CardAdded CardState
  | CardRemoved string
  | PropertyChanged string string "(string \<times> CborValue) list"
  | ConfigChanged string
  | OpProgress u64 OperationPhase
  | OpIdentityGroup u64 string "(string \<times> IdentityField) list"
  | OpResultReady u64 OpResult
  | OpFinished u64 OperationStatus ErrorCode string string
  | AgentQuiesced QuiesceReason

text \<open>What the client decodes: a known payload, or the reading of a future arm.\<close>

datatype ReplyPayload = KnownReply Reply | UnknownReply

record DecodedReply =
  dr_requestId :: u64
  dr_reply :: ReplyPayload

datatype DecodedEvent = KnownEvent Event | UnknownEvent

section \<open>Vocabulary round trips\<close>

lemma decodeSyncError_name [simp]: "decodeSyncError (syncErrorName e) = e"
  by (cases e) (simp_all add: decodeSyncError_def kAllSyncErrors_def)

lemma syncErrorName_inject: "syncErrorName a = syncErrorName b \<longleftrightarrow> a = b"
  using decodeSyncError_name by metis

lemma decodeSyncError_unknown:
  "name \<notin> range syncErrorName \<Longrightarrow> decodeSyncError name = SE_CommunicationError"
  by (auto simp: decodeSyncError_def find_Some_iff split: option.splits)

lemma readerInterface_token [simp]: "readerInterfaceFromToken (readerInterfaceToken i) = Some i"
  by (cases i) (simp_all add: readerInterfaceFromToken_def)

lemma keyType_token [simp]: "keyTypeFromToken (keyTypeToken t) = t"
  by (cases t) (simp_all add: keyTypeFromToken_def)

section \<open>Properties\<close>

text \<open>A synchronous error is read back exactly from its own wire name; the only other way to
  read one is the fallback CommunicationError, for a name no error of this build has. So the names
  are distinct, and the decoder's table misses none of them.\<close>

theorem sync_error_names:
  "decodeSyncError name = e \<longleftrightarrow>
   name = syncErrorName e \<or> e = SE_CommunicationError \<and> name \<notin> range syncErrorName"
proof (cases "name \<in> range syncErrorName")
  case False
  then show ?thesis using decodeSyncError_unknown[OF False] by auto
qed auto

theorem sync_error_names_witness:
  "decodeSyncError ''no-such-error'' = SE_CommunicationError \<longleftrightarrow>
   ''no-such-error'' = syncErrorName SE_CommunicationError \<or>
   SE_CommunicationError = SE_CommunicationError \<and> ''no-such-error'' \<notin> range syncErrorName"
  by (rule sync_error_names)

end
