(* ===== verification/Messages.thy ===== *)
theory Messages
  imports WireTypes
begin

text \<open>
  The agent's side of the message model (\<^verbatim>\<open>src/wire/Messages.cpp\<close>): the encoders of requests,
  replies and events as the sequences of \<^verbatim>\<open>emplace\<close> calls they make, and \<^verbatim>\<open>parseRequest\<close>, the
  fail-closed reading of an untrusted request.
\<close>

section \<open>Map building\<close>

text \<open>\<^verbatim>\<open>if (x) m.emplace(k, f(*x))\<close>.\<close>

definition opt_kv :: "string \<Rightarrow> ('a \<Rightarrow> CborValue) \<Rightarrow> 'a option \<Rightarrow> (string \<times> CborValue) list" where
  "opt_kv k f x = (case x of None \<Rightarrow> [] | Some v \<Rightarrow> [(k, f v)])"

text \<open>\<^verbatim>\<open>CborValue::uint(static_cast<std::uint64_t>(i))\<close> of an \<^verbatim>\<open>int\<close>: the sign is extended.\<close>

definition cbor_of_int :: "cint \<Rightarrow> CborValue" where
  "cbor_of_int i = cbor_uint (scast i)"

section \<open>Field accessors\<close>

definition fText :: "cbor_map \<Rightarrow> string \<Rightarrow> WireError + string" where
  "fText m k = (case map_of m k of None \<Rightarrow> Inl MissingField
     | Some v \<Rightarrow> (case asText v of None \<Rightarrow> Inl WrongType | Some t \<Rightarrow> Inr t))"

definition fUint :: "cbor_map \<Rightarrow> string \<Rightarrow> WireError + u64" where
  "fUint m k = (case map_of m k of None \<Rightarrow> Inl MissingField
     | Some v \<Rightarrow> (case asUInt v of None \<Rightarrow> Inl WrongType | Some u \<Rightarrow> Inr u))"

definition fBytes :: "cbor_map \<Rightarrow> string \<Rightarrow> WireError + bytes" where
  "fBytes m k = (case map_of m k of None \<Rightarrow> Inl MissingField
     | Some v \<Rightarrow> (case asBytes v of None \<Rightarrow> Inl WrongType | Some b \<Rightarrow> Inr b))"

definition fOptText :: "cbor_map \<Rightarrow> string \<Rightarrow> WireError + string option" where
  "fOptText m k = (case map_of m k of None \<Rightarrow> Inr None
     | Some v \<Rightarrow> (case asText v of None \<Rightarrow> Inl WrongType | Some t \<Rightarrow> Inr (Some t)))"

definition fOptBool :: "cbor_map \<Rightarrow> string \<Rightarrow> WireError + bool option" where
  "fOptBool m k = (case map_of m k of None \<Rightarrow> Inr None
     | Some v \<Rightarrow> (case asBool v of None \<Rightarrow> Inl WrongType | Some b \<Rightarrow> Inr (Some b)))"

definition fDouble :: "cbor_map \<Rightarrow> string \<Rightarrow> WireError + u64" where
  "fDouble m k = (case map_of m k of None \<Rightarrow> Inl MissingField
     | Some v \<Rightarrow> (case asDouble v of None \<Rightarrow> Inl WrongType | Some d \<Rightarrow> Inr d))"

section \<open>Sub-parsers\<close>

definition parseVisualSignatureOpts :: "CborValue \<Rightarrow> WireError + VisualSignatureOpts" where
  "parseVisualSignatureOpts v = (case asMap v of None \<Rightarrow> Inl WrongType | Some m \<Rightarrow>
     sum_bind (fUint m ''page'') (\<lambda>page.
     sum_bind (fDouble m ''x'') (\<lambda>x.
     sum_bind (fDouble m ''y'') (\<lambda>y.
     sum_bind (fDouble m ''width'') (\<lambda>width.
     sum_bind (fDouble m ''height'') (\<lambda>height.
     sum_bind (fText m ''text'') (\<lambda>text.
     Inr \<lparr>vs_page = page, vs_x = x, vs_y = y, vs_width = width, vs_height = height,
          vs_text = text\<rparr>)))))))"

definition parseSignOpts :: "CborValue \<Rightarrow> WireError + SignOpts" where
  "parseSignOpts v = (case asMap v of None \<Rightarrow> Inl WrongType | Some m \<Rightarrow>
     sum_bind (fText m ''format'') (\<lambda>format.
     sum_bind (fText m ''level'') (\<lambda>level.
     sum_bind (fText m ''packaging'') (\<lambda>packaging.
     sum_bind (fOptBool m ''allowExpired'') (\<lambda>allowExpired.
     sum_bind (fOptText m ''displayName'') (\<lambda>displayName.
     sum_bind (fOptText m ''reason'') (\<lambda>reason.
     sum_bind (fOptText m ''location'') (\<lambda>location.
     sum_bind (fOptText m ''tsaUrl'') (\<lambda>tsaUrl.
     sum_bind (case map_of m ''visualSignature'' of
                 None \<Rightarrow> Inr None
               | Some w \<Rightarrow> sum_bind (parseVisualSignatureOpts w) (\<lambda>p. Inr (Some p))) (\<lambda>visualSignature.
     Inr \<lparr>so_format = format, so_level = level, so_packaging = packaging,
          so_allowExpired = allowExpired, so_displayName = displayName, so_reason = reason,
          so_location = location, so_tsaUrl = tsaUrl, so_visualSignature = visualSignature\<rparr>))))))))))"

definition parseBatchDocument :: "CborValue \<Rightarrow> WireError + BatchDocument" where
  "parseBatchDocument v = (case asMap v of None \<Rightarrow> Inl WrongType | Some m \<Rightarrow>
     sum_bind (fText m ''name'') (\<lambda>name.
     sum_bind (fUint m ''fdIndex'') (\<lambda>fdIndex.
     Inr \<lparr>bd_name = name, bd_fdIndex = fdIndex\<rparr>)))"

section \<open>Sub-type encoders\<close>

definition arrOfText :: "string list \<Rightarrow> CborValue" where
  "arrOfText v = CArray (map CText v)"

definition encodeVisualSignatureOpts :: "VisualSignatureOpts \<Rightarrow> CborValue" where
  "encodeVisualSignatureOpts v = CMap (emplaces
     [(''page'', cbor_uint (vs_page v)), (''x'', CDouble (vs_x v)), (''y'', CDouble (vs_y v)),
      (''width'', CDouble (vs_width v)), (''height'', CDouble (vs_height v)),
      (''text'', CText (vs_text v))])"

definition encodeSignOpts :: "SignOpts \<Rightarrow> CborValue" where
  "encodeSignOpts opts = CMap (emplaces
     ([(''format'', CText (so_format opts)), (''level'', CText (so_level opts)),
       (''packaging'', CText (so_packaging opts))] @
      opt_kv ''allowExpired'' CBool (so_allowExpired opts) @
      opt_kv ''displayName'' CText (so_displayName opts) @
      opt_kv ''reason'' CText (so_reason opts) @
      opt_kv ''location'' CText (so_location opts) @
      opt_kv ''tsaUrl'' CText (so_tsaUrl opts) @
      opt_kv ''visualSignature'' encodeVisualSignatureOpts (so_visualSignature opts)))"

definition encodeReaderState :: "ReaderState \<Rightarrow> CborValue" where
  "encodeReaderState r = CMap (emplaces
     ([(''handle'', CText (rs_handle r)), (''name'', CText (rs_name r)),
       (''hasCard'', CBool (rs_hasCard r))] @
      opt_kv ''card'' CText (rs_card r) @
      (if rs_model r \<noteq> [] then
         [(''model'', CText (rs_model r)),
          (''interface'', CText (readerInterfaceToken (rs_iface r)))]
       else [])))"

definition encodeCardState :: "CardState \<Rightarrow> CborValue" where
  "encodeCardState c = CMap (emplaces
     ([(''handle'', CText (cs_handle c)), (''reader'', CText (cs_reader c)),
       (''caps'', cbor_uint (ucast (cs_caps c))), (''preAuth'', cbor_uint (ucast (cs_preAuth c)))] @
      opt_kv ''cardType'' CText (cs_cardType c) @
      opt_kv ''atr'' CText (cs_atr c)))"

definition encodeCertField :: "CertField \<Rightarrow> CborValue" where
  "encodeCertField cell =
     CArray [CText (cf_labelKey cell), CText (cf_labelFallback cell), CText (cf_value cell)]"

definition encodeCertInfo :: "CertInfo \<Rightarrow> CborValue" where
  "encodeCertInfo ci =
     (let groups = emplaces (map (\<lambda>(group, cells).
            (group, CMap (emplaces (map (\<lambda>(key, cell). (key, encodeCertField cell)) cells))))
            (ci_fields ci))
      in CMap (emplaces
        [(''certId'', CText (ci_certId ci)), (''signingCapable'', CBool (ci_signingCapable ci)),
         (''fields'', CMap groups), (''keyUsageBits'', cbor_uint (ucast (ci_keyUsageBits ci))),
         (''ekus'', arrOfText (ci_ekus ci)), (''chainSubjectCns'', arrOfText (ci_chainSubjectCns ci)),
         (''trustStatus'', cbor_uint (ucast (ci_trustStatus ci))),
         (''alwaysAuthenticate'', CBool (ci_alwaysAuthenticate ci)),
         (''keyId'', CBytes (ci_keyId ci)), (''keyType'', CText (keyTypeToken (ci_keyType ci))),
         (''keyBits'', cbor_uint (ucast (ci_keyBits ci))), (''canDerive'', CBool (ci_canDerive ci))]))"

definition encodeSignMeta :: "SignMeta \<Rightarrow> CborValue" where
  "encodeSignMeta s = CMap (emplaces
     [(''format'', CText (sm_format s)), (''level'', CText (sm_level s)),
      (''tsaUsed'', CBool (sm_tsaUsed s)), (''chainComplete'', CBool (sm_chainComplete s))])"

definition encodeBatchDocument :: "BatchDocument \<Rightarrow> CborValue" where
  "encodeBatchDocument d = CMap (emplaces
     [(''name'', CText (bd_name d)), (''fdIndex'', cbor_uint (bd_fdIndex d))])"

definition encodeSignBatchRow :: "SignBatchRow \<Rightarrow> CborValue" where
  "encodeSignBatchRow r = CMap (emplaces
     [(''displayName'', CText (br_displayName r)), (''artifact'', cbor_uint (br_artifact r)),
      (''meta'', encodeSignMeta (br_meta r)), (''errorCode'', cbor_uint (ucast (br_code r)))])"

fun credOutcomeToken :: "CredentialOutcome \<Rightarrow> string" where
  "credOutcomeToken CO_Unspecified = ''unspecified''"
| "credOutcomeToken CO_Ok = ''ok''"
| "credOutcomeToken CO_UserCancelled = ''userCancelled''"
| "credOutcomeToken CO_MissingFields = ''missingFields''"
| "credOutcomeToken CO_InvalidPin = ''invalidPin''"
| "credOutcomeToken CO_Blocked = ''blocked''"
| "credOutcomeToken CO_PluginError = ''pluginError''"
| "credOutcomeToken CO_Unsupported = ''unsupported''"
| "credOutcomeToken CO_KeyActivationFailed = ''keyActivationFailed''"
| "credOutcomeToken CO_CardRemoved = ''cardRemoved''"
| "credOutcomeToken CO_EntryExpired = ''entryExpired''"

definition encodeCredResult :: "CredentialOpResult \<Rightarrow> CborValue" where
  "encodeCredResult r = CMap (emplaces
     ([(''outcome'', CText (credOutcomeToken (co_outcome r)))] @
      opt_kv ''retriesLeft'' cbor_of_int (co_retriesLeft r) @
      [(''blocked'', CBool (co_blocked r))]))"

definition encodeCredRecord :: "CredentialRecord \<Rightarrow> CborValue" where
  "encodeCredRecord rec = CMap (emplaces
     ([(''id'', CText (cr_id rec)), (''label'', CText (cr_label rec)), (''kind'', CText (cr_kind rec)),
       (''state'', CText (cr_state rec))] @
      opt_kv ''retriesLeft'' cbor_of_int (cr_retriesLeft rec) @
      opt_kv ''retriesMax'' cbor_of_int (cr_retriesMax rec) @
      opt_kv ''usesLeft'' cbor_of_int (cr_usesLeft rec) @
      opt_kv ''usesMax'' cbor_of_int (cr_usesMax rec) @
      opt_kv ''unblocksLeft'' cbor_of_int (cr_unblocksLeft rec) @
      [(''canChange'', CBool (cr_canChange rec)), (''unblockable'', CBool (cr_unblockable rec)),
       (''activatable'', CBool (cr_activatable rec)),
       (''keyActivationPending'', CBool (cr_keyActivationPending rec)),
       (''keyActivatable'', CBool (cr_keyActivatable rec)), (''recovery'', CText (cr_recovery rec))] @
      opt_kv ''blockedGuidanceKey'' CText (cr_blockedGuidanceKey rec) @
      opt_kv ''blockedGuidanceFallback'' CText (cr_blockedGuidanceFallback rec) @
      opt_kv ''keyActivationGuidanceKey'' CText (cr_keyActivationGuidanceKey rec) @
      opt_kv ''keyActivationGuidanceFallback'' CText (cr_keyActivationGuidanceFallback rec)))"

definition encodeIdField :: "IdentityField \<Rightarrow> CborValue" where
  "encodeIdField cell = CArray
     [CText (if_labelKey cell), CText (if_labelFallback cell), CText (if_type cell),
      (case if_value cell of Inl s \<Rightarrow> CText s | Inr b \<Rightarrow> CBytes b)]"

definition encodeIdentityFieldsMap :: "(string \<times> IdentityField) list \<Rightarrow> cbor_map" where
  "encodeIdentityFieldsMap cells = emplaces (map (\<lambda>(key, cell). (key, encodeIdField cell)) cells)"

definition encodePhotoItem :: "PhotoItem \<Rightarrow> CborValue" where
  "encodePhotoItem p = CMap (emplaces [(''key'', CText (ph_key p)), (''fd'', cbor_uint (ph_fd p))])"

fun encodeOpResult :: "OpResult \<Rightarrow> CborValue" where
  "encodeOpResult (IdentityResult flds) = CMap (emplaces
     [(''kind'', CText ''Identity''),
      (''fields'', CMap (emplaces
         (map (\<lambda>(group, cells). (group, CMap (encodeIdentityFieldsMap cells))) flds)))])"
| "encodeOpResult (PhotoResult photos) = CMap (emplaces
     [(''kind'', CText ''Photo''), (''photos'', CArray (map encodePhotoItem photos))])"
| "encodeOpResult (CertListResult certs) = CMap (emplaces
     [(''kind'', CText ''Certificates''), (''certs'', CArray (map encodeCertInfo certs))])"
| "encodeOpResult (SignResultArm s) = CMap (emplaces
     [(''kind'', CText ''Sign''), (''artifact'', cbor_uint (sr_artifact s)),
      (''meta'', encodeSignMeta (sr_meta s))])"
| "encodeOpResult (SignBatchResult rows) = CMap (emplaces
     [(''kind'', CText ''SignBatch''), (''rows'', CArray (map encodeSignBatchRow rows))])"
| "encodeOpResult (CredentialsResult result records) = CMap (emplaces
     [(''kind'', CText ''Credentials''), (''result'', encodeCredResult result),
      (''records'', CArray (map encodeCredRecord records))])"

section \<open>Requests\<close>

fun encodeRequestBody :: "Request \<Rightarrow> CborValue" where
  "encodeRequestBody (Hello proto wantsEvents) = CMap (emplaces
     ([(''t'', CText ''Hello''), (''proto'', cbor_uint proto)] @
      (if \<not> wantsEvents then [(''wantsEvents'', CBool False)] else [])))"
| "encodeRequestBody GetState = CMap (emplaces [(''t'', CText ''GetState'')])"
| "encodeRequestBody (ReadIdentity crd) = CMap (emplaces
     [(''t'', CText ''ReadIdentity''), (''card'', CText crd)])"
| "encodeRequestBody (GetPhoto crd) = CMap (emplaces
     [(''t'', CText ''GetPhoto''), (''card'', CText crd)])"
| "encodeRequestBody (ReadCertificates crd) = CMap (emplaces
     [(''t'', CText ''ReadCertificates''), (''card'', CText crd)])"
| "encodeRequestBody (ReadTokenInfo crd) = CMap (emplaces
     [(''t'', CText ''ReadTokenInfo''), (''card'', CText crd)])"
| "encodeRequestBody (Sign crd cert inFd opts) = CMap (emplaces
     [(''t'', CText ''Sign''), (''card'', CText crd), (''cert'', CText cert),
      (''in'', cbor_uint inFd), (''opts'', encodeSignOpts opts)])"
| "encodeRequestBody (SignBatch crd cert docs opts) = CMap (emplaces
     [(''t'', CText ''SignBatch''), (''card'', CText crd), (''cert'', CText cert),
      (''docs'', CArray (map encodeBatchDocument docs)), (''opts'', encodeSignOpts opts)])"
| "encodeRequestBody (GetCertDer reader cert) = CMap (emplaces
     [(''t'', CText ''GetCertDer''), (''reader'', CText reader), (''cert'', CText cert)])"
| "encodeRequestBody GetConfig = CMap (emplaces [(''t'', CText ''GetConfig'')])"
| "encodeRequestBody (SetConfig key val) = CMap (emplaces
     [(''t'', CText ''SetConfig''), (''key'', CText key), (''value'', val)])"
| "encodeRequestBody (ResetConfig key) = CMap (emplaces
     [(''t'', CText ''ResetConfig''), (''key'', CText key)])"
| "encodeRequestBody (CancelOp op) = CMap (emplaces
     [(''t'', CText ''CancelOp''), (''op'', cbor_uint op)])"
| "encodeRequestBody (GetSignResult op) = CMap (emplaces
     [(''t'', CText ''GetSignResult''), (''op'', cbor_uint op)])"
| "encodeRequestBody (PkLogin reader) = CMap (emplaces
     [(''t'', CText ''Pkcs11.Login''), (''reader'', CText reader)])"
| "encodeRequestBody (PkLogout reader) = CMap (emplaces
     [(''t'', CText ''Pkcs11.Logout''), (''reader'', CText reader)])"
| "encodeRequestBody (PkLoginState reader) = CMap (emplaces
     [(''t'', CText ''Pkcs11.LoginState''), (''reader'', CText reader)])"
| "encodeRequestBody (PkPublicKey reader cert) = CMap (emplaces
     [(''t'', CText ''Pkcs11.PublicKey''), (''reader'', CText reader), (''cert'', CText cert)])"
| "encodeRequestBody (PkSignRaw reader cert mech data) = CMap (emplaces
     [(''t'', CText ''Pkcs11.SignRaw''), (''reader'', CText reader), (''cert'', CText cert),
      (''mech'', CText mech), (''data'', CBytes data)])"
| "encodeRequestBody (PkDecrypt reader cert mech data) = CMap (emplaces
     [(''t'', CText ''Pkcs11.Decrypt''), (''reader'', CText reader), (''cert'', CText cert),
      (''mech'', CText mech), (''data'', CBytes data)])"
| "encodeRequestBody (PkDerive reader cert data) = CMap (emplaces
     [(''t'', CText ''Pkcs11.Derive''), (''reader'', CText reader), (''cert'', CText cert),
      (''data'', CBytes data)])"
| "encodeRequestBody (ListCredentials crd) = CMap (emplaces
     [(''t'', CText ''ListCredentials''), (''card'', CText crd)])"
| "encodeRequestBody (ManagePin crd pinId verb activateKey) = CMap (emplaces
     ([(''t'', CText ''ManagePin''), (''card'', CText crd), (''pinId'', CText pinId),
       (''verb'', CText verb)] @ opt_kv ''activateKey'' CBool activateKey))"
| "encodeRequestBody (ActivateSigningKey crd) = CMap (emplaces
     [(''t'', CText ''ActivateSigningKey''), (''card'', CText crd)])"
| "encodeRequestBody (LayoutVisual text x y width height) = CMap (emplaces
     [(''t'', CText ''LayoutVisual''), (''text'', CText text), (''x'', CDouble x), (''y'', CDouble y),
      (''width'', CDouble width), (''height'', CDouble height)])"
| "encodeRequestBody GetAppearanceFont = CMap (emplaces [(''t'', CText ''GetAppearanceFont'')])"
| "encodeRequestBody (ImportCscaMasterList list) = CMap (emplaces
     [(''t'', CText ''ImportCscaMasterList''), (''list'', cbor_uint list)])"

text \<open>\<^verbatim>\<open>toCbor(RequestEnvelope)\<close>: the body's keys and then the request id.\<close>

definition toCbor :: "RequestEnvelope \<Rightarrow> CborValue" where
  "toCbor env =
     (case asMap (encodeRequestBody (env_body env)) of
        Some m \<Rightarrow> CMap (emplace_by CanonicalKeyLess ''req'' (cbor_uint (env_req env)) m)
      | None \<Rightarrow> CNull)"

text \<open>The tag dispatch of \<^verbatim>\<open>parseRequest\<close>, in the order of the code; the longer branches apart.\<close>

definition parseSign :: "cbor_map \<Rightarrow> WireError + Request" where
  "parseSign m =
     sum_bind (fText m ''card'') (\<lambda>card.
     sum_bind (fText m ''cert'') (\<lambda>cert.
     sum_bind (fUint m ''in'') (\<lambda>inFd.
     (case map_of m ''opts'' of
        None \<Rightarrow> Inl MissingField
      | Some ov \<Rightarrow> sum_bind (parseSignOpts ov) (\<lambda>opts. Inr (Sign card cert inFd opts))))))"

definition parseSignBatch :: "cbor_map \<Rightarrow> WireError + Request" where
  "parseSignBatch m =
     sum_bind (fText m ''card'') (\<lambda>card.
     sum_bind (fText m ''cert'') (\<lambda>cert.
     (case map_of m ''docs'' of
        None \<Rightarrow> Inl MissingField
      | Some dv \<Rightarrow>
          (case asArray dv of
             None \<Rightarrow> Inl WrongType
           | Some docsArr \<Rightarrow>
               sum_bind (sum_map parseBatchDocument docsArr) (\<lambda>docs.
               (case map_of m ''opts'' of
                  None \<Rightarrow> Inl MissingField
                | Some ov \<Rightarrow>
                    sum_bind (parseSignOpts ov) (\<lambda>opts. Inr (SignBatch card cert docs opts))))))))"

definition parsePkCrypto :: "string \<Rightarrow> cbor_map \<Rightarrow> WireError + Request" where
  "parsePkCrypto t m =
     sum_bind (fText m ''reader'') (\<lambda>reader.
     sum_bind (fText m ''cert'') (\<lambda>cert.
     sum_bind (if t \<noteq> ''Pkcs11.Derive'' then fText m ''mech'' else Inr []) (\<lambda>mechToken.
     sum_bind (fBytes m ''data'') (\<lambda>data.
     Inr (if t = ''Pkcs11.SignRaw'' then PkSignRaw reader cert mechToken data
          else if t = ''Pkcs11.Decrypt'' then PkDecrypt reader cert mechToken data
          else PkDerive reader cert data)))))"

definition parseManagePin :: "cbor_map \<Rightarrow> WireError + Request" where
  "parseManagePin m =
     sum_bind (fText m ''card'') (\<lambda>card.
     sum_bind (fText m ''pinId'') (\<lambda>pinId.
     sum_bind (fText m ''verb'') (\<lambda>verb.
     sum_bind (fOptBool m ''activateKey'') (\<lambda>activateKey.
     Inr (ManagePin card pinId verb activateKey)))))"

definition parseLayoutVisual :: "cbor_map \<Rightarrow> WireError + Request" where
  "parseLayoutVisual m =
     sum_bind (fText m ''text'') (\<lambda>text.
     sum_bind (fDouble m ''x'') (\<lambda>x.
     sum_bind (fDouble m ''y'') (\<lambda>y.
     sum_bind (fDouble m ''width'') (\<lambda>width.
     sum_bind (fDouble m ''height'') (\<lambda>height.
     Inr (LayoutVisual text x y width height))))))"

text \<open>The branches from \<^verbatim>\<open>Pkcs11.Login\<close> on, which the first branches fall through to.\<close>

definition parseLaterTags :: "string \<Rightarrow> cbor_map \<Rightarrow> WireError + Request" where
  "parseLaterTags t m =
     (if t = ''Pkcs11.Login'' then sum_bind (fText m ''reader'') (\<lambda>reader. Inr (PkLogin reader))
      else if t = ''Pkcs11.Logout'' then sum_bind (fText m ''reader'') (\<lambda>reader. Inr (PkLogout reader))
      else if t = ''Pkcs11.LoginState'' then
        sum_bind (fText m ''reader'') (\<lambda>reader. Inr (PkLoginState reader))
      else if t = ''Pkcs11.PublicKey'' then
        sum_bind (fText m ''reader'') (\<lambda>reader. sum_bind (fText m ''cert'') (\<lambda>cert.
          Inr (PkPublicKey reader cert)))
      else if t = ''Pkcs11.SignRaw'' \<or> t = ''Pkcs11.Decrypt'' \<or> t = ''Pkcs11.Derive'' then
        parsePkCrypto t m
      else if t = ''ListCredentials'' then
        sum_bind (fText m ''card'') (\<lambda>card. Inr (ListCredentials card))
      else if t = ''ManagePin'' then parseManagePin m
      else if t = ''ActivateSigningKey'' then
        sum_bind (fText m ''card'') (\<lambda>card. Inr (ActivateSigningKey card))
      else if t = ''LayoutVisual'' then parseLayoutVisual m
      else if t = ''GetAppearanceFont'' then Inr GetAppearanceFont
      else if t = ''ImportCscaMasterList'' then
        sum_bind (fUint m ''list'') (\<lambda>list. Inr (ImportCscaMasterList list))
      else Inl UnknownMessage)"

definition parseRequestBody :: "string \<Rightarrow> cbor_map \<Rightarrow> WireError + Request" where
  "parseRequestBody t m =
     (if t = ''Hello'' then
        sum_bind (fUint m ''proto'') (\<lambda>proto.
        sum_bind (fOptBool m ''wantsEvents'') (\<lambda>wantsEvents.
        Inr (Hello proto (case wantsEvents of None \<Rightarrow> True | Some b \<Rightarrow> b))))
      else if t = ''GetState'' then Inr GetState
      else if t = ''ReadIdentity'' then sum_bind (fText m ''card'') (\<lambda>card. Inr (ReadIdentity card))
      else if t = ''GetPhoto'' then sum_bind (fText m ''card'') (\<lambda>card. Inr (GetPhoto card))
      else if t = ''ReadCertificates'' then
        sum_bind (fText m ''card'') (\<lambda>card. Inr (ReadCertificates card))
      else if t = ''ReadTokenInfo'' then sum_bind (fText m ''card'') (\<lambda>card. Inr (ReadTokenInfo card))
      else if t = ''Sign'' then parseSign m
      else if t = ''SignBatch'' then parseSignBatch m
      else if t = ''GetCertDer'' then
        sum_bind (fText m ''reader'') (\<lambda>reader. sum_bind (fText m ''cert'') (\<lambda>cert.
          Inr (GetCertDer reader cert)))
      else if t = ''GetConfig'' then Inr GetConfig
      else if t = ''SetConfig'' then
        sum_bind (fText m ''key'') (\<lambda>key.
        (case map_of m ''value'' of None \<Rightarrow> Inl MissingField | Some v \<Rightarrow> Inr (SetConfig key v)))
      else if t = ''ResetConfig'' then sum_bind (fText m ''key'') (\<lambda>key. Inr (ResetConfig key))
      else if t = ''CancelOp'' then sum_bind (fUint m ''op'') (\<lambda>op. Inr (CancelOp op))
      else if t = ''GetSignResult'' then sum_bind (fUint m ''op'') (\<lambda>op. Inr (GetSignResult op))
      else parseLaterTags t m)"

definition parseRequestValue :: "CborValue \<Rightarrow> WireError + RequestEnvelope" where
  "parseRequestValue v = (case asMap v of None \<Rightarrow> Inl NotAMap | Some m \<Rightarrow>
     sum_bind (fUint m ''req'') (\<lambda>req.
     (case fText m ''t'' of
        Inl e \<Rightarrow> Inl (if e = MissingField then NoTag else e)
      | Inr t \<Rightarrow>
          sum_bind (parseRequestBody t m) (\<lambda>body. Inr \<lparr>env_req = req, env_body = body\<rparr>))))"

definition parseRequest :: "'c qcbor \<Rightarrow> bytes \<Rightarrow> WireError + RequestEnvelope" where
  "parseRequest q body =
     (case decode q body of Inl e \<Rightarrow> Inl NotDecodable | Inr v \<Rightarrow> parseRequestValue v)"

text \<open>\<^verbatim>\<open>encodeRequest\<close> of \<^verbatim>\<open>ClientCodec.cpp\<close>, the client's only use of the request encoders.\<close>

definition encodeRequest :: "'c qcbor \<Rightarrow> Request \<Rightarrow> u64 \<Rightarrow> bytes" where
  "encodeRequest q req requestId = encode q (toCbor \<lparr>env_req = requestId, env_body = req\<rparr>)"

section \<open>Replies\<close>

definition makeReplyBase :: "u64 \<Rightarrow> CborValue" where
  "makeReplyBase req = CMap (emplaces [(''t'', CText ''Reply''), (''req'', cbor_uint req)])"

text \<open>\<^verbatim>\<open>mergeInto\<close>: the arm's entries, in the arm's own key order, emplaced into the reply.\<close>

definition mergeInto :: "CborValue \<Rightarrow> cbor_map \<Rightarrow> CborValue" where
  "mergeInto reply arm =
     (case asMap reply of
        Some base \<Rightarrow> CMap (fold (\<lambda>(k, v) m. emplace_by CanonicalKeyLess k v m) arm base)
      | None \<Rightarrow> reply)"

definition encodeCscaAnchorState :: "CscaAnchorStateReply \<Rightarrow> CborValue" where
  "encodeCscaAnchorState a = CMap (emplaces
     ([(''anchors'', cbor_uint (ca_anchors a)), (''issuers'', cbor_uint (ca_issuers a)),
       (''replayRefusalActive'', CBool (ca_replayRefusalActive a))] @
      opt_kv ''signer'' CText (ca_signer a) @
      opt_kv ''signerPinned'' CBool (ca_signerPinned a) @
      opt_kv ''acceptedAt'' CInt (ca_acceptedAt a) @
      opt_kv ''signedAt'' CInt (ca_signedAt a)))"

definition encodeErrInfo :: "ErrInfo \<Rightarrow> CborValue" where
  "encodeErrInfo e = CMap (emplaces
     ((case ei_code e of
         Inl code \<Rightarrow> [(''code'', cbor_uint (ucast code))]
       | Inr err \<Rightarrow> [(''name'', CText (syncErrorName err))]) @
      opt_kv ''msgKey'' CText (ei_msgKey e) @
      opt_kv ''msgFallback'' CText (ei_msgFallback e)))"

fun replyArm :: "Reply \<Rightarrow> cbor_map" where
  "replyArm (HelloAck agentVer features) = emplaces
     [(''kind'', CText ''HelloAck''), (''agentVer'', CText agentVer), (''features'', arrOfText features)]"
| "replyArm (OpStarted op) = emplaces [(''op'', cbor_uint op)]"
| "replyArm (StateReply readers cards) = emplaces
     [(''readers'', CArray (map encodeReaderState readers)), (''cards'', CArray (map encodeCardState cards))]"
| "replyArm (CertListReply certs) = emplaces [(''certs'', CArray (map encodeCertInfo certs))]"
| "replyArm (CertDerReply der) = emplaces [(''der'', CBytes der)]"
| "replyArm (PublicKeyReplyArm (RsaPublicKey n e)) = emplaces
     [(''kty'', CText ''RSA''), (''n'', CBytes n), (''e'', CBytes e)]"
| "replyArm (PublicKeyReplyArm (EcPublicKey crv x y)) = emplaces
     [(''kty'', CText ''EC''), (''crv'', CText crv), (''x'', CBytes x), (''y'', CBytes y)]"
| "replyArm (ConfigReply entries) = emplaces [(''entries'', CMap (emplaces entries))]"
| "replyArm AckReply = emplaces [(''ok'', CBool True)]"
| "replyArm (LoginStateReply active) = emplaces [(''active'', CBool active)]"
| "replyArm (RawSignatureReply sig) = emplaces [(''sig'', CBytes sig)]"
| "replyArm (DerivedSecretReply z) = emplaces [(''z'', CBytes z)]"
| "replyArm (LayoutReplyArm l) = emplaces
     [(''kind'', CText ''Layout''), (''fontSize'', CDouble (lr_fontSize l)),
      (''lineHeight'', CDouble (lr_lineHeight l)), (''lines'', arrOfText (lr_lines l)),
      (''clipped'', CBool (lr_clipped l))]"
| "replyArm (AppearanceFontReply fd) = emplaces [(''fd'', cbor_uint fd)]"
| "replyArm (CscaAnchorStateArm a) =
     (case asMap (encodeCscaAnchorState a) of
        Some arm \<Rightarrow> emplace_by CanonicalKeyLess ''kind'' (CText ''CscaAnchorState'') arm
      | None \<Rightarrow> [])"
| "replyArm (SignRecoveryReply s) = emplaces [(''result'', encodeOpResult (SignResultArm s))]"
| "replyArm (ErrorReply e) = emplaces [(''err'', encodeErrInfo e)]"

text \<open>\<^verbatim>\<open>makeReply\<close>, \<^verbatim>\<open>makeSignRecoveryReply\<close> and \<^verbatim>\<open>makeErrorReply\<close>: each merges its arm into the base.\<close>

definition makeReply :: "u64 \<Rightarrow> Reply \<Rightarrow> CborValue" where
  "makeReply req r = mergeInto (makeReplyBase req) (replyArm r)"

section \<open>Events\<close>

fun eventToCbor :: "Event \<Rightarrow> CborValue" where
  "eventToCbor (ReaderAdded r) = CMap (emplaces
     [(''t'', CText ''ReaderAdded''), (''reader'', encodeReaderState r)])"
| "eventToCbor (ReaderRemoved handle) = CMap (emplaces
     [(''t'', CText ''ReaderRemoved''), (''handle'', CText handle)])"
| "eventToCbor (CardAdded c) = CMap (emplaces
     [(''t'', CText ''CardAdded''), (''card'', encodeCardState c)])"
| "eventToCbor (CardRemoved handle) = CMap (emplaces
     [(''t'', CText ''CardRemoved''), (''handle'', CText handle)])"
| "eventToCbor (PropertyChanged handle iface props) = CMap (emplaces
     [(''t'', CText ''PropertyChanged''), (''handle'', CText handle), (''iface'', CText iface),
      (''props'', CMap (emplaces props))])"
| "eventToCbor (ConfigChanged key) = CMap (emplaces
     [(''t'', CText ''ConfigChanged''), (''key'', CText key)])"
| "eventToCbor (OpProgress op phase) = CMap (emplaces
     [(''t'', CText ''OpProgress''), (''op'', cbor_uint op), (''phase'', cbor_uint (ucast phase))])"
| "eventToCbor (OpIdentityGroup op groupKey flds) = CMap (emplaces
     [(''t'', CText ''OpIdentityGroup''), (''op'', cbor_uint op), (''groupKey'', CText groupKey),
      (''fields'', CMap (encodeIdentityFieldsMap flds))])"
| "eventToCbor (OpResultReady op result) = CMap (emplaces
     [(''t'', CText ''OpResultReady''), (''op'', cbor_uint op), (''result'', encodeOpResult result)])"
| "eventToCbor (OpFinished op status code msgKey msgFallback) = CMap (emplaces
     [(''t'', CText ''OpFinished''), (''op'', cbor_uint op), (''status'', cbor_uint (ucast status)),
      (''code'', cbor_uint (ucast code)), (''msgKey'', CText msgKey),
      (''msgFallback'', CText msgFallback)])"
| "eventToCbor (AgentQuiesced reason) = CMap (emplaces
     [(''t'', CText ''AgentQuiesced''), (''reason'', cbor_uint (ucast reason))])"

section \<open>Lookups in built maps\<close>

definition or_else :: "'a option \<Rightarrow> 'a option \<Rightarrow> 'a option" where
  "or_else a b = (case a of Some v \<Rightarrow> Some v | None \<Rightarrow> b)"

lemma or_else_simps [simp]:
  "or_else (Some v) b = Some v"
  "or_else None b = b"
  "or_else a None = a"
  by (simp_all add: or_else_def split: option.splits)

lemma map_of_append_or: "map_of (xs @ ys) k = or_else (map_of xs k) (map_of ys k)"
  by (simp add: or_else_def map_add_def split: option.splits)

lemma map_of_opt_kv: "map_of (opt_kv k' f x) k = (if k = k' then map_option f x else None)"
  by (simp add: opt_kv_def split: option.splits)

lemma case_option_Inr [simp]: "(case x of None \<Rightarrow> Inr None | Some v \<Rightarrow> Inr (Some v)) = Inr x"
  by (cases x) simp_all

text \<open>Looking a key up in the entries a builder emplaced, and reading the value found.\<close>

lemmas lookup_simps =
  map_of_append_or map_of_opt_kv if_distrib[of "\<lambda>xs. map_of xs _"] map_of_emplace_by

lemmas field_simps_wire [wire_simps] =
  fText_def fUint_def fBytes_def fOptText_def fOptBool_def fDouble_def lookup_simps

declare map_of_append [simp del]

section \<open>Request round trip\<close>

lemma parseVisualSignatureOpts_encode [simp]:
  "parseVisualSignatureOpts (encodeVisualSignatureOpts v) = Inr v"
  by (simp add: parseVisualSignatureOpts_def encodeVisualSignatureOpts_def wire_simps)

lemma parseSignOpts_encode [simp]: "parseSignOpts (encodeSignOpts v) = Inr v"
  by (simp add: parseSignOpts_def encodeSignOpts_def wire_simps cong: option.case_cong)

lemma parseBatchDocument_encode [simp]: "parseBatchDocument (encodeBatchDocument d) = Inr d"
  by (simp add: parseBatchDocument_def encodeBatchDocument_def wire_simps)

lemma parseRequestValue_toCbor: "parseRequestValue (toCbor env) = Inr env"
  by (cases env, rename_tac r body, case_tac body)
     (simp_all add: parseRequestValue_def toCbor_def parseRequestBody_def parseLaterTags_def
       parseSign_def parseSignBatch_def parsePkCrypto_def parseManagePin_def parseLayoutVisual_def
       sum_map_map wire_simps cong: option.case_cong)

end
