(* ===== verification/MessageLaws.thy ===== *)
theory MessageLaws
  imports Messages
begin

text \<open>
  Laws of the agent-side message model: every message the agent or the client builds lies within
  the decoder's caps, a request survives the wire, and an accepted request was really sent.
\<close>

section \<open>Encoded messages stay within the decoder's caps\<close>

definition encodable :: "nat \<Rightarrow> CborValue \<Rightarrow> bool" where
  "encodable d v \<longleftrightarrow> wf_cbor v \<and> fits_depth d v"

lemma encodable_leaf [simp]:
  "encodable d CNull \<longleftrightarrow> d \<le> kMaxCborDepth" "encodable d (CBool b) \<longleftrightarrow> d \<le> kMaxCborDepth"
  "encodable d (CInt i) \<longleftrightarrow> d \<le> kMaxCborDepth" "encodable d (CDouble x) \<longleftrightarrow> d \<le> kMaxCborDepth"
  "encodable d (CText s) \<longleftrightarrow> d \<le> kMaxCborDepth" "encodable d (CBytes bs) \<longleftrightarrow> d \<le> kMaxCborDepth"
  "encodable d (cbor_uint u) \<longleftrightarrow> d \<le> kMaxCborDepth" "encodable d (cbor_of_int j) \<longleftrightarrow> d \<le> kMaxCborDepth"
  by (simp_all add: encodable_def cbor_of_int_def)

lemma encodable_CArray [simp]:
  "encodable d (CArray vs) \<longleftrightarrow> d \<le> kMaxCborDepth \<and> (\<forall>v \<in> set vs. encodable (Suc d) v)"
  by (auto simp: encodable_def)

lemma encodable_CMap:
  "encodable d (CMap m) \<longleftrightarrow> d \<le> kMaxCborDepth \<and> sorted_keys CanonicalKeyLess m \<and>
     list_all (\<lambda>(k, v). encodable (Suc d) v) m"
  by (auto simp: encodable_def list_all_iff)

lemma encodable_emplaces:
  assumes "d \<le> kMaxCborDepth" and "list_all (\<lambda>(k, v). encodable (Suc d) v) kvs"
  shows "encodable d (CMap (emplaces kvs))"
  using assms set_emplaces_by[of CanonicalKeyLess kvs]
  by (auto simp: encodable_CMap list_all_iff)

lemma encodable_emplace:
  assumes "encodable d (CMap m)" and "encodable (Suc d) v"
  shows "encodable d (CMap (emplace_by CanonicalKeyLess k v m))"
  using assms set_emplace_by[of CanonicalKeyLess k v m]
  by (auto simp: encodable_CMap list_all_iff canon.sorted_emplace_by)

lemma list_all_opt_kv [simp]:
  "list_all P (opt_kv k f x) \<longleftrightarrow> (\<forall>v. x = Some v \<longrightarrow> P (k, f v))"
  by (simp add: opt_kv_def split: option.splits)

lemma encodable_arrOfText: "Suc d \<le> kMaxCborDepth \<Longrightarrow> encodable d (arrOfText xs)"
  by (auto simp: arrOfText_def)

lemmas encodable_intros = encodable_emplaces encodable_emplace encodable_arrOfText

lemma encodable_visualSignatureOpts: "d \<le> 11 \<Longrightarrow> encodable d (encodeVisualSignatureOpts v)"
  unfolding encodeVisualSignatureOpts_def
  by (intro encodable_intros) (simp_all add: kMaxCborDepth_def)

lemma encodable_signOpts: "d \<le> 10 \<Longrightarrow> encodable d (encodeSignOpts opts)"
  unfolding encodeSignOpts_def
  by (intro encodable_intros)
     (simp_all add: kMaxCborDepth_def encodable_visualSignatureOpts)

lemma encodable_batchDocument: "d \<le> 11 \<Longrightarrow> encodable d (encodeBatchDocument v)"
  unfolding encodeBatchDocument_def
  by (intro encodable_intros) (simp_all add: kMaxCborDepth_def)

lemma encodable_readerState: "d \<le> 11 \<Longrightarrow> encodable d (encodeReaderState r)"
  unfolding encodeReaderState_def
  by (intro encodable_intros) (simp_all add: kMaxCborDepth_def)

lemma encodable_cardState: "d \<le> 11 \<Longrightarrow> encodable d (encodeCardState c)"
  unfolding encodeCardState_def
  by (intro encodable_intros) (simp_all add: kMaxCborDepth_def)

lemma encodable_certInfo: "d \<le> 11 \<Longrightarrow> encodable d (encodeCertInfo ci)"
  unfolding encodeCertInfo_def Let_def
  by (intro encodable_intros)
     (auto simp: kMaxCborDepth_def list_all_iff encodeCertField_def intro!: encodable_intros)

lemma encodable_signMeta: "d \<le> 11 \<Longrightarrow> encodable d (encodeSignMeta s)"
  unfolding encodeSignMeta_def
  by (intro encodable_intros) (simp_all add: kMaxCborDepth_def)

lemma encodable_signBatchRow: "d \<le> 10 \<Longrightarrow> encodable d (encodeSignBatchRow r)"
  unfolding encodeSignBatchRow_def
  by (intro encodable_intros) (simp_all add: kMaxCborDepth_def encodable_signMeta)

lemma encodable_credResult: "d \<le> 11 \<Longrightarrow> encodable d (encodeCredResult r)"
  unfolding encodeCredResult_def
  by (intro encodable_intros) (simp_all add: kMaxCborDepth_def)

lemma encodable_credRecord: "d \<le> 11 \<Longrightarrow> encodable d (encodeCredRecord r)"
  unfolding encodeCredRecord_def
  by (intro encodable_intros) (simp_all add: kMaxCborDepth_def)

lemma encodable_idFields: "d \<le> 11 \<Longrightarrow> encodable d (CMap (encodeIdentityFieldsMap cells))"
  unfolding encodeIdentityFieldsMap_def
  by (intro encodable_intros)
     (auto simp: kMaxCborDepth_def list_all_iff encodeIdField_def split: sum.splits)

lemma encodable_photoItem: "d \<le> 11 \<Longrightarrow> encodable d (encodePhotoItem p)"
  unfolding encodePhotoItem_def
  by (intro encodable_intros) (simp_all add: kMaxCborDepth_def)

lemmas encodable_parts =
  encodable_visualSignatureOpts encodable_signOpts encodable_batchDocument encodable_readerState
  encodable_cardState encodable_certInfo encodable_signMeta encodable_signBatchRow
  encodable_credResult encodable_credRecord encodable_idFields encodable_photoItem

lemma encodable_opResult: "d \<le> 8 \<Longrightarrow> encodable d (encodeOpResult r)"
  by (cases r)
     (simp_all add: kMaxCborDepth_def list_all_iff encodable_parts encodable_emplaces
       case_prod_beta)

definition request_ok :: "Request \<Rightarrow> bool" where
  "request_ok r = (case r of SetConfig key v \<Rightarrow> encodable 1 v | _ \<Rightarrow> True)"

lemma encodable_toCbor:
  assumes "request_ok (env_body env)"
  shows "encodable 0 (toCbor env)"
proof -
  have "\<exists>m. encodeRequestBody (env_body env) = CMap m \<and> encodable 0 (CMap m)"
    using assms
    by (cases "env_body env")
       (simp_all add: request_ok_def kMaxCborDepth_def encodable_parts encodable_emplaces)
  then show ?thesis
    by (auto simp: toCbor_def kMaxCborDepth_def intro!: encodable_emplace)
qed

definition reply_values_ok :: "Reply \<Rightarrow> bool" where
  "reply_values_ok r = (case r of ConfigReply entries \<Rightarrow> list_all (\<lambda>(k, v). encodable 2 v) entries
     | _ \<Rightarrow> True)"

lemma encodable_merge:
  assumes "encodable d (CMap base)" and "list_all (\<lambda>(k, v). encodable (Suc d) v) arm"
  shows "encodable d (CMap (fold (\<lambda>(k, v) m. emplace_by CanonicalKeyLess k v m) arm base))"
  using assms by (induction arm arbitrary: base) (auto intro: encodable_emplace)

lemma encodable_cscaAnchorState: "d \<le> 11 \<Longrightarrow> encodable d (encodeCscaAnchorState a)"
  unfolding encodeCscaAnchorState_def
  by (intro encodable_intros) (simp_all add: kMaxCborDepth_def)

lemma encodable_errInfo: "d \<le> 11 \<Longrightarrow> encodable d (encodeErrInfo e)"
  unfolding encodeErrInfo_def
  by (intro encodable_intros) (simp_all add: kMaxCborDepth_def split: sum.splits)

lemma encodable_replyArm: "reply_values_ok r \<Longrightarrow> encodable 0 (CMap (replyArm r))"
proof (cases r rule: replyArm.cases)
  case (15 a)
  moreover have "encodable 0 (encodeCscaAnchorState a)" by (rule encodable_cscaAnchorState) simp
  ultimately show ?thesis
    by (simp add: encodeCscaAnchorState_def encodable_emplace kMaxCborDepth_def)
qed (simp_all add: reply_values_ok_def kMaxCborDepth_def encodable_parts encodable_errInfo
      encodable_opResult encodable_emplaces encodable_arrOfText numeral_2_eq_2)

lemma encodable_makeReply: "reply_values_ok r \<Longrightarrow> encodable 0 (makeReply req r)"
  using encodable_replyArm[of r]
  by (auto simp: makeReply_def makeReplyBase_def mergeInto_def encodable_CMap[of 0 "replyArm r"]
      kMaxCborDepth_def intro!: encodable_merge encodable_emplaces)

definition event_values_ok :: "Event \<Rightarrow> bool" where
  "event_values_ok e =
     (case e of PropertyChanged h i props \<Rightarrow> list_all (\<lambda>(k, v). encodable 2 v) props | _ \<Rightarrow> True)"

lemma encodable_event: "event_values_ok e \<Longrightarrow> encodable 0 (eventToCbor e)"
  by (cases e)
     (simp_all add: event_values_ok_def kMaxCborDepth_def encodable_parts encodable_opResult
       encodable_emplaces numeral_2_eq_2)

section \<open>What the parser accepts is what was sent\<close>

text \<open>\<open>cbor_sub a b\<close>: every entry of \<open>a\<close> is in \<open>b\<close>, down to the leaves.\<close>

fun cbor_sub :: "CborValue \<Rightarrow> CborValue \<Rightarrow> bool" where
  "cbor_sub (CArray vs) w = (case w of CArray ws \<Rightarrow> list_all2 cbor_sub vs ws | _ \<Rightarrow> False)"
| "cbor_sub (CMap m) w =
     (case w of
        CMap m' \<Rightarrow> list_all (\<lambda>(k, v). case map_of m' k of None \<Rightarrow> False | Some v' \<Rightarrow> cbor_sub v v') m
      | _ \<Rightarrow> False)"
| "cbor_sub v w = (v = w)"

lemma cbor_sub_refl_leaf [simp]:
  "cbor_sub (CText s) (CText s)" "cbor_sub (CBytes b) (CBytes b)" "cbor_sub (CBool x) (CBool x)"
  "cbor_sub (CDouble d) (CDouble d)"  "cbor_sub (cbor_uint u) (cbor_uint u)"
  by (simp_all add: cbor_uint_def)

definition entry_in :: "cbor_map \<Rightarrow> string \<times> CborValue \<Rightarrow> bool" where
  "entry_in m = (\<lambda>(k, v). case map_of m k of None \<Rightarrow> False | Some v' \<Rightarrow> cbor_sub v v')"

lemma entry_in_lookup [simp]: "map_of m k = Some v' \<Longrightarrow> entry_in m (k, v) = cbor_sub v v'"
  by (simp add: entry_in_def)

lemma cbor_sub_CMap [simp]: "cbor_sub (CMap m) (CMap m') = list_all (entry_in m') m"
  by (simp add: entry_in_def)

declare cbor_sub.simps(2) [simp del]

lemma cbor_sub_emplaces:
  assumes "list_all (entry_in m') kvs"
  shows "cbor_sub (CMap (emplaces kvs)) (CMap m')"
  using assms set_emplaces_by[of CanonicalKeyLess kvs] by (auto simp: list_all_iff)

lemma cbor_sub_emplace:
  assumes "cbor_sub (CMap m) (CMap m')" and "map_of m' k = Some v'" and "cbor_sub v v'"
  shows "cbor_sub (CMap (emplace_by CanonicalKeyLess k v m)) (CMap m')"
  using assms set_emplace_by[of CanonicalKeyLess k v m] by (auto simp: list_all_iff)

lemma fText_Inr: "fText m k = Inr t \<longleftrightarrow> map_of m k = Some (CText t)"
  by (auto simp: fText_def asText_Some_iff split: option.splits)

lemma fBytes_Inr: "fBytes m k = Inr b \<longleftrightarrow> map_of m k = Some (CBytes b)"
  by (auto simp: fBytes_def split: option.splits elim: asBytes.elims)

lemma fDouble_Inr: "fDouble m k = Inr d \<longleftrightarrow> map_of m k = Some (CDouble d)"
  by (auto simp: fDouble_def split: option.splits elim: asDouble.elims)

lemma fOptText_Inr: "fOptText m k = Inr x \<longleftrightarrow> map_of m k = map_option CText x"
  by (cases x) (auto simp: fOptText_def asText_Some_iff split: option.splits)

lemma asBool_Some_iff: "asBool v = Some b \<longleftrightarrow> v = CBool b"
  by (cases v) auto

lemma fOptBool_Inr: "fOptBool m k = Inr x \<longleftrightarrow> map_of m k = map_option CBool x"
  by (cases x) (auto simp: fOptBool_def asBool_Some_iff split: option.splits)

lemma asUInt_wf: "wf_cbor v \<Longrightarrow> asUInt v = Some u \<Longrightarrow> v = cbor_uint u"
  by (cases v) (auto simp: cbor_uint_def sint_nonneg_iff split: if_splits)

lemma fUint_Inr: "fUint m k = Inr u \<Longrightarrow> wf_cbor (CMap m) \<Longrightarrow> map_of m k = Some (cbor_uint u)"
  by (fastforce simp: fUint_def dest: asUInt_wf map_of_SomeD split: option.splits)

lemmas accessor_facts = fText_Inr fBytes_Inr fDouble_Inr fOptText_Inr fOptBool_Inr

lemma opt_kv_sub:
  "map_of m' k = map_option f x \<Longrightarrow> (\<And>v. x = Some v \<Longrightarrow> cbor_sub (f v) (f v)) \<Longrightarrow>
   list_all (entry_in m') (opt_kv k f x)"
  by (cases x) (auto simp: opt_kv_def)

lemma asMap_Some_iff: "asMap v = Some m \<longleftrightarrow> v = CMap m"
  by (cases v) auto

lemma parseVisualSignatureOpts_sub:
  assumes "parseVisualSignatureOpts v = Inr r" and "wf_cbor v"
  shows "cbor_sub (encodeVisualSignatureOpts r) v"
proof -
  from assms(1) obtain m where v: "v = CMap m"
    by (auto simp: parseVisualSignatureOpts_def asMap_Some_iff split: option.splits)
  show ?thesis
    using assms unfolding v
    by (auto simp: parseVisualSignatureOpts_def encodeVisualSignatureOpts_def sum_bind_Inr_iff
        accessor_facts simp del: cbor_sub_CMap wf_cbor.simps dest!: fUint_Inr intro!: cbor_sub_emplaces)
qed

lemma parseSignOpts_sub:
  assumes "parseSignOpts v = Inr r" and "wf_cbor v"
  shows "cbor_sub (encodeSignOpts r) v"
proof -
  from assms(1) obtain m where v: "v = CMap m"
    by (auto simp: parseSignOpts_def asMap_Some_iff split: option.splits)
  obtain f l p ae dn re lo ts vs where
      facts: "map_of m ''format'' = Some (CText f)" "map_of m ''level'' = Some (CText l)"
        "map_of m ''packaging'' = Some (CText p)" "map_of m ''allowExpired'' = map_option CBool ae"
        "map_of m ''displayName'' = map_option CText dn" "map_of m ''reason'' = map_option CText re"
        "map_of m ''location'' = map_option CText lo" "map_of m ''tsaUrl'' = map_option CText ts"
    and vis: "(case map_of m ''visualSignature'' of None \<Rightarrow> Inr None
        | Some w \<Rightarrow> sum_bind (parseVisualSignatureOpts w) (\<lambda>p. Inr (Some p))) = Inr vs"
    and r: "r = \<lparr>so_format = f, so_level = l, so_packaging = p, so_allowExpired = ae,
      so_displayName = dn, so_reason = re, so_location = lo, so_tsaUrl = ts, so_visualSignature = vs\<rparr>"
    using assms(1) unfolding parseSignOpts_def v asMap.simps option.case
    by (elim sum_bind_Inr_iff[THEN iffD1, elim_format] exE conjE) (simp add: accessor_facts)
  have vsub: "list_all (entry_in m)
      (opt_kv ''visualSignature'' encodeVisualSignatureOpts vs)"
  proof (cases "map_of m ''visualSignature''")
    case None
    then show ?thesis using vis by (simp add: opt_kv_def)
  next
    case (Some w)
    then have "wf_cbor w" using assms(2) v by (auto dest: map_of_SomeD)
    then show ?thesis
      using vis Some parseVisualSignatureOpts_sub[of w]
      by (auto simp: opt_kv_def sum_bind_Inr_iff)
  qed
  show ?thesis
    unfolding encodeSignOpts_def v r
    by (rule cbor_sub_emplaces) (simp add: facts opt_kv_sub vsub del: list_all_opt_kv)
qed

lemma parseBatchDocument_sub:
  assumes "parseBatchDocument v = Inr r" and "wf_cbor v"
  shows "cbor_sub (encodeBatchDocument r) v"
proof -
  from assms(1) obtain m where v: "v = CMap m"
    by (auto simp: parseBatchDocument_def asMap_Some_iff split: option.splits)
  show ?thesis
    using assms unfolding v
    by (auto simp: parseBatchDocument_def encodeBatchDocument_def sum_bind_Inr_iff accessor_facts
        simp del: cbor_sub_CMap wf_cbor.simps dest!: fUint_Inr intro!: cbor_sub_emplaces)
qed

lemma wf_map_of: "wf_cbor (CMap m) \<Longrightarrow> map_of m k = Some v \<Longrightarrow> wf_cbor v"
  by (auto dest: map_of_SomeD)

lemma asArray_Some_iff: "asArray v = Some a \<longleftrightarrow> v = CArray a"
  by (cases v) auto

lemma parseSign_sub:
  assumes "parseSign m = Inr body" and "wf_cbor (CMap m)" and "map_of m ''t'' = Some (CText ''Sign'')"
  shows "cbor_sub (encodeRequestBody body) (CMap m)"
  using assms
  by (auto simp: parseSign_def early_return_iffs accessor_facts parseSignOpts_sub[OF _ wf_map_of]
      simp del: cbor_sub_CMap wf_cbor.simps
      dest!: fUint_Inr intro!: cbor_sub_emplaces)

lemma parseSignBatch_sub:
  assumes "parseSignBatch m = Inr body" and "wf_cbor (CMap m)"
    and "map_of m ''t'' = Some (CText ''SignBatch'')"
  shows "cbor_sub (encodeRequestBody body) (CMap m)"
proof -
  from assms(1) obtain crd cert arr docs ov opts where
      facts: "map_of m ''card'' = Some (CText crd)" "map_of m ''cert'' = Some (CText cert)"
        "map_of m ''docs'' = Some (CArray arr)" "map_of m ''opts'' = Some ov"
    and docs: "sum_map parseBatchDocument arr = Inr docs" and opts: "parseSignOpts ov = Inr opts"
    and body: "body = SignBatch crd cert docs opts"
    by (auto simp: parseSignBatch_def early_return_iffs accessor_facts asArray_Some_iff)
  have "\<And>x. x \<in> set arr \<Longrightarrow> wf_cbor x" using wf_map_of[OF assms(2) facts(3)] by simp
  then have "list_all2 cbor_sub (map encodeBatchDocument docs) arr"
    using sum_map_list_all2[OF docs, of "\<lambda>d v. cbor_sub (encodeBatchDocument d) v"]
      parseBatchDocument_sub by (simp add: list_all2_map1)
  moreover have "cbor_sub (encodeSignOpts opts) ov"
    using parseSignOpts_sub[OF opts] wf_map_of[OF assms(2) facts(4)] .
  ultimately show ?thesis
    unfolding body encodeRequestBody.simps
    by (intro cbor_sub_emplaces) (simp add: facts assms(3))
qed

lemma parsePkCrypto_sub:
  assumes "parsePkCrypto t m = Inr body" and "map_of m ''t'' = Some (CText t)"
    and "t = ''Pkcs11.SignRaw'' \<or> t = ''Pkcs11.Decrypt'' \<or> t = ''Pkcs11.Derive''"
  shows "cbor_sub (encodeRequestBody body) (CMap m)"
  using assms
  by (auto simp: parsePkCrypto_def early_return_iffs accessor_facts simp del: cbor_sub_CMap
      intro!: cbor_sub_emplaces)

lemma parseManagePin_sub:
  assumes "parseManagePin m = Inr body" and "map_of m ''t'' = Some (CText ''ManagePin'')"
  shows "cbor_sub (encodeRequestBody body) (CMap m)"
  using assms
  by (auto simp: parseManagePin_def early_return_iffs accessor_facts opt_kv_sub
      simp del: cbor_sub_CMap list_all_opt_kv
      intro!: cbor_sub_emplaces)

lemma parseLayoutVisual_sub:
  assumes "parseLayoutVisual m = Inr body" and "map_of m ''t'' = Some (CText ''LayoutVisual'')"
  shows "cbor_sub (encodeRequestBody body) (CMap m)"
  using assms
  by (auto simp: parseLayoutVisual_def early_return_iffs accessor_facts simp del: cbor_sub_CMap
      intro!: cbor_sub_emplaces)

lemma cbor_sub_refl: "wf_cbor v \<Longrightarrow> cbor_sub v v"
proof (induction v)
  case (CMap m)
  then have "distinct (map fst m)" by (simp add: canon.sorted_distinct)
  then show ?case using CMap by (fastforce simp: list_all_iff)
qed (auto intro: list_all2_refl simp: list.rel_refl_strong)

lemma parseLaterTags_sub:
  assumes "parseLaterTags t m = Inr body" and "wf_cbor (CMap m)" and "map_of m ''t'' = Some (CText t)"
  shows "cbor_sub (encodeRequestBody body) (CMap m)"
  using assms(1) unfolding parseLaterTags_def
  apply (simp only: split: if_split_asm)
  apply (use assms(2,3) in \<open>(auto simp: early_return_iffs accessor_facts parsePkCrypto_sub
        parseManagePin_sub parseLayoutVisual_sub simp del: cbor_sub_CMap wf_cbor.simps
      dest!: fUint_Inr intro!: cbor_sub_emplaces; fail)\<close>)+
  done

text \<open>The two branches that are not a plain copy of fields, under names of their own.\<close>

lemma hello_sub:
  assumes "map_of m ''t'' = Some (CText ''Hello'')" and "map_of m ''proto'' = Some (cbor_uint proto)"
    and "map_of m ''wantsEvents'' = map_option CBool w"
  shows "cbor_sub (encodeRequestBody (Hello proto (case w of None \<Rightarrow> True | Some b \<Rightarrow> b))) (CMap m)"
  using assms by (cases w) (auto simp del: cbor_sub_CMap intro!: cbor_sub_emplaces)

lemma setConfig_sub:
  assumes "map_of m ''t'' = Some (CText ''SetConfig'')" and "map_of m ''key'' = Some (CText key)"
    and "map_of m ''value'' = Some v" and "wf_cbor (CMap m)"
  shows "cbor_sub (encodeRequestBody (SetConfig key v)) (CMap m)"
  using assms cbor_sub_refl[OF wf_map_of[OF assms(4,3)]]
  by (auto simp del: cbor_sub_CMap wf_cbor.simps intro!: cbor_sub_emplaces)

lemma parseRequestBody_sub:
  assumes "parseRequestBody t m = Inr body" and "wf_cbor (CMap m)" and "map_of m ''t'' = Some (CText t)"
  shows "cbor_sub (encodeRequestBody body) (CMap m)"
  using assms(1) unfolding parseRequestBody_def
  apply (simp only: split: if_split_asm)
  apply (use assms(2,3) in \<open>(auto simp: early_return_iffs accessor_facts parseSign_sub
        parseSignBatch_sub parseLaterTags_sub hello_sub setConfig_sub
        simp del: cbor_sub_CMap wf_cbor.simps encodeRequestBody.simps(1,11)
      dest!: fUint_Inr intro!: cbor_sub_emplaces; fail)\<close>)+
  done

lemma encodeRequestBody_map: "\<exists>m. encodeRequestBody body = CMap m"
  by (cases body) auto

lemma parseRequestValue_sub:
  assumes "parseRequestValue v = Inr env" and "wf_cbor v"
  shows "cbor_sub (toCbor env) v"
proof -
  from assms(1) obtain m t req body where v: "v = CMap m" and t: "map_of m ''t'' = Some (CText t)"
    and req: "fUint m ''req'' = Inr req" and body: "parseRequestBody t m = Inr body"
    and env: "env = \<lparr>env_req = req, env_body = body\<rparr>"
    by (auto simp: parseRequestValue_def early_return_iffs asMap_Some_iff accessor_facts)
  obtain b where b: "encodeRequestBody body = CMap b" using encodeRequestBody_map by blast
  have "cbor_sub (CMap b) (CMap m)"
    using parseRequestBody_sub[OF body _ t] assms(2) v b by simp
  then show ?thesis
    using fUint_Inr[OF req] assms(2) v cbor_sub_emplace[of b m "''req''" "cbor_uint req" "cbor_uint req"]
    by (simp add: toCbor_def env b del: cbor_sub_CMap)
qed

section \<open>Properties\<close>

text \<open>C2. A request the client encodes is parsed by the agent as that request, field for field, for
  each of the 27 request types. The only conditions are QCBOR's documented behaviour on the one
  value sent, the decoder's item cap, and that the free-form value of a config write is a value
  the class can hold within the depth cap.\<close>

theorem request_roundtrip:
  assumes "request_ok body" and "cbor_items (toCbor \<lparr>env_req = req, env_body = body\<rparr>) \<le> kMaxCborItems"
    and "qcbor_faithful q (toCbor \<lparr>env_req = req, env_body = body\<rparr>)"
  shows "parseRequest q (encodeRequest q body req) = Inr \<lparr>env_req = req, env_body = body\<rparr>"
proof -
  have "encodable 0 (toCbor \<lparr>env_req = req, env_body = body\<rparr>)"
    using assms(1) by (intro encodable_toCbor) simp
  then show ?thesis
    using decode_encode[OF _ _ assms(2,3)]
    by (simp add: parseRequest_def encodeRequest_def parseRequestValue_toCbor encodable_def)
qed

definition sample_request :: Request where
  "sample_request = ManagePin ''card0'' ''user:0x80'' ''activate_pin'' (Some True)"

lemma sample_request_items:
  "cbor_items (toCbor \<lparr>env_req = 7, env_body = sample_request\<rparr>) \<le> kMaxCborItems"
  by (simp add: sample_request_def toCbor_def emplaces_by_def emplace_by_def CanonicalKeyLess_def
      opt_kv_def kMaxCborItems_def)

theorem request_roundtrip_witness:
  "let q = tape_qcbor (toCbor \<lparr>env_req = 7, env_body = sample_request\<rparr>) [0xa6]
   in parseRequest q (encodeRequest q sample_request 7) = Inr \<lparr>env_req = 7, env_body = sample_request\<rparr>"
  unfolding Let_def
  by (rule request_roundtrip[OF _ sample_request_items tape_faithful])
     (simp add: request_ok_def sample_request_def)

text \<open>C29. A request the agent accepts was really sent: the frame is the canonical encoding of a value
  that contains the re-encoding of the accepted request, entry for entry and at every depth. No
  default is invented beyond the omitted opt-out of events, no field is taken from elsewhere, and
  no assumption on QCBOR is made.\<close>

theorem parseRequest_sound:
  assumes "parseRequest q body = Inr env"
  shows "\<exists>v. decode q body = Inr v \<and> encode q v = body \<and> cbor_sub (toCbor env) v"
proof -
  from assms obtain v where v: "decode q body = Inr v" and p: "parseRequestValue v = Inr env"
    by (auto simp: parseRequest_def split: sum.splits)
  then show ?thesis
    using decode_canonical[OF v] decode_bounded[OF v] parseRequestValue_sub[OF p] by blast
qed

theorem parseRequest_sound_witness:
  "let q = tape_qcbor (toCbor \<lparr>env_req = 7, env_body = sample_request\<rparr>) [0xa6]
   in \<exists>v. decode q (encodeRequest q sample_request 7) = Inr v \<and>
        encode q v = encodeRequest q sample_request 7 \<and>
        cbor_sub (toCbor \<lparr>env_req = 7, env_body = sample_request\<rparr>) v"
  unfolding Let_def
proof (rule parseRequest_sound)
  let ?v = "toCbor \<lparr>env_req = 7, env_body = sample_request\<rparr>"
  have "encodable 0 ?v" by (rule encodable_toCbor) (simp add: request_ok_def sample_request_def)
  then show "parseRequest (tape_qcbor ?v [0xa6]) (encodeRequest (tape_qcbor ?v [0xa6]) sample_request 7) =
      Inr \<lparr>env_req = 7, env_body = sample_request\<rparr>"
    using decode_encode[OF _ _ sample_request_items tape_faithful[of ?v "[0xa6]"]]
    by (simp add: parseRequest_def encodeRequest_def parseRequestValue_toCbor encodable_def)
qed

end
