(* ===== verification/ClientCodec.thy ===== *)
theory ClientCodec
  imports MessageLaws "HOL-Library.State_Monad"
begin

text \<open>
  The client's side of the wire (\<^verbatim>\<open>src/wire/ClientCodec.cpp\<close>): the \<^verbatim>\<open>FieldReader\<close> with its \<^verbatim>\<open>m_ok\<close>
  flag as a state monad over that flag, a decoder per struct, and \<^verbatim>\<open>parseReply\<close> and
  \<^verbatim>\<open>parseEvent\<close>. A frame's descriptors enter only through their number: \<open>nfds\<close> is
  \<^verbatim>\<open>fds.size()\<close>.
\<close>

section \<open>FieldReader\<close>

type_synonym 'a reading = "(bool, 'a) state"

text \<open>A required field: a missing or wrongly typed one clears the flag and yields \<open>dflt\<close>.\<close>

definition required :: "(CborValue \<Rightarrow> 'a option) \<Rightarrow> 'a \<Rightarrow> cbor_map \<Rightarrow> string \<Rightarrow> 'a reading" where
  "required as dflt m k = State (\<lambda>ok.
     case map_of m k of
       None \<Rightarrow> (dflt, False)
     | Some v \<Rightarrow> (case as v of None \<Rightarrow> (dflt, False) | Some x \<Rightarrow> (x, ok)))"

text \<open>An optional field: absence is fine, a wrong type clears the flag.\<close>

definition optional :: "(CborValue \<Rightarrow> 'a option) \<Rightarrow> cbor_map \<Rightarrow> string \<Rightarrow> 'a option reading" where
  "optional as m k = State (\<lambda>ok.
     case map_of m k of
       None \<Rightarrow> (None, ok)
     | Some v \<Rightarrow> (case as v of None \<Rightarrow> (None, False) | Some x \<Rightarrow> (Some x, ok)))"

definition rd_text :: "cbor_map \<Rightarrow> string \<Rightarrow> string reading" where
  "rd_text = required asText []"

definition rd_optText :: "cbor_map \<Rightarrow> string \<Rightarrow> string option reading" where
  "rd_optText = optional asText"

definition rd_uint :: "cbor_map \<Rightarrow> string \<Rightarrow> u64 reading" where
  "rd_uint = required asUInt 0"

definition rd_optUint :: "cbor_map \<Rightarrow> string \<Rightarrow> u64 option reading" where
  "rd_optUint = optional asUInt"

definition rd_u32 :: "cbor_map \<Rightarrow> string \<Rightarrow> u32 reading" where
  "rd_u32 m k = do {
     v \<leftarrow> rd_uint m k;
     State (\<lambda>ok. if v > 0xFFFFFFFF then (0, False) else (ucast v, ok))
   }"

definition rd_optInt :: "cbor_map \<Rightarrow> string \<Rightarrow> cint option reading" where
  "rd_optInt m k = do {
     v \<leftarrow> rd_optUint m k;
     State (\<lambda>ok. case v of
         None \<Rightarrow> (None, ok)
       | Some u \<Rightarrow> if u > 0x7FFFFFFF then (None, False) else (Some (ucast u), ok))
   }"

definition rd_optInt64 :: "cbor_map \<Rightarrow> string \<Rightarrow> u64 option reading" where
  "rd_optInt64 = optional asInt"

definition rd_boolean :: "cbor_map \<Rightarrow> string \<Rightarrow> bool reading" where
  "rd_boolean = required asBool False"

definition rd_optBool :: "cbor_map \<Rightarrow> string \<Rightarrow> bool option reading" where
  "rd_optBool = optional asBool"

definition rd_doubleField :: "cbor_map \<Rightarrow> string \<Rightarrow> u64 reading" where
  "rd_doubleField = required asDouble 0"

definition rd_bytes :: "cbor_map \<Rightarrow> string \<Rightarrow> bytes reading" where
  "rd_bytes = required asBytes []"

text \<open>The two pointer-returning accessors: the null pointer of the failing case is never
  dereferenced, because every caller checks the flag first; an empty container stands for it.\<close>

definition rd_map :: "cbor_map \<Rightarrow> string \<Rightarrow> cbor_map reading" where
  "rd_map = required asMap []"

definition rd_array :: "cbor_map \<Rightarrow> string \<Rightarrow> CborValue list reading" where
  "rd_array = required asArray []"

text \<open>\<^verbatim>\<open>FieldReader r(m); ...; if (!r.ok()) return std::nullopt;\<close>\<close>

definition checked :: "'a reading \<Rightarrow> 'a option" where
  "checked r = (case run_state r True of (x, ok) \<Rightarrow> if ok then Some x else None)"

definition has :: "cbor_map \<Rightarrow> string \<Rightarrow> bool" where
  "has m k = (map_of m k \<noteq> None)"

definition textArray :: "CborValue list \<Rightarrow> string list option" where
  "textArray = opt_map asText"

text \<open>\<^verbatim>\<open>asMap()\<close> or refuse, then decode: the body of every loop over an array of maps.\<close>

definition of_map :: "(cbor_map \<Rightarrow> 'a option) \<Rightarrow> CborValue \<Rightarrow> 'a option" where
  "of_map dec v = Option.bind (asMap v) dec"

section \<open>Numeric enums and tokens\<close>

definition decodeErrorCode :: "u64 \<Rightarrow> ErrorCode option" where
  "decodeErrorCode v = (if v > 0xFFFFFFFF then None else Some (ucast v))"

definition decodeOperationPhase :: "u64 \<Rightarrow> OperationPhase option" where
  "decodeOperationPhase v = (if v > 0xFFFFFFFF then None else Some (ucast v))"

definition decodeOperationStatus :: "u64 \<Rightarrow> OperationStatus option" where
  "decodeOperationStatus v = (if v > 0xFFFFFFFF then None else Some (ucast v))"

definition decodePreReadAuth :: "u64 \<Rightarrow> PreReadAuth option" where
  "decodePreReadAuth v = (if v > 0xFF then None else Some (ucast v))"

definition decodeQuiesceReason :: "u64 \<Rightarrow> QuiesceReason option" where
  "decodeQuiesceReason v = (if v > 0xFF then None else Some (ucast v))"

definition decodeCredOutcome :: "string \<Rightarrow> CredentialOutcome" where
  "decodeCredOutcome s =
     (if s = ''unspecified'' then CO_Unspecified
      else if s = ''ok'' then CO_Ok
      else if s = ''userCancelled'' then CO_UserCancelled
      else if s = ''missingFields'' then CO_MissingFields
      else if s = ''invalidPin'' then CO_InvalidPin
      else if s = ''blocked'' then CO_Blocked
      else if s = ''pluginError'' then CO_PluginError
      else if s = ''unsupported'' then CO_Unsupported
      else if s = ''keyActivationFailed'' then CO_KeyActivationFailed
      else if s = ''cardRemoved'' then CO_CardRemoved
      else CO_Unspecified)"

section \<open>Sub-type decoders\<close>

definition decodeReaderState :: "cbor_map \<Rightarrow> ReaderState option" where
  "decodeReaderState m = checked (do {
     handle \<leftarrow> rd_text m ''handle'';
     name \<leftarrow> rd_text m ''name'';
     hasCard \<leftarrow> rd_boolean m ''hasCard'';
     crd \<leftarrow> rd_optText m ''card'';
     model \<leftarrow> rd_optText m ''model'';
     iface \<leftarrow> rd_optText m ''interface'';
     State_Monad.return
       \<lparr>rs_handle = handle, rs_name = name, rs_hasCard = hasCard, rs_card = crd,
        rs_model = (case model of None \<Rightarrow> [] | Some s \<Rightarrow> s),
        rs_iface = (case iface of None \<Rightarrow> RI_Unknown
          | Some tok \<Rightarrow> (case readerInterfaceFromToken tok of None \<Rightarrow> RI_Unknown | Some i \<Rightarrow> i))\<rparr>
   })"

definition decodeCardState :: "cbor_map \<Rightarrow> CardState option" where
  "decodeCardState m = Option.bind (checked (do {
     handle \<leftarrow> rd_text m ''handle'';
     reader \<leftarrow> rd_text m ''reader'';
     caps \<leftarrow> rd_u32 m ''caps'';
     preAuthRaw \<leftarrow> rd_uint m ''preAuth'';
     cardType \<leftarrow> rd_optText m ''cardType'';
     atr \<leftarrow> rd_optText m ''atr'';
     State_Monad.return (handle, reader, caps, preAuthRaw, cardType, atr)
   })) (\<lambda>(handle, reader, caps, preAuthRaw, cardType, atr).
     Option.bind (decodePreReadAuth preAuthRaw) (\<lambda>preAuth.
       Some \<lparr>cs_handle = handle, cs_reader = reader, cs_caps = caps, cs_preAuth = preAuth,
             cs_cardType = cardType, cs_atr = atr\<rparr>))"

definition decodeCertField :: "CborValue list \<Rightarrow> CertField option" where
  "decodeCertField a = (case a of
     [a0, a1, a2] \<Rightarrow>
       (case (asText a0, asText a1, asText a2) of
          (Some labelKey, Some labelFallback, Some val) \<Rightarrow>
            Some \<lparr>cf_labelKey = labelKey, cf_labelFallback = labelFallback, cf_value = val\<rparr>
        | _ \<Rightarrow> None)
   | _ \<Rightarrow> None)"

text \<open>The loop over the cells of a group, into a \<^verbatim>\<open>std::map<std::string, CertField>\<close>, and the loop over
  the groups.\<close>

definition decodeCertGroup :: "cbor_map \<Rightarrow> (string \<times> CertField) list option" where
  "decodeCertGroup inner = map_option (emplaces_by string_less)
     (opt_entries (\<lambda>v. Option.bind (asArray v) decodeCertField) inner)"

definition decodeCertFields :: "cbor_map \<Rightarrow> (string \<times> (string \<times> CertField) list) list option" where
  "decodeCertFields flds = map_option (emplaces_by string_less) (opt_entries (of_map decodeCertGroup) flds)"

definition decodeCertInfo :: "cbor_map \<Rightarrow> CertInfo option" where
  "decodeCertInfo m = Option.bind (checked (do {
     certId \<leftarrow> rd_text m ''certId'';
     signingCapable \<leftarrow> rd_boolean m ''signingCapable'';
     flds \<leftarrow> rd_map m ''fields'';
     keyUsageBits \<leftarrow> rd_u32 m ''keyUsageBits'';
     ekus \<leftarrow> rd_array m ''ekus'';
     cns \<leftarrow> rd_array m ''chainSubjectCns'';
     trustStatus \<leftarrow> rd_u32 m ''trustStatus'';
     alwaysAuthenticate \<leftarrow> rd_boolean m ''alwaysAuthenticate'';
     keyId \<leftarrow> rd_bytes m ''keyId'';
     keyType \<leftarrow> rd_text m ''keyType'';
     keyBits \<leftarrow> rd_u32 m ''keyBits'';
     canDerive \<leftarrow> rd_boolean m ''canDerive'';
     State_Monad.return (flds, ekus, cns,
       \<lparr>ci_certId = certId, ci_signingCapable = signingCapable, ci_fields = [],
        ci_keyUsageBits = keyUsageBits, ci_ekus = [], ci_chainSubjectCns = [],
        ci_trustStatus = trustStatus, ci_alwaysAuthenticate = alwaysAuthenticate, ci_keyId = keyId,
        ci_keyType = keyTypeFromToken keyType, ci_keyBits = keyBits, ci_canDerive = canDerive\<rparr>)
   })) (\<lambda>(flds, ekus, cns, ci).
     if ci_keyId ci = [] then None
     else Option.bind (decodeCertFields flds) (\<lambda>fs.
       Option.bind (textArray ekus) (\<lambda>ekuList.
       Option.bind (textArray cns) (\<lambda>cnList.
         Some (ci\<lparr>ci_fields := fs, ci_ekus := ekuList, ci_chainSubjectCns := cnList\<rparr>)))))"

definition decodeSignMeta :: "cbor_map \<Rightarrow> SignMeta option" where
  "decodeSignMeta m = checked (do {
     format \<leftarrow> rd_text m ''format'';
     level \<leftarrow> rd_text m ''level'';
     tsaUsed \<leftarrow> rd_boolean m ''tsaUsed'';
     chainComplete \<leftarrow> rd_boolean m ''chainComplete'';
     State_Monad.return \<lparr>sm_format = format, sm_level = level, sm_tsaUsed = tsaUsed,
       sm_chainComplete = chainComplete\<rparr>
   })"

definition decodeSignResultFields :: "nat \<Rightarrow> cbor_map \<Rightarrow> SignResult option" where
  "decodeSignResultFields nfds m = Option.bind (checked (do {
     kind \<leftarrow> rd_text m ''kind'';
     artifact \<leftarrow> rd_uint m ''artifact'';
     metaMap \<leftarrow> rd_map m ''meta'';
     State_Monad.return (kind, artifact, metaMap)
   })) (\<lambda>(kind, artifact, metaMap).
     if kind \<noteq> ''Sign'' then None
     else if unat artifact \<ge> nfds then None
     else Option.bind (decodeSignMeta metaMap) (\<lambda>meta.
       Some \<lparr>sr_artifact = artifact, sr_meta = meta\<rparr>))"

definition decodeSignBatchRow :: "nat \<Rightarrow> cbor_map \<Rightarrow> SignBatchRow option" where
  "decodeSignBatchRow nfds m = Option.bind (checked (do {
     displayName \<leftarrow> rd_text m ''displayName'';
     artifact \<leftarrow> rd_uint m ''artifact'';
     metaMap \<leftarrow> rd_map m ''meta'';
     codeRaw \<leftarrow> rd_uint m ''errorCode'';
     State_Monad.return (displayName, artifact, metaMap, codeRaw)
   })) (\<lambda>(displayName, artifact, metaMap, codeRaw).
     if unat artifact \<ge> nfds then None
     else Option.bind (decodeSignMeta metaMap) (\<lambda>meta.
       Option.bind (decodeErrorCode codeRaw) (\<lambda>code.
         Some \<lparr>br_displayName = displayName, br_artifact = artifact, br_meta = meta, br_code = code\<rparr>)))"

definition decodePhotoItem :: "nat \<Rightarrow> cbor_map \<Rightarrow> PhotoItem option" where
  "decodePhotoItem nfds m = Option.bind (checked (do {
     key \<leftarrow> rd_text m ''key'';
     fd \<leftarrow> rd_uint m ''fd'';
     State_Monad.return (key, fd)
   })) (\<lambda>(key, fd). if unat fd \<ge> nfds then None else Some \<lparr>ph_key = key, ph_fd = fd\<rparr>)"

definition decodeIdField :: "CborValue list \<Rightarrow> IdentityField option" where
  "decodeIdField a = (case a of
     [a0, a1, a2, a3] \<Rightarrow>
       (case (asText a0, asText a1, asText a2) of
          (Some labelKey, Some labelFallback, Some type) \<Rightarrow>
            (case asText a3 of
               Some s \<Rightarrow> Some \<lparr>if_labelKey = labelKey, if_labelFallback = labelFallback, if_type = type,
                 if_value = Inl s\<rparr>
             | None \<Rightarrow>
                 (case asBytes a3 of
                    Some b \<Rightarrow> Some \<lparr>if_labelKey = labelKey, if_labelFallback = labelFallback,
                      if_type = type, if_value = Inr b\<rparr>
                  | None \<Rightarrow> None))
        | _ \<Rightarrow> None)
   | _ \<Rightarrow> None)"

definition decodeCredOpResult :: "cbor_map \<Rightarrow> CredentialOpResult option" where
  "decodeCredOpResult m = checked (do {
     outcomeStr \<leftarrow> rd_text m ''outcome'';
     retriesLeft \<leftarrow> rd_optInt m ''retriesLeft'';
     blocked \<leftarrow> rd_boolean m ''blocked'';
     State_Monad.return \<lparr>co_outcome = decodeCredOutcome outcomeStr, co_retriesLeft = retriesLeft,
       co_blocked = blocked\<rparr>
   })"

definition decodeCredentialRecord :: "cbor_map \<Rightarrow> CredentialRecord option" where
  "decodeCredentialRecord m = checked (do {
     id' \<leftarrow> rd_text m ''id'';
     label \<leftarrow> rd_text m ''label'';
     kind \<leftarrow> rd_text m ''kind'';
     state' \<leftarrow> rd_text m ''state'';
     retriesLeft \<leftarrow> rd_optInt m ''retriesLeft'';
     retriesMax \<leftarrow> rd_optInt m ''retriesMax'';
     usesLeft \<leftarrow> rd_optInt m ''usesLeft'';
     usesMax \<leftarrow> rd_optInt m ''usesMax'';
     unblocksLeft \<leftarrow> rd_optInt m ''unblocksLeft'';
     canChange \<leftarrow> rd_boolean m ''canChange'';
     unblockable \<leftarrow> rd_boolean m ''unblockable'';
     activatable \<leftarrow> rd_boolean m ''activatable'';
     keyActivationPending \<leftarrow> rd_boolean m ''keyActivationPending'';
     keyActivatable \<leftarrow> rd_boolean m ''keyActivatable'';
     recovery \<leftarrow> rd_text m ''recovery'';
     bgk \<leftarrow> rd_optText m ''blockedGuidanceKey'';
     bgf \<leftarrow> rd_optText m ''blockedGuidanceFallback'';
     kgk \<leftarrow> rd_optText m ''keyActivationGuidanceKey'';
     kgf \<leftarrow> rd_optText m ''keyActivationGuidanceFallback'';
     State_Monad.return
       \<lparr>cr_id = id', cr_label = label, cr_kind = kind, cr_state = state',
        cr_retriesLeft = retriesLeft, cr_retriesMax = retriesMax, cr_usesLeft = usesLeft,
        cr_usesMax = usesMax, cr_unblocksLeft = unblocksLeft, cr_canChange = canChange,
        cr_unblockable = unblockable, cr_activatable = activatable,
        cr_keyActivationPending = keyActivationPending, cr_keyActivatable = keyActivatable,
        cr_recovery = recovery, cr_blockedGuidanceKey = bgk, cr_blockedGuidanceFallback = bgf,
        cr_keyActivationGuidanceKey = kgk, cr_keyActivationGuidanceFallback = kgf\<rparr>
   })"

section \<open>Reply arms\<close>

definition decodeHelloAck :: "cbor_map \<Rightarrow> Reply option" where
  "decodeHelloAck m = Option.bind (checked (do {
     agentVer \<leftarrow> rd_text m ''agentVer'';
     featuresArr \<leftarrow> rd_array m ''features'';
     State_Monad.return (agentVer, featuresArr)
   })) (\<lambda>(agentVer, featuresArr).
     Option.bind (textArray featuresArr) (\<lambda>features. Some (HelloAck agentVer features)))"

definition decodeOpStarted :: "cbor_map \<Rightarrow> Reply option" where
  "decodeOpStarted m = map_option OpStarted (checked (rd_uint m ''op''))"

definition decodeStateReply :: "cbor_map \<Rightarrow> Reply option" where
  "decodeStateReply m = Option.bind (checked (do {
     readersArr \<leftarrow> rd_array m ''readers'';
     cardsArr \<leftarrow> rd_array m ''cards'';
     State_Monad.return (readersArr, cardsArr)
   })) (\<lambda>(readersArr, cardsArr).
     Option.bind (opt_map (of_map decodeReaderState) readersArr) (\<lambda>readers.
     Option.bind (opt_map (of_map decodeCardState) cardsArr) (\<lambda>cards.
       Some (StateReply readers cards))))"

definition decodeCertListReply :: "cbor_map \<Rightarrow> Reply option" where
  "decodeCertListReply m = Option.bind (checked (rd_array m ''certs'')) (\<lambda>certsArr.
     map_option CertListReply (opt_map (of_map decodeCertInfo) certsArr))"

definition decodeCertDerReply :: "cbor_map \<Rightarrow> Reply option" where
  "decodeCertDerReply m = map_option CertDerReply (checked (rd_bytes m ''der''))"

definition decodePublicKeyReply :: "cbor_map \<Rightarrow> Reply option" where
  "decodePublicKeyReply m = Option.bind (checked (rd_text m ''kty'')) (\<lambda>kty.
     if kty = ''RSA'' then
       map_option (\<lambda>(n, e). PublicKeyReplyArm (RsaPublicKey n e)) (checked (do {
         n \<leftarrow> rd_bytes m ''n'';
         e \<leftarrow> rd_bytes m ''e'';
         State_Monad.return (n, e)
       }))
     else if kty = ''EC'' then
       Option.bind (checked (do {
         crv \<leftarrow> rd_text m ''crv'';
         x \<leftarrow> rd_bytes m ''x'';
         y \<leftarrow> rd_bytes m ''y'';
         State_Monad.return (crv, x, y)
       })) (\<lambda>(crv, x, y).
         (case nistCurveByName crv of
            None \<Rightarrow> None
          | Some curve \<Rightarrow>
              if length x \<noteq> nc_fieldBytes curve \<or> length y \<noteq> nc_fieldBytes curve then None
              else Some (PublicKeyReplyArm (EcPublicKey crv x y))))
     else None)"

definition decodeConfigReply :: "cbor_map \<Rightarrow> Reply option" where
  "decodeConfigReply m =
     map_option (\<lambda>entries. ConfigReply (emplaces_by string_less entries)) (checked (rd_map m ''entries''))"

definition decodeAckReply :: "cbor_map \<Rightarrow> Reply option" where
  "decodeAckReply m = Option.bind (checked (rd_boolean m ''ok'')) (\<lambda>ok. if \<not> ok then None else Some AckReply)"

definition decodeLoginStateReply :: "cbor_map \<Rightarrow> Reply option" where
  "decodeLoginStateReply m = map_option LoginStateReply (checked (rd_boolean m ''active''))"

definition decodeRawSignatureReply :: "cbor_map \<Rightarrow> Reply option" where
  "decodeRawSignatureReply m = map_option RawSignatureReply (checked (rd_bytes m ''sig''))"

definition decodeDerivedSecretReply :: "cbor_map \<Rightarrow> Reply option" where
  "decodeDerivedSecretReply m = map_option DerivedSecretReply (checked (rd_bytes m ''z''))"

definition decodeLayoutReply :: "cbor_map \<Rightarrow> Reply option" where
  "decodeLayoutReply m = Option.bind (checked (do {
     fontSize \<leftarrow> rd_doubleField m ''fontSize'';
     lineHeight \<leftarrow> rd_doubleField m ''lineHeight'';
     linesArr \<leftarrow> rd_array m ''lines'';
     clipped \<leftarrow> rd_boolean m ''clipped'';
     State_Monad.return (fontSize, lineHeight, linesArr, clipped)
   })) (\<lambda>(fontSize, lineHeight, linesArr, clipped).
     Option.bind (textArray linesArr) (\<lambda>lns.
       Some (LayoutReplyArm \<lparr>lr_fontSize = fontSize, lr_lineHeight = lineHeight, lr_lines = lns,
         lr_clipped = clipped\<rparr>)))"

definition decodeAppearanceFontReply :: "nat \<Rightarrow> cbor_map \<Rightarrow> Reply option" where
  "decodeAppearanceFontReply nfds m = Option.bind (checked (rd_uint m ''fd'')) (\<lambda>fd.
     if unat fd \<ge> nfds then None else Some (AppearanceFontReply fd))"

definition decodeCscaAnchorStateReply :: "cbor_map \<Rightarrow> Reply option" where
  "decodeCscaAnchorStateReply m = map_option CscaAnchorStateArm (checked (do {
     anchors \<leftarrow> rd_uint m ''anchors'';
     issuers \<leftarrow> rd_uint m ''issuers'';
     replayRefusalActive \<leftarrow> rd_boolean m ''replayRefusalActive'';
     signer \<leftarrow> rd_optText m ''signer'';
     signerPinned \<leftarrow> rd_optBool m ''signerPinned'';
     acceptedAt \<leftarrow> rd_optInt64 m ''acceptedAt'';
     signedAt \<leftarrow> rd_optInt64 m ''signedAt'';
     State_Monad.return \<lparr>ca_anchors = anchors, ca_issuers = issuers,
       ca_replayRefusalActive = replayRefusalActive, ca_signer = signer, ca_signerPinned = signerPinned,
       ca_acceptedAt = acceptedAt, ca_signedAt = signedAt\<rparr>
   }))"

definition decodeErrInfo :: "cbor_map \<Rightarrow> ErrInfo option" where
  "decodeErrInfo m =
     (if has m ''code'' = has m ''name'' then None
      else Option.bind
        (if has m ''code'' then
           Option.bind (checked (rd_uint m ''code'')) (\<lambda>raw. map_option Inl (decodeErrorCode raw))
         else map_option (\<lambda>raw. Inr (decodeSyncError raw)) (checked (rd_text m ''name'')))
        (\<lambda>code. checked (do {
           msgKey \<leftarrow> rd_optText m ''msgKey'';
           msgFallback \<leftarrow> rd_optText m ''msgFallback'';
           State_Monad.return \<lparr>ei_code = code, ei_msgKey = msgKey, ei_msgFallback = msgFallback\<rparr>
         })))"

section \<open>Operation results and events\<close>

definition decodeIdentityFieldsMap :: "cbor_map \<Rightarrow> (string \<times> IdentityField) list option" where
  "decodeIdentityFieldsMap flds = map_option (emplaces_by string_less)
     (opt_entries (\<lambda>v. Option.bind (asArray v) decodeIdField) flds)"

definition decodeOpResult :: "nat \<Rightarrow> cbor_map \<Rightarrow> OpResult option" where
  "decodeOpResult nfds m = Option.bind (checked (rd_text m ''kind'')) (\<lambda>kind.
     if kind = ''Identity'' then
       Option.bind (checked (rd_map m ''fields'')) (\<lambda>flds.
         map_option (\<lambda>groups. IdentityResult (emplaces_by string_less groups))
           (opt_entries (of_map decodeIdentityFieldsMap) flds))
     else if kind = ''Photo'' then
       Option.bind (checked (rd_array m ''photos'')) (\<lambda>photos.
         map_option PhotoResult (opt_map (of_map (decodePhotoItem nfds)) photos))
     else if kind = ''Certificates'' then
       Option.bind (checked (rd_array m ''certs'')) (\<lambda>certs.
         map_option CertListResult (opt_map (of_map decodeCertInfo) certs))
     else if kind = ''Sign'' then map_option SignResultArm (decodeSignResultFields nfds m)
     else if kind = ''SignBatch'' then
       Option.bind (checked (rd_array m ''rows'')) (\<lambda>rowsArr.
         map_option SignBatchResult (opt_map (of_map (decodeSignBatchRow nfds)) rowsArr))
     else if kind = ''Credentials'' then
       Option.bind (checked (do {
         resultMap \<leftarrow> rd_map m ''result'';
         records \<leftarrow> rd_array m ''records'';
         State_Monad.return (resultMap, records)
       })) (\<lambda>(resultMap, records).
         Option.bind (decodeCredOpResult resultMap) (\<lambda>res.
         Option.bind (opt_map (of_map decodeCredentialRecord) records) (\<lambda>recs.
           Some (CredentialsResult res recs))))
     else None)"

definition decodeReaderAdded :: "cbor_map \<Rightarrow> Event option" where
  "decodeReaderAdded m = Option.bind (checked (rd_map m ''reader'')) (\<lambda>readerMap.
     map_option ReaderAdded (decodeReaderState readerMap))"

definition decodeReaderRemoved :: "cbor_map \<Rightarrow> Event option" where
  "decodeReaderRemoved m = map_option ReaderRemoved (checked (rd_text m ''handle''))"

definition decodeCardAdded :: "cbor_map \<Rightarrow> Event option" where
  "decodeCardAdded m = Option.bind (checked (rd_map m ''card'')) (\<lambda>cardMap.
     map_option CardAdded (decodeCardState cardMap))"

definition decodeCardRemoved :: "cbor_map \<Rightarrow> Event option" where
  "decodeCardRemoved m = map_option CardRemoved (checked (rd_text m ''handle''))"

definition decodePropertyChanged :: "cbor_map \<Rightarrow> Event option" where
  "decodePropertyChanged m = checked (do {
     handle \<leftarrow> rd_text m ''handle'';
     iface \<leftarrow> rd_text m ''iface'';
     props \<leftarrow> rd_map m ''props'';
     State_Monad.return (PropertyChanged handle iface (emplaces_by string_less props))
   })"

definition decodeConfigChanged :: "cbor_map \<Rightarrow> Event option" where
  "decodeConfigChanged m = map_option ConfigChanged (checked (rd_text m ''key''))"

definition decodeOpProgress :: "cbor_map \<Rightarrow> Event option" where
  "decodeOpProgress m = Option.bind (checked (do {
     op \<leftarrow> rd_uint m ''op'';
     phaseRaw \<leftarrow> rd_uint m ''phase'';
     State_Monad.return (op, phaseRaw)
   })) (\<lambda>(op, phaseRaw). map_option (OpProgress op) (decodeOperationPhase phaseRaw))"

definition decodeOpIdentityGroup :: "cbor_map \<Rightarrow> Event option" where
  "decodeOpIdentityGroup m = Option.bind (checked (do {
     op \<leftarrow> rd_uint m ''op'';
     groupKey \<leftarrow> rd_text m ''groupKey'';
     flds \<leftarrow> rd_map m ''fields'';
     State_Monad.return (op, groupKey, flds)
   })) (\<lambda>(op, groupKey, flds). map_option (OpIdentityGroup op groupKey) (decodeIdentityFieldsMap flds))"

definition decodeOpResultReady :: "nat \<Rightarrow> cbor_map \<Rightarrow> Event option" where
  "decodeOpResultReady nfds m = Option.bind (checked (do {
     op \<leftarrow> rd_uint m ''op'';
     resultMap \<leftarrow> rd_map m ''result'';
     State_Monad.return (op, resultMap)
   })) (\<lambda>(op, resultMap). map_option (OpResultReady op) (decodeOpResult nfds resultMap))"

definition decodeOpFinished :: "cbor_map \<Rightarrow> Event option" where
  "decodeOpFinished m = Option.bind (checked (do {
     op \<leftarrow> rd_uint m ''op'';
     statusRaw \<leftarrow> rd_uint m ''status'';
     codeRaw \<leftarrow> rd_uint m ''code'';
     msgKey \<leftarrow> rd_text m ''msgKey'';
     msgFallback \<leftarrow> rd_text m ''msgFallback'';
     State_Monad.return (op, statusRaw, codeRaw, msgKey, msgFallback)
   })) (\<lambda>(op, statusRaw, codeRaw, msgKey, msgFallback).
     Option.bind (decodeOperationStatus statusRaw) (\<lambda>status.
     Option.bind (decodeErrorCode codeRaw) (\<lambda>code.
       Some (OpFinished op status code msgKey msgFallback))))"

definition decodeAgentQuiesced :: "cbor_map \<Rightarrow> Event option" where
  "decodeAgentQuiesced m = Option.bind (checked (rd_uint m ''reason'')) (\<lambda>raw.
     map_option AgentQuiesced (decodeQuiesceReason raw))"

section \<open>Dispatch\<close>

text \<open>The reply arms are told apart by the keys present, in the order the code tries them.\<close>

definition replyByKind :: "cbor_map \<Rightarrow> CborValue \<Rightarrow> Reply option" where
  "replyByKind m kindVal =
     (if asText kindVal = Some ''HelloAck'' then decodeHelloAck m
      else if asText kindVal = Some ''Layout'' then decodeLayoutReply m
      else if asText kindVal = Some ''CscaAnchorState'' then decodeCscaAnchorStateReply m
      else None)"

definition replyByKey :: "nat \<Rightarrow> cbor_map \<Rightarrow> ReplyPayload option" where
  "replyByKey nfds m =
     (if has m ''op'' then map_option KnownReply (decodeOpStarted m)
      else if has m ''fd'' then map_option KnownReply (decodeAppearanceFontReply nfds m)
      else if has m ''readers'' \<and> has m ''cards'' then map_option KnownReply (decodeStateReply m)
      else if has m ''certs'' then map_option KnownReply (decodeCertListReply m)
      else if has m ''der'' then map_option KnownReply (decodeCertDerReply m)
      else if has m ''kty'' then map_option KnownReply (decodePublicKeyReply m)
      else if has m ''entries'' then map_option KnownReply (decodeConfigReply m)
      else if has m ''ok'' then map_option KnownReply (decodeAckReply m)
      else if has m ''active'' then map_option KnownReply (decodeLoginStateReply m)
      else if has m ''sig'' then map_option KnownReply (decodeRawSignatureReply m)
      else if has m ''z'' then map_option KnownReply (decodeDerivedSecretReply m)
      else (case map_of m ''result'' of
              Some resultVal \<Rightarrow>
                map_option (\<lambda>s. KnownReply (SignRecoveryReply s))
                  (of_map (decodeSignResultFields nfds) resultVal)
            | None \<Rightarrow> Some UnknownReply))"

definition parseReplyValue :: "nat \<Rightarrow> CborValue \<Rightarrow> DecodedReply option" where
  "parseReplyValue nfds v = Option.bind (asMap v) (\<lambda>m.
     Option.bind (checked (do {
       tag \<leftarrow> rd_text m ''t'';
       reqId \<leftarrow> rd_uint m ''req'';
       State_Monad.return (tag, reqId)
     })) (\<lambda>(tag, reqId).
       if tag \<noteq> ''Reply'' then None
       else map_option (\<lambda>p. \<lparr>dr_requestId = reqId, dr_reply = p\<rparr>)
         (case map_of m ''err'' of
            Some errVal \<Rightarrow> map_option (\<lambda>e. KnownReply (ErrorReply e)) (of_map decodeErrInfo errVal)
          | None \<Rightarrow>
              (case map_of m ''kind'' of
                 Some kindVal \<Rightarrow> map_option KnownReply (replyByKind m kindVal)
               | None \<Rightarrow> replyByKey nfds m))))"

definition parseReply :: "'c qcbor \<Rightarrow> bytes \<Rightarrow> nat \<Rightarrow> DecodedReply option" where
  "parseReply q body nfds =
     (case decode q body of Inl e \<Rightarrow> None | Inr v \<Rightarrow> parseReplyValue nfds v)"

definition parseEventValue :: "nat \<Rightarrow> CborValue \<Rightarrow> DecodedEvent option" where
  "parseEventValue nfds v = Option.bind (asMap v) (\<lambda>m.
     Option.bind (checked (rd_text m ''t'')) (\<lambda>tag.
       if tag = ''ReaderAdded'' then map_option KnownEvent (decodeReaderAdded m)
       else if tag = ''ReaderRemoved'' then map_option KnownEvent (decodeReaderRemoved m)
       else if tag = ''CardAdded'' then map_option KnownEvent (decodeCardAdded m)
       else if tag = ''CardRemoved'' then map_option KnownEvent (decodeCardRemoved m)
       else if tag = ''PropertyChanged'' then map_option KnownEvent (decodePropertyChanged m)
       else if tag = ''ConfigChanged'' then map_option KnownEvent (decodeConfigChanged m)
       else if tag = ''OpProgress'' then map_option KnownEvent (decodeOpProgress m)
       else if tag = ''OpIdentityGroup'' then map_option KnownEvent (decodeOpIdentityGroup m)
       else if tag = ''OpResultReady'' then map_option KnownEvent (decodeOpResultReady nfds m)
       else if tag = ''OpFinished'' then map_option KnownEvent (decodeOpFinished m)
       else if tag = ''AgentQuiesced'' then map_option KnownEvent (decodeAgentQuiesced m)
       else Some UnknownEvent))"

definition parseEvent :: "'c qcbor \<Rightarrow> bytes \<Rightarrow> nat \<Rightarrow> DecodedEvent option" where
  "parseEvent q body nfds =
     (case decode q body of Inl e \<Rightarrow> None | Inr v \<Rightarrow> parseEventValue nfds v)"

end
