(* ===== verification/ClientLaws.thy ===== *)
theory ClientLaws
  imports ClientCodec
begin

text \<open>
  The client decoders invert the agent encoders. One locale states what an element codec promises
  and carries its law to arrays and to string-keyed maps; every struct that travels inside an
  array or a map interprets it.
\<close>

section \<open>Codecs\<close>

locale wire_codec =
  fixes enc :: "'a \<Rightarrow> CborValue" and dec :: "CborValue \<Rightarrow> 'a option" and ok :: "'a \<Rightarrow> bool"
  assumes dec_enc: "ok x \<Longrightarrow> dec (enc x) = Some x"
begin

lemma dec_list: "list_all ok xs \<Longrightarrow> opt_map dec (map enc xs) = Some xs"
  by (rule opt_map_map) (simp add: list_all_iff dec_enc)

lemma dec_cells:
  assumes "sorted_keys string_less m" and "list_all (\<lambda>(k, x). ok x) m"
  shows "map_option (emplaces_by string_less)
           (opt_entries dec (emplaces (map (\<lambda>(k, x). (k, enc x)) m))) = Some m"
proof -
  let ?e = "emplaces (map (\<lambda>(k, x). (k, enc x)) m)"
  have dm: "map_of (map (\<lambda>(k, x). (k, enc x)) m) k = map_option enc (map_of m k)" for k
    by (simp add: map_of_map)
  have okv: "map_of m k = Some x \<Longrightarrow> ok x" for k x
    using assms(2) map_of_SomeD[of m k x] by (fastforce simp: list_all_iff)
  have "dec v \<noteq> None" if "(k, v) \<in> set ?e" for k v
    using that set_emplaces_by[of CanonicalKeyLess "map (\<lambda>(k, x). (k, enc x)) m"] assms(2)
    by (fastforce simp: list_all_iff dec_enc)
  then obtain m' where m': "opt_entries dec ?e = Some m'"
    using opt_entries_total[of ?e dec] by blast
  have "map_of m' = map_of m"
  proof (rule ext)
    fix k
    show "map_of m' k = map_of m k"
      using opt_entries_map_of[OF m', of k] by (cases "map_of m k") (simp_all add: dm dec_enc okv)
  qed
  then show ?thesis using m' strmap.emplaces_of_same_map[OF assms(1)] by simp
qed

end

section \<open>Reading fields back\<close>

declare map_of_append [simp del]

lemma case_option_pair [simp]: "(case x of None \<Rightarrow> (None, ok) | Some v \<Rightarrow> (Some v, ok)) = (x, ok)"
  by (cases x) simp_all

lemma asUInt_of_int [simp]: "asUInt (cbor_of_int i) = Some (scast i)"
  by (simp add: cbor_of_int_def)

text \<open>The counters of a credential are C++ \<^verbatim>\<open>int\<close>s that the wire carries as unsigned numbers.\<close>

definition int_ok :: "cint option \<Rightarrow> bool" where
  "int_ok x \<longleftrightarrow> (case x of None \<Rightarrow> True | Some i \<Rightarrow> 0 \<le> sint i)"

lemma run_optInt:
  "run_state (rd_optInt m k) ok =
     (case map_of m k of
        None \<Rightarrow> (None, ok)
      | Some v \<Rightarrow> (case asUInt v of None \<Rightarrow> (None, False)
          | Some u \<Rightarrow> if 0x7FFFFFFF < u then (None, False) else (Some (ucast u), ok)))"
  by (simp add: rd_optInt_def rd_optUint_def optional_def split: option.splits)

lemma int_ok_read [simp]:
  "int_ok x \<Longrightarrow>
   (case x of None \<Rightarrow> (None, ok)
    | Some i \<Rightarrow> if 0x7FFFFFFF < (scast i :: u64) then (None, False)
      else (Some (ucast (scast i :: u64)), ok)) = (x, ok)"
  by (cases x) (auto simp: int_ok_def scast_bound[symmetric] ucast_scast)

lemma run_u32:
  "map_of m k = Some (cbor_uint (ucast c)) \<Longrightarrow> run_state (rd_u32 m k) ok = (c, ok)"
  by (simp add: rd_u32_def rd_uint_def required_def leD[OF ucast32_le])

lemma of_map_CMap [simp]: "of_map dec (CMap m) = dec m"
  by (simp add: of_map_def)

lemmas rd_simps [wire_simps] =
  checked_def rd_text_def rd_optText_def rd_uint_def rd_optUint_def rd_optInt64_def rd_boolean_def
  rd_optBool_def rd_doubleField_def rd_bytes_def rd_map_def rd_array_def required_def optional_def
  run_u32 run_optInt

lemma decode_widths [simp]:
  "decodeErrorCode (ucast c) = Some c" "decodeOperationPhase (ucast c) = Some c"
  "decodeOperationStatus (ucast c) = Some c" "decodePreReadAuth (ucast b) = Some b"
  "decodeQuiesceReason (ucast b) = Some b"
  by (simp_all add: decodeErrorCode_def decodeOperationPhase_def decodeOperationStatus_def
      decodePreReadAuth_def decodeQuiesceReason_def leD[OF ucast32_le] leD[OF ucast8_le])

lemma textArray_map [simp]: "textArray (map CText xs) = Some xs"
  by (simp add: textArray_def opt_map_map)

section \<open>Element codecs\<close>

text \<open>What the encoders lose: the interface of a reader with no model.\<close>

definition reader_ok :: "ReaderState \<Rightarrow> bool" where
  "reader_ok r \<longleftrightarrow> (rs_model r = [] \<longrightarrow> rs_iface r = RI_Unknown)"

interpretation reader_codec: wire_codec encodeReaderState "of_map decodeReaderState" reader_ok
  by unfold_locales
     (auto simp: reader_ok_def encodeReaderState_def decodeReaderState_def wire_simps
       cong: option.case_cong)

interpretation card_codec: wire_codec encodeCardState "of_map decodeCardState" "\<lambda>_. True"
  by unfold_locales
     (simp add: encodeCardState_def decodeCardState_def wire_simps cong: option.case_cong)

interpretation certField_codec: wire_codec encodeCertField "\<lambda>v. Option.bind (asArray v) decodeCertField" "\<lambda>_. True"
  by unfold_locales (simp add: encodeCertField_def decodeCertField_def)

definition cells_sorted :: "(string \<times> 'a) list \<Rightarrow> bool" where
  "cells_sorted cells \<longleftrightarrow> sorted_keys string_less cells"

interpretation certGroup_codec: wire_codec
    "\<lambda>cells. CMap (emplaces (map (\<lambda>(key, cell). (key, encodeCertField cell)) cells))"
    "of_map decodeCertGroup" cells_sorted
  by unfold_locales
     (simp add: decodeCertGroup_def cells_sorted_def certField_codec.dec_cells list_all_iff)

definition groups_sorted :: "(string \<times> (string \<times> 'a) list) list \<Rightarrow> bool" where
  "groups_sorted groups \<longleftrightarrow> sorted_keys string_less groups \<and> list_all (\<lambda>(k, cells). cells_sorted cells) groups"

lemma decodeCertFields_encode:
  "groups_sorted g \<Longrightarrow> decodeCertFields (emplaces (map (\<lambda>(group, cells).
     (group, CMap (emplaces (map (\<lambda>(key, cell). (key, encodeCertField cell)) cells)))) g)) = Some g"
  unfolding decodeCertFields_def groups_sorted_def by (rule certGroup_codec.dec_cells) simp_all

definition cert_ok :: "CertInfo \<Rightarrow> bool" where
  "cert_ok ci \<longleftrightarrow> ci_keyId ci \<noteq> [] \<and> groups_sorted (ci_fields ci)"

interpretation cert_codec: wire_codec encodeCertInfo "of_map decodeCertInfo" cert_ok
  by unfold_locales
     (simp add: cert_ok_def encodeCertInfo_def decodeCertInfo_def decodeCertFields_encode arrOfText_def
       wire_simps)

interpretation signMeta_codec: wire_codec encodeSignMeta "of_map decodeSignMeta" "\<lambda>_. True"
  by unfold_locales (simp add: encodeSignMeta_def decodeSignMeta_def wire_simps)



lemma decodeSignMeta_encode [simp]:
  "\<exists>m. encodeSignMeta s = CMap m \<and> decodeSignMeta m = Some s"
  using signMeta_codec.dec_enc[of s] by (simp add: encodeSignMeta_def)







lemma decodeCredOutcome_token:
  "decodeCredOutcome (credOutcomeToken oc) = (if oc = CO_EntryExpired then CO_Unspecified else oc)"
  by (cases oc) (simp_all add: decodeCredOutcome_def)



section \<open>Results, replies and events\<close>

lemma map_of_merge [wire_simps]:
  "map_of (fold (\<lambda>(k, v) m. emplace_by lt k v m) kvs m) k = or_else (map_of m k) (map_of kvs k)"
  by (simp add: map_of_fold_emplace or_else_def)


lemma decodeSignResultFields_encode:
  assumes "unat (sr_artifact s) < nfds"
  shows "of_map (decodeSignResultFields nfds) (encodeOpResult (SignResultArm s)) = Some s"
proof -
  obtain m where "encodeSignMeta (sr_meta s) = CMap m" "decodeSignMeta m = Some (sr_meta s)"
    using decodeSignMeta_encode by blast
  then show ?thesis
    using assms by (simp add: decodeSignResultFields_def not_le wire_simps)
qed




fun reply_ok :: "nat \<Rightarrow> Reply \<Rightarrow> bool" where
  "reply_ok nfds (StateReply readers cards) = list_all reader_ok readers"
| "reply_ok nfds (CertListReply certs) = list_all cert_ok certs"
| "reply_ok nfds (PublicKeyReplyArm (EcPublicKey crv x y)) =
     (case nistCurveByName crv of None \<Rightarrow> False
      | Some c \<Rightarrow> length x = nc_fieldBytes c \<and> length y = nc_fieldBytes c)"
| "reply_ok nfds (ConfigReply entries) = sorted_keys string_less entries"
| "reply_ok nfds (AppearanceFontReply fd) = (unat fd < nfds)"
| "reply_ok nfds (SignRecoveryReply s) = (unat (sr_artifact s) < nfds)"
| "reply_ok nfds _ = True"

lemma decodeErrInfo_encode: "of_map decodeErrInfo (encodeErrInfo e) = Some e"
  by (cases "ei_code e")
     (simp_all add: encodeErrInfo_def decodeErrInfo_def has_def wire_simps cong: option.case_cong)

lemmas reply_decoders =
  parseReplyValue_def replyByKind_def replyByKey_def has_def decodeHelloAck_def decodeOpStarted_def
  decodeStateReply_def decodeCertListReply_def decodeCertDerReply_def decodePublicKeyReply_def
  decodeConfigReply_def decodeAckReply_def decodeLoginStateReply_def decodeRawSignatureReply_def
  decodeDerivedSecretReply_def decodeLayoutReply_def decodeAppearanceFontReply_def
  decodeCscaAnchorStateReply_def

lemma parseReplyValue_makeReply:
  assumes "reply_ok nfds r"
  shows "parseReplyValue nfds (makeReply req r) = Some \<lparr>dr_requestId = req, dr_reply = KnownReply r\<rparr>"
  using assms
proof (cases r rule: replyArm.cases)
  case (7 crv x y)
  with assms obtain c where "nistCurveByName crv = Some c" "length x = nc_fieldBytes c"
    "length y = nc_fieldBytes c" by (auto split: option.splits)
  with 7 show ?thesis
    by (simp add: makeReply_def makeReplyBase_def mergeInto_def reply_decoders wire_simps)
next
  case (15 a)
  then show ?thesis
    by (simp add: makeReply_def makeReplyBase_def mergeInto_def encodeCscaAnchorState_def reply_decoders
        wire_simps cong: option.case_cong)
next
  case (16 s)
  then show ?thesis using assms decodeSignResultFields_encode[of s nfds]
    by (simp add: makeReply_def makeReplyBase_def mergeInto_def reply_decoders wire_simps
        del: encodeOpResult.simps)
qed (simp_all add: makeReply_def makeReplyBase_def mergeInto_def reply_decoders arrOfText_def
      reader_codec.dec_list card_codec.dec_list cert_codec.dec_list decodeErrInfo_encode
      strmap.emplaces_of_same_map not_le list_all_iff[of "\<lambda>_. True"] wire_simps)


lemmas event_decoders =
  parseEventValue_def decodeReaderAdded_def decodeReaderRemoved_def decodeCardAdded_def
  decodeCardRemoved_def decodePropertyChanged_def decodeConfigChanged_def decodeOpProgress_def
  decodeOpIdentityGroup_def decodeOpResultReady_def decodeOpFinished_def decodeAgentQuiesced_def



section \<open>Descriptors\<close>

text \<open>The descriptor indices a decoded result refers to.\<close>

fun opResult_fds :: "OpResult \<Rightarrow> u64 list" where
  "opResult_fds (PhotoResult photos) = map ph_fd photos"
| "opResult_fds (SignResultArm s) = [sr_artifact s]"
| "opResult_fds (SignBatchResult rows) = map br_artifact rows"
| "opResult_fds _ = []"

fun payload_fds :: "ReplyPayload \<Rightarrow> u64 list" where
  "payload_fds (KnownReply (AppearanceFontReply fd)) = [fd]"
| "payload_fds (KnownReply (SignRecoveryReply s)) = [sr_artifact s]"
| "payload_fds _ = []"

fun event_fds :: "DecodedEvent \<Rightarrow> u64 list" where
  "event_fds (KnownEvent (OpResultReady op r)) = opResult_fds r"
| "event_fds _ = []"

lemma opt_map_all:
  "opt_map f xs = Some ys \<Longrightarrow> (\<And>x y. f x = Some y \<Longrightarrow> P y) \<Longrightarrow> list_all P ys"
  by (induction xs arbitrary: ys) (auto split: option.splits)

lemmas bind_Some_iff = Option.bind_eq_Some_conv

lemma row_in_range: "of_map (decodeSignBatchRow nfds) v = Some r \<Longrightarrow> unat (br_artifact r) < nfds"
  by (auto simp: of_map_def decodeSignBatchRow_def bind_Some_iff split: if_splits)

lemma photo_in_range: "of_map (decodePhotoItem nfds) v = Some p \<Longrightarrow> unat (ph_fd p) < nfds"
  by (auto simp: of_map_def decodePhotoItem_def bind_Some_iff split: if_splits)

lemma sign_in_range: "decodeSignResultFields nfds m = Some s \<Longrightarrow> unat (sr_artifact s) < nfds"
  by (auto simp: decodeSignResultFields_def bind_Some_iff split: if_splits)

lemma opResult_in_range:
  assumes "decodeOpResult nfds m = Some r"
  shows "list_all (\<lambda>fd. unat fd < nfds) (opResult_fds r)"
  using assms unfolding decodeOpResult_def
  by (auto simp: bind_Some_iff list.pred_map comp_def sign_in_range split: if_splits
      dest!: opt_map_all[where P = "\<lambda>r. unat (br_artifact r) < nfds", OF _ row_in_range]
        opt_map_all[where P = "\<lambda>p. unat (ph_fd p) < nfds", OF _ photo_in_range])

text \<open>Every other event and reply decoder yields a payload with no descriptor index in it.\<close>

lemma plain_events:
  "decodeReaderAdded m = Some e \<Longrightarrow> event_fds (KnownEvent e) = []"
  "decodeReaderRemoved m = Some e \<Longrightarrow> event_fds (KnownEvent e) = []"
  "decodeCardAdded m = Some e \<Longrightarrow> event_fds (KnownEvent e) = []"
  "decodeCardRemoved m = Some e \<Longrightarrow> event_fds (KnownEvent e) = []"
  "decodePropertyChanged m = Some e \<Longrightarrow> event_fds (KnownEvent e) = []"
  "decodeConfigChanged m = Some e \<Longrightarrow> event_fds (KnownEvent e) = []"
  "decodeOpProgress m = Some e \<Longrightarrow> event_fds (KnownEvent e) = []"
  "decodeOpIdentityGroup m = Some e \<Longrightarrow> event_fds (KnownEvent e) = []"
  "decodeOpFinished m = Some e \<Longrightarrow> event_fds (KnownEvent e) = []"
  "decodeAgentQuiesced m = Some e \<Longrightarrow> event_fds (KnownEvent e) = []"
proof -
  show "decodePropertyChanged m = Some e \<Longrightarrow> event_fds (KnownEvent e) = []"
    unfolding decodePropertyChanged_def
    by (auto simp: checked_def split: prod.split_asm if_split_asm)
qed (auto simp: event_decoders bind_Some_iff)

lemma opResultReady_in_range:
  "decodeOpResultReady nfds m = Some e \<Longrightarrow> list_all (\<lambda>fd. unat fd < nfds) (event_fds (KnownEvent e))"
  by (auto simp: decodeOpResultReady_def bind_Some_iff opResult_in_range)

lemma event_in_range:
  assumes "parseEventValue nfds v = Some e"
  shows "list_all (\<lambda>fd. unat fd < nfds) (event_fds e)"
proof -
  from assms obtain m tag where
    "(if tag = ''ReaderAdded'' then map_option KnownEvent (decodeReaderAdded m)
       else if tag = ''ReaderRemoved'' then map_option KnownEvent (decodeReaderRemoved m)
       else if tag = ''CardAdded'' then map_option KnownEvent (decodeCardAdded m)
       else if tag = ''CardRemoved'' then map_option KnownEvent (decodeCardRemoved m)
       else if tag = ''PropertyChanged'' then map_option KnownEvent (decodePropertyChanged m)
       else if tag = ''ConfigChanged'' then map_option KnownEvent (decodeConfigChanged m)
       else if tag = ''OpProgress'' then map_option KnownEvent (decodeOpProgress m)
       else if tag = ''OpIdentityGroup'' then map_option KnownEvent (decodeOpIdentityGroup m)
       else if tag = ''OpResultReady'' then map_option KnownEvent (decodeOpResultReady nfds m)
       else if tag = ''OpFinished'' then map_option KnownEvent (decodeOpFinished m)
       else if tag = ''AgentQuiesced'' then map_option KnownEvent (decodeAgentQuiesced m)
       else Some UnknownEvent) = Some e"
    unfolding parseEventValue_def bind_Some_iff by blast
  then show ?thesis
    by (simp only: split: if_split_asm)
       (clarsimp simp: plain_events opResultReady_in_range)+
qed

lemma plain_replies:
  "replyByKind m v = Some r \<Longrightarrow> payload_fds (KnownReply r) = []"
  "decodeOpStarted m = Some r \<Longrightarrow> payload_fds (KnownReply r) = []"
  "decodeStateReply m = Some r \<Longrightarrow> payload_fds (KnownReply r) = []"
  "decodeCertListReply m = Some r \<Longrightarrow> payload_fds (KnownReply r) = []"
  "decodeCertDerReply m = Some r \<Longrightarrow> payload_fds (KnownReply r) = []"
  "decodePublicKeyReply m = Some r \<Longrightarrow> payload_fds (KnownReply r) = []"
  "decodeConfigReply m = Some r \<Longrightarrow> payload_fds (KnownReply r) = []"
  "decodeAckReply m = Some r \<Longrightarrow> payload_fds (KnownReply r) = []"
  "decodeLoginStateReply m = Some r \<Longrightarrow> payload_fds (KnownReply r) = []"
  "decodeRawSignatureReply m = Some r \<Longrightarrow> payload_fds (KnownReply r) = []"
  "decodeDerivedSecretReply m = Some r \<Longrightarrow> payload_fds (KnownReply r) = []"
  by (auto simp: reply_decoders bind_Some_iff split: if_splits option.splits)

lemma appearanceFont_in_range:
  "decodeAppearanceFontReply nfds m = Some r \<Longrightarrow>
   list_all (\<lambda>fd. unat fd < nfds) (payload_fds (KnownReply r))"
  by (auto simp: decodeAppearanceFontReply_def bind_Some_iff split: if_splits)

lemma replyByKey_in_range:
  assumes "replyByKey nfds m = Some p"
  shows "list_all (\<lambda>fd. unat fd < nfds) (payload_fds p)"
  using assms unfolding replyByKey_def of_map_def
  by (simp only: split: if_split_asm option.split_asm)
     (clarsimp simp: plain_replies appearanceFont_in_range sign_in_range bind_Some_iff)+

lemma reply_in_range:
  assumes "parseReplyValue nfds v = Some d"
  shows "list_all (\<lambda>fd. unat fd < nfds) (payload_fds (dr_reply d))"
  using assms
  by (auto simp: parseReplyValue_def bind_Some_iff replyByKey_in_range plain_replies
      split: if_splits option.splits)

section \<open>Properties\<close>

text \<open>C27. Every reply the agent builds is decoded by the client as that reply with its request id, for
  each of the reply arms, although the arms carry no tag and are told apart by their keys. The
  conditions are those of the payload itself: descriptor indices within the frame's descriptors,
  certificates with a key id, curve points at their width, maps in key order.\<close>

theorem reply_roundtrip:
  assumes "reply_ok nfds r" and "reply_values_ok r"
    and "cbor_items (makeReply req r) \<le> kMaxCborItems" and "qcbor_faithful q (makeReply req r)"
  shows "parseReply q (encode q (makeReply req r)) nfds =
    Some \<lparr>dr_requestId = req, dr_reply = KnownReply r\<rparr>"
  using decode_encode[OF _ _ assms(3,4)] encodable_makeReply[OF assms(2), of req]
  by (simp add: parseReply_def parseReplyValue_makeReply[OF assms(1)] encodable_def)

definition sample_reply :: Reply where
  "sample_reply = StateReply
     [\<lparr>rs_handle = ''r0'', rs_name = ''Reader 0'', rs_hasCard = True, rs_card = Some ''c0'',
       rs_model = ''ACS'', rs_iface = RI_Contactless\<rparr>]
     [\<lparr>cs_handle = ''c0'', cs_reader = ''r0'', cs_caps = 7, cs_preAuth = 2, cs_cardType = Some ''eid'',
       cs_atr = None\<rparr>]"

lemmas sample_eval = emplaces_by_def emplace_by_def CanonicalKeyLess_def opt_kv_def kMaxCborItems_def

theorem reply_roundtrip_witness:
  "let q = tape_qcbor (makeReply 3 sample_reply) [0xa4]
   in parseReply q (encode q (makeReply 3 sample_reply)) 0 =
        Some \<lparr>dr_requestId = 3, dr_reply = KnownReply sample_reply\<rparr>"
  unfolding Let_def
proof (rule reply_roundtrip[OF _ _ _ tape_faithful])
  show "reply_ok 0 sample_reply" "reply_values_ok sample_reply"
    by (simp_all add: sample_reply_def reader_ok_def reply_values_ok_def)
  show "cbor_items (makeReply 3 sample_reply) \<le> kMaxCborItems"
    by (simp add: sample_reply_def makeReply_def makeReplyBase_def mergeInto_def encodeReaderState_def
        encodeCardState_def sample_eval)
qed




text \<open>No descriptor index the client hands on is out of range: whatever bytes arrive, every index
  in a decoded reply or event is below the number of descriptors that came with the frame.\<close>

theorem decoded_fds_in_range:
  "(case parseReply q body nfds of
      None \<Rightarrow> True | Some d \<Rightarrow> list_all (\<lambda>fd. unat fd < nfds) (payload_fds (dr_reply d))) \<and>
   (case parseEvent q body nfds of
      None \<Rightarrow> True | Some e \<Rightarrow> list_all (\<lambda>fd. unat fd < nfds) (event_fds e))"
  by (auto simp: parseReply_def parseEvent_def reply_in_range event_in_range
      split: option.splits sum.splits)

text \<open>The agent's answer that the holder's entry time ran out does not survive the wire: the
  token the agent writes for it is not one the client knows, and the client reads the outcome as
  unspecified. Every other outcome arrives as it was sent.\<close>

theorem entryExpired_is_lost:
  "of_map decodeCredOpResult (encodeCredResult
     \<lparr>co_outcome = outcome, co_retriesLeft = None, co_blocked = blocked\<rparr>) =
   Some \<lparr>co_outcome = (if outcome = CO_EntryExpired then CO_Unspecified else outcome),
         co_retriesLeft = None, co_blocked = blocked\<rparr>"
  by (simp add: encodeCredResult_def decodeCredOpResult_def decodeCredOutcome_token wire_simps)

end
