(* ===== verification/Framing.thy ===== *)
theory Framing
  imports Prelude
begin

text \<open>
  Frames on a stream socket (\<^verbatim>\<open>src/wire/Framing.cpp\<close>, \<^verbatim>\<open>src/wire/FdHarvest.h\<close>,
  \<^verbatim>\<open>src/wire/FrameReassembler.cpp\<close>): the length-prefixed encoding, the descriptor harvest with its
  clamp, the blocking sender and receiver and the non-blocking reassembler. The kernel is the
  sequence of what its calls will answer: a list of \<open>KernelMsg\<close> for \<^verbatim>\<open>recvmsg\<close>, a list of
  \<open>SendOutcome\<close> for \<^verbatim>\<open>sendmsg\<close> and \<^verbatim>\<open>send\<close>. A descriptor is its number.
\<close>

unbundle bit_operations_syntax

type_synonym fd = int

definition kFrameHeaderBytes :: nat where "kFrameHeaderBytes = 8"
definition kMaxFrameBytes :: nat where "kMaxFrameBytes = 2 ^ 20"
definition kMaxFrameFds :: nat where "kMaxFrameFds = 16"
definition kMaxPendingFds :: nat where "kMaxPendingFds = 2 * kMaxFrameFds"
definition kMaxBufferBytes :: nat where "kMaxBufferBytes = kFrameHeaderBytes + kMaxFrameBytes"

lemmas frame_limits = kFrameHeaderBytes_def kMaxFrameBytes_def kMaxFrameFds_def kMaxPendingFds_def
  kMaxBufferBytes_def

datatype FrameError = PeerClosed | Oversize | Io | TooManyFds | FdMismatch | WouldBlock

record Frame =
  fr_body :: bytes
  fr_fds :: "fd list"

section \<open>The length prefix\<close>

definition putU32Le :: "u32 \<Rightarrow> bytes" where
  "putU32Le v =
     [ucast (v AND 0xFF), ucast (drop_bit 8 v AND 0xFF), ucast (drop_bit 16 v AND 0xFF),
      ucast (drop_bit 24 v AND 0xFF)]"

text \<open>\<^verbatim>\<open>getU32Le(p)\<close>; both callers have checked that the header is there.\<close>

definition getU32Le :: "bytes \<Rightarrow> u32" where
  "getU32Le p = ucast (p ! 0) OR push_bit 8 (ucast (p ! 1)) OR push_bit 16 (ucast (p ! 2)) OR
     push_bit 24 (ucast (p ! 3))"

definition encodeFrame :: "bytes \<Rightarrow> u32 \<Rightarrow> bytes" where
  "encodeFrame body fdCount = putU32Le (of_nat (length body)) @ putU32Le fdCount @ body"

section \<open>The kernel\<close>

datatype errno = EINTR | EAGAIN | EINVAL | EOTHER

definition isWouldBlock :: "errno \<Rightarrow> bool" where
  "isWouldBlock err = (err = EAGAIN)"

text \<open>
  A control message as it sits in the control buffer: whether it is \<^verbatim>\<open>SCM_RIGHTS\<close>, the length its
  header claims, where its data starts, and the integers stored from there on.
\<close>

record cmsghdr =
  cmsg_rights :: bool
  cmsg_len :: u64
  cmsg_data :: u64
  cmsg_ints :: "fd list"

text \<open>
  One answer of \<^verbatim>\<open>recvmsg\<close>: bytes with the control messages, the delivered control length and the
  truncation flag, an end of file, or an error.
\<close>

datatype KernelMsg =
    KData bytes "cmsghdr list" u64 bool
  | KEof
  | KErr errno

definition CMSG_LEN0 :: u64 where "CMSG_LEN0 = 16"

text \<open>\<^verbatim>\<open>deliveredFdBytes\<close>; \<open>has_control\<close> is that neither pointer is null.\<close>

definition deliveredFdBytes :: "bool \<Rightarrow> u64 \<Rightarrow> cmsghdr \<Rightarrow> u64" where
  "deliveredFdBytes has_control controllen c =
     (if \<not> has_control then 0
      else if cmsg_len c < CMSG_LEN0 then 0
      else if cmsg_data c > controllen then 0
      else min (cmsg_len c - CMSG_LEN0) (controllen - cmsg_data c))"

record FdRecvResult =
  rr_bytes :: int
  rr_data :: bytes
  rr_errno :: errno
  rr_ancillaryTruncated :: bool
  rr_fds :: "fd list"

definition harvest :: "u64 \<Rightarrow> cmsghdr list \<Rightarrow> fd list" where
  "harvest controllen cs =
     concat (map (\<lambda>c. if cmsg_rights c then take (unat (deliveredFdBytes True controllen c) div 4) (cmsg_ints c)
                      else []) cs)"

text \<open>
  \<^verbatim>\<open>receiveWithFds\<close> reading at most \<open>n\<close> bytes: a longer run of bytes leaves its rest, without
  control messages, for the next call. A drained socket answers \<^verbatim>\<open>EAGAIN\<close>.
\<close>

fun receiveWithFds :: "nat \<Rightarrow> KernelMsg list \<Rightarrow> FdRecvResult \<times> KernelMsg list" where
  "receiveWithFds n [] =
     (\<lparr>rr_bytes = -1, rr_data = [], rr_errno = EAGAIN, rr_ancillaryTruncated = False, rr_fds = []\<rparr>, [])"
| "receiveWithFds n (KEof # ks) =
     (\<lparr>rr_bytes = 0, rr_data = [], rr_errno = EOTHER, rr_ancillaryTruncated = False, rr_fds = []\<rparr>, ks)"
| "receiveWithFds n (KErr e # ks) =
     (\<lparr>rr_bytes = -1, rr_data = [], rr_errno = e, rr_ancillaryTruncated = False, rr_fds = []\<rparr>, ks)"
| "receiveWithFds n (KData bs cs controllen ctrunc # ks) =
     (if take n bs = [] then
        (\<lparr>rr_bytes = 0, rr_data = [], rr_errno = EOTHER, rr_ancillaryTruncated = False, rr_fds = []\<rparr>, ks)
      else
        (\<lparr>rr_bytes = int (length (take n bs)), rr_data = take n bs, rr_errno = EOTHER,
          rr_ancillaryTruncated = ctrunc, rr_fds = harvest controllen cs\<rparr>,
         (if drop n bs = [] then ks else KData (drop n bs) [] 0 False # ks)))"

text \<open>What is left to read, for termination of the loops.\<close>

fun kmsg_size :: "KernelMsg \<Rightarrow> nat" where
  "kmsg_size (KData bs cs l t) = Suc (length bs)"
| "kmsg_size _ = 1"

definition ksize :: "KernelMsg list \<Rightarrow> nat" where
  "ksize ks = sum_list (map kmsg_size ks)"

lemma receive_shrinks:
  "receiveWithFds n ks = (r, ks') \<Longrightarrow> 0 < n \<Longrightarrow> ks \<noteq> [] \<Longrightarrow> ksize ks' < ksize ks"
  by (cases "(n, ks)" rule: receiveWithFds.cases) (auto simp: ksize_def split: if_splits)

section \<open>The blocking receiver\<close>

text \<open>\<^verbatim>\<open>recvExact\<close>: the bytes read so far, the descriptors so far, and the kernel's later answers.\<close>

function recvExact ::
  "nat \<Rightarrow> bytes \<Rightarrow> fd list \<Rightarrow> KernelMsg list \<Rightarrow> (FrameError + bytes) \<times> fd list \<times> KernelMsg list"
where
  "recvExact n got outFds ks =
     (if length got < n then
        (case receiveWithFds (n - length got) ks of (r, ks') \<Rightarrow>
           if rr_bytes r = 0 then (Inl PeerClosed, outFds, ks')
           else if rr_bytes r < 0 then
             (if rr_errno r = EINTR then recvExact n got outFds ks'
              else (Inl (if isWouldBlock (rr_errno r) then WouldBlock else Io), outFds, ks'))
           else
             (let outFds' = outFds @ take (kMaxFrameFds - length outFds) (rr_fds r)
              in if rr_ancillaryTruncated r then (Inl Io, outFds', ks')
                 else recvExact n (got @ rr_data r) outFds' ks'))
      else (Inr got, outFds, ks))"
  by pat_completeness auto
termination
proof (relation "measure (\<lambda>(n, got, outFds, ks). ksize ks)", goal_cases)
  case (2 n got outFds ks r ks')
  then have "ks \<noteq> []" by auto
  with 2 show ?case using receive_shrinks[of "n - length got" ks r ks'] by simp
next
  case (3 n got outFds ks r ks' outFds')
  then have "ks \<noteq> []" by auto
  with 3 show ?case using receive_shrinks[of "n - length got" ks r ks'] by simp
qed simp

declare recvExact.simps [simp del]

definition recvFrame :: "KernelMsg list \<Rightarrow> (FrameError + Frame) \<times> KernelMsg list" where
  "recvFrame ks =
     (case recvExact kFrameHeaderBytes [] [] ks of
        (Inl err, _, ks1) \<Rightarrow> (Inl err, ks1)
      | (Inr header, fds1, ks1) \<Rightarrow>
          (let len = getU32Le header; fdCount = getU32Le (drop 4 header)
           in if unat len > kMaxFrameBytes then (Inl Oversize, ks1)
              else if unat fdCount > kMaxFrameFds then (Inl TooManyFds, ks1)
              else
                (case (if unat len > 0 then recvExact (unat len) [] fds1 ks1 else (Inr [], fds1, ks1)) of
                   (Inl err, _, ks2) \<Rightarrow> (Inl err, ks2)
                 | (Inr body, fds2, ks2) \<Rightarrow>
                     if length fds2 \<noteq> unat fdCount then (Inl FdMismatch, ks2)
                     else (Inr \<lparr>fr_body = body, fr_fds = fds2\<rparr>, ks2))))"

section \<open>The blocking sender\<close>

text \<open>One answer of \<^verbatim>\<open>sendmsg\<close> or \<^verbatim>\<open>send\<close>: how many bytes it takes, or the error.\<close>

datatype SendOutcome = Sent nat | SendErr errno

text \<open>
  The write loop of \<^verbatim>\<open>sendFrame\<close>. The second component is what went out: runs of bytes with the
  descriptors attached to the first byte. \<open>None\<close> is a call that never comes back.
\<close>

fun sendLoop ::
  "bytes \<Rightarrow> nat \<Rightarrow> bool \<Rightarrow> fd list \<Rightarrow> SendOutcome list \<Rightarrow> (FrameError + unit) option \<times> (bytes \<times> fd list) list"
where
  "sendLoop framed sent ancillarySent passFds os =
     (if sent < length framed then
        (case os of
           [] \<Rightarrow> (None, [])
         | SendErr e # os' \<Rightarrow>
             if e = EINTR then sendLoop framed sent ancillarySent passFds os'
             else (Some (Inl Io), [])
         | Sent w # os' \<Rightarrow>
             (let w' = min w (length framed - sent);
                  seg = (take w' (drop sent framed), if ancillarySent then [] else passFds)
              in (case sendLoop framed (sent + w') True passFds os' of
                    (res, segs) \<Rightarrow> (res, seg # segs))))
      else (Some (Inr ()), []))"

declare sendLoop.simps [simp del]

definition sendFrame ::
  "bytes \<Rightarrow> fd list \<Rightarrow> SendOutcome list \<Rightarrow> (FrameError + unit) option \<times> (bytes \<times> fd list) list"
where
  "sendFrame body passFds os =
     (if length body > kMaxFrameBytes then (Some (Inl Oversize), [])
      else if length passFds > kMaxFrameFds then (Some (Inl TooManyFds), [])
      else sendLoop (encodeFrame body (of_nat (length passFds))) 0 False passFds os)"

section \<open>The reassembler\<close>

datatype PumpStatus = PumpOk | PumpPeerClosed | PumpError

record PumpResult =
  pr_frames :: "Frame list"
  pr_status :: PumpStatus
  pr_error :: FrameError

record FrameReassembler =
  m_buffer :: bytes
  m_fds :: "fd list"

text \<open>The read loop of \<^verbatim>\<open>pump\<close>.\<close>

function pumpLoop ::
  "FrameReassembler \<Rightarrow> KernelMsg list \<Rightarrow> (PumpStatus \<times> FrameError) \<times> FrameReassembler \<times> KernelMsg list"
where
  "pumpLoop st ks =
     (case receiveWithFds 4096 ks of (got, ks') \<Rightarrow>
        if rr_bytes got = 0 then ((PumpPeerClosed, Io), st, ks')
        else if rr_bytes got < 0 then
          (if rr_errno got = EINTR then pumpLoop st ks'
           else if isWouldBlock (rr_errno got) then ((PumpOk, Io), st, ks')
           else ((PumpError, Io), st, ks'))
        else
          (let st1 = st\<lparr>m_fds := m_fds st @ rr_fds got\<rparr>
           in if rr_ancillaryTruncated got then ((PumpError, Io), st1, ks')
              else if length (m_fds st1) > kMaxPendingFds then ((PumpError, TooManyFds), st1, ks')
              else
                (let st2 = st1\<lparr>m_buffer := m_buffer st1 @ rr_data got\<rparr>
                 in if length (m_buffer st2) > kMaxBufferBytes then ((PumpError, Oversize), st2, ks')
                    else pumpLoop st2 ks')))"
  by pat_completeness auto
termination
proof (relation "measure (\<lambda>(st, ks). ksize ks)", goal_cases)
  case (2 st ks got ks')
  then have "ks \<noteq> []" by auto
  with 2 show ?case using receive_shrinks[of 4096 ks got ks'] by simp
next
  case (3 st ks got ks' st1 st2)
  then have "ks \<noteq> []" by auto
  with 3 show ?case using receive_shrinks[of 4096 ks got ks'] by simp
qed simp

declare pumpLoop.simps [simp del]

text \<open>
  \<^verbatim>\<open>extract\<close>: \<open>buf\<close> is the buffer from \<^verbatim>\<open>pos\<close> on. Returns the frames, the error if there is one, and
  what remains of the buffer and of the descriptor queue.
\<close>

function extractLoop :: "bytes \<Rightarrow> fd list \<Rightarrow> Frame list \<times> FrameError option \<times> bytes \<times> fd list" where
  "extractLoop buf fds =
     (if length buf < kFrameHeaderBytes then ([], None, buf, fds)
      else
        (let bodyLen = unat (getU32Le buf); fdCount = unat (getU32Le (drop 4 buf))
         in if bodyLen > kMaxFrameBytes then ([], Some Oversize, buf, fds)
            else if fdCount > kMaxFrameFds then ([], Some TooManyFds, buf, fds)
            else if length buf < kFrameHeaderBytes + bodyLen then ([], None, buf, fds)
            else if length fds < fdCount then ([], Some FdMismatch, buf, fds)
            else
              (let f = \<lparr>fr_body = take bodyLen (drop kFrameHeaderBytes buf), fr_fds = take fdCount fds\<rparr>
               in (case extractLoop (drop (kFrameHeaderBytes + bodyLen) buf) (drop fdCount fds) of
                     (fs, rest) \<Rightarrow> (f # fs, rest)))))"
  by pat_completeness auto
termination
  by (relation "measure (\<lambda>(buf, fds). length buf)") (auto simp: kFrameHeaderBytes_def)

declare extractLoop.simps [simp del]

definition pump :: "FrameReassembler \<Rightarrow> KernelMsg list \<Rightarrow> PumpResult \<times> FrameReassembler \<times> KernelMsg list" where
  "pump st ks =
     (case pumpLoop st ks of ((status, err), st1, ks') \<Rightarrow>
        if status \<noteq> PumpError then
          (case extractLoop (m_buffer st1) (m_fds st1) of
             (frames, None, buf, fds) \<Rightarrow>
               (\<lparr>pr_frames = frames, pr_status = status, pr_error = err\<rparr>,
                \<lparr>m_buffer = buf, m_fds = fds\<rparr>, ks')
           | (frames, Some e, buf, fds) \<Rightarrow>
               (\<lparr>pr_frames = frames, pr_status = PumpError, pr_error = e\<rparr>,
                \<lparr>m_buffer = buf, m_fds = fds\<rparr>, ks'))
        else (\<lparr>pr_frames = [], pr_status = status, pr_error = err\<rparr>, st1, ks'))"

end
