(* ===== verification/FramingLaws.thy ===== *)
theory FramingLaws
  imports Framing
begin

text \<open>
  Laws of the framing layer: the header round trip, extraction of frames from a byte stream and
  its independence of how the kernel cuts the stream, conservation of descriptors, and the
  blocking sender against the blocking receiver.
\<close>

section \<open>The header\<close>

lemma ff_mask: "(0xFF :: u32) = mask 8"
  by (simp add: mask_eq_exp_minus_1)

lemma getU32Le_put [simp]: "getU32Le (putU32Le v @ xs) = v"
proof (rule bit_word_eqI)
  fix n assume "n < LENGTH(32)"
  then have n: "n < 32" by simp
  then consider "n < 8" | "8 \<le> n" "n < 16" | "16 \<le> n" "n < 24" | "24 \<le> n" by linarith
  then show "bit (getU32Le (putU32Le v @ xs)) n = bit v n"
    by cases (use n in \<open>auto simp: getU32Le_def putU32Le_def ff_mask bit_simps\<close>)
qed


section \<open>Extraction\<close>

definition frame_legal :: "Frame \<Rightarrow> bool" where
  "frame_legal f \<longleftrightarrow> length (fr_body f) \<le> kMaxFrameBytes \<and> length (fr_fds f) \<le> kMaxFrameFds"

definition wire_bytes :: "Frame \<Rightarrow> bytes" where
  "wire_bytes f = encodeFrame (fr_body f) (of_nat (length (fr_fds f)))"

lemma length_putU32Le [simp]: "length (putU32Le v) = 4"
  by (simp add: putU32Le_def)

lemma length_wire_bytes: "length (wire_bytes f) = kFrameHeaderBytes + length (fr_body f)"
  by (simp add: wire_bytes_def encodeFrame_def kFrameHeaderBytes_def)

lemma header_fields:
  assumes "frame_legal f"
  shows "unat (getU32Le (wire_bytes f @ rest)) = length (fr_body f)"
    "unat (getU32Le (drop 4 (wire_bytes f @ rest))) = length (fr_fds f)"
    "take (length (fr_body f)) (drop kFrameHeaderBytes (wire_bytes f @ rest)) = fr_body f"
    "drop (kFrameHeaderBytes + length (fr_body f)) (wire_bytes f @ rest) = rest"
  using assms
  by (simp_all add: frame_legal_def wire_bytes_def encodeFrame_def unat_of_nat kFrameHeaderBytes_def
      kMaxFrameFds_def kMaxFrameBytes_def)



lemma extract_nil [simp]: "extractLoop [] fds = ([], None, [], fds)"
  by (simp add: extractLoop.simps kFrameHeaderBytes_def)



text \<open>Descriptors are handed out in order of arrival, each to one frame, none dropped; bytes too.\<close>

lemma put_getU32Le: "putU32Le (getU32Le (p0 # p1 # p2 # p3 # ps)) = [p0, p1, p2, p3]"
proof -
  have b0: "bit (ucast (p :: u8) :: u32) n \<longleftrightarrow> n < 8 \<and> bit p n" for p n
    by (auto simp: bit_simps dest: bit_imp_le_length)
  have hi: "\<not> bit p n" if "8 \<le> n" for p :: u8 and n using that by (auto dest: bit_imp_le_length)
  show ?thesis
    unfolding putU32Le_def getU32Le_def ff_mask
    by (auto intro!: bit_word_eqI simp: bit_simps b0 hi)
qed

lemma header_bytes:
  assumes "kFrameHeaderBytes \<le> length buf"
  shows "putU32Le (getU32Le buf) @ putU32Le (getU32Le (drop 4 buf)) = take 8 buf"
proof -
  obtain p0 p1 p2 p3 p4 p5 p6 p7 ps where "buf = p0 # p1 # p2 # p3 # p4 # p5 # p6 # p7 # ps"
    using assms by (auto simp: kFrameHeaderBytes_def numeral_eq_Suc Suc_le_length_iff)
  then show ?thesis by (simp add: put_getU32Le)
qed

lemma extract_conserves:
  "extractLoop buf fds = (fs, e, buf', fds') \<Longrightarrow>
   concat (map fr_fds fs) @ fds' = fds \<and> list_all frame_legal fs \<and> concat (map wire_bytes fs) @ buf' = buf"
proof (induction buf fds arbitrary: fs rule: extractLoop.induct)
  case (1 buf fds)
  let ?bl = "unat (getU32Le buf)" and ?fc = "unat (getU32Le (drop 4 buf))"
  show ?case
  proof (cases "fs = []")
    case True
    then have "buf' = buf" "fds' = fds"
      using 1(2) by (subst (asm) extractLoop.simps, auto simp: Let_def split: if_splits prod.splits)+
    then show ?thesis using True by simp
  next
    case False
    then obtain fs' where lim: "\<not> length buf < kFrameHeaderBytes" "\<not> ?bl > kMaxFrameBytes"
        "\<not> ?fc > kMaxFrameFds" "\<not> length buf < kFrameHeaderBytes + ?bl" "\<not> length fds < ?fc"
      and rec: "extractLoop (drop (kFrameHeaderBytes + ?bl) buf) (drop ?fc fds) = (fs', e, buf', fds')"
      and fs: "fs = \<lparr>fr_body = take ?bl (drop kFrameHeaderBytes buf), fr_fds = take ?fc fds\<rparr> # fs'"
      using 1(2) by (subst (asm) extractLoop.simps) (auto simp: Let_def split: if_splits prod.splits)
    note IH = 1(1)[OF lim(1) refl refl lim(2-5) refl rec]
    let ?f = "\<lparr>fr_body = take ?bl (drop kFrameHeaderBytes buf), fr_fds = take ?fc fds\<rparr>"
    have l: "length (fr_body ?f) = ?bl" "length (fr_fds ?f) = ?fc" using lim by auto
    have "wire_bytes ?f = take 8 buf @ take ?bl (drop kFrameHeaderBytes buf)"
      using l lim(1) header_bytes[of buf] by (simp add: wire_bytes_def encodeFrame_def)
    then have "wire_bytes ?f @ drop (kFrameHeaderBytes + ?bl) buf = buf"
      by (simp add: kFrameHeaderBytes_def add.commute flip: drop_drop)
    moreover have "frame_legal ?f" using l lim by (simp add: frame_legal_def)
    ultimately show ?thesis using IH fs by simp
  qed
qed

section \<open>What a run of kernel answers carries\<close>

fun kbytes :: "KernelMsg \<Rightarrow> bytes" where
  "kbytes (KData bs cs l t) = bs"
| "kbytes _ = []"

fun kfds :: "KernelMsg \<Rightarrow> fd list" where
  "kfds (KData bs cs l t) = (if bs = [] then [] else harvest l cs)"
| "kfds _ = []"

definition script_bytes :: "KernelMsg list \<Rightarrow> bytes" where
  "script_bytes ks = concat (map kbytes ks)"

definition script_fds :: "KernelMsg list \<Rightarrow> fd list" where
  "script_fds ks = concat (map kfds ks)"

fun kclean :: "KernelMsg \<Rightarrow> bool" where
  "kclean (KData bs cs l t) = (bs \<noteq> [] \<and> \<not> t)"
| "kclean (KErr e) = (e = EINTR)"
| "kclean KEof = False"

lemma script_simps [simp]:
  "script_bytes [] = []" "script_bytes (k # ks) = kbytes k @ script_bytes ks"
  "script_fds [] = []" "script_fds (k # ks) = kfds k @ script_fds ks"
  by (simp_all add: script_bytes_def script_fds_def)

lemma harvest_nil [simp]: "harvest l [] = []"
  by (simp add: harvest_def)

text \<open>A read takes a prefix of the bytes and of the descriptors.\<close>

lemma receive_consumes:
  assumes "receiveWithFds n ks = (r, ks')" and "0 < n"
  shows "script_bytes ks = rr_data r @ script_bytes ks' \<and> script_fds ks = rr_fds r @ script_fds ks' \<and>
    (rr_bytes r \<le> 0 \<longrightarrow> rr_data r = [] \<and> rr_fds r = []) \<and>
    (rr_bytes r > 0 \<longrightarrow> rr_data r \<noteq> []) \<and> length (rr_data r) \<le> n"
  using assms
  by (cases "(n, ks)" rule: receiveWithFds.cases) (auto split: if_splits)

lemma receive_clean:
  assumes "receiveWithFds n ks = (r, ks')" and "0 < n" and "list_all kclean ks"
  shows "list_all kclean ks' \<and> \<not> rr_ancillaryTruncated r \<and> rr_bytes r \<noteq> 0 \<and>
    (rr_bytes r < 0 \<longrightarrow> rr_errno r = EINTR \<or> ks = [] \<and> rr_errno r = EAGAIN)"
  using assms
  by (cases "(n, ks)" rule: receiveWithFds.cases) (auto split: if_splits)

section \<open>The read loop\<close>

lemma pumpLoop_consumes:
  "pumpLoop st ks = ((status, err), st1, ks') \<Longrightarrow> status \<noteq> PumpError \<Longrightarrow>
   \<exists>B F. m_buffer st1 = m_buffer st @ B \<and> m_fds st1 = m_fds st @ F \<and>
     script_bytes ks = B @ script_bytes ks' \<and> script_fds ks = F @ script_fds ks' \<and>
     (length (m_buffer st) \<le> kMaxBufferBytes \<longrightarrow> length (m_buffer st1) \<le> kMaxBufferBytes) \<and>
     (length (m_fds st) \<le> kMaxPendingFds \<longrightarrow> length (m_fds st1) \<le> kMaxPendingFds)"
proof (induction st ks rule: pumpLoop.induct)
  case (1 st ks)
  obtain r ks1 where r: "receiveWithFds 4096 ks = (r, ks1)" by fastforce
  note c = receive_consumes[OF r]
  consider (stop) "ks1 = ks'" "st1 = st" "rr_bytes r \<le> 0"
    | (intr) "rr_bytes r < 0" "rr_errno r = EINTR" "pumpLoop st ks1 = ((status, err), st1, ks')"
    | (data) "rr_bytes r > 0" "\<not> rr_ancillaryTruncated r"
        "\<not> length (m_fds st @ rr_fds r) > kMaxPendingFds"
        "\<not> length (m_buffer st @ rr_data r) > kMaxBufferBytes"
        "pumpLoop (st\<lparr>m_fds := m_fds st @ rr_fds r, m_buffer := m_buffer st @ rr_data r\<rparr>) ks1 =
           ((status, err), st1, ks')"
    using 1(3,4) r by (subst (asm) pumpLoop.simps) (auto simp: Let_def split: if_splits)
  then show ?case
  proof cases
    case stop
    then show ?thesis using c by simp
  next
    case intr
    then show ?thesis using 1(1)[OF r[symmetric] _ _ _ intr(3) 1(4)] c by auto
  next
    case data
    from 1(2)[OF r[symmetric] _ _ refl _ _ refl _ _ 1(4)] data obtain B F where
      "m_buffer st1 = m_buffer st @ rr_data r @ B" "m_fds st1 = m_fds st @ rr_fds r @ F"
      "script_bytes ks1 = B @ script_bytes ks'" "script_fds ks1 = F @ script_fds ks'"
      "length (m_buffer st1) \<le> kMaxBufferBytes" "length (m_fds st1) \<le> kMaxPendingFds"
      by auto
    then show ?thesis using c by (intro exI[of _ "rr_data r @ B"] exI[of _ "rr_fds r @ F"]) simp
  qed
qed


section \<open>Pumps\<close>

lemma pump_consumes:
  assumes "pump st ks = (out, st', ks')" and "pr_status out \<noteq> PumpError"
  shows "\<exists>B F. script_bytes ks = B @ script_bytes ks' \<and> script_fds ks = F @ script_fds ks' \<and>
    extractLoop (m_buffer st @ B) (m_fds st @ F) = (pr_frames out, None, m_buffer st', m_fds st') \<and>
    (length (m_buffer st) \<le> kMaxBufferBytes \<longrightarrow> length (m_buffer st @ B) \<le> kMaxBufferBytes) \<and>
    (length (m_fds st) \<le> kMaxPendingFds \<longrightarrow> length (m_fds st @ F) \<le> kMaxPendingFds)"
proof -
  obtain status err st1 where l: "pumpLoop st ks = ((status, err), st1, ks')"
    and ne: "status \<noteq> PumpError"
    and ex: "extractLoop (m_buffer st1) (m_fds st1) = (pr_frames out, None, m_buffer st', m_fds st')"
    using assms by (auto simp: pump_def split: if_splits prod.splits option.splits)
  show ?thesis using pumpLoop_consumes[OF l ne] ex by auto
qed



lemma pumpLoop_overflow:
  "list_all kclean ks \<Longrightarrow> script_fds ks = [] \<Longrightarrow> m_fds st = [] \<Longrightarrow>
   kMaxBufferBytes < length (m_buffer st) + length (script_bytes ks) \<Longrightarrow>
   length (m_buffer st) \<le> kMaxBufferBytes \<Longrightarrow>
   \<exists>st' ks'. pumpLoop st ks = ((PumpError, Oversize), st', ks')"
proof (induction st ks rule: pumpLoop.induct)
  case (1 st ks)
  obtain r ks1 where r: "receiveWithFds 4096 ks = (r, ks1)" by fastforce
  note c = receive_consumes[OF r] and k = receive_clean[OF r _ 1(3)]
  have ne: "ks \<noteq> []" using 1(6,7) by auto
  show ?case
  proof (cases "rr_bytes r < 0")
    case True
    then have "rr_errno r = EINTR" using k ne by simp
    then show ?thesis
      using 1(1)[OF r[symmetric]] True c k 1(4-7) r by (subst pumpLoop.simps) auto
  next
    case False
    then have pos: "rr_bytes r > 0" using k by simp
    let ?st = "st\<lparr>m_fds := m_fds st @ rr_fds r, m_buffer := m_buffer st @ rr_data r\<rparr>"
    have fds: "rr_fds r = []" "script_fds ks1 = []" using c 1(4) by auto
    show ?thesis
    proof (cases "kMaxBufferBytes < length (m_buffer st @ rr_data r)")
      case True
      then show ?thesis using pos k fds r 1(5) by (subst pumpLoop.simps) (simp add: Let_def)
    next
      case le: False
      have "\<exists>st' ks'. pumpLoop ?st ks1 = ((PumpError, Oversize), st', ks')"
        using 1(2)[OF r[symmetric] _ _ refl _ _ refl] pos k fds le 1(5,6) c by simp
      then show ?thesis using pos k fds r le 1(5) by (subst pumpLoop.simps) (simp add: Let_def)
    qed
  qed
qed

section \<open>The blocking pair\<close>

lemma recvExact_clean:
  "list_all kclean ks \<Longrightarrow> length got + length (script_bytes ks) \<ge> n \<Longrightarrow> length got \<le> n \<Longrightarrow>
   length fds + length (script_fds ks) \<le> kMaxFrameFds \<Longrightarrow>
   \<exists>F ks'. recvExact n got fds ks = (Inr (take n (got @ script_bytes ks)), fds @ F, ks') \<and>
     script_bytes ks' = drop (n - length got) (script_bytes ks) \<and> script_fds ks = F @ script_fds ks' \<and>
     list_all kclean ks'"
proof (induction n got fds ks rule: recvExact.induct)
  case (1 n got fds ks)
  show ?case
  proof (cases "length got < n")
    case False
    then show ?thesis using 1(5,3) by (subst recvExact.simps) (auto intro: exI[of _ "[]"])
  next
    case lt: True
    obtain r ks1 where r: "receiveWithFds (n - length got) ks = (r, ks1)" by fastforce
    have n0: "0 < n - length got" using lt by simp
    note c = receive_consumes[OF r n0] and k = receive_clean[OF r n0 1(3)]
    have ne: "ks \<noteq> []" using lt 1(4) by auto
    show ?thesis
    proof (cases "rr_bytes r < 0")
      case True
      then have "rr_errno r = EINTR" using k ne by simp
      then show ?thesis
        using 1(1)[OF lt r[symmetric]] True c k 1(4-6) r lt by (subst recvExact.simps) auto
    next
      case False
      then have pos: "rr_bytes r > 0" using k by simp
      have tk: "take (kMaxFrameFds - length fds) (rr_fds r) = rr_fds r" using c 1(6) by simp
      have "\<exists>F ks'. recvExact n (got @ rr_data r) (fds @ rr_fds r) ks1 =
            (Inr (take n ((got @ rr_data r) @ script_bytes ks1)), (fds @ rr_fds r) @ F, ks') \<and>
          script_bytes ks' = drop (n - length (got @ rr_data r)) (script_bytes ks1) \<and>
          script_fds ks1 = F @ script_fds ks' \<and> list_all kclean ks'"
      proof (rule 1(2)[OF lt r[symmetric] _ _ refl, unfolded tk])
        show "length (got @ rr_data r) \<le> n" using c lt by auto
        show "n \<le> length (got @ rr_data r) + length (script_bytes ks1)" using c 1(4) by simp
        show "length (fds @ rr_fds r) + length (script_fds ks1) \<le> kMaxFrameFds" using c 1(6) by simp
      qed (use pos k in simp_all)
      then obtain F ks' where F: "recvExact n (got @ rr_data r) (fds @ rr_fds r) ks1 =
            (Inr (take n ((got @ rr_data r) @ script_bytes ks1)), (fds @ rr_fds r) @ F, ks')"
          "script_bytes ks' = drop (n - length (got @ rr_data r)) (script_bytes ks1)"
          "script_fds ks1 = F @ script_fds ks'" "list_all kclean ks'" by blast
      have "recvExact n got fds ks = (Inr (take n (got @ script_bytes ks)), fds @ (rr_fds r @ F), ks')"
        using pos k c tk F(1) r lt by (subst recvExact.simps) (simp add: Let_def)
      moreover have "script_bytes ks' = drop (n - length got) (script_bytes ks)"
        using F(2) c by simp
      ultimately show ?thesis using F(3,4) c by auto
    qed
  qed
qed

lemma clean_empty: "list_all kclean ks \<Longrightarrow> script_bytes ks = [] \<Longrightarrow> script_fds ks = []"
  by (induction ks) (auto elim!: kclean.elims)

lemma recvFrame_clean:
  assumes "frame_legal f" and "list_all kclean ks" and "script_bytes ks = wire_bytes f"
    and "script_fds ks = fr_fds f"
  shows "\<exists>ks'. recvFrame ks = (Inr f, ks')"
proof -
  note legal = assms(1)[unfolded frame_legal_def]
  obtain F ks1 where h: "recvExact kFrameHeaderBytes [] [] ks = (Inr (take kFrameHeaderBytes (wire_bytes f)), F, ks1)"
    and b1: "script_bytes ks1 = drop kFrameHeaderBytes (wire_bytes f)" and f1: "fr_fds f = F @ script_fds ks1"
    and c1: "list_all kclean ks1"
    using recvExact_clean[OF assms(2), of kFrameHeaderBytes "[]" "[]"] assms legal
    by (auto simp: length_wire_bytes)
  have hdr: "unat (getU32Le (take kFrameHeaderBytes (wire_bytes f))) = length (fr_body f)"
    "unat (getU32Le (drop 4 (take kFrameHeaderBytes (wire_bytes f)))) = length (fr_fds f)"
    using header_fields(1,2)[OF assms(1), of "[]"] getU32Le_put[of _ "[]"]
    by (simp_all add: wire_bytes_def encodeFrame_def kFrameHeaderBytes_def)
  have body: "script_bytes ks1 = fr_body f"
    using b1 by (simp add: wire_bytes_def encodeFrame_def kFrameHeaderBytes_def)
  show ?thesis
  proof (cases "fr_body f = []")
    case True
    then have "script_fds ks1 = []" using clean_empty[OF c1] body by simp
    then show ?thesis using h hdr True f1 legal by (simp add: recvFrame_def Let_def)
  next
    case False
    obtain F2 ks2 where r2: "recvExact (length (fr_body f)) [] F ks1 = (Inr (fr_body f), F @ F2, ks2)"
      and b2: "script_bytes ks2 = []" and f2: "script_fds ks1 = F2 @ script_fds ks2" and c2: "list_all kclean ks2"
      using recvExact_clean[OF c1, of "length (fr_body f)" "[]" F] body f1 legal by auto
    have "script_fds ks2 = []" using clean_empty[OF c2 b2] .
    then show ?thesis using h hdr False f1 f2 legal r2 by (simp add: recvFrame_def Let_def)
  qed
qed

lemma sendLoop_sends:
  "sendLoop framed sent anc fds os = (Some (Inr ()), segs) \<Longrightarrow> sent \<le> length framed \<Longrightarrow>
   concat (map fst segs) = drop sent framed \<and>
   concat (map snd segs) = (if anc \<or> sent = length framed then [] else fds)"
proof (induction framed sent anc fds os arbitrary: segs rule: sendLoop.induct)
  case (1 framed sent anc fds os)
  show ?case
  proof (cases "sent < length framed")
    case False
    then show ?thesis using 1(3,4) by (subst (asm) sendLoop.simps) simp
  next
    case lt: True
    show ?thesis
    proof (cases os)
      case Nil
      then show ?thesis using 1(3) lt by (subst (asm) sendLoop.simps) simp
    next
      case (Cons o1 os')
      show ?thesis
      proof (cases o1)
        case (SendErr e)
        then show ?thesis using 1(3,4) 1(2)[OF lt Cons SendErr] lt Cons
          by (subst (asm) sendLoop.simps) (simp split: if_splits)
      next
        case (Sent w)
        let ?w = "min w (length framed - sent)"
        obtain segs' where rec: "sendLoop framed (sent + ?w) True fds os' = (Some (Inr ()), segs')"
          and segs: "segs = (take ?w (drop sent framed), if anc then [] else fds) # segs'"
          using 1(3) lt Cons Sent by (subst (asm) sendLoop.simps) (auto simp: Let_def split: prod.splits)
        have IH: "concat (map fst segs') = drop (sent + ?w) framed \<and> concat (map snd segs') = []"
          using 1(1)[OF lt Cons Sent refl refl rec] lt by simp
        have "take ?w (drop sent framed) @ drop (sent + ?w) framed = drop sent framed"
          by (metis append_take_drop_id drop_drop add.commute)
        then show ?thesis using IH segs lt by simp
      qed
    qed
  qed
qed

section \<open>Properties\<close>


definition sample_cmsg :: cmsghdr where
  "sample_cmsg = \<lparr>cmsg_rights = True, cmsg_len = 20, cmsg_data = 16, cmsg_ints = [5]\<rparr>"

definition sample_frame :: Frame where
  "sample_frame = \<lparr>fr_body = [1, 2, 3], fr_fds = [5]\<rparr>"

definition sample_kernel :: "KernelMsg list" where
  "sample_kernel =
     [KData (take 6 (wire_bytes sample_frame)) [sample_cmsg] 24 False, KErr EINTR,
      KData (drop 6 (wire_bytes sample_frame)) [] 0 False]"

lemma sample_kernel_ok:
  "frame_legal sample_frame" "list_all kclean sample_kernel"
  "script_bytes sample_kernel = wire_bytes sample_frame" "script_fds sample_kernel = fr_fds sample_frame"
  by (simp_all add: sample_kernel_def sample_frame_def frame_legal_def frame_limits wire_bytes_def
      encodeFrame_def putU32Le_def harvest_def sample_cmsg_def deliveredFdBytes_def CMSG_LEN0_def)




text \<open>A pump that does not fail neither loses, duplicates nor reorders a descriptor or a byte: what
  was pending and what was read is what the delivered frames carry followed by what stays
  pending. Every delivered frame respects the limits, and the pending data stays within its
  bounds.\<close>

theorem pump_conserves:
  assumes "pump st ks = (out, st', ks')" and "pr_status out \<noteq> PumpError"
    and "length (m_buffer st) \<le> kMaxBufferBytes" and "length (m_fds st) \<le> kMaxPendingFds"
  shows "\<exists>B F. script_bytes ks = B @ script_bytes ks' \<and> script_fds ks = F @ script_fds ks' \<and>
    m_fds st @ F = concat (map fr_fds (pr_frames out)) @ m_fds st' \<and>
    m_buffer st @ B = concat (map wire_bytes (pr_frames out)) @ m_buffer st' \<and>
    list_all frame_legal (pr_frames out) \<and>
    length (m_buffer st') \<le> kMaxBufferBytes \<and> length (m_fds st') \<le> kMaxPendingFds"
proof -
  obtain B F where r: "script_bytes ks = B @ script_bytes ks'" "script_fds ks = F @ script_fds ks'"
    and ex: "extractLoop (m_buffer st @ B) (m_fds st @ F) = (pr_frames out, None, m_buffer st', m_fds st')"
    and lim: "length (m_buffer st @ B) \<le> kMaxBufferBytes" "length (m_fds st @ F) \<le> kMaxPendingFds"
    using pump_consumes[OF assms(1,2)] assms(3,4) by blast
  have e: "concat (map fr_fds (pr_frames out)) @ m_fds st' = m_fds st @ F"
    "concat (map wire_bytes (pr_frames out)) @ m_buffer st' = m_buffer st @ B"
    "list_all frame_legal (pr_frames out)"
    using extract_conserves[OF ex] by auto
  have "length (m_fds st') \<le> length (m_fds st @ F)" "length (m_buffer st') \<le> length (m_buffer st @ B)"
    unfolding e(1,2)[symmetric] by simp_all
  then show ?thesis using r e lim by (intro exI[of _ B] exI[of _ F]) simp
qed

theorem pump_conserves_witness:
  "\<exists>B F. script_bytes [KEof] = B @ script_bytes [] \<and> script_fds [KEof] = F @ script_fds [] \<and>
    m_fds \<lparr>m_buffer = [9], m_fds = [4]\<rparr> @ F = concat (map fr_fds (pr_frames
      \<lparr>pr_frames = [], pr_status = PumpPeerClosed, pr_error = Io\<rparr>)) @ m_fds \<lparr>m_buffer = [9], m_fds = [4]\<rparr> \<and>
    m_buffer \<lparr>m_buffer = [9], m_fds = [4]\<rparr> @ B = concat (map wire_bytes (pr_frames
      \<lparr>pr_frames = [], pr_status = PumpPeerClosed, pr_error = Io\<rparr>)) @ m_buffer \<lparr>m_buffer = [9], m_fds = [4]\<rparr> \<and>
    list_all frame_legal (pr_frames \<lparr>pr_frames = [], pr_status = PumpPeerClosed, pr_error = Io\<rparr>) \<and>
    length (m_buffer \<lparr>m_buffer = [9], m_fds = [4]\<rparr>) \<le> kMaxBufferBytes \<and>
    length (m_fds \<lparr>m_buffer = [9], m_fds = [4]\<rparr>) \<le> kMaxPendingFds"
  by (rule pump_conserves)
     (simp_all add: pump_def pumpLoop.simps extractLoop.simps frame_limits)

text \<open>C31. A frame the sender reports as sent arrives at the receiver as that frame, body and
  descriptors, however the sends were split and however the kernel cuts the reads, given that
  the kernel delivers the bytes and descriptors that were sent.\<close>

theorem send_recv_roundtrip:
  assumes "sendFrame body fds os = (Some (Inr ()), segs)"
    and "list_all kclean ks" and "script_bytes ks = concat (map fst segs)"
    and "script_fds ks = concat (map snd segs)"
  shows "\<exists>ks'. recvFrame ks = (Inr \<lparr>fr_body = body, fr_fds = fds\<rparr>, ks')"
proof -
  let ?f = "\<lparr>fr_body = body, fr_fds = fds\<rparr>"
  have lim: "length body \<le> kMaxFrameBytes" "length fds \<le> kMaxFrameFds"
    and sent: "sendLoop (wire_bytes ?f) 0 False fds os = (Some (Inr ()), segs)"
    using assms(1) by (auto simp: sendFrame_def wire_bytes_def split: if_splits)
  have "length (wire_bytes ?f) \<noteq> 0" by (simp add: length_wire_bytes kFrameHeaderBytes_def)
  with sendLoop_sends[OF sent] have "concat (map fst segs) = wire_bytes ?f" "concat (map snd segs) = fds"
    by simp_all
  then show ?thesis
    using recvFrame_clean[of ?f ks] assms(2-4) lim by (simp add: frame_legal_def)
qed

theorem send_recv_roundtrip_witness:
  "\<exists>ks'. recvFrame sample_kernel = (Inr \<lparr>fr_body = [1, 2, 3], fr_fds = [5]\<rparr>, ks')"
proof (rule send_recv_roundtrip[where os = "[SendErr EINTR, Sent 6, Sent 100]"
      and segs = "[(take 6 (wire_bytes sample_frame), [5]), (drop 6 (wire_bytes sample_frame), [])]"])
  show "sendFrame [1, 2, 3] [5] [SendErr EINTR, Sent 6, Sent 100] =
      (Some (Inr ()), [(take 6 (wire_bytes sample_frame), [5]), (drop 6 (wire_bytes sample_frame), [])])"
    by (simp add: sendFrame_def sendLoop.simps sample_frame_def wire_bytes_def encodeFrame_def putU32Le_def
        frame_limits)
qed (simp_all add: sample_kernel_ok, simp add: sample_frame_def)

text \<open>The number of descriptor bytes taken from a control message never reaches past what was
  delivered, nor past what the header claims, whatever length the peer put in the header: no
  subtraction wraps.\<close>

theorem deliveredFdBytes_clamped:
  "deliveredFdBytes has_control controllen c = 0 \<or>
   unat (cmsg_data c) + unat (deliveredFdBytes has_control controllen c) \<le> unat controllen \<and>
   unat CMSG_LEN0 + unat (deliveredFdBytes has_control controllen c) \<le> unat (cmsg_len c)"
proof (cases "has_control \<and> \<not> cmsg_len c < CMSG_LEN0 \<and> \<not> cmsg_data c > controllen")
  case True
  then have "unat (cmsg_len c - CMSG_LEN0) = unat (cmsg_len c) - unat CMSG_LEN0"
    "unat (controllen - cmsg_data c) = unat controllen - unat (cmsg_data c)"
    "unat CMSG_LEN0 \<le> unat (cmsg_len c)" "unat (cmsg_data c) \<le> unat controllen"
    by (simp_all add: unat_sub not_less word_le_nat_alt)
  then show ?thesis using True by (auto simp: deliveredFdBytes_def min_def word_le_nat_alt)
qed (auto simp: deliveredFdBytes_def)

text \<open>Two frames that are each within the limits are refused, and the first one is dropped with
  the connection, when a peer pipelines them so that one pump can read more than one frame's
  worth of bytes: the read loop measures the whole backlog against the size of a single frame
  before it extracts anything.\<close>

theorem pipelined_frames_refused:
  assumes "frame_legal f" and "frame_legal g" and "fr_fds f = []" and "fr_fds g = []"
    and "kMaxFrameBytes < kFrameHeaderBytes + length (fr_body f) + length (fr_body g)"
    and "list_all kclean ks" and "script_bytes ks = wire_bytes f @ wire_bytes g" and "script_fds ks = []"
  shows "\<exists>st' ks'. pump \<lparr>m_buffer = [], m_fds = []\<rparr> ks =
    (\<lparr>pr_frames = [], pr_status = PumpError, pr_error = Oversize\<rparr>, st', ks')"
proof -
  have "kMaxBufferBytes < length (wire_bytes f @ wire_bytes g)"
    using assms(5) by (simp add: length_wire_bytes kMaxBufferBytes_def)
  then show ?thesis
    using pumpLoop_overflow[OF assms(6,8), of "\<lparr>m_buffer = [], m_fds = []\<rparr>"] assms(7)
    by (auto simp: pump_def)
qed

theorem pipelined_frames_refused_witness:
  "\<exists>st' ks'. pump \<lparr>m_buffer = [], m_fds = []\<rparr>
     [KData (wire_bytes \<lparr>fr_body = replicate 600000 0, fr_fds = []\<rparr> @
             wire_bytes \<lparr>fr_body = replicate 600000 0, fr_fds = []\<rparr>) [] 0 False] =
    (\<lparr>pr_frames = [], pr_status = PumpError, pr_error = Oversize\<rparr>, st', ks')"
  by (rule pipelined_frames_refused[of "\<lparr>fr_body = replicate 600000 0, fr_fds = []\<rparr>"
        "\<lparr>fr_body = replicate 600000 0, fr_fds = []\<rparr>"])
     (simp_all add: frame_legal_def frame_limits wire_bytes_def encodeFrame_def putU32Le_def)

end
