(* ===== verification/RateLimit.thy ===== *)
theory RateLimit
  imports Prelude "HOL-Library.AList"
begin

text \<open>
  The per-caller throttle (\<^verbatim>\<open>src/operations/RateLimiter.cpp\<close>). Times are \<^verbatim>\<open>steady_clock\<close> counts in
  nanoseconds; the table of callers is an association list; the clock is the argument \<open>now\<close>.
\<close>

type_synonym time = int

definition kMaxPerWindow :: nat where "kMaxPerWindow = 5"
definition kWindow :: time where "kWindow = 60 * 10 ^ 9"
definition kBaseBackoff :: time where "kBaseBackoff = 2 * 10 ^ 9"
definition kMaxBackoff :: time where "kMaxBackoff = 60 * 10 ^ 9"
definition kSweepThreshold :: nat where "kSweepThreshold = 1024"

record CallerState =
  recent :: "time list"
  backoffLevel :: int
  backoffUntil :: time

definition freshCaller :: CallerState where
  "freshCaller = \<lparr>recent = [], backoffLevel = 0, backoffUntil = 0\<rparr>"

type_synonym callers = "(string \<times> CallerState) list"

definition sweepable :: "time \<Rightarrow> string \<Rightarrow> string \<times> CallerState \<Rightarrow> bool" where
  "sweepable now callerKey = (\<lambda>(k, s).
     k \<noteq> callerKey \<and> (recent s = [] \<or> now - last (recent s) > kWindow) \<and> backoffUntil s \<le> now)"

definition sweep :: "time \<Rightarrow> string \<Rightarrow> callers \<Rightarrow> callers" where
  "sweep now callerKey cs =
     (if length cs > kSweepThreshold then filter (\<lambda>e. \<not> sweepable now callerKey e) cs else cs)"

text \<open>The doubling loop: \<^verbatim>\<open>for (int i = 1; i < level; ++i) backoff = min(backoff * 2, kMaxBackoff)\<close>.\<close>

definition backoffFor :: "int \<Rightarrow> time" where
  "backoffFor level = fold (\<lambda>_ b. min (b * 2) kMaxBackoff) [1..<nat level] kBaseBackoff"

definition allow :: "time \<Rightarrow> string \<Rightarrow> callers \<Rightarrow> bool \<times> callers" where
  "allow now callerKey cs =
     (let cs1 = sweep now callerKey cs;
          s = (case map_of cs1 callerKey of Some s \<Rightarrow> s | None \<Rightarrow> freshCaller)
      in if backoffUntil s > now then (False, AList.update callerKey s cs1)
         else
           (let rec = dropWhile (\<lambda>t. now - t > kWindow) (recent s)
            in if length rec \<ge> kMaxPerWindow then
                 (let level = min (backoffLevel s + 1) 5
                  in (False, AList.update callerKey
                       \<lparr>recent = rec, backoffLevel = level, backoffUntil = now + backoffFor level\<rparr> cs1))
               else
                 (True, AList.update callerKey \<lparr>recent = rec @ [now], backoffLevel = 0, backoffUntil = 0\<rparr> cs1)))"

text \<open>A run of calls; the result is the calls that were let through.\<close>

fun granted :: "callers \<Rightarrow> (time \<times> string) list \<Rightarrow> (time \<times> string) list" where
  "granted cs [] = []"
| "granted cs ((now, k) # calls) =
     (case allow now k cs of (ok, cs') \<Rightarrow> if ok then (now, k) # granted cs' calls else granted cs' calls)"

fun afterCalls :: "callers \<Rightarrow> (time \<times> string) list \<Rightarrow> callers" where
  "afterCalls cs [] = cs"
| "afterCalls cs ((now, k) # calls) = afterCalls (snd (allow now k cs)) calls"

section \<open>The window\<close>

definition recentOf :: "callers \<Rightarrow> string \<Rightarrow> time list" where
  "recentOf cs k = (case map_of cs k of Some s \<Rightarrow> recent s | None \<Rightarrow> [])"

definition grantsOf :: "string \<Rightarrow> (time \<times> string) list \<Rightarrow> time list" where
  "grantsOf k gs = map fst (filter (\<lambda>(t, k'). k' = k) gs)"

text \<open>What was let through for a caller is what has aged out followed by what the table remembers.\<close>

definition windowInv :: "callers \<Rightarrow> time \<Rightarrow> string \<Rightarrow> time list \<Rightarrow> bool" where
  "windowInv cs now k hist \<longleftrightarrow>
     sorted hist \<and> (\<forall>t \<in> set hist. t \<le> now) \<and>
     (\<exists>old. hist = old @ recentOf cs k \<and> (\<forall>t \<in> set old. now - t > kWindow))"

lemma sweep_recent:
  assumes "windowInv cs now k hist" and "distinct (map fst cs)"
  shows "windowInv (sweep now key cs) now k hist"
proof (cases "kSweepThreshold < length cs")
  case False
  then show ?thesis using assms by (simp add: sweep_def)
next
  case True
  from assms(1) obtain old where h: "hist = old @ recentOf cs k" "\<forall>t \<in> set old. now - t > kWindow"
    and srt: "sorted hist" and le: "\<forall>t \<in> set hist. t \<le> now" by (auto simp: windowInv_def)
  have rec: "recentOf (sweep now key cs) k =
      (case map_of cs k of Some s \<Rightarrow> if \<not> sweepable now key (k, s) then recent s else [] | None \<Rightarrow> [])"
    using True assms(2)
    by (simp add: recentOf_def sweep_def map_of_filter_keep split: option.splits)
  show ?thesis
  proof (cases "\<exists>s. map_of cs k = Some s \<and> sweepable now key (k, s)")
    case False
    then have "recentOf (sweep now key cs) k = recentOf cs k"
      unfolding rec recentOf_def[of cs] by (auto split: option.splits)
    then show ?thesis using h srt le by (auto simp: windowInv_def)
  next
    case True
    then obtain s where s: "map_of cs k = Some s" "recent s = [] \<or> now - last (recent s) > kWindow"
      and "sweepable now key (k, s)" by (auto simp: sweepable_def)
    then have nil: "recentOf (sweep now key cs) k = []" by (simp add: rec)
    have "sorted (recent s)" using srt h s by (simp add: recentOf_def sorted_append)
    then have "\<forall>t \<in> set (recent s). t \<le> last (recent s)"
      by (cases "recent s" rule: rev_cases) (auto simp: sorted_append)
    then have "\<forall>t \<in> set (recent s). now - t > kWindow" using s(2) by fastforce
    then have "\<forall>t \<in> set hist. now - t > kWindow" using h s by (auto simp: recentOf_def)
    then show ?thesis using nil srt le by (auto simp: windowInv_def)
  qed
qed

lemma recentOf_update [simp]:
  "recentOf (AList.update key s cs) k = (if k = key then recent s else recentOf cs k)"
  by (simp add: recentOf_def update_conv')

lemma distinct_sweep: "distinct (map fst cs) \<Longrightarrow> distinct (map fst (sweep now key cs))"
  by (simp add: sweep_def distinct_map_filter)

lemma distinct_allow: "distinct (map fst cs) \<Longrightarrow> distinct (map fst (snd (allow now key cs)))"
  by (simp add: allow_def Let_def distinct_sweep distinct_update)

lemma windowInv_later: "windowInv cs now k hist \<Longrightarrow> now \<le> now' \<Longrightarrow> windowInv cs now' k hist"
  by (fastforce simp: windowInv_def)

lemma dropWhile_split:
  "\<exists>ys. xs = ys @ dropWhile (\<lambda>t. now - t > (w :: int)) xs \<and> (\<forall>t \<in> set ys. now - t > w)"
  by (metis set_takeWhileD takeWhile_dropWhile_id)

lemma allow_window:
  assumes inv: "windowInv cs now k hist" and d: "distinct (map fst cs)"
    and a: "allow now key cs = (ok, cs')"
  shows "windowInv cs' now k (if ok \<and> key = k then hist @ [now] else hist)"
    and "ok \<Longrightarrow> length (filter (\<lambda>t. now - t \<le> kWindow) (if key = k then hist else [])) < kMaxPerWindow"
proof -
  let ?cs = "sweep now key cs"
  let ?rec = "dropWhile (\<lambda>t. now - t > kWindow) (recentOf ?cs key)"
  have inv': "windowInv ?cs now k hist" by (rule sweep_recent[OF inv d])
  then obtain old where h: "hist = old @ recentOf ?cs k" "\<forall>t \<in> set old. now - t > kWindow"
    and srt: "sorted hist" and le: "\<forall>t \<in> set hist. t \<le> now" by (auto simp: windowInv_def)
  have rec0: "recent (case map_of ?cs key of None \<Rightarrow> freshCaller | Some s \<Rightarrow> s) = recentOf ?cs key"
    by (simp add: recentOf_def freshCaller_def split: option.splits)
  obtain ys where ys: "recentOf ?cs key = ys @ ?rec" "\<forall>t \<in> set ys. now - t > kWindow"
    using dropWhile_split[of "recentOf ?cs key" kWindow now] by blast
  have trim: "windowInv cs'' now k hist"
    if "\<And>k'. recentOf cs'' k' = (if k' = key then ?rec else recentOf ?cs k')" for cs''
  proof (cases "key = k")
    case True
    then have "hist = (old @ ys) @ ?rec" using ys h by simp
    then show ?thesis using True h ys srt le that unfolding windowInv_def by (intro conjI exI[of _ "old @ ys"]) auto
  next
    case False
    then show ?thesis using inv' that by (simp add: windowInv_def)
  qed
  consider (backoff) "\<not> ok" "cs' = AList.update key (case map_of ?cs key of None \<Rightarrow> freshCaller | Some s \<Rightarrow> s) ?cs"
    | (full) "\<not> ok" "\<And>k'. recentOf cs' k' = (if k' = key then ?rec else recentOf ?cs k')"
    | (ok) ok "length ?rec < kMaxPerWindow" "\<And>k'. recentOf cs' k' = (if k' = key then ?rec @ [now] else recentOf ?cs k')"
    using a rec0 by (auto simp: allow_def Let_def not_le split: if_splits)
  then show "windowInv cs' now k (if ok \<and> key = k then hist @ [now] else hist)"
  proof cases
    case backoff
    then show ?thesis using inv' rec0 by (auto simp: windowInv_def)
  next
    case full
    then show ?thesis using trim by simp
  next
    case ok
    show ?thesis
    proof (cases "key = k")
      case True
      then have "hist @ [now] = (old @ ys) @ recentOf cs' k" using ys h ok(3) by simp
      then show ?thesis
        using True ok h ys srt le unfolding windowInv_def
        by (intro conjI exI[of _ "old @ ys"]) (auto simp: sorted_append)
    next
      case False
      then show ?thesis using inv' ok by (simp add: windowInv_def)
    qed
  qed
  show "length (filter (\<lambda>t. now - t \<le> kWindow) (if key = k then hist else [])) < kMaxPerWindow" if "ok"
  proof (cases "key = k")
    case True
    have "length ?rec < kMaxPerWindow" using a rec0 that by (auto simp: allow_def Let_def not_le split: if_splits)
    moreover have "filter (\<lambda>t. now - t \<le> kWindow) hist = filter (\<lambda>t. now - t \<le> kWindow) ?rec"
    proof -
      have "filter (\<lambda>t. now - t \<le> kWindow) old = []" "filter (\<lambda>t. now - t \<le> kWindow) ys = []"
        using h(2) ys(2) True by (auto simp: filter_empty_conv not_le)
      moreover have "hist = old @ ys @ ?rec" using h(1) ys(1) True by simp
      ultimately show ?thesis by (metis append_Nil filter_append)
    qed
    ultimately show ?thesis using True le_less_trans[OF length_filter_le] by auto
  qed (simp add: kMaxPerWindow_def)
qed

text \<open>No window of sixty seconds holds more than five of the calls let through.\<close>

definition capped :: "time list \<Rightarrow> bool" where
  "capped hist \<longleftrightarrow> (\<forall>t. length (filter (\<lambda>u. t \<le> u \<and> u \<le> t + kWindow) hist) \<le> kMaxPerWindow)"

lemma capped_snoc:
  assumes "capped hist" and "\<forall>u \<in> set hist. u \<le> now"
    and "length (filter (\<lambda>u. now - u \<le> kWindow) hist) < kMaxPerWindow"
  shows "capped (hist @ [now])"
  unfolding capped_def
proof
  fix t
  show "length (filter (\<lambda>u. t \<le> u \<and> u \<le> t + kWindow) (hist @ [now])) \<le> kMaxPerWindow"
  proof (cases "t \<le> now \<and> now \<le> t + kWindow")
    case True
    have "length (filter (\<lambda>u. t \<le> u \<and> u \<le> t + kWindow) hist) \<le> length (filter (\<lambda>u. now - u \<le> kWindow) hist)"
      using True by (induction hist) auto
    then show ?thesis using assms(3) True by simp
  next
    case False
    then show ?thesis using assms(1) by (auto simp: capped_def)
  qed
qed

lemma granted_capped:
  "sorted (map fst calls) \<Longrightarrow> \<forall>c \<in> set calls. now \<le> fst c \<Longrightarrow> distinct (map fst cs) \<Longrightarrow>
   windowInv cs now k hist \<Longrightarrow> capped hist \<Longrightarrow> capped (hist @ grantsOf k (granted cs calls))"
proof (induction calls arbitrary: cs now hist)
  case Nil
  then show ?case by (simp add: grantsOf_def)
next
  case (Cons c calls)
  obtain t key where c: "c = (t, key)" by (cases c)
  obtain ok cs' where a: "allow t key cs = (ok, cs')" by fastforce
  have inv: "windowInv cs t k hist" using Cons.prems c windowInv_later by auto
  note w = allow_window[OF inv Cons.prems(3) a]
  have d: "distinct (map fst cs')" using distinct_allow[OF Cons.prems(3), of t key] a by simp
  have cap: "capped (if ok \<and> key = k then hist @ [t] else hist)"
    using Cons.prems(5) w(2) inv capped_snoc[of hist t] by (auto simp: windowInv_def)
  have "capped ((if ok \<and> key = k then hist @ [t] else hist) @ grantsOf k (granted cs' calls))"
    using Cons.IH[OF _ _ d w(1) cap] Cons.prems(1) c by auto
  then show ?case by (auto simp: c a grantsOf_def split: if_splits)
qed

lemma granted_from_empty:
  assumes "sorted (map fst calls)"
  shows "capped (grantsOf k (granted [] calls))"
proof (cases calls)
  case Nil
  then show ?thesis by (simp add: grantsOf_def capped_def)
next
  case (Cons c cs)
  have "capped ([] @ grantsOf k (granted [] calls))"
    by (rule granted_capped[OF assms, of "fst c"])
       (use assms Cons in \<open>auto simp: windowInv_def recentOf_def capped_def\<close>)
  then show ?thesis by simp
qed

section \<open>Recovery\<close>

lemma backoffFor_le: "backoffFor (min l 5) \<le> 32 * 10 ^ 9"
proof -
  have "nat (min l 5) \<in> {0, 1, 2, 3, 4, 5}" by auto
  then show ?thesis
    by (auto simp: backoffFor_def kBaseBackoff_def kMaxBackoff_def upt_rec)
qed

definition entryInv :: "callers \<Rightarrow> time \<Rightarrow> bool" where
  "entryInv cs now \<longleftrightarrow>
     (\<forall>k s. map_of cs k = Some s \<longrightarrow> (\<forall>t \<in> set (recent s). t \<le> now) \<and> backoffUntil s \<le> now + 32 * 10 ^ 9)"

lemma allow_entryInv:
  assumes "entryInv cs prev" and "distinct (map fst cs)" and "prev \<le> now" and "0 \<le> now"
  shows "entryInv (snd (allow now key cs)) now"
proof -
  have sw: "map_of (sweep now key cs) k = Some s \<Longrightarrow> map_of cs k = Some s" for k s
    using assms(2) by (auto simp: sweep_def map_of_filter_keep split: if_splits option.splits)
  have later: "entryInv cs now" using assms(1,3) by (fastforce simp: entryInv_def)
  have upd: "entryInv (AList.update key s (sweep now key cs)) now"
    if "\<forall>t \<in> set (recent s). t \<le> now" "backoffUntil s \<le> now + 32 * 10 ^ 9" for s
    using that later by (auto simp: entryInv_def update_conv' dest!: sw)
  define s0 where "s0 = (case map_of (sweep now key cs) key of Some s \<Rightarrow> s | None \<Rightarrow> freshCaller)"
  have s0: "\<forall>t \<in> set (recent s0). t \<le> now" "backoffUntil s0 \<le> now + 32 * 10 ^ 9"
    using later sw assms(4) by (auto simp: s0_def entryInv_def freshCaller_def split: option.splits)
  have rec: "\<forall>t \<in> set (dropWhile (\<lambda>t. now - t > kWindow) (recent s0)). t \<le> now"
    using s0(1) by (auto dest: set_dropWhileD)
  show ?thesis
    unfolding allow_def Let_def s0_def[symmetric]
    using upd s0 rec backoffFor_le assms(4) by auto
qed

lemma afterCalls_entryInv:
  "sorted (map fst calls) \<Longrightarrow> \<forall>c \<in> set calls. prev \<le> fst c \<and> fst c \<le> now \<Longrightarrow> prev \<le> now \<Longrightarrow> 0 \<le> prev \<Longrightarrow>
   distinct (map fst cs) \<Longrightarrow> entryInv cs prev \<Longrightarrow>
   entryInv (afterCalls cs calls) now \<and> distinct (map fst (afterCalls cs calls))"
proof (induction calls arbitrary: cs prev)
  case Nil
  then show ?case by (fastforce simp: entryInv_def)
next
  case (Cons c calls)
  obtain t key where c: "c = (t, key)" by (cases c)
  have "entryInv (snd (allow t key cs)) t" "distinct (map fst (snd (allow t key cs)))"
    using allow_entryInv[OF Cons.prems(6,5), of t key] distinct_allow[OF Cons.prems(5)] Cons.prems c by auto
  then show ?case using Cons.IH[of t "snd (allow t key cs)"] Cons.prems c by auto
qed

section \<open>Properties\<close>

text \<open>C12. However a caller times its attempts, and whatever other callers do, at most five of its
  attempts are let through in any sixty seconds, over any run of calls and across the sweeps of
  the table.\<close>

theorem limiter_window:
  assumes "sorted (map fst calls)"
  shows "length (filter (\<lambda>u. t \<le> u \<and> u \<le> t + kWindow) (grantsOf k (granted [] calls))) \<le> kMaxPerWindow"
  using granted_from_empty[OF assms] by (simp add: capped_def)

theorem limiter_window_witness:
  "length (filter (\<lambda>u. 0 \<le> u \<and> u \<le> 0 + kWindow)
     (grantsOf '':1.42'' (granted [] (replicate 7 (0, '':1.42''))))) \<le> kMaxPerWindow"
  by (rule limiter_window) simp

text \<open>A refused caller is not locked out: sixty seconds after the last call of all, every caller
  is let through again, whatever the history.\<close>

theorem limiter_recovers:
  assumes "sorted (map fst calls)" and "\<forall>c \<in> set calls. 0 \<le> fst c \<and> fst c \<le> prev"
    and "0 \<le> prev" and "prev + kWindow < now"
  shows "fst (allow now k (afterCalls [] calls))"
proof -
  let ?cs = "afterCalls [] calls"
  have inv: "entryInv ?cs prev" and d: "distinct (map fst ?cs)"
    using afterCalls_entryInv[OF assms(1), of 0 prev "[]"] assms(2,3) by (auto simp: entryInv_def)
  define s0 where "s0 = (case map_of (sweep now k ?cs) k of Some s \<Rightarrow> s | None \<Rightarrow> freshCaller)"
  have sw: "map_of (sweep now k ?cs) k = Some s \<Longrightarrow> map_of ?cs k = Some s" for s
    using d by (auto simp: sweep_def map_of_filter_keep split: if_splits option.splits)
  have old: "\<forall>t \<in> set (recent s0). t \<le> prev" and bo: "backoffUntil s0 \<le> prev + 32 * 10 ^ 9"
    using inv sw assms(3) by (auto simp: s0_def entryInv_def freshCaller_def split: option.splits)
  have "dropWhile (\<lambda>t. now - t > kWindow) (recent s0) = []"
    using old assms(4) by (fastforce simp: dropWhile_eq_Nil_conv)
  moreover have "\<not> backoffUntil s0 > now" using bo assms(4) by (simp add: kWindow_def)
  ultimately show ?thesis
    unfolding allow_def Let_def s0_def[symmetric]
    by (simp add: kMaxPerWindow_def del: dropWhile_eq_Nil_conv)
qed

theorem limiter_recovers_witness:
  "fst (allow (61 * 10 ^ 9) '':1.42'' (afterCalls [] (replicate 9 (0, '':1.42''))))"
  by (rule limiter_recovers[of _ 0]) (simp_all add: kWindow_def)

text \<open>The documented cap of the backoff is never what bounds it: the level stops at five, so the
  longest backoff a call can start is thirty-two seconds, below the cap of sixty.\<close>

theorem max_backoff_unreachable: "backoffFor (min (level + 1) 5) \<le> 32 * 10 ^ 9 \<and> 32 * 10 ^ 9 < kMaxBackoff"
  using backoffFor_le by (simp add: kMaxBackoff_def)

end
