(* ===== verification/Lease.thy ===== *)
theory Lease
  imports RateLimit
begin

text \<open>
  PKCS#11 login leases (\<^verbatim>\<open>src/pkcs11/LeaseManager.cpp\<close>): one entry per (caller, card) with its idle
  clock, its lifetime origin and the PIN-verified flag. The injected clock is the argument \<open>now\<close>;
  the operations are atomic under the class's mutex, so a run is a sequence of them. The two bounds
  are \<^verbatim>\<open>std::chrono::seconds\<close> and the clock counts nanoseconds; \<open>secs\<close> is the conversion the comparison makes.
\<close>

record LeaseKey =
  lk_caller :: string
  lk_card :: u64

record LeaseConfig =
  idleTimeout :: int
  maxLifetime :: int

definition secs :: "int \<Rightarrow> time" where
  "secs n = n * 10 ^ 9"

record LeaseEntry =
  lastUse :: time
  origin :: time
  pinVerified :: bool

type_synonym leases = "LeaseKey \<rightharpoonup> LeaseEntry"

definition isActiveLocked :: "LeaseConfig \<Rightarrow> LeaseEntry \<Rightarrow> time \<Rightarrow> bool" where
  "isActiveLocked cfg e now =
     (if now - lastUse e \<ge> secs (idleTimeout cfg) then False
      else if maxLifetime cfg > 0 \<and> now - origin e \<ge> secs (maxLifetime cfg) then False
      else True)"

definition grant :: "LeaseKey \<Rightarrow> time \<Rightarrow> leases \<Rightarrow> leases" where
  "grant key now m =
     (case m key of
        None \<Rightarrow> m(key \<mapsto> \<lparr>lastUse = now, origin = now, pinVerified = False\<rparr>)
      | Some e \<Rightarrow> m(key \<mapsto> e\<lparr>lastUse := now, pinVerified := False\<rparr>))"

definition isActive :: "LeaseConfig \<Rightarrow> LeaseKey \<Rightarrow> time \<Rightarrow> leases \<Rightarrow> bool \<times> leases" where
  "isActive cfg key now m =
     (case m key of
        None \<Rightarrow> (False, m)
      | Some e \<Rightarrow> if \<not> isActiveLocked cfg e now then (False, m(key := None)) else (True, m))"

definition touch :: "LeaseConfig \<Rightarrow> LeaseKey \<Rightarrow> time \<Rightarrow> leases \<Rightarrow> bool \<times> leases" where
  "touch cfg key now m =
     (case m key of
        None \<Rightarrow> (False, m)
      | Some e \<Rightarrow>
          if \<not> isActiveLocked cfg e now then (False, m(key := None))
          else (True, m(key \<mapsto> e\<lparr>lastUse := now\<rparr>)))"

definition isPinVerified :: "LeaseKey \<Rightarrow> leases \<Rightarrow> bool" where
  "isPinVerified key m = (case m key of None \<Rightarrow> False | Some e \<Rightarrow> pinVerified e)"

definition markPinVerified :: "LeaseKey \<Rightarrow> leases \<Rightarrow> leases" where
  "markPinVerified key m = (case m key of None \<Rightarrow> m | Some e \<Rightarrow> m(key \<mapsto> e\<lparr>pinVerified := True\<rparr>))"

definition clearPinVerified :: "LeaseKey \<Rightarrow> leases \<Rightarrow> leases" where
  "clearPinVerified key m = (case m key of None \<Rightarrow> m | Some e \<Rightarrow> m(key \<mapsto> e\<lparr>pinVerified := False\<rparr>))"

definition revoke :: "LeaseKey \<Rightarrow> leases \<Rightarrow> leases" where
  "revoke key m = m(key := None)"

definition revokeCard :: "u64 \<Rightarrow> leases \<Rightarrow> leases" where
  "revokeCard card' m = (\<lambda>k. if lk_card k = card' then None else m k)"

definition revokeCaller :: "string \<Rightarrow> leases \<Rightarrow> leases" where
  "revokeCaller caller m = (\<lambda>k. if lk_caller k = caller then None else m k)"

lemmas lease_ops [step_simps] = grant_def isActive_def touch_def isPinVerified_def markPinVerified_def
  clearPinVerified_def revoke_def revokeCard_def revokeCaller_def isActiveLocked_def

text \<open>A lease is live when an entry is there and neither clock has run out.\<close>

definition live :: "LeaseConfig \<Rightarrow> leases \<Rightarrow> LeaseKey \<Rightarrow> time \<Rightarrow> bool" where
  "live cfg m key now = (case m key of None \<Rightarrow> False | Some e \<Rightarrow> isActiveLocked cfg e now)"

section \<open>The contract the broker relies on\<close>

text \<open>
  What gates a crypto operation: \<open>touch\<close> answers whether the lease is live, a revocation ends it,
  and nothing but a grant brings a dead lease back.
\<close>

locale lease_gate =
  fixes alive :: "'s \<Rightarrow> 'k \<Rightarrow> time \<Rightarrow> bool"
    and use :: "'k \<Rightarrow> time \<Rightarrow> 's \<Rightarrow> bool \<times> 's"
    and kill :: "'k \<Rightarrow> 's \<Rightarrow> 's"
  assumes use_alive: "fst (use k now s) \<longleftrightarrow> alive s k now"
    and use_keeps: "alive (snd (use k now s)) k' now' \<Longrightarrow> alive s k' now' \<or> k' = k \<and> alive s k now"
    and kill_ends: "\<not> alive (kill k s) k now"
    and kill_keeps: "alive (kill k s) k' now' \<Longrightarrow> alive s k' now'"
begin

definition gone :: "'s \<Rightarrow> 'k \<Rightarrow> bool" where
  "gone s k \<longleftrightarrow> (\<forall>now. \<not> alive s k now)"

lemma gone_kill: "gone (kill k s) k"
  by (simp add: gone_def kill_ends)

lemma gone_stays: "gone s k \<Longrightarrow> gone (snd (use k' now s)) k" "gone s k \<Longrightarrow> gone (kill k' s) k"
  unfolding gone_def using use_keeps kill_keeps by blast+

lemma gone_refused: "gone s k \<Longrightarrow> \<not> fst (use k now s)"
  by (simp add: gone_def use_alive)

text \<open>Any run of uses and revocations leaves it dead.\<close>

lemma gone_run:
  "gone s k \<Longrightarrow>
   gone (fold (\<lambda>op s. case op of Inl (k', now) \<Rightarrow> snd (use k' now s) | Inr k' \<Rightarrow> kill k' s) ops s) k"
  by (induction ops arbitrary: s) (auto simp: gone_stays split: sum.splits)

end

interpretation lg: lease_gate "live cfg" "touch cfg" revoke
  by unfold_locales (auto simp: live_def touch_def revoke_def split: option.splits if_splits)

section \<open>Runs\<close>

datatype LeaseOp =
    OpGrant LeaseKey
  | OpIsActive LeaseKey
  | OpTouch LeaseKey
  | OpMarkPin LeaseKey
  | OpClearPin LeaseKey
  | OpRevoke LeaseKey
  | OpRevokeCard u64
  | OpRevokeCaller string

fun leaseStep :: "LeaseConfig \<Rightarrow> time \<times> LeaseOp \<Rightarrow> leases \<Rightarrow> leases" where
  "leaseStep cfg (now, OpGrant k) m = grant k now m"
| "leaseStep cfg (now, OpIsActive k) m = snd (isActive cfg k now m)"
| "leaseStep cfg (now, OpTouch k) m = snd (touch cfg k now m)"
| "leaseStep cfg (now, OpMarkPin k) m = markPinVerified k m"
| "leaseStep cfg (now, OpClearPin k) m = clearPinVerified k m"
| "leaseStep cfg (now, OpRevoke k) m = revoke k m"
| "leaseStep cfg (now, OpRevokeCard c) m = revokeCard c m"
| "leaseStep cfg (now, OpRevokeCaller a) m = revokeCaller a m"

text \<open>The state after a history, most recent operation first.\<close>

fun leaseRun :: "LeaseConfig \<Rightarrow> (time \<times> LeaseOp) list \<Rightarrow> leases" where
  "leaseRun cfg [] = Map.empty"
| "leaseRun cfg (op # h) = leaseStep cfg op (leaseRun cfg h)"

fun ends :: "LeaseOp \<Rightarrow> LeaseKey \<Rightarrow> bool" where
  "ends (OpRevoke k') k = (k' = k)"
| "ends (OpRevokeCard c) k = (lk_card k = c)"
| "ends (OpRevokeCaller a) k = (lk_caller k = a)"
| "ends _ k = False"

text \<open>A grant not followed by a revocation; a PIN marked and neither cleared nor overtaken by a new grant.\<close>

fun loggedIn :: "(time \<times> LeaseOp) list \<Rightarrow> LeaseKey \<Rightarrow> bool" where
  "loggedIn [] k = False"
| "loggedIn ((t, op) # h) k = (\<not> ends op k \<and> (op = OpGrant k \<or> loggedIn h k))"

fun pinMarked :: "(time \<times> LeaseOp) list \<Rightarrow> LeaseKey \<Rightarrow> bool" where
  "pinMarked [] k = False"
| "pinMarked ((t, op) # h) k =
     (\<not> ends op k \<and> op \<noteq> OpGrant k \<and> op \<noteq> OpClearPin k \<and> (op = OpMarkPin k \<or> pinMarked h k))"

lemma leaseRun_entry:
  "leaseRun cfg h k = Some e \<Longrightarrow>
   loggedIn h k \<and> (pinVerified e \<longrightarrow> pinMarked h k) \<and> (origin e, OpGrant k) \<in> set h \<and>
   ((lastUse e, OpGrant k) \<in> set h \<or> (lastUse e, OpTouch k) \<in> set h)"
proof (induction h arbitrary: e)
  case Nil
  then show ?case by simp
next
  case (Cons p h)
  obtain t op where p: "p = (t, op)" by (cases p)
  show ?case
    using Cons.prems Cons.IH
    by (cases op) (auto simp: p step_simps fun_upd_apply split: option.splits if_splits)
qed

section \<open>Properties\<close>

text \<open>A crypto operation passes the lease gate only on a real login: after any history of the
  lease manager, a successful touch means that the caller was granted this card and neither that
  lease, nor the card, nor the caller was revoked since; that a grant or use lies within the idle
  timeout; and, where a lifetime is set, that a grant lies within it.\<close>

theorem touch_needs_live_grant:
  assumes "fst (touch cfg k now (leaseRun cfg h))"
  shows "loggedIn h k \<and>
    (\<exists>t. ((t, OpGrant k) \<in> set h \<or> (t, OpTouch k) \<in> set h) \<and> now - t < secs (idleTimeout cfg)) \<and>
    (maxLifetime cfg \<le> 0 \<or> (\<exists>t. (t, OpGrant k) \<in> set h \<and> now - t < secs (maxLifetime cfg)))"
proof -
  from assms obtain e where e: "leaseRun cfg h k = Some e" and act: "isActiveLocked cfg e now"
    by (auto simp: touch_def split: option.splits if_splits)
  then have "now - lastUse e < secs (idleTimeout cfg)" "maxLifetime cfg \<le> 0 \<or> now - origin e < secs (maxLifetime cfg)"
    by (auto simp: isActiveLocked_def split: if_splits)
  then show ?thesis using leaseRun_entry[OF e] by blast
qed

definition sample_key :: LeaseKey where
  "sample_key = \<lparr>lk_caller = '':1.7'', lk_card = 3\<rparr>"

definition sample_cfg :: LeaseConfig where
  "sample_cfg = \<lparr>idleTimeout = 600, maxLifetime = 28800\<rparr>"

theorem touch_needs_live_grant_witness:
  "loggedIn [(10, OpGrant sample_key)] sample_key \<and>
    (\<exists>t. ((t, OpGrant sample_key) \<in> set [(10, OpGrant sample_key)] \<or>
          (t, OpTouch sample_key) \<in> set [(10, OpGrant sample_key)]) \<and> 20 - t < secs (idleTimeout sample_cfg)) \<and>
    (maxLifetime sample_cfg \<le> 0 \<or>
      (\<exists>t. (t, OpGrant sample_key) \<in> set [(10, OpGrant sample_key)] \<and> 20 - t < secs (maxLifetime sample_cfg)))"
  by (rule touch_needs_live_grant) (simp add: step_simps sample_cfg_def secs_def)

text \<open>A PIN counts as verified only if it was marked since the last login of this caller on this
  card, with no clearing, no revocation, no card removal and no disconnect in between: a fresh
  login always asks again.\<close>

theorem pin_verified_needs_mark:
  assumes "isPinVerified k (leaseRun cfg h)"
  shows "pinMarked h k \<and> loggedIn h k"
  using assms leaseRun_entry[of cfg h k] by (auto simp: isPinVerified_def split: option.splits)

theorem pin_verified_needs_mark_witness:
  "pinMarked [(12, OpMarkPin sample_key), (10, OpGrant sample_key)] sample_key \<and>
   loggedIn [(12, OpMarkPin sample_key), (10, OpGrant sample_key)] sample_key"
  by (rule pin_verified_needs_mark[of _ sample_cfg]) (simp add: step_simps)

text \<open>A first login is usable: granted on a card the caller holds no entry for, the lease passes the
  gate at every later time within the idle timeout and the lifetime.\<close>

theorem first_grant_usable:
  assumes "m k = None" and "now' - now < secs (idleTimeout cfg)"
    and "maxLifetime cfg \<le> 0 \<or> now' - now < secs (maxLifetime cfg)"
  shows "fst (touch cfg k now' (grant k now m))"
  using assms by (auto simp: step_simps)

theorem first_grant_usable_witness:
  "fst (touch sample_cfg sample_key 500 (grant sample_key 10 Map.empty))"
  by (rule first_grant_usable) (simp_all add: sample_cfg_def secs_def)

text \<open>A login can be acknowledged and dead at once: where the caller's old entry has outlived its
  lifetime and has not been reaped yet, granting again refreshes the idle clock but keeps the old
  origin, and the very next use is refused.\<close>

theorem regrant_after_lifetime_is_dead:
  assumes "m k = Some e" and "0 < maxLifetime cfg" and "secs (maxLifetime cfg) \<le> now - origin e"
  shows "\<not> fst (touch cfg k now (grant k now m))"
  using assms by (simp add: step_simps)

theorem regrant_after_lifetime_is_dead_witness:
  "\<not> fst (touch sample_cfg sample_key 28801000000000 (grant sample_key 28801000000000
      [sample_key \<mapsto> \<lparr>lastUse = 28700000000000, origin = 1000000000, pinVerified = True\<rparr>]))"
  by (rule regrant_after_lifetime_is_dead[where e = "\<lparr>lastUse = 28700000000000, origin = 1000000000, pinVerified = True\<rparr>"])
     (simp_all add: sample_cfg_def secs_def)

end
