(* ===== verification/Mechanisms.thy ===== *)
theory Mechanisms
  imports Prelude
begin

text \<open>
  The private-key operations a client can ask for, their parameters and their wire tokens
  (\<^verbatim>\<open>crypto/Mechanism.h\<close>), shared by the agent's broker and the PKCS#11 module.
\<close>

datatype Mechanism = RsaPkcs1Sign | EcdsaSign | RsaPkcs1Decrypt | EcdhDerive | Sha256RsaPkcs1Sign

datatype MechanismParams =
    MechParamsEmpty
  | MechParamsEcdh (peerPublicPoint: bytes) (kdf: u32) (sharedData: bytes)

definition kEcdhKdfNull :: u32 where "kEcdhKdfNull = 1"

definition kSignMechanismTokens :: "(string \<times> Mechanism) list" where
  "kSignMechanismTokens =
     [(''rsa-pkcs'', RsaPkcs1Sign), (''sha256-rsa-pkcs'', Sha256RsaPkcs1Sign), (''ecdsa'', EcdsaSign)]"

definition kDecryptMechanismTokens :: "(string \<times> Mechanism) list" where
  "kDecryptMechanismTokens = [(''rsa-pkcs'', RsaPkcs1Decrypt)]"

definition signMechanismFromToken :: "string \<Rightarrow> Mechanism option" where
  "signMechanismFromToken token = map_option snd (find (\<lambda>t. fst t = token) kSignMechanismTokens)"

definition decryptMechanismFromToken :: "string \<Rightarrow> Mechanism option" where
  "decryptMechanismFromToken token = map_option snd (find (\<lambda>t. fst t = token) kDecryptMechanismTokens)"

definition mechanismToken :: "Mechanism \<Rightarrow> string" where
  "mechanismToken m =
     (case find (\<lambda>t. snd t = m) (kSignMechanismTokens @ kDecryptMechanismTokens) of
        Some t \<Rightarrow> fst t | None \<Rightarrow> [])"

end
