(* ===== verification/Broker.thy ===== *)
theory Broker
  imports Lease Mechanisms
begin

text \<open>
  The PKCS#11 broker (\<^verbatim>\<open>src/pkcs11/Pkcs11Broker.cpp\<close>): every request runs its gates on the dispatch
  thread and hands the card work to a seam, whose completion comes later on a worker. A request is
  therefore a start step and a completion step with the pending call in between; other steps
  interleave freely. The authority, the card resolver and the seams are answered by arguments of
  the steps. Each step lists the events it causes, latest first.
\<close>

datatype CryptoOutcome =
    CR_Ok | CR_Cancelled | CR_KeyNotFound | CR_AuthFailed | CR_NotSupported | CR_CardError | CR_UnknownCard
  | CR_UserNotLoggedIn | CR_RateLimited | CR_InvalidInput

datatype LoginOutcome =
    LO_Ok | LO_Cancelled | LO_NotAuthorizedByCard | LO_CardError | LO_UnknownCard | LO_NotAuthorized

datatype AuthorizationOutcome = AuthGranted | AuthDenied | AuthUndecided

datatype CryptoKind = SignRawOp | DecryptOp | DeriveOp

record Caller =
  busName :: string
  callerLabel :: string

record CryptoCall =
  cc_kind :: CryptoKind
  cc_key :: LeaseKey
  cc_reader :: string
  cc_certId :: string
  cc_mechanism :: Mechanism
  cc_params :: MechanismParams
  cc_bytes :: bytes
  cc_requester :: string

datatype Pending =
    PendAuth string Caller
  | PendLogin Caller u64
  | PendCrypto CryptoCall

datatype BEvent =
    EvAuthorized string
  | EvLease time LeaseOp
  | EvSeam CryptoCall time
  | EvAsk time string bool

record BrokerState =
  b_leases :: leases
  b_limiter :: callers
  b_shutdown :: bool
  b_pending :: "Pending list"

type_synonym 'r answer = "'r option \<times> BEvent list \<times> BrokerState"

definition leaseKey :: "Caller \<Rightarrow> u64 \<Rightarrow> LeaseKey" where
  "leaseKey caller card' = \<lparr>lk_caller = busName caller, lk_card = card'\<rparr>"

section \<open>Login\<close>

definition login :: "string \<Rightarrow> Caller \<Rightarrow> BrokerState \<Rightarrow> BrokerState" where
  "login reader caller st = st\<lparr>b_pending := PendAuth reader caller # b_pending st\<rparr>"

text \<open>The completion of \<^verbatim>\<open>authorizeAsync\<close>, with \<^verbatim>\<open>continueLogin\<close> up to the call of the login seam.\<close>

definition authorized ::
  "(string \<Rightarrow> u64 option) \<Rightarrow> string \<Rightarrow> Caller \<Rightarrow> AuthorizationOutcome \<Rightarrow> BrokerState \<Rightarrow> (LoginOutcome + u32) answer"
where
  "authorized resolveCardKey reader caller outcome st =
     (let st1 = st\<lparr>b_pending := remove1 (PendAuth reader caller) (b_pending st)\<rparr>
      in if outcome \<noteq> AuthGranted then (Some (Inl LO_NotAuthorized), [], st1)
         else if b_shutdown st then (None, [], st1)
         else (case resolveCardKey reader of
                 None \<Rightarrow> (Some (Inl LO_UnknownCard), [], st1)
               | Some card' \<Rightarrow>
                   (None, [EvAuthorized (busName caller)],
                    st1\<lparr>b_pending := PendLogin caller card' # b_pending st1\<rparr>)))"

text \<open>The completion of the login seam.\<close>

definition loginDone ::
  "LeaseConfig \<Rightarrow> time \<Rightarrow> Caller \<Rightarrow> u64 \<Rightarrow> LoginOutcome \<Rightarrow> BrokerState \<Rightarrow> (LoginOutcome + u32) answer"
where
  "loginDone cfg now caller card' outcome st =
     (let st1 = st\<lparr>b_pending := remove1 (PendLogin caller card') (b_pending st)\<rparr>
      in (case outcome of
            LO_Ok \<Rightarrow>
              (Some (Inr (of_int (idleTimeout cfg))), [EvLease now (OpGrant (leaseKey caller card'))],
               st1\<lparr>b_leases := grant (leaseKey caller card') now (b_leases st1)\<rparr>)
          | LO_Cancelled \<Rightarrow> (Some (Inl LO_Cancelled), [], st1)
          | LO_NotAuthorizedByCard \<Rightarrow> (Some (Inl LO_NotAuthorizedByCard), [], st1)
          | LO_CardError \<Rightarrow> (Some (Inl LO_CardError), [], st1)
          | LO_UnknownCard \<Rightarrow> (Some (Inl LO_CardError), [], st1)
          | LO_NotAuthorized \<Rightarrow> (Some (Inl LO_CardError), [], st1)))"

definition logout :: "(string \<Rightarrow> u64 option) \<Rightarrow> time \<Rightarrow> string \<Rightarrow> Caller \<Rightarrow> BrokerState \<Rightarrow> unit answer" where
  "logout resolveCardKey now reader caller st =
     (case resolveCardKey reader of
        None \<Rightarrow> (Some (), [], st)
      | Some card' \<Rightarrow>
          (Some (), [EvLease now (OpRevoke (leaseKey caller card'))],
           st\<lparr>b_leases := revoke (leaseKey caller card') (b_leases st)\<rparr>))"

definition loginActive ::
  "LeaseConfig \<Rightarrow> (string \<Rightarrow> u64 option) \<Rightarrow> time \<Rightarrow> string \<Rightarrow> Caller \<Rightarrow> BrokerState \<Rightarrow> bool answer"
where
  "loginActive cfg resolveCardKey now reader caller st =
     (case resolveCardKey reader of
        None \<Rightarrow> (Some False, [], st)
      | Some card' \<Rightarrow>
          (case isActive cfg (leaseKey caller card') now (b_leases st) of
             (ok, m) \<Rightarrow> (Some ok, [EvLease now (OpIsActive (leaseKey caller card'))], st\<lparr>b_leases := m\<rparr>)))"

section \<open>Public data\<close>

text \<open>\<^verbatim>\<open>certDer\<close> and \<^verbatim>\<open>publicKey\<close>: no lease, no consent; the seam's answer is the argument.\<close>

definition certDer ::
  "(string \<Rightarrow> u64 option) \<Rightarrow> (string \<Rightarrow> string \<Rightarrow> bytes option) \<Rightarrow> string \<Rightarrow> string \<Rightarrow> CryptoOutcome + bytes"
where
  "certDer resolveCardKey seam reader certId =
     (case resolveCardKey reader of
        None \<Rightarrow> Inl CR_UnknownCard
      | Some _ \<Rightarrow> (case seam reader certId of None \<Rightarrow> Inl CR_KeyNotFound | Some der \<Rightarrow> Inr der))"

definition publicKey ::
  "(string \<Rightarrow> u64 option) \<Rightarrow> (string \<Rightarrow> string \<Rightarrow> CryptoOutcome + 'pk) \<Rightarrow> string \<Rightarrow> string \<Rightarrow> CryptoOutcome + 'pk"
where
  "publicKey resolveCardKey seam reader certId =
     (case resolveCardKey reader of None \<Rightarrow> Inl CR_UnknownCard | Some _ \<Rightarrow> seam reader certId)"

section \<open>Crypto operations\<close>

definition runCrypto ::
  "LeaseConfig \<Rightarrow> (string \<Rightarrow> u64 option) \<Rightarrow> time \<Rightarrow> CryptoKind \<Rightarrow> Mechanism list \<Rightarrow> bool \<Rightarrow> Mechanism \<Rightarrow>
   MechanismParams \<Rightarrow> string \<Rightarrow> string \<Rightarrow> bytes \<Rightarrow> Caller \<Rightarrow> BrokerState \<Rightarrow> (CryptoOutcome + bytes) answer"
where
  "runCrypto cfg resolveCardKey now kind allowedMechanisms seamWired mechanism params reader certId bs caller st =
     (if mechanism \<notin> set allowedMechanisms then (Some (Inl CR_NotSupported), [], st)
      else if \<not> seamWired then (Some (Inl CR_NotSupported), [], st)
      else (case resolveCardKey reader of
              None \<Rightarrow> (Some (Inl CR_UnknownCard), [], st)
            | Some card' \<Rightarrow>
                (let key = leaseKey caller card'
                 in (case touch cfg key now (b_leases st) of
                       (ok, m) \<Rightarrow>
                         if \<not> ok then
                           (Some (Inl CR_UserNotLoggedIn), [EvLease now (OpTouch key)], st\<lparr>b_leases := m\<rparr>)
                         else
                           (let call = \<lparr>cc_kind = kind, cc_key = key, cc_reader = reader, cc_certId = certId,
                                  cc_mechanism = mechanism, cc_params = params, cc_bytes = bs,
                                  cc_requester = callerLabel caller\<rparr>
                            in (None, [EvSeam call now, EvLease now (OpTouch key)],
                                st\<lparr>b_leases := m, b_pending := PendCrypto call # b_pending st\<rparr>))))))"

definition signMechanisms :: "Mechanism list" where
  "signMechanisms = [RsaPkcs1Sign, Sha256RsaPkcs1Sign, EcdsaSign]"

definition signRaw ::
  "LeaseConfig \<Rightarrow> (string \<Rightarrow> u64 option) \<Rightarrow> time \<Rightarrow> bool \<Rightarrow> Mechanism \<Rightarrow> MechanismParams \<Rightarrow> string \<Rightarrow> string \<Rightarrow>
   bytes \<Rightarrow> Caller \<Rightarrow> BrokerState \<Rightarrow> (CryptoOutcome + bytes) answer"
where
  "signRaw cfg resolveCardKey now wired mechanism params reader certId input caller st =
     runCrypto cfg resolveCardKey now SignRawOp signMechanisms wired mechanism params reader certId input caller st"

definition decrypt ::
  "LeaseConfig \<Rightarrow> (string \<Rightarrow> u64 option) \<Rightarrow> time \<Rightarrow> bool \<Rightarrow> Mechanism \<Rightarrow> MechanismParams \<Rightarrow> string \<Rightarrow> string \<Rightarrow>
   bytes \<Rightarrow> Caller \<Rightarrow> BrokerState \<Rightarrow> (CryptoOutcome + bytes) answer"
where
  "decrypt cfg resolveCardKey now wired mechanism params reader certId ciphertext caller st =
     runCrypto cfg resolveCardKey now DecryptOp [RsaPkcs1Decrypt] wired mechanism params reader certId ciphertext
       caller st"

definition derive ::
  "LeaseConfig \<Rightarrow> (string \<Rightarrow> u64 option) \<Rightarrow> time \<Rightarrow> bool \<Rightarrow> MechanismParams \<Rightarrow> string \<Rightarrow> string \<Rightarrow> Caller \<Rightarrow>
   BrokerState \<Rightarrow> (CryptoOutcome + bytes) answer"
where
  "derive cfg resolveCardKey now wired params reader certId caller st =
     (case params of
        MechParamsEmpty \<Rightarrow> (Some (Inl CR_NotSupported), [], st)
      | MechParamsEcdh point kdf' shared \<Rightarrow>
          if kdf' \<noteq> kEcdhKdfNull \<or> shared \<noteq> [] then (Some (Inl CR_NotSupported), [], st)
          else runCrypto cfg resolveCardKey now DeriveOp [EcdhDerive] wired EcdhDerive params reader certId point
                 caller st)"

text \<open>The completion handed to the crypto seam.\<close>

definition cryptoDone ::
  "time \<Rightarrow> CryptoCall \<Rightarrow> CryptoOutcome \<Rightarrow> bytes \<Rightarrow> BrokerState \<Rightarrow> (CryptoOutcome + bytes) answer"
where
  "cryptoDone now call outcome bs st =
     (let st1 = st\<lparr>b_pending := remove1 (PendCrypto call) (b_pending st)\<rparr>
      in if outcome = CR_Ok then (Some (Inr bs), [], st1)
         else if outcome = CR_AuthFailed then
           (if b_shutdown st then (None, [], st1)
            else (Some (Inl outcome), [EvLease now (OpRevoke (cc_key call))],
                  st1\<lparr>b_leases := revoke (cc_key call) (b_leases st1)\<rparr>))
         else (Some (Inl outcome), [], st1))"

text \<open>The callbacks of \<^verbatim>\<open>LeasePinState\<close>, bound to the call's key and caller.\<close>

definition pinMark :: "time \<Rightarrow> CryptoCall \<Rightarrow> BrokerState \<Rightarrow> unit answer" where
  "pinMark now call st =
     (Some (), [EvLease now (OpMarkPin (cc_key call))],
      st\<lparr>b_leases := markPinVerified (cc_key call) (b_leases st)\<rparr>)"

definition pinClear :: "time \<Rightarrow> CryptoCall \<Rightarrow> BrokerState \<Rightarrow> unit answer" where
  "pinClear now call st =
     (Some (), [EvLease now (OpClearPin (cc_key call))],
      st\<lparr>b_leases := clearPinVerified (cc_key call) (b_leases st)\<rparr>)"

definition allowPrompt :: "time \<Rightarrow> CryptoCall \<Rightarrow> BrokerState \<Rightarrow> bool answer" where
  "allowPrompt now call st =
     (case allow now (lk_caller (cc_key call)) (b_limiter st) of
        (ok, cs) \<Rightarrow> (Some ok, [EvAsk now (lk_caller (cc_key call)) ok], st\<lparr>b_limiter := cs\<rparr>))"

section \<open>Presence and disconnects\<close>

definition onCardRemoved :: "time \<Rightarrow> u64 \<Rightarrow> BrokerState \<Rightarrow> unit answer" where
  "onCardRemoved now card' st =
     (Some (), [EvLease now (OpRevokeCard card')], st\<lparr>b_leases := revokeCard card' (b_leases st)\<rparr>)"

definition onClientDisconnected :: "time \<Rightarrow> string \<Rightarrow> BrokerState \<Rightarrow> unit answer" where
  "onClientDisconnected now client st =
     (Some (), [EvLease now (OpRevokeCaller client)], st\<lparr>b_leases := revokeCaller client (b_leases st)\<rparr>)"

section \<open>Executions\<close>

text \<open>One step of the broker: a request, a completion of something pending, or a notification.\<close>

inductive bstep :: "LeaseConfig \<Rightarrow> BrokerState \<Rightarrow> BEvent list \<Rightarrow> BrokerState \<Rightarrow> bool" for cfg where
  login: "bstep cfg st [] (login reader caller st)"
| authorized: "PendAuth reader caller \<in> set (b_pending st) \<Longrightarrow>
    authorized resolve reader caller outcome st = (r, evs, st') \<Longrightarrow> bstep cfg st evs st'"
| loginDone: "PendLogin caller card' \<in> set (b_pending st) \<Longrightarrow>
    loginDone cfg now caller card' outcome st = (r, evs, st') \<Longrightarrow> bstep cfg st evs st'"
| logout: "logout resolve now reader caller st = (r, evs, st') \<Longrightarrow> bstep cfg st evs st'"
| loginActive: "loginActive cfg resolve now reader caller st = (r, evs, st') \<Longrightarrow> bstep cfg st evs st'"
| signRaw: "signRaw cfg resolve now wired mech params reader certId bs caller st = (r, evs, st') \<Longrightarrow>
    bstep cfg st evs st'"
| decrypt: "decrypt cfg resolve now wired mech params reader certId bs caller st = (r, evs, st') \<Longrightarrow>
    bstep cfg st evs st'"
| derive: "derive cfg resolve now wired params reader certId caller st = (r, evs, st') \<Longrightarrow>
    bstep cfg st evs st'"
| cryptoDone: "PendCrypto call \<in> set (b_pending st) \<Longrightarrow>
    cryptoDone now call outcome bs st = (r, evs, st') \<Longrightarrow> bstep cfg st evs st'"
| pinMark: "PendCrypto call \<in> set (b_pending st) \<Longrightarrow> pinMark now call st = (r, evs, st') \<Longrightarrow>
    bstep cfg st evs st'"
| pinClear: "PendCrypto call \<in> set (b_pending st) \<Longrightarrow> pinClear now call st = (r, evs, st') \<Longrightarrow>
    bstep cfg st evs st'"
| allowPrompt: "PendCrypto call \<in> set (b_pending st) \<Longrightarrow> allowPrompt now call st = (r, evs, st') \<Longrightarrow>
    bstep cfg st evs st'"
| cardRemoved: "onCardRemoved now card' st = (r, evs, st') \<Longrightarrow> bstep cfg st evs st'"
| disconnected: "onClientDisconnected now client st = (r, evs, st') \<Longrightarrow> bstep cfg st evs st'"
| shutdown: "bstep cfg st [] (st\<lparr>b_shutdown := True\<rparr>)"

definition brokerInit :: BrokerState where
  "brokerInit = \<lparr>b_leases = Map.empty, b_limiter = [], b_shutdown = False, b_pending = []\<rparr>"

inductive breach :: "LeaseConfig \<Rightarrow> BEvent list \<Rightarrow> BrokerState \<Rightarrow> bool" for cfg where
  init: "breach cfg [] brokerInit"
| step: "breach cfg tr st \<Longrightarrow> bstep cfg st evs st' \<Longrightarrow> breach cfg (evs @ tr) st'"

end
