(* ===== verification/BrokerLaws.thy ===== *)
theory BrokerLaws
  imports Broker
begin

text \<open>
  What the broker guarantees over every interleaving of requests, completions and notifications:
  who may reach the card's private keys, what ends that right, and how often a PIN prompt is raised.
\<close>

lemmas broker_ops [step_simps] = login_def authorized_def loginDone_def logout_def loginActive_def signRaw_def
  decrypt_def derive_def runCrypto_def cryptoDone_def pinMark_def pinClear_def allowPrompt_def onCardRemoved_def
  onClientDisconnected_def

section \<open>Histories in a trace\<close>

fun leaseHist :: "BEvent list \<Rightarrow> (time \<times> LeaseOp) list" where
  "leaseHist [] = []"
| "leaseHist (EvLease t op # tr) = (t, op) # leaseHist tr"
| "leaseHist (_ # tr) = leaseHist tr"

fun askHist :: "BEvent list \<Rightarrow> (time \<times> string) list" where
  "askHist [] = []"
| "askHist (EvAsk t c ok # tr) = askHist tr @ [(t, c)]"
| "askHist (_ # tr) = askHist tr"

fun promptHist :: "BEvent list \<Rightarrow> (time \<times> string) list" where
  "promptHist [] = []"
| "promptHist (EvAsk t c ok # tr) = promptHist tr @ (if ok then [(t, c)] else [])"
| "promptHist (_ # tr) = promptHist tr"


lemma set_leaseHist: "(t, op) \<in> set (leaseHist tr) \<longleftrightarrow> EvLease t op \<in> set tr"
  by (induction tr rule: leaseHist.induct) auto

lemma afterCalls_append [simp]: "afterCalls cs (a @ b) = afterCalls (afterCalls cs a) b"
  by (induction cs a rule: afterCalls.induct) auto

lemma granted_append [simp]: "granted cs (a @ b) = granted cs a @ granted (afterCalls cs a) b"
  by (induction cs a rule: granted.induct) (auto split: prod.splits)


section \<open>The broker refines the lease manager and the limiter\<close>



lemma bstep_asks: "bstep cfg st evs st' \<Longrightarrow>
   (evs = [] \<or> (\<forall>e \<in> set evs. \<forall>t c ok. e \<noteq> EvAsk t c ok)) \<and> b_limiter st' = b_limiter st \<or>
   (\<exists>t c. evs = [EvAsk t c (fst (allow t c (b_limiter st)))] \<and> b_limiter st' = snd (allow t c (b_limiter st)))"
  by (induction rule: bstep.induct)
     (auto simp: broker_ops Let_def split: if_splits option.splits LoginOutcome.splits MechanismParams.splits prod.splits)

lemma no_asks: "\<forall>e \<in> set evs. \<forall>t c ok. e \<noteq> EvAsk t c ok \<Longrightarrow>
   askHist (evs @ tr) = askHist tr \<and> promptHist (evs @ tr) = promptHist tr"
  by (induction evs rule: askHist.induct) auto

lemma breach_limiter: "breach cfg tr st \<Longrightarrow>
   b_limiter st = afterCalls [] (askHist tr) \<and> promptHist tr = granted [] (askHist tr)"
proof (induction rule: breach.induct)
  case init
  then show ?case by (simp add: brokerInit_def)
next
  case (step tr st evs st')
  from bstep_asks[OF step(2)] show ?case
    using step.IH no_asks[of evs tr] by (fastforce split: prod.splits)
qed

section \<open>The guard of every card operation\<close>











section \<open>A run\<close>

definition sample_caller :: Caller where
  "sample_caller = \<lparr>busName = '':1.7'', callerLabel = ''mail''\<rparr>"

definition sample_resolve :: "string \<Rightarrow> u64 option" where
  "sample_resolve = (\<lambda>r. if r = ''reader0'' then Some 3 else None)"

definition sample_call :: CryptoCall where
  "sample_call = \<lparr>cc_kind = SignRawOp, cc_key = sample_key, cc_reader = ''reader0'', cc_certId = ''ab'',
     cc_mechanism = EcdsaSign, cc_params = MechParamsEmpty, cc_bytes = [1], cc_requester = ''mail''\<rparr>"

definition sample_trace :: "BEvent list" where
  "sample_trace = [EvSeam sample_call 20, EvLease 20 (OpTouch sample_key), EvLease 10 (OpGrant sample_key),
     EvAuthorized '':1.7'']"

definition sample_state :: BrokerState where
  "sample_state = \<lparr>b_leases = [sample_key \<mapsto> \<lparr>lastUse = 20, origin = 10, pinVerified = False\<rparr>], b_limiter = [],
     b_shutdown = False, b_pending = [PendCrypto sample_call]\<rparr>"

lemmas sample_defs = sample_caller_def sample_resolve_def sample_call_def sample_key_def sample_cfg_def secs_def
  leaseKey_def brokerInit_def signMechanisms_def Let_def

lemma breach_snoc: "breach cfg tr st \<Longrightarrow> bstep cfg st evs st' \<Longrightarrow> tr' = evs @ tr \<Longrightarrow> breach cfg tr' st'"
  by (simp add: breach.step)

lemma sample_run: "breach sample_cfg sample_trace sample_state"
proof -
  let ?st1 = "login ''reader0'' sample_caller brokerInit"
  let ?st2 = "brokerInit\<lparr>b_pending := [PendLogin sample_caller 3]\<rparr>"
  let ?st3 = "brokerInit\<lparr>b_leases := [sample_key \<mapsto> \<lparr>lastUse = 10, origin = 10, pinVerified = False\<rparr>]\<rparr>"
  have "breach sample_cfg [] ?st1" by (rule breach_snoc[OF breach.init bstep.login]) simp
  then have "breach sample_cfg [EvAuthorized '':1.7''] ?st2"
    by (rule breach_snoc[OF _ bstep.authorized[where resolve = sample_resolve and reader = "''reader0''"
          and caller = sample_caller and outcome = AuthGranted and r = None]])
       (simp_all add: step_simps sample_defs)
  then have "breach sample_cfg [EvLease 10 (OpGrant sample_key), EvAuthorized '':1.7''] ?st3"
    by (rule breach_snoc[OF _ bstep.loginDone[where now = 10 and caller = sample_caller and card' = 3
          and outcome = LO_Ok and r = "Some (Inr 600)" and evs = "[EvLease 10 (OpGrant sample_key)]"]])
       (simp_all add: step_simps sample_defs)
  then show ?thesis
    by (rule breach_snoc[OF _ bstep.signRaw[where now = 20 and resolve = sample_resolve and wired = True
          and mech = EcdsaSign and params = MechParamsEmpty and reader = "''reader0''" and certId = "''ab''"
          and bs = "[1]" and caller = sample_caller and r = None
          and evs = "[EvSeam sample_call 20, EvLease 20 (OpTouch sample_key)]"]])
       (simp_all add: step_simps sample_defs sample_state_def sample_trace_def)
qed

section \<open>Properties\<close>





text \<open>A wrong PIN costs the caller its login: unless the agent is shutting down, a completion with
  AuthFailed reports it, and the caller's next operation on that card, at any time and on any
  path, is answered UserNotLoggedIn and changes nothing.\<close>

theorem auth_failure_forces_login:
  assumes "cryptoDone now call CR_AuthFailed bs st = (r, evs, st1)" and "\<not> b_shutdown st"
    and "resolve reader = Some (lk_card (cc_key call))" and "busName caller = lk_caller (cc_key call)"
    and "mech \<in> set allowed" and "wired"
  shows "r = Some (Inl CR_AuthFailed) \<and>
    (\<exists>e. runCrypto cfg resolve now' kind allowed wired mech params reader certId input caller st1 =
      (Some (Inl CR_UserNotLoggedIn), e, st1))"
proof -
  have key: "leaseKey caller (lk_card (cc_key call)) = cc_key call" using assms(4) by (simp add: leaseKey_def)
  have st1: "b_leases st1 = revoke (cc_key call) (b_leases st)" "r = Some (Inl CR_AuthFailed)"
    using assms(1,2) by (auto simp: cryptoDone_def Let_def)
  have "\<not> fst (touch cfg (cc_key call) now' (b_leases st1))"
    unfolding st1 by (rule lg.gone_refused[OF lg.gone_kill])
  moreover have "snd (touch cfg (cc_key call) now' (b_leases st1)) = b_leases st1"
    by (simp add: st1 touch_def revoke_def)
  ultimately show ?thesis
    using assms(3,5,6) st1(2) by (auto simp: runCrypto_def key Let_def split: prod.splits)
qed

theorem auth_failure_forces_login_witness:
  "Some (Inl CR_AuthFailed) = (Some (Inl CR_AuthFailed) :: (CryptoOutcome + bytes) option) \<and>
   (\<exists>e. runCrypto sample_cfg sample_resolve 30 SignRawOp signMechanisms True EcdsaSign MechParamsEmpty ''reader0''
          ''ab'' [1] sample_caller (sample_state\<lparr>b_leases := Map.empty, b_pending := []\<rparr>) =
      (Some (Inl CR_UserNotLoggedIn), e, sample_state\<lparr>b_leases := Map.empty, b_pending := []\<rparr>))"
  by (rule auth_failure_forces_login[where now = 25 and call = sample_call and bs = "[]" and st = sample_state
        and evs = "[EvLease 25 (OpRevoke sample_key)]"])
     (simp_all add: step_simps sample_defs sample_state_def)

text \<open>On a steady clock, the raw-crypto flow may raise at most five PIN prompts per caller in any
  sixty seconds, over every execution of the broker: logging in again, switching cards or running
  operations side by side buys no further prompt.\<close>

theorem pin_prompts_capped:
  assumes "breach cfg tr st" and "sorted (map fst (askHist tr))"
  shows "length (filter (\<lambda>u. t \<le> u \<and> u \<le> t + kWindow) (grantsOf caller (promptHist tr))) \<le> kMaxPerWindow"
  using breach_limiter[OF assms(1)] granted_from_empty[OF assms(2)] by (simp add: capped_def)

theorem pin_prompts_capped_witness:
  "length (filter (\<lambda>u. 0 \<le> u \<and> u \<le> 0 + kWindow) (grantsOf '':1.7'' (promptHist sample_trace))) \<le> kMaxPerWindow"
  by (rule pin_prompts_capped[OF sample_run]) (simp add: sample_trace_def)

end
