(* ===== verification/Der.thy ===== *)
theory Der
  imports WireTypes
begin

text \<open>
  Byte-level readers and writers shared by the PKCS#11 module: DER lengths
  (\<^verbatim>\<open>src/util/DerLength.h\<close>), the elements of a certificate (\<^verbatim>\<open>takeDerElement\<close> and \<^verbatim>\<open>certificateField\<close> of
  \<^verbatim>\<open>src/pkcs11/Module.cpp\<close>), EC points (\<^verbatim>\<open>src/pkcs11/EcEncoding.cpp\<close>) and display text
  (\<^verbatim>\<open>util/DisplayText.h\<close>). Offsets and sizes are \<^verbatim>\<open>size_t\<close>; the code bounds every one by the size of
  the data before using it, so they are natural numbers here.
\<close>

unbundle bit_operations_syntax

section \<open>DER lengths\<close>

definition kMaxDerLengthOctets :: nat where "kMaxDerLengthOctets = 4"

record DerLength =
  dl_length :: nat
  dl_lengthOctets :: nat

definition beNat :: "bytes \<Rightarrow> nat" where
  "beNat bs = foldl (\<lambda>v b. v * 256 + unat b) 0 bs"

definition derLengthFits :: "bytes \<Rightarrow> nat \<Rightarrow> nat \<Rightarrow> nat \<Rightarrow> DerLength option" where
  "derLengthFits bs pos value octets =
     (if value > length bs - pos - octets then None else Some \<lparr>dl_length = value, dl_lengthOctets = octets\<rparr>)"

definition readDerLength :: "bytes \<Rightarrow> nat \<Rightarrow> DerLength option" where
  "readDerLength bs pos =
     (if pos \<ge> length bs then None
      else
        (let first = bs ! pos
         in if first AND 0x80 \<noteq> 0 then
              (let octets = unat (first AND 0x7F)
               in if octets = 0 \<or> octets > kMaxDerLengthOctets \<or> octets > length bs - pos - 1 then None
                  else derLengthFits bs pos (beNat (take octets (drop (pos + 1) bs))) (1 + octets))
            else derLengthFits bs pos (unat first) 1))"

section \<open>Certificate fields\<close>

record DerElement =
  de_whole :: bytes
  de_content :: bytes

text \<open>The element at the front and what is left of the input.\<close>

definition takeDerElement :: "bytes \<Rightarrow> (DerElement \<times> bytes) option" where
  "takeDerElement bs =
     (if bs = [] \<or> bs ! 0 AND 0x1F = 0x1F then None
      else (case readDerLength bs 1 of
              None \<Rightarrow> None
            | Some len \<Rightarrow>
                (let header = 1 + dl_lengthOctets len
                 in Some (\<lparr>de_whole = take (header + dl_length len) bs,
                           de_content = take (dl_length len) (drop header bs)\<rparr>,
                          drop (header + dl_length len) bs))))"

text \<open>
  The lambda \<^verbatim>\<open>take\<close>: the element when it has the tag; the input moves on whenever there is an
  element at all.
\<close>

definition takeTag :: "bytes \<Rightarrow> u8 \<Rightarrow> DerElement option \<times> bytes" where
  "takeTag bs tag =
     (case takeDerElement bs of
        None \<Rightarrow> (None, bs)
      | Some (e, rest) \<Rightarrow> (if de_whole e ! 0 = tag then Some e else None, rest))"

datatype CertFieldName = FieldSerialNumber | FieldIssuer | FieldSubject

definition tbsFields :: "bytes \<Rightarrow> CertFieldName \<Rightarrow> bytes option" where
  "tbsFields fs type =
     (case takeTag fs 0x02 of (serial, fs1) \<Rightarrow>
      case takeTag fs1 0x30 of (signature, fs2) \<Rightarrow>
      case takeTag fs2 0x30 of (issuer, fs3) \<Rightarrow>
      case takeTag fs3 0x30 of (validity, fs4) \<Rightarrow>
      case takeTag fs4 0x30 of (subject, _) \<Rightarrow>
        if serial = None \<or> signature = None \<or> issuer = None \<or> validity = None \<or> subject = None then None
        else (case type of
                FieldSerialNumber \<Rightarrow> map_option de_whole serial
              | FieldIssuer \<Rightarrow> map_option de_whole issuer
              | FieldSubject \<Rightarrow> map_option de_whole subject))"

definition certificateField :: "bytes \<Rightarrow> CertFieldName \<Rightarrow> bytes option" where
  "certificateField der type =
     (case fst (takeTag der 0x30) of
        None \<Rightarrow> None
      | Some cert \<Rightarrow>
          (case fst (takeTag (de_content cert) 0x30) of
             None \<Rightarrow> None
           | Some tbs \<Rightarrow>
               (let fs = de_content tbs
                in if fs \<noteq> [] \<and> fs ! 0 = 0xA0 then
                     (case takeDerElement fs of None \<Rightarrow> None | Some (_, rest) \<Rightarrow> tbsFields rest type)
                   else tbsFields fs type)))"

section \<open>EC points\<close>

definition appendDerLength :: "nat \<Rightarrow> bytes" where
  "appendDerLength n =
     (if n < 0x80 then [of_nat n]
      else if n \<le> 0xFF then [0x81, of_nat n]
      else [0x82, of_nat (n div 256), of_nat (n mod 256)])"

definition ecParamsDerFor :: "u32 \<Rightarrow> bytes" where
  "ecParamsDerFor keyBits = (case nistCurveByBits keyBits of Some c \<Rightarrow> nc_oidDer c | None \<Rightarrow> [])"

definition isNamedCurvePoint :: "string \<Rightarrow> bytes \<Rightarrow> bytes \<Rightarrow> bool" where
  "isNamedCurvePoint crv x y =
     (case nistCurveByName crv of
        None \<Rightarrow> False
      | Some c \<Rightarrow> length x = nc_fieldBytes c \<and> length y = nc_fieldBytes c)"

definition isPointOfKey :: "u32 \<Rightarrow> string \<Rightarrow> bytes \<Rightarrow> bytes \<Rightarrow> bool" where
  "isPointOfKey keyBits crv x y =
     (case nistCurveByBits keyBits of
        None \<Rightarrow> False
      | Some c \<Rightarrow> nc_crv c = crv \<and> isNamedCurvePoint crv x y)"

definition ecPointOctetString :: "bytes \<Rightarrow> bytes \<Rightarrow> bytes" where
  "ecPointOctetString x y =
     (if x = [] \<or> length x \<noteq> length y then []
      else [0x04] @ appendDerLength (1 + length x + length y) @ [0x04] @ x @ y)"

definition peerPointFromPublicData :: "bytes \<Rightarrow> u32 \<Rightarrow> bytes option" where
  "peerPointFromPublicData publicData keyBits =
     (let n = (unat keyBits + 7) div 8
      in if n = 0 then None
         else
           (let pointLen = 1 + 2 * n;
                header = [0x04] @ appendDerLength pointLen;
                point =
                  (if length publicData = pointLen then Some publicData
                   else if length publicData \<noteq> length header + pointLen \<or>
                           take (length header) publicData \<noteq> header then None
                   else Some (drop (length header) publicData))
            in case point of None \<Rightarrow> None | Some p \<Rightarrow> if hd p \<noteq> 0x04 then None else Some p))"

section \<open>Display text\<close>

text \<open>The continuation bytes of one sequence, folded into its code point.\<close>

fun utf8Cont :: "nat \<Rightarrow> u32 \<Rightarrow> bytes \<Rightarrow> (u32 \<times> bytes) option" where
  "utf8Cont 0 cp bs = Some (cp, bs)"
| "utf8Cont (Suc k) cp [] = None"
| "utf8Cont (Suc k) cp (b # bs) =
     (if b AND 0xC0 \<noteq> 0x80 then None else utf8Cont k (push_bit 6 cp OR ucast (b AND 0x3F)) bs)"

definition utf8Lead :: "u8 \<Rightarrow> (nat \<times> u32 \<times> u32) option" where
  "utf8Lead c =
     (if c AND 0xE0 = 0xC0 then Some (1, ucast (c AND 0x1F), 0x80)
      else if c AND 0xF0 = 0xE0 then Some (2, ucast (c AND 0x0F), 0x800)
      else if c AND 0xF8 = 0xF0 then Some (3, ucast (c AND 0x07), 0x10000)
      else None)"

lemma utf8Cont_length: "utf8Cont k cp bs = Some (cp', rest) \<Longrightarrow> length rest \<le> length bs"
  by (induction k cp bs rule: utf8Cont.induct) (auto split: if_splits)

function isDisplayableUtf8 :: "bytes \<Rightarrow> bool" where
  "isDisplayableUtf8 [] = True"
| "isDisplayableUtf8 (c # bs) =
     (if c < 0x20 \<or> c = 0x7F then False
      else if c < 0x80 then isDisplayableUtf8 bs
      else (case utf8Lead c of
              None \<Rightarrow> False
            | Some (cont, cp0, minCp) \<Rightarrow>
                (case utf8Cont cont cp0 bs of
                   None \<Rightarrow> False
                 | Some (cp, rest) \<Rightarrow>
                     if cp < minCp \<or> cp > 0x10FFFF \<or> (cp \<ge> 0xD800 \<and> cp \<le> 0xDFFF) then False
                     else isDisplayableUtf8 rest)))"
  by pat_completeness auto
termination
  by (relation "measure length") (auto dest: utf8Cont_length)

text \<open>The cut moves back over continuation bytes to the lead byte of their sequence.\<close>

fun backOff :: "bytes \<Rightarrow> nat \<Rightarrow> nat" where
  "backOff text 0 = 0"
| "backOff text (Suc n) = (if text ! Suc n AND 0xC0 = 0x80 then backOff text n else Suc n)"

definition utf8PrefixLength :: "bytes \<Rightarrow> nat \<Rightarrow> nat" where
  "utf8PrefixLength text maxBytes = (if length text \<le> maxBytes then length text else backOff text maxBytes)"

definition padField :: "nat \<Rightarrow> bytes \<Rightarrow> bytes" where
  "padField len src =
     (let n = utf8PrefixLength src len in take n src @ replicate (len - n) 0x20)"

end
