(* ===== verification/DerLaws.thy ===== *)
theory DerLaws
  imports Der
begin

text \<open>
  Correctness of the byte-level readers: a certificate's fields are found exactly where its encoder
  put them, an EC point survives both of its encodings, and a text field cut to size is never cut
  inside a character.
\<close>

section \<open>DER lengths\<close>

lemma mask_byte: "(x :: u8) < 0x80 \<Longrightarrow> x AND 0x80 = 0"
proof -
  assume "x < 0x80"
  then have "unat x < 128" by (simp add: word_less_nat_alt)
  then have "drop_bit 7 (unat x) = 0" by (simp add: drop_bit_eq_div)
  then have "drop_bit 7 x = 0" unfolding unat_drop_bit_eq[symmetric] unat_eq_0 .
  then have "\<not> bit x 7" by (simp only: bit_iff_odd_drop_bit) simp
  then show ?thesis using and_exp_eq_0_iff_not_bit[of x 7] by simp
qed

lemma readDerLength_append:
  assumes "n < 65536" "n \<le> length rest"
  shows "readDerLength (pre @ appendDerLength n @ rest) (length pre) =
    Some \<lparr>dl_length = n, dl_lengthOctets = length (appendDerLength n)\<rparr>"
proof -
  consider "n < 0x80" | "0x80 \<le> n" "n \<le> 0xFF" | "0xFF < n" by linarith
  then show ?thesis
  proof cases
    case 1
    then have u: "unat (of_nat n :: u8) = n" by (simp add: unat_of_nat take_bit_nat_eq_self)
    then have "(of_nat n :: u8) < 0x80" using 1 by (simp add: word_less_nat_alt)
    from mask_byte[OF this] show ?thesis
      using 1 u assms by (simp add: readDerLength_def appendDerLength_def derLengthFits_def Let_def nth_append)
  next
    case 2
    then have "unat (of_nat n :: u8) = n" by (simp add: unat_of_nat take_bit_nat_eq_self)
    then show ?thesis using 2 assms
      by (simp add: readDerLength_def appendDerLength_def derLengthFits_def beNat_def kMaxDerLengthOctets_def Let_def nth_append)
  next
    case 3
    then have "unat (of_nat (n div 256) :: u8) = n div 256" "unat (of_nat (n mod 256) :: u8) = n mod 256"
      using assms(1) by (simp_all add: unat_of_nat take_bit_nat_eq_self)
    then show ?thesis using 3 assms
      by (simp add: readDerLength_def appendDerLength_def derLengthFits_def beNat_def kMaxDerLengthOctets_def Let_def nth_append)
  qed
qed

section \<open>Elements\<close>

text \<open>An element with a low tag, as an encoder writes it.\<close>

definition tlv :: "u8 \<Rightarrow> bytes \<Rightarrow> bytes" where
  "tlv tag content = tag # appendDerLength (length content) @ content"

lemma takeDerElement_tlv:
  assumes "tag AND 0x1F \<noteq> 0x1F" "length content < 65536"
  shows "takeDerElement (tlv tag content @ rest) =
    Some (\<lparr>de_whole = tlv tag content, de_content = content\<rparr>, rest)"
  using readDerLength_append[of "length content" "content @ rest" "[tag]"] assms
  by (simp add: takeDerElement_def tlv_def Let_def)

lemma takeTag_tlv:
  assumes "length content < 65536" "tag AND 0x1F \<noteq> 0x1F"
  shows "takeTag (tlv tag content @ rest) tag = (Some \<lparr>de_whole = tlv tag content, de_content = content\<rparr>, rest)"
  using takeDerElement_tlv[OF assms(2,1), of rest] by (simp add: takeTag_def tlv_def)

text \<open>C24. The fields the module serves for a certificate are the ones its issuer wrote: for every DER
  certificate of less than 64 KiB, with or without an explicit version, whatever follows the subject
  and whatever follows the to-be-signed part, the serial number, issuer and subject come out as the
  whole encoded element, byte for byte.\<close>

theorem certificate_fields_exact:
  assumes "length (tlv 0x30 (tbs @ trailer)) < 65536"
    and "tbs = tlv 0x30 (version @ tlv 0x02 serial @ tlv 0x30 sigAlg @ tlv 0x30 issuer @ tlv 0x30 validity @
           tlv 0x30 subject @ others)"
    and "version = [] \<or> version = tlv 0xA0 v"
  shows "certificateField (tlv 0x30 (tbs @ trailer)) field =
    Some (case field of FieldSerialNumber \<Rightarrow> tlv 0x02 serial | FieldIssuer \<Rightarrow> tlv 0x30 issuer
            | FieldSubject \<Rightarrow> tlv 0x30 subject)"
proof -
  let ?fs = "tlv 0x02 serial @ tlv 0x30 sigAlg @ tlv 0x30 issuer @ tlv 0x30 validity @ tlv 0x30 subject @ others"
  have len: "length c \<le> length (tlv t c)" for t c by (simp add: tlv_def)
  have lens: "length (tbs @ trailer) < 65536" "length (version @ ?fs) < 65536" 
    using assms(1) len[of "tbs @ trailer" "0x30"] len[of "version @ ?fs" "0x30"] by (simp_all add: assms(2))
  have small: "length v' < 65536" if "version = tlv 0xA0 v'" for v'
    using lens(2) that len[of v' "0xA0"] by simp
  have parts: "length serial < 65536" "length sigAlg < 65536" "length issuer < 65536" "length validity < 65536"
    "length subject < 65536"
    using lens(2) len[of serial 2] len[of sigAlg "0x30"] len[of issuer "0x30"] len[of validity "0x30"] len[of subject "0x30"]
    by simp_all
  have inner: "tbsFields ?fs field = Some (case field of FieldSerialNumber \<Rightarrow> tlv 0x02 serial
      | FieldIssuer \<Rightarrow> tlv 0x30 issuer | FieldSubject \<Rightarrow> tlv 0x30 subject)"
    by (cases field) (simp_all add: tbsFields_def takeTag_tlv parts)
  have outer: "certificateField (tlv 0x30 (tbs @ trailer)) field =
      (if version @ ?fs \<noteq> [] \<and> (version @ ?fs) ! 0 = 0xA0
       then (case takeDerElement (version @ ?fs) of None \<Rightarrow> None | Some (_, rest) \<Rightarrow> tbsFields rest field)
       else tbsFields (version @ ?fs) field)"
    using takeTag_tlv[OF lens(1), of "0x30" "[]"] takeTag_tlv[OF lens(2), of "0x30" trailer]
    by (simp add: certificateField_def assms(2) Let_def)
  from assms(3) show ?thesis
  proof
    assume "version = []"
    then show ?thesis using outer inner by (simp add: tlv_def)
  next
    assume v: "version = tlv 0xA0 v"
    then show ?thesis
      using outer inner takeDerElement_tlv[of "0xA0" v ?fs] small[OF v] by (simp add: tlv_def)
  qed
qed

theorem certificate_fields_exact_witness:
  "certificateField (tlv 0x30 (tlv 0x30 (tlv 0xA0 [2] @ tlv 0x02 [7] @ tlv 0x30 [] @ tlv 0x30 [1, 2] @ tlv 0x30 [] @
     tlv 0x30 [3] @ [9]) @ [])) FieldIssuer = Some [0x30, 2, 1, 2]"
  using certificate_fields_exact[of _ "[]" "tlv 0xA0 [2]" "[7]" "[]" "[1, 2]" "[]" "[3]" "[9]" "[2]" FieldIssuer]
  by (simp add: tlv_def appendDerLength_def)

section \<open>EC points\<close>

text \<open>A peer point is read back exactly in either of the forms a caller may pass: for a key of
  any size, the uncompressed point and the point wrapped in a DER octet string, which is what the
  module itself serves as \<^verbatim>\<open>CKA_EC_POINT\<close>, both give the uncompressed point.\<close>

theorem ec_point_roundtrip:
  assumes "0 < keyBits" "length x = (unat keyBits + 7) div 8" "length y = length x"
  shows "peerPointFromPublicData (ecPointOctetString x y) keyBits = Some (0x04 # x @ y) \<and>
    peerPointFromPublicData (0x04 # x @ y) keyBits = Some (0x04 # x @ y)"
proof -
  have n: "0 < length x"
    using assms(1,2) by (simp add: word_less_nat_alt)
  have header: "length (appendDerLength k) \<noteq> 0" for k by (simp add: appendDerLength_def)
  have "ecPointOctetString x y = 0x04 # appendDerLength (1 + length x + length y) @ 0x04 # x @ y"
    using n assms(3) by (auto simp: ecPointOctetString_def)
  then show ?thesis
    using n assms(2,3) header[of "1 + 2 * length x"]
    by (simp add: peerPointFromPublicData_def Let_def mult_2)
qed

theorem ec_point_roundtrip_witness:
  "peerPointFromPublicData (ecPointOctetString (replicate 32 5) (replicate 32 6)) 256 =
     Some (0x04 # replicate 32 5 @ replicate 32 6)"
  using ec_point_roundtrip[of 256 "replicate 32 5" "replicate 32 6"] by simp

section \<open>Display text\<close>

lemma utf8Cont_parts:
  "utf8Cont k cp bs = Some (cp', rest) \<Longrightarrow>
   \<exists>mid. bs = mid @ rest \<and> length mid = k \<and> (\<forall>b\<in>set mid. b AND 0xC0 = 0x80) \<and> (\<forall>r. utf8Cont k cp (mid @ r) = Some (cp', r))"
proof (induction k cp bs rule: utf8Cont.induct)
  case (3 k cp b bs)
  then have b: "b AND 0xC0 = 0x80" and "utf8Cont k (push_bit 6 cp OR ucast (b AND 0x3F)) bs = Some (cp', rest)"
    by (auto split: if_splits)
  with 3(1) obtain mid where "bs = mid @ rest" "length mid = k" "\<forall>c\<in>set mid. c AND 0xC0 = 0x80"
    "\<forall>r. utf8Cont k (push_bit 6 cp OR ucast (b AND 0x3F)) (mid @ r) = Some (cp', r)" by auto
  then show ?case using b by (intro exI[of _ "b # mid"]) simp
qed auto

text \<open>A cut before a byte that is no continuation byte keeps whole characters.\<close>

lemma displayable_take:
  "isDisplayableUtf8 src \<Longrightarrow> n < length src \<Longrightarrow> n = 0 \<or> src ! n AND 0xC0 \<noteq> 0x80 \<Longrightarrow> isDisplayableUtf8 (take n src)"
proof (induction src arbitrary: n rule: isDisplayableUtf8.induct)
  case (2 c bs)
  show ?case
  proof (cases n)
    case (Suc m)
    show ?thesis
    proof (cases "c < 0x80")
      case True
      then show ?thesis using 2 Suc by (cases m) (auto split: if_splits)
    next
      case False
      then obtain cont cp0 minCp cp rest where u: "utf8Lead c = Some (cont, cp0, minCp)" "utf8Cont cont cp0 bs = Some (cp, rest)"
        "\<not> (c < 0x20 \<or> c = 0x7F)" "\<not> (cp < minCp \<or> cp > 0x10FFFF \<or> (cp \<ge> 0xD800 \<and> cp \<le> 0xDFFF))" "isDisplayableUtf8 rest"
        using 2(3) by (auto split: if_splits option.splits)
      obtain mid where mid: "bs = mid @ rest" "length mid = cont" "\<forall>b\<in>set mid. b AND 0xC0 = 0x80"
        "\<forall>r. utf8Cont cont cp0 (mid @ r) = Some (cp, r)"
        using utf8Cont_parts[OF u(2)] by blast
      have m: "cont \<le> m"
      proof (rule ccontr)
        assume "\<not> cont \<le> m"
        then have "(c # bs) ! n \<in> set mid" using mid(1,2) Suc by (simp add: nth_append)
        then show False using mid(3) 2(5) Suc by simp
      qed
      have "isDisplayableUtf8 (take (m - cont) rest)"
      proof (rule 2(2)[OF u(3) False u(1) refl refl u(2) refl u(4,5)])
        show "m - cont < length rest" using 2(4) Suc mid(1,2) m by simp
        show "m - cont = 0 \<or> rest ! (m - cont) AND 0xC0 \<noteq> 0x80" using 2(5) Suc mid(1,2) m by (simp add: nth_append)
      qed
      moreover have "take n (c # bs) = c # mid @ take (m - cont) rest" using Suc mid(1,2) m by simp
      ultimately show ?thesis using u(1,3,4) mid(4) False by simp
    qed
  qed simp
qed simp

lemma displayable_append: "isDisplayableUtf8 a \<Longrightarrow> isDisplayableUtf8 b \<Longrightarrow> isDisplayableUtf8 (a @ b)"
proof (induction a rule: isDisplayableUtf8.induct)
  case (2 c bs)
  show ?case
  proof (cases "c < 0x80")
    case True
    then show ?thesis using 2 by (auto split: if_splits)
  next
    case False
    then obtain cont cp0 minCp cp rest where u: "utf8Lead c = Some (cont, cp0, minCp)" "utf8Cont cont cp0 bs = Some (cp, rest)"
      "\<not> (c < 0x20 \<or> c = 0x7F)" "\<not> (cp < minCp \<or> cp > 0x10FFFF \<or> (cp \<ge> 0xD800 \<and> cp \<le> 0xDFFF))" "isDisplayableUtf8 rest"
      using 2(3) by (auto split: if_splits option.splits)
    have "isDisplayableUtf8 (rest @ b)" by (rule 2(2)[OF u(3) False u(1) refl refl u(2) refl u(4,5) 2(4)])
    moreover obtain mid where "bs = mid @ rest" "\<forall>r. utf8Cont cont cp0 (mid @ r) = Some (cp, r)"
      using utf8Cont_parts[OF u(2)] by blast
    ultimately show ?thesis using u(1,3,4) False by simp
  qed
qed simp

lemma backOff_facts: "backOff src n \<le> n" "backOff src n = 0 \<or> src ! backOff src n AND 0xC0 \<noteq> 0x80"
  by (induction src n rule: backOff.induct) auto

lemma displayable_spaces: "isDisplayableUtf8 (replicate n 0x20)"
  by (induction n) simp_all

text \<open>A blank-padded field of a slot or token description is always exactly as long as its structure
  says, and a name that was displayable stays displayable in it: the cut to size never falls inside
  a multi-byte character.\<close>

theorem padded_field_displayable:
  "length (padField len src) = len \<and> (isDisplayableUtf8 src \<longrightarrow> isDisplayableUtf8 (padField len src))"
proof -
  let ?n = "utf8PrefixLength src len"
  have n: "?n \<le> len" "?n \<le> length src" using backOff_facts(1)[of src len] by (auto simp: utf8PrefixLength_def)
  have "isDisplayableUtf8 (take ?n src)" if "isDisplayableUtf8 src"
    using that displayable_take[OF that, of "backOff src len"] backOff_facts[of src len]
    by (auto simp: utf8PrefixLength_def)
  then show ?thesis using n displayable_append displayable_spaces by (simp add: padField_def Let_def)
qed

theorem padded_field_displayable_witness:
  "isDisplayableUtf8 [0x41, 0xC5, 0xA0] \<and> isDisplayableUtf8 (padField 2 [0x41, 0xC5, 0xA0]) \<and>
   padField 2 [0x41, 0xC5, 0xA0] = [0x41, 0x20]"
proof -
  have d: "isDisplayableUtf8 [0x41, 0xC5, 0xA0]" by code_simp
  moreover have "padField 2 [0x41, 0xC5, 0xA0] = [0x41, 0x20 :: u8]" by code_simp
  ultimately show ?thesis using padded_field_displayable[of 2 "[0x41, 0xC5, 0xA0]"] by blast
qed

end
