(* ===== verification/Objects.thy ===== *)
theory Objects
  imports Der
begin

text \<open>
  The PKCS#11 module's view of the cards: the slot and object model built from an agent snapshot
  (\<^verbatim>\<open>src/pkcs11/ObjectModel.cpp\<close>, \<^verbatim>\<open>pkcs11/ObjectModel.h\<close>), attributes and their buffer protocol, and the
  secret keys made by \<^verbatim>\<open>C_DeriveKey\<close> (\<^verbatim>\<open>src/pkcs11/DerivedKeys.cpp\<close>). \<^verbatim>\<open>CK_ULONG\<close> is 64 bits wide, as the
  code asserts; a \<^verbatim>\<open>memcpy\<close> of one to or from a buffer is little-endian.
\<close>

type_synonym CK_ULONG = u64

section \<open>Constants of the C ABI\<close>

abbreviation CKA_CLASS :: CK_ULONG where "CKA_CLASS \<equiv> 0x000"
abbreviation CKA_TOKEN :: CK_ULONG where "CKA_TOKEN \<equiv> 0x001"
abbreviation CKA_PRIVATE :: CK_ULONG where "CKA_PRIVATE \<equiv> 0x002"
abbreviation CKA_LABEL :: CK_ULONG where "CKA_LABEL \<equiv> 0x003"
abbreviation CKA_VALUE :: CK_ULONG where "CKA_VALUE \<equiv> 0x011"
abbreviation CKA_CERTIFICATE_TYPE :: CK_ULONG where "CKA_CERTIFICATE_TYPE \<equiv> 0x080"
abbreviation CKA_ISSUER :: CK_ULONG where "CKA_ISSUER \<equiv> 0x081"
abbreviation CKA_SERIAL_NUMBER :: CK_ULONG where "CKA_SERIAL_NUMBER \<equiv> 0x082"
abbreviation CKA_KEY_TYPE :: CK_ULONG where "CKA_KEY_TYPE \<equiv> 0x100"
abbreviation CKA_SUBJECT :: CK_ULONG where "CKA_SUBJECT \<equiv> 0x101"
abbreviation CKA_ID :: CK_ULONG where "CKA_ID \<equiv> 0x102"
abbreviation CKA_SENSITIVE :: CK_ULONG where "CKA_SENSITIVE \<equiv> 0x103"
abbreviation CKA_ENCRYPT :: CK_ULONG where "CKA_ENCRYPT \<equiv> 0x104"
abbreviation CKA_DECRYPT :: CK_ULONG where "CKA_DECRYPT \<equiv> 0x105"
abbreviation CKA_WRAP :: CK_ULONG where "CKA_WRAP \<equiv> 0x106"
abbreviation CKA_UNWRAP :: CK_ULONG where "CKA_UNWRAP \<equiv> 0x107"
abbreviation CKA_SIGN :: CK_ULONG where "CKA_SIGN \<equiv> 0x108"
abbreviation CKA_VERIFY :: CK_ULONG where "CKA_VERIFY \<equiv> 0x10A"
abbreviation CKA_DERIVE :: CK_ULONG where "CKA_DERIVE \<equiv> 0x10C"
abbreviation CKA_MODULUS :: CK_ULONG where "CKA_MODULUS \<equiv> 0x120"
abbreviation CKA_MODULUS_BITS :: CK_ULONG where "CKA_MODULUS_BITS \<equiv> 0x121"
abbreviation CKA_PUBLIC_EXPONENT :: CK_ULONG where "CKA_PUBLIC_EXPONENT \<equiv> 0x122"
abbreviation CKA_VALUE_LEN :: CK_ULONG where "CKA_VALUE_LEN \<equiv> 0x161"
abbreviation CKA_EXTRACTABLE :: CK_ULONG where "CKA_EXTRACTABLE \<equiv> 0x162"
abbreviation CKA_LOCAL :: CK_ULONG where "CKA_LOCAL \<equiv> 0x163"
abbreviation CKA_NEVER_EXTRACTABLE :: CK_ULONG where "CKA_NEVER_EXTRACTABLE \<equiv> 0x164"
abbreviation CKA_ALWAYS_SENSITIVE :: CK_ULONG where "CKA_ALWAYS_SENSITIVE \<equiv> 0x165"
abbreviation CKA_KEY_GEN_MECHANISM :: CK_ULONG where "CKA_KEY_GEN_MECHANISM \<equiv> 0x166"
abbreviation CKA_EC_PARAMS :: CK_ULONG where "CKA_EC_PARAMS \<equiv> 0x180"
abbreviation CKA_EC_POINT :: CK_ULONG where "CKA_EC_POINT \<equiv> 0x181"
abbreviation CKA_ALWAYS_AUTHENTICATE :: CK_ULONG where "CKA_ALWAYS_AUTHENTICATE \<equiv> 0x202"

abbreviation CKO_CERTIFICATE :: CK_ULONG where "CKO_CERTIFICATE \<equiv> 1"
abbreviation CKO_PUBLIC_KEY :: CK_ULONG where "CKO_PUBLIC_KEY \<equiv> 2"
abbreviation CKO_PRIVATE_KEY :: CK_ULONG where "CKO_PRIVATE_KEY \<equiv> 3"
abbreviation CKO_SECRET_KEY :: CK_ULONG where "CKO_SECRET_KEY \<equiv> 4"

abbreviation CKK_RSA :: CK_ULONG where "CKK_RSA \<equiv> 0"
abbreviation CKK_EC :: CK_ULONG where "CKK_EC \<equiv> 3"
abbreviation CKK_GENERIC_SECRET :: CK_ULONG where "CKK_GENERIC_SECRET \<equiv> 0x10"
abbreviation CKK_AES :: CK_ULONG where "CKK_AES \<equiv> 0x1F"

abbreviation CKM_RSA_PKCS :: CK_ULONG where "CKM_RSA_PKCS \<equiv> 0x0001"
abbreviation CKM_SHA256_RSA_PKCS :: CK_ULONG where "CKM_SHA256_RSA_PKCS \<equiv> 0x0040"
abbreviation CKM_ECDSA :: CK_ULONG where "CKM_ECDSA \<equiv> 0x1041"
abbreviation CKM_ECDH1_DERIVE :: CK_ULONG where "CKM_ECDH1_DERIVE \<equiv> 0x1050"

abbreviation CK_FALSE :: u8 where "CK_FALSE \<equiv> 0"
abbreviation CK_TRUE :: u8 where "CK_TRUE \<equiv> 1"
abbreviation CK_UNAVAILABLE_INFORMATION :: CK_ULONG where "CK_UNAVAILABLE_INFORMATION \<equiv> -1"

text \<open>The return codes the module uses.\<close>

datatype CK_RV =
    CKR_OK | CKR_SLOT_ID_INVALID | CKR_GENERAL_ERROR | CKR_FUNCTION_FAILED | CKR_ARGUMENTS_BAD | CKR_CANT_LOCK
  | CKR_ATTRIBUTE_READ_ONLY | CKR_ATTRIBUTE_SENSITIVE | CKR_ATTRIBUTE_TYPE_INVALID | CKR_ATTRIBUTE_VALUE_INVALID
  | CKR_ACTION_PROHIBITED | CKR_DATA_LEN_RANGE | CKR_DEVICE_ERROR | CKR_DEVICE_REMOVED
  | CKR_ENCRYPTED_DATA_LEN_RANGE | CKR_FUNCTION_CANCELED | CKR_FUNCTION_NOT_SUPPORTED | CKR_KEY_HANDLE_INVALID
  | CKR_KEY_TYPE_INCONSISTENT | CKR_KEY_FUNCTION_NOT_PERMITTED | CKR_MECHANISM_INVALID | CKR_MECHANISM_PARAM_INVALID
  | CKR_OBJECT_HANDLE_INVALID | CKR_OPERATION_ACTIVE | CKR_OPERATION_NOT_INITIALIZED | CKR_PIN_INCORRECT
  | CKR_SESSION_HANDLE_INVALID | CKR_SESSION_PARALLEL_NOT_SUPPORTED | CKR_TEMPLATE_INCOMPLETE
  | CKR_TEMPLATE_INCONSISTENT | CKR_TOKEN_NOT_PRESENT | CKR_USER_ALREADY_LOGGED_IN | CKR_USER_NOT_LOGGED_IN
  | CKR_USER_TYPE_INVALID | CKR_BUFFER_TOO_SMALL | CKR_CRYPTOKI_NOT_INITIALIZED | CKR_CRYPTOKI_ALREADY_INITIALIZED
  | CKR_FUNCTION_REJECTED

section \<open>Attributes\<close>

text \<open>\<^verbatim>\<open>CK_ATTRIBUTE\<close>: \<open>at_value\<close> is the caller's buffer, \<^verbatim>\<open>None\<close> for a null pointer.\<close>

record CK_ATTRIBUTE =
  at_type :: CK_ULONG
  at_value :: "bytes option"
  at_len :: CK_ULONG

fun leWord :: "bytes \<Rightarrow> u64" where
  "leWord [] = 0"
| "leWord (b # bs) = ucast b OR push_bit 8 (leWord bs)"

fun leBytesN :: "nat \<Rightarrow> u64 \<Rightarrow> bytes" where
  "leBytesN 0 w = []"
| "leBytesN (Suc n) w = ucast w # leBytesN n (drop_bit 8 w)"

definition leBytes :: "u64 \<Rightarrow> bytes" where
  "leBytes w = leBytesN 8 w"

definition boolOf :: "CK_ATTRIBUTE \<Rightarrow> u8 option" where
  "boolOf a =
     (case at_value a of
        None \<Rightarrow> None
      | Some p \<Rightarrow> if at_len a \<noteq> 1 then None else Some (hd p))"

definition scalarOf :: "CK_ATTRIBUTE \<Rightarrow> CK_ULONG option" where
  "scalarOf a =
     (case at_value a of
        None \<Rightarrow> None
      | Some p \<Rightarrow> if at_len a \<noteq> 8 then None else Some (leWord (take 8 p)))"

definition attrBytes :: "CK_ATTRIBUTE \<Rightarrow> bytes option" where
  "attrBytes a = map_option (take (unat (at_len a))) (at_value a)"

definition give :: "CK_ATTRIBUTE \<Rightarrow> bytes \<Rightarrow> CK_RV \<times> CK_ATTRIBUTE" where
  "give attr src =
     (case at_value attr of
        None \<Rightarrow> (CKR_OK, attr\<lparr>at_len := of_nat (length src)\<rparr>)
      | Some p \<Rightarrow>
          if unat (at_len attr) < length src then
            (CKR_BUFFER_TOO_SMALL, attr\<lparr>at_len := CK_UNAVAILABLE_INFORMATION\<rparr>)
          else (CKR_OK, attr\<lparr>at_value := Some (src @ drop (length src) p), at_len := of_nat (length src)\<rparr>))"

definition giveBool :: "CK_ATTRIBUTE \<Rightarrow> bool \<Rightarrow> CK_RV \<times> CK_ATTRIBUTE" where
  "giveBool attr b = give attr [if b then CK_TRUE else CK_FALSE]"

section \<open>The slot and object model\<close>

record CertEntry =
  ce_certId :: string
  ce_label :: string
  ce_holderName :: string
  ce_ckaId :: bytes
  ce_signingCapable :: bool
  ce_canSign :: bool
  ce_canDecrypt :: bool
  ce_signsHashOnCard :: bool
  ce_alwaysAuthenticate :: bool
  ce_canDerive :: bool
  ce_keyType :: KeyType
  ce_keyBits :: u32

text \<open>\<^verbatim>\<open>Pkcs11Agent::ReaderState\<close>.\<close>

record AgentReader =
  ar_readerPath :: string
  ar_readerName :: string
  ar_hasCard :: bool
  ar_tokenLabel :: string
  ar_tokenSerial :: string
  ar_certs :: "CertEntry list"

type_synonym AgentSnapshot = "AgentReader list"

definition tokenLabelFor :: "CertEntry list \<Rightarrow> string \<Rightarrow> string" where
  "tokenLabelFor certs readerName =
     (case find (\<lambda>c. ce_signingCapable c \<and> ce_holderName c \<noteq> []) certs of
        Some c \<Rightarrow> ce_holderName c | None \<Rightarrow> readerName)"

record NeutralCert =
  ncert_certId :: string
  ncert_keyId :: bytes
  ncert_keyType :: KeyType
  ncert_keyBits :: u32
  ncert_signingCapable :: bool
  ncert_canDerive :: bool
  ncert_keyUsageBits :: u32
  ncert_alwaysAuthenticate :: bool
  ncert_subjectCn :: string

definition kKeyEnciphermentBit :: u32 where "kKeyEnciphermentBit = 4"
definition kDataEnciphermentBit :: u32 where "kDataEnciphermentBit = 8"

abbreviation PreReadAuth_None :: PreReadAuth where "PreReadAuth_None \<equiv> 0"
abbreviation PreReadAuth_Can :: PreReadAuth where "PreReadAuth_Can \<equiv> 2"

definition certEntryFrom :: "NeutralCert \<Rightarrow> PreReadAuth \<Rightarrow> CertEntry option" where
  "certEntryFrom cert preAuth =
     (let derives = (ncert_canDerive cert \<and> ncert_keyType cert = KT_Ec)
      in if \<not> ncert_signingCapable cert \<and> \<not> derives then None
         else
           (let canDriveSigning = (preAuth = PreReadAuth_None \<or> preAuth = PreReadAuth_Can);
                canDriveDecrypt = (preAuth = PreReadAuth_None);
                isRsa = (ncert_keyType cert = KT_Rsa);
                keyUsagePermitsDecrypt =
                  (ncert_keyUsageBits cert AND (kKeyEnciphermentBit OR kDataEnciphermentBit) \<noteq> 0)
            in Some \<lparr>ce_certId = ncert_certId cert,
                 ce_label = (if ncert_subjectCn cert = [] then ncert_certId cert else ncert_subjectCn cert),
                 ce_holderName = ncert_subjectCn cert,
                 ce_ckaId = ncert_keyId cert,
                 ce_signingCapable = ncert_signingCapable cert,
                 ce_canSign = (ncert_signingCapable cert \<and> canDriveSigning),
                 ce_canDecrypt = (isRsa \<and> canDriveDecrypt \<and> keyUsagePermitsDecrypt),
                 ce_signsHashOnCard = (isRsa \<and> preAuth = PreReadAuth_Can),
                 ce_alwaysAuthenticate = ncert_alwaysAuthenticate cert,
                 ce_canDerive = derives,
                 ce_keyType = ncert_keyType cert,
                 ce_keyBits = ncert_keyBits cert\<rparr>))"

definition kTokenSerialMaxBytes :: nat where "kTokenSerialMaxBytes = 16"

definition tokenSerialFor :: "string \<Rightarrow> string" where
  "tokenSerialFor cardHandle =
     (let segment = rev (takeWhile (\<lambda>c. c \<noteq> CHR ''/'') (rev cardHandle))
      in if length segment > kTokenSerialMaxBytes
         then drop (length segment - kTokenSerialMaxBytes) segment else segment)"

record Object =
  ob_cls :: CK_ULONG
  ob_ckaId :: bytes
  ob_label :: string
  ob_certId :: string
  ob_keyType :: KeyType
  ob_keyBits :: u32
  ob_derive :: bool
  ob_sign :: bool
  ob_decrypt :: bool
  ob_alwaysAuthenticate :: bool

record Slot =
  sl_readerPath :: string
  sl_readerName :: string
  sl_tokenPresent :: bool
  sl_protectedAuthPath :: bool
  sl_tokenLabel :: string
  sl_tokenSerial :: string
  sl_objects :: "Object list"
  sl_mechanisms :: "CK_ULONG list"

type_synonym ObjectModel = "Slot list"

text \<open>The two \<^verbatim>\<open>continue\<close> guards of the certificate loop, and what a certificate that passes them adds.\<close>

definition certSigns :: "CertEntry \<Rightarrow> bool" where
  "certSigns c \<longleftrightarrow> ce_signingCapable c \<and> ce_canSign c"

definition certModelled :: "CertEntry \<Rightarrow> bool" where
  "certModelled c \<longleftrightarrow>
     (let isRsa = (ce_keyType c = KT_Rsa); isEc = (ce_keyType c = KT_Ec)
      in (isRsa \<or> isEc) \<and> (ce_signingCapable c \<or> (isEc \<and> ce_canDerive c)) \<and>
         \<not> ((isRsa \<and> ce_keyBits c = 0) \<or> (isEc \<and> nistCurveByBits (ce_keyBits c) = None)))"

definition certObjects :: "CertEntry \<Rightarrow> Object list" where
  "certObjects c =
     (let base = \<lparr>ob_cls = CKO_CERTIFICATE, ob_ckaId = ce_ckaId c, ob_label = ce_label c, ob_certId = ce_certId c,
            ob_keyType = KT_Other, ob_keyBits = 0, ob_derive = False, ob_sign = False, ob_decrypt = False,
            ob_alwaysAuthenticate = False\<rparr>;
          pub = base\<lparr>ob_cls := CKO_PUBLIC_KEY, ob_keyType := ce_keyType c, ob_keyBits := ce_keyBits c\<rparr>
      in [base, pub,
          pub\<lparr>ob_cls := CKO_PRIVATE_KEY, ob_sign := certSigns c,
              ob_decrypt := (ce_keyType c = KT_Rsa \<and> ce_canDecrypt c),
              ob_derive := (ce_keyType c = KT_Ec \<and> ce_canDerive c),
              ob_alwaysAuthenticate := ce_alwaysAuthenticate c\<rparr>])"

definition slotMechanisms :: "CertEntry list \<Rightarrow> CK_ULONG list" where
  "slotMechanisms certs =
     (let rsa = filter (\<lambda>c. ce_keyType c = KT_Rsa) certs;
          ec = filter (\<lambda>c. ce_keyType c \<noteq> KT_Rsa) certs;
          anyRsaSign = list_ex certSigns rsa;
          anyRsaDecrypt = list_ex ce_canDecrypt rsa;
          anyRsaHashOnCard = list_ex (\<lambda>c. certSigns c \<and> ce_signsHashOnCard c) rsa;
          anyEcSign = list_ex certSigns ec;
          anyDerive = list_ex ce_canDerive ec
      in (if anyRsaHashOnCard then [CKM_SHA256_RSA_PKCS]
          else if anyRsaSign \<or> anyRsaDecrypt then [CKM_RSA_PKCS] else []) @
         (if anyEcSign then [CKM_ECDSA] else []) @
         (if anyDerive then [CKM_ECDH1_DERIVE] else []))"

definition buildSlot :: "AgentReader \<Rightarrow> Slot" where
  "buildSlot reader =
     (let slot = \<lparr>sl_readerPath = ar_readerPath reader, sl_readerName = ar_readerName reader,
            sl_tokenPresent = ar_hasCard reader, sl_protectedAuthPath = True,
            sl_tokenLabel = ar_tokenLabel reader, sl_tokenSerial = ar_tokenSerial reader,
            sl_objects = [], sl_mechanisms = []\<rparr>;
          certs = filter certModelled (ar_certs reader)
      in if \<not> ar_hasCard reader then slot
         else slot\<lparr>sl_objects := concat (map certObjects certs), sl_mechanisms := slotMechanisms certs\<rparr>)"

definition build :: "AgentSnapshot \<Rightarrow> ObjectModel" where
  "build snapshot = map buildSlot snapshot"

section \<open>Derived keys\<close>

record DerivedKeyTemplate =
  dt_keyType :: CK_ULONG
  dt_valueLen :: "CK_ULONG option"
  dt_sensitive :: bool
  dt_extractable :: bool
  dt_label :: bytes
  dt_id :: bytes
  dt_usage :: "(CK_ULONG \<times> u8) list"

definition defaultTemplate :: DerivedKeyTemplate where
  "defaultTemplate = \<lparr>dt_keyType = CKK_GENERIC_SECRET, dt_valueLen = None, dt_sensitive = True,
     dt_extractable = False, dt_label = [], dt_id = [], dt_usage = []\<rparr>"

definition isUsageAttribute :: "CK_ULONG \<Rightarrow> bool" where
  "isUsageAttribute t \<longleftrightarrow>
     t \<in> {CKA_ENCRYPT, CKA_DECRYPT, CKA_WRAP, CKA_UNWRAP, CKA_SIGN, CKA_VERIFY, CKA_DERIVE}"

definition usageOf :: "DerivedKeyTemplate \<Rightarrow> CK_ULONG \<Rightarrow> u8" where
  "usageOf t type = fold (\<lambda>(attr, val) v. if attr = type then val else v) (dt_usage t) CK_FALSE"

definition templateScalar :: "CK_ATTRIBUTE \<Rightarrow> (CK_ULONG \<Rightarrow> CK_RV + 'a) \<Rightarrow> CK_RV + 'a" where
  "templateScalar a f = (case scalarOf a of None \<Rightarrow> Inl CKR_ATTRIBUTE_VALUE_INVALID | Some v \<Rightarrow> f v)"

definition templateBool :: "CK_ATTRIBUTE \<Rightarrow> (u8 \<Rightarrow> CK_RV + 'a) \<Rightarrow> CK_RV + 'a" where
  "templateBool a f = (case boolOf a of None \<Rightarrow> Inl CKR_ATTRIBUTE_VALUE_INVALID | Some v \<Rightarrow> f v)"

definition templateBytes :: "CK_ATTRIBUTE \<Rightarrow> (bytes option \<Rightarrow> CK_RV + 'a) \<Rightarrow> CK_RV + 'a" where
  "templateBytes a f =
     (if at_value a = None \<and> at_len a \<noteq> 0 then Inl CKR_ATTRIBUTE_VALUE_INVALID else f (attrBytes a))"

text \<open>One turn of the loop of \<^verbatim>\<open>parseDerivedKeyTemplate\<close>.\<close>

definition templateAttr :: "CK_ATTRIBUTE \<Rightarrow> DerivedKeyTemplate \<Rightarrow> CK_RV + DerivedKeyTemplate" where
  "templateAttr a t =
     (let ty = at_type a
      in if isUsageAttribute ty then templateBool a (\<lambda>b. Inr (t\<lparr>dt_usage := dt_usage t @ [(ty, b)]\<rparr>))
         else if ty = CKA_CLASS then
           templateScalar a (\<lambda>c. if c \<noteq> CKO_SECRET_KEY then Inl CKR_TEMPLATE_INCONSISTENT else Inr t)
         else if ty = CKA_KEY_TYPE then
           templateScalar a (\<lambda>k. if k \<noteq> CKK_GENERIC_SECRET \<and> k \<noteq> CKK_AES then Inl CKR_TEMPLATE_INCONSISTENT
                                  else Inr (t\<lparr>dt_keyType := k\<rparr>))
         else if ty = CKA_VALUE_LEN then
           templateScalar a (\<lambda>n. if n = 0 then Inl CKR_ATTRIBUTE_VALUE_INVALID
                                  else Inr (t\<lparr>dt_valueLen := Some n\<rparr>))
         else if ty = CKA_TOKEN then
           templateBool a (\<lambda>b. if b \<noteq> CK_FALSE then Inl CKR_TEMPLATE_INCONSISTENT else Inr t)
         else if ty = CKA_PRIVATE then
           templateBool a (\<lambda>b. if b = CK_FALSE then Inl CKR_TEMPLATE_INCONSISTENT else Inr t)
         else if ty = CKA_SENSITIVE then
           templateBool a (\<lambda>b. Inr (t\<lparr>dt_sensitive := (b \<noteq> CK_FALSE)\<rparr>))
         else if ty = CKA_EXTRACTABLE then
           templateBool a (\<lambda>b. Inr (t\<lparr>dt_extractable := (b \<noteq> CK_FALSE)\<rparr>))
         else if ty = CKA_LABEL then
           templateBytes a (\<lambda>v. Inr (case v of None \<Rightarrow> t | Some bs \<Rightarrow> t\<lparr>dt_label := bs\<rparr>))
         else if ty = CKA_ID then
           templateBytes a (\<lambda>v. Inr (case v of None \<Rightarrow> t | Some bs \<Rightarrow> t\<lparr>dt_id := bs\<rparr>))
         else if ty \<in> {CKA_LOCAL, CKA_ALWAYS_SENSITIVE, CKA_NEVER_EXTRACTABLE, CKA_KEY_GEN_MECHANISM, CKA_VALUE}
         then Inl CKR_ATTRIBUTE_READ_ONLY
         else Inl CKR_ATTRIBUTE_TYPE_INVALID)"

fun templateLoop :: "CK_ATTRIBUTE list \<Rightarrow> DerivedKeyTemplate \<Rightarrow> CK_RV + DerivedKeyTemplate" where
  "templateLoop [] t = Inr t"
| "templateLoop (a # as) t = sum_bind (templateAttr a t) (templateLoop as)"

definition checkAesLength :: "DerivedKeyTemplate \<Rightarrow> CK_RV + DerivedKeyTemplate" where
  "checkAesLength t =
     (if dt_keyType t = CKK_AES then
        (case dt_valueLen t of
           None \<Rightarrow> Inl CKR_TEMPLATE_INCOMPLETE
         | Some n \<Rightarrow> if n \<noteq> 16 \<and> n \<noteq> 24 \<and> n \<noteq> 32 then Inl CKR_ATTRIBUTE_VALUE_INVALID else Inr t)
      else Inr t)"

definition parseDerivedKeyTemplate :: "CK_ATTRIBUTE list option \<Rightarrow> nat \<Rightarrow> CK_RV + DerivedKeyTemplate" where
  "parseDerivedKeyTemplate tmpl count =
     (if count > 0 \<and> tmpl = None then Inl CKR_ARGUMENTS_BAD
      else sum_bind (templateLoop (take count (case tmpl of None \<Rightarrow> [] | Some ts \<Rightarrow> ts)) defaultTemplate)
             checkAesLength)"

definition derivedKeyValue :: "bytes \<Rightarrow> DerivedKeyTemplate \<Rightarrow> CK_RV + bytes" where
  "derivedKeyValue z t =
     (case dt_valueLen t of
        None \<Rightarrow> Inr z
      | Some n \<Rightarrow> if unat n > length z then Inl CKR_TEMPLATE_INCONSISTENT
                   else Inr (drop (length z - unat n) z))"

record DerivedKey =
  dk_slot :: CK_ULONG
  dk_creator :: CK_ULONG
  dk_attributes :: DerivedKeyTemplate
  dk_value :: bytes

definition serveDerivedKeyAttribute :: "DerivedKey \<Rightarrow> CK_ATTRIBUTE \<Rightarrow> CK_RV \<times> CK_ATTRIBUTE" where
  "serveDerivedKeyAttribute key attr =
     (let t = dk_attributes key; ty = at_type attr
      in if ty = CKA_CLASS then give attr (leBytes CKO_SECRET_KEY)
         else if ty = CKA_KEY_TYPE then give attr (leBytes (dt_keyType t))
         else if ty = CKA_TOKEN \<or> ty = CKA_LOCAL then giveBool attr False
         else if ty = CKA_PRIVATE then giveBool attr True
         else if ty = CKA_SENSITIVE \<or> ty = CKA_ALWAYS_SENSITIVE then giveBool attr (dt_sensitive t)
         else if ty = CKA_EXTRACTABLE then giveBool attr (dt_extractable t)
         else if ty = CKA_NEVER_EXTRACTABLE then giveBool attr (\<not> dt_extractable t)
         else if ty = CKA_VALUE_LEN then give attr (leBytes (of_nat (length (dk_value key))))
         else if ty = CKA_VALUE then
           (if dt_sensitive t \<or> \<not> dt_extractable t then
              (CKR_ATTRIBUTE_SENSITIVE, attr\<lparr>at_len := CK_UNAVAILABLE_INFORMATION\<rparr>)
            else give attr (dk_value key))
         else if ty = CKA_LABEL then give attr (dt_label t)
         else if ty = CKA_ID then give attr (dt_id t)
         else if isUsageAttribute ty then giveBool attr (usageOf t ty \<noteq> CK_FALSE)
         else (CKR_ATTRIBUTE_TYPE_INVALID, attr))"

definition derivedKeyMatchesAttr :: "DerivedKey \<Rightarrow> CK_ATTRIBUTE \<Rightarrow> bool" where
  "derivedKeyMatchesAttr key a =
     (let ty = at_type a; t = dk_attributes key
      in if ty = CKA_CLASS then (case scalarOf a of Some c \<Rightarrow> c = CKO_SECRET_KEY | None \<Rightarrow> True)
         else if ty = CKA_KEY_TYPE then (case scalarOf a of Some k \<Rightarrow> k = dt_keyType t | None \<Rightarrow> True)
         else if ty = CKA_TOKEN then (case boolOf a of Some b \<Rightarrow> b = CK_FALSE | None \<Rightarrow> True)
         else if ty = CKA_PRIVATE then (case boolOf a of Some b \<Rightarrow> b \<noteq> CK_FALSE | None \<Rightarrow> True)
         else if ty = CKA_ID then (case attrBytes a of Some bs \<Rightarrow> bs = dt_id t | None \<Rightarrow> True)
         else if ty = CKA_LABEL then (case attrBytes a of Some bs \<Rightarrow> bs = dt_label t | None \<Rightarrow> True)
         else True)"

definition derivedKeyMatches :: "DerivedKey \<Rightarrow> CK_ATTRIBUTE list \<Rightarrow> bool" where
  "derivedKeyMatches key tmpl = list_all (derivedKeyMatchesAttr key) tmpl"

end
