(* ===== verification/Session.thy ===== *)
theory Session
  imports Objects RateLimit
begin

text \<open>
  The module's session bookkeeping (\<^verbatim>\<open>src/pkcs11/SessionState.cpp\<close>): slots with stable ids, open sessions
  with their cursors, one login per slot, and the derived keys. Each \<^verbatim>\<open>std::map\<close> is an association
  list in key order. A template is the list of its attributes, empty for a null pointer.
\<close>

record SignCursor =
  sc_active :: bool
  sc_reader :: string
  sc_certId :: string
  sc_keyBits :: u32
  sc_mechanism :: CK_ULONG
  sc_keyType :: KeyType
  sc_accumulated :: bytes

definition freshSign :: SignCursor where
  "freshSign = \<lparr>sc_active = False, sc_reader = [], sc_certId = [], sc_keyBits = 0, sc_mechanism = CKM_RSA_PKCS,
     sc_keyType = KT_Other, sc_accumulated = []\<rparr>"

record DecryptCursor =
  dc_active :: bool
  dc_reader :: string
  dc_certId :: string
  dc_keyBits :: u32
  dc_accumulated :: bytes

definition freshDecrypt :: DecryptCursor where
  "freshDecrypt = \<lparr>dc_active = False, dc_reader = [], dc_certId = [], dc_keyBits = 0, dc_accumulated = []\<rparr>"

record FindCursor =
  fc_active :: bool
  fc_matches :: "CK_ULONG list"
  fc_next :: nat

definition freshFind :: FindCursor where
  "freshFind = \<lparr>fc_active = False, fc_matches = [], fc_next = 0\<rparr>"

record Session =
  se_slot :: CK_ULONG
  se_flags :: CK_ULONG
  se_find :: FindCursor
  se_sign :: SignCursor
  se_decrypt :: DecryptCursor
  se_rpcInFlight :: bool

record SlotLogin =
  lo_loggedIn :: bool
  lo_generation :: u64
  lo_checkedAt :: time

record SessionState =
  ss_model :: ObjectModel
  ss_readerToSlot :: "(string \<times> CK_ULONG) list"
  ss_nextSlotId :: CK_ULONG
  ss_slotIndex :: "(CK_ULONG \<times> nat) list"
  ss_sessions :: "(CK_ULONG \<times> Session) list"
  ss_nextSession :: CK_ULONG
  ss_logins :: "(CK_ULONG \<times> SlotLogin) list"
  ss_derived :: "(CK_ULONG \<times> DerivedKey) list"
  ss_nextDerived :: CK_ULONG

definition freshState :: SessionState where
  "freshState = \<lparr>ss_model = [], ss_readerToSlot = [], ss_nextSlotId = 0, ss_slotIndex = [], ss_sessions = [],
     ss_nextSession = 1, ss_logins = [], ss_derived = [], ss_nextDerived = 1\<rparr>"

section \<open>Logins\<close>

definition kLoginCheckInterval :: time where "kLoginCheckInterval = 10 ^ 9"

definition destroyDerivedKeysOfSlot :: "CK_ULONG \<Rightarrow> SessionState \<Rightarrow> SessionState" where
  "destroyDerivedKeysOfSlot slot st = st\<lparr>ss_derived := filter (\<lambda>(h, k). dk_slot k \<noteq> slot) (ss_derived st)\<rparr>"

definition destroyDerivedKeysOfSession :: "CK_ULONG \<Rightarrow> SessionState \<Rightarrow> SessionState" where
  "destroyDerivedKeysOfSession creator st =
     st\<lparr>ss_derived := filter (\<lambda>(h, k). dk_creator k \<noteq> creator) (ss_derived st)\<rparr>"

definition isLoggedIn :: "CK_ULONG \<Rightarrow> SessionState \<Rightarrow> bool" where
  "isLoggedIn slot st = (case map_of (ss_logins st) slot of None \<Rightarrow> False | Some l \<Rightarrow> lo_loggedIn l)"

definition setLoggedIn :: "CK_ULONG \<Rightarrow> time \<Rightarrow> SessionState \<Rightarrow> SessionState" where
  "setLoggedIn slot now st =
     (let l = (case map_of (ss_logins st) slot of
                 Some l \<Rightarrow> l | None \<Rightarrow> \<lparr>lo_loggedIn = False, lo_generation = 0, lo_checkedAt = 0\<rparr>)
      in st\<lparr>ss_logins := assign_by (<) slot
              \<lparr>lo_loggedIn = True, lo_generation = lo_generation l + 1, lo_checkedAt = now\<rparr> (ss_logins st)\<rparr>)"

definition endLogin :: "CK_ULONG \<Rightarrow> SessionState \<Rightarrow> SessionState" where
  "endLogin slot st =
     destroyDerivedKeysOfSlot slot
       (st\<lparr>ss_logins := modify_key slot (\<lambda>l. l\<lparr>lo_loggedIn := False\<rparr>) (ss_logins st)\<rparr>)"

definition loginGeneration :: "CK_ULONG \<Rightarrow> SessionState \<Rightarrow> u64" where
  "loginGeneration slot st = (case map_of (ss_logins st) slot of None \<Rightarrow> 0 | Some l \<Rightarrow> lo_generation l)"

definition loginCheckDue :: "CK_ULONG \<Rightarrow> time \<Rightarrow> SessionState \<Rightarrow> bool" where
  "loginCheckDue slot now st =
     (case map_of (ss_logins st) slot of
        None \<Rightarrow> False | Some l \<Rightarrow> lo_loggedIn l \<and> now - lo_checkedAt l \<ge> kLoginCheckInterval)"

definition markLoginChecked :: "CK_ULONG \<Rightarrow> time \<Rightarrow> SessionState \<Rightarrow> SessionState" where
  "markLoginChecked slot now st =
     st\<lparr>ss_logins := modify_key slot (\<lambda>l. l\<lparr>lo_checkedAt := now\<rparr>) (ss_logins st)\<rparr>"

section \<open>Slots\<close>

definition slotById :: "CK_ULONG \<Rightarrow> SessionState \<Rightarrow> Slot option" where
  "slotById slot st =
     (case map_of (ss_slotIndex st) slot of None \<Rightarrow> None | Some i \<Rightarrow> Some (ss_model st ! i))"

definition slotIds :: "bool \<Rightarrow> SessionState \<Rightarrow> CK_ULONG list" where
  "slotIds tokenPresentOnly st =
     map fst (filter (\<lambda>(slot, i). \<not> (tokenPresentOnly \<and> \<not> sl_tokenPresent (ss_model st ! i))) (ss_slotIndex st))"

text \<open>The loop that gives each slot of the new model its id.\<close>

fun assignSlots :: "nat \<Rightarrow> Slot list \<Rightarrow> SessionState \<Rightarrow> SessionState" where
  "assignSlots i [] st = st"
| "assignSlots i (s # slots) st =
     assignSlots (Suc i) slots
       (case map_of (ss_readerToSlot st) (sl_readerPath s) of
          None \<Rightarrow>
            st\<lparr>ss_nextSlotId := ss_nextSlotId st + 1,
               ss_readerToSlot := emplace_by (<) (sl_readerPath s) (ss_nextSlotId st) (ss_readerToSlot st),
               ss_slotIndex := assign_by (<) (ss_nextSlotId st) i (ss_slotIndex st)\<rparr>
        | Some slot \<Rightarrow> st\<lparr>ss_slotIndex := assign_by (<) slot i (ss_slotIndex st)\<rparr>)"

text \<open>The serial a slot showed before the refresh; empty without a token.\<close>

definition serialsBefore :: "SessionState \<Rightarrow> (CK_ULONG \<times> string) list" where
  "serialsBefore st =
     map (\<lambda>(slot, i). (slot, let s = ss_model st ! i in if sl_tokenPresent s then sl_tokenSerial s else []))
       (ss_slotIndex st)"

definition tokenChanged :: "string \<Rightarrow> Slot option \<Rightarrow> bool" where
  "tokenChanged serial now =
     (serial = [] \<or> (case now of None \<Rightarrow> True | Some s \<Rightarrow> \<not> sl_tokenPresent s \<or> sl_tokenSerial s \<noteq> serial))"

definition setModel :: "ObjectModel \<Rightarrow> SessionState \<Rightarrow> SessionState" where
  "setModel model st =
     (let before = serialsBefore st;
          st1 = assignSlots 0 model (st\<lparr>ss_model := model, ss_slotIndex := []\<rparr>)
      in fold (\<lambda>(slot, serial) s. if tokenChanged serial (slotById slot s) then endLogin slot s else s) before st1)"

section \<open>Sessions\<close>

definition openSession :: "CK_ULONG \<Rightarrow> CK_ULONG \<Rightarrow> SessionState \<Rightarrow> CK_ULONG \<times> SessionState" where
  "openSession slot flags st =
     (let h = ss_nextSession st;
          s = \<lparr>se_slot = slot, se_flags = flags, se_find = freshFind, se_sign = freshSign,
               se_decrypt = freshDecrypt, se_rpcInFlight = False\<rparr>
      in (h, st\<lparr>ss_nextSession := h + 1, ss_sessions := emplace_by (<) h s (ss_sessions st)\<rparr>))"

definition session :: "CK_ULONG \<Rightarrow> SessionState \<Rightarrow> Session option" where
  "session h st = map_of (ss_sessions st) h"

definition modSession :: "CK_ULONG \<Rightarrow> (Session \<Rightarrow> Session) \<Rightarrow> SessionState \<Rightarrow> SessionState" where
  "modSession h f st = st\<lparr>ss_sessions := modify_key h f (ss_sessions st)\<rparr>"

definition slotHasSessions :: "CK_ULONG \<Rightarrow> SessionState \<Rightarrow> bool" where
  "slotHasSessions slot st = list_ex (\<lambda>(h, s). se_slot s = slot) (ss_sessions st)"

definition closeSession :: "CK_ULONG \<Rightarrow> SessionState \<Rightarrow> bool \<times> SessionState" where
  "closeSession h st =
     (let st1 = destroyDerivedKeysOfSession h st
      in (case map_of (ss_sessions st1) h of
            None \<Rightarrow> (False, st1)
          | Some s \<Rightarrow>
              (let st2 = st1\<lparr>ss_sessions := filter (\<lambda>(h', s'). h' \<noteq> h) (ss_sessions st1)\<rparr>
               in (True, if \<not> slotHasSessions (se_slot s) st2 then endLogin (se_slot s) st2 else st2))))"

definition closeAllSessions :: "CK_ULONG \<Rightarrow> SessionState \<Rightarrow> SessionState" where
  "closeAllSessions slot st =
     (let st1 = endLogin slot st
      in st1\<lparr>ss_sessions := filter (\<lambda>(h, s). se_slot s \<noteq> slot) (ss_sessions st1)\<rparr>)"

section \<open>Objects\<close>

definition kIndexMask :: CK_ULONG where "kIndexMask = 0xFFFFFFFF"
definition kSlotShift :: nat where "kSlotShift = 32"
definition kDerivedHandleBit :: CK_ULONG where "kDerivedHandleBit = push_bit 63 1"

definition isDerivedHandle :: "CK_ULONG \<Rightarrow> bool" where
  "isDerivedHandle h \<longleftrightarrow> h AND kDerivedHandleBit \<noteq> 0"

definition encodeHandle :: "CK_ULONG \<Rightarrow> nat \<Rightarrow> CK_ULONG" where
  "encodeHandle slot objIndex = push_bit kSlotShift slot OR ((of_nat objIndex + 1) AND kIndexMask)"

definition resolveObject :: "CK_ULONG \<Rightarrow> CK_ULONG \<Rightarrow> SessionState \<Rightarrow> Object option" where
  "resolveObject slot h st =
     (let hSlot = drop_bit kSlotShift h; rawIndex = h AND kIndexMask
      in if hSlot \<noteq> slot \<or> rawIndex = 0 then None
         else
           (let objIndex = unat (rawIndex - 1)
            in case slotById slot st of
                 None \<Rightarrow> None
               | Some s \<Rightarrow> if objIndex \<ge> length (sl_objects s) then None else Some (sl_objects s ! objIndex)))"

definition ckKeyType :: "KeyType \<Rightarrow> CK_ULONG" where
  "ckKeyType t = (if t = KT_Ec then CKK_EC else CKK_RSA)"

definition isKeyObject :: "Object \<Rightarrow> bool" where
  "isKeyObject obj \<longleftrightarrow> ob_cls obj = CKO_PUBLIC_KEY \<or> ob_cls obj = CKO_PRIVATE_KEY"

definition objectMatchesAttr :: "Object \<Rightarrow> CK_ATTRIBUTE \<Rightarrow> bool" where
  "objectMatchesAttr obj a =
     (let ty = at_type a
      in if ty = CKA_CLASS then (case scalarOf a of Some c \<Rightarrow> c = ob_cls obj | None \<Rightarrow> True)
         else if ty = CKA_ID then (case attrBytes a of Some bs \<Rightarrow> bs = ob_ckaId obj | None \<Rightarrow> True)
         else if ty = CKA_TOKEN then (case boolOf a of Some b \<Rightarrow> b = CK_TRUE | None \<Rightarrow> True)
         else if ty = CKA_KEY_TYPE then
           (case scalarOf a of Some k \<Rightarrow> isKeyObject obj \<and> k = ckKeyType (ob_keyType obj) | None \<Rightarrow> True)
         else if ty = CKA_PRIVATE then
           (case boolOf a of
              Some b \<Rightarrow> b = (if ob_cls obj = CKO_PRIVATE_KEY then CK_TRUE else CK_FALSE) | None \<Rightarrow> True)
         else True)"

definition derivedKey :: "CK_ULONG \<Rightarrow> CK_ULONG \<Rightarrow> SessionState \<Rightarrow> DerivedKey option" where
  "derivedKey sess h st =
     (case (map_of (ss_sessions st) sess, map_of (ss_derived st) h) of
        (Some s, Some k) \<Rightarrow> if dk_slot k \<noteq> se_slot s \<or> \<not> isLoggedIn (se_slot s) st then None else Some k
      | _ \<Rightarrow> None)"

definition findMatches :: "CK_ULONG \<Rightarrow> CK_ULONG \<Rightarrow> CK_ATTRIBUTE list \<Rightarrow> SessionState \<Rightarrow> CK_ULONG list" where
  "findMatches sess slot tmpl st =
     (case slotById slot st of
        None \<Rightarrow> []
      | Some s \<Rightarrow>
          map (encodeHandle slot)
            (filter (\<lambda>i. list_all (objectMatchesAttr (sl_objects s ! i)) tmpl) [0..<length (sl_objects s)]) @
          map fst (filter (\<lambda>(h, key). derivedKey sess h st \<noteq> None \<and> derivedKeyMatches key tmpl) (ss_derived st)))"

definition addDerivedKey :: "DerivedKey \<Rightarrow> SessionState \<Rightarrow> CK_ULONG \<times> SessionState" where
  "addDerivedKey key st =
     (let h = kDerivedHandleBit OR ss_nextDerived st
      in (h, st\<lparr>ss_nextDerived := ss_nextDerived st + 1, ss_derived := emplace_by (<) h key (ss_derived st)\<rparr>))"

definition destroyDerivedKey :: "CK_ULONG \<Rightarrow> SessionState \<Rightarrow> bool \<times> SessionState" where
  "destroyDerivedKey h st =
     (map_of (ss_derived st) h \<noteq> None, st\<lparr>ss_derived := filter (\<lambda>(h', k). h' \<noteq> h) (ss_derived st)\<rparr>)"

end
