(* ===== verification/Module.thy ===== *)
theory Module
  imports Session Mechanisms
begin

text \<open>
  The C entry points of the PKCS#11 module (\<^verbatim>\<open>src/pkcs11/Module.cpp\<close>). All state is behind one mutex; a
  call that asks the agent releases it meanwhile. Such a call is a thread: what it runs under the
  lock is one atomic step, and the thread carries its local variables to the next one. The agent's
  answers are arguments of the steps. A null pointer argument is a boolean or an absent option.
  Exceptions (only a failed allocation) and the entry points that just answer
  \<^verbatim>\<open>CKR_FUNCTION_NOT_SUPPORTED\<close> are left out.
\<close>

datatype Status =
    S_Ok | S_UserNotLoggedIn | S_NotAuthorized | S_AuthFailed | S_Cancelled | S_KeyNotFound | S_UnknownCard
  | S_NotSupported | S_RateLimited | S_Communication | S_DeviceRemoved | S_GeneralError | S_InvalidInput

record BytesResult =
  br_status :: Status
  br_bytes :: bytes

datatype CertPublicKey = RsaPublicKey (rsa_modulus: bytes) (rsa_exponent: bytes)
  | EcPublicKey (ec_crv: string) (ec_x: bytes) (ec_y: bytes)

text \<open>The two questions the module asks the agent with the lock held.\<close>

record AgentPublic =
  ap_certDer :: "string \<Rightarrow> string \<Rightarrow> BytesResult"
  ap_publicKey :: "string \<Rightarrow> string \<Rightarrow> KeyType \<Rightarrow> Status + CertPublicKey"

record Library =
  li_state :: SessionState
  li_certDers :: "(string \<times> bytes) list"

section \<open>Helpers\<close>

fun ckrFromStatus :: "Status \<Rightarrow> CK_RV \<Rightarrow> CK_RV" where
  "ckrFromStatus S_Ok _ = CKR_OK"
| "ckrFromStatus S_UserNotLoggedIn _ = CKR_USER_NOT_LOGGED_IN"
| "ckrFromStatus S_NotAuthorized _ = CKR_FUNCTION_FAILED"
| "ckrFromStatus S_AuthFailed _ = CKR_PIN_INCORRECT"
| "ckrFromStatus S_Cancelled _ = CKR_FUNCTION_CANCELED"
| "ckrFromStatus S_KeyNotFound _ = CKR_KEY_HANDLE_INVALID"
| "ckrFromStatus S_UnknownCard _ = CKR_TOKEN_NOT_PRESENT"
| "ckrFromStatus S_NotSupported _ = CKR_FUNCTION_NOT_SUPPORTED"
| "ckrFromStatus S_RateLimited _ = CKR_FUNCTION_REJECTED"
| "ckrFromStatus S_Communication _ = CKR_DEVICE_ERROR"
| "ckrFromStatus S_DeviceRemoved _ = CKR_DEVICE_REMOVED"
| "ckrFromStatus S_InvalidInput invalidInputRv = invalidInputRv"
| "ckrFromStatus S_GeneralError _ = CKR_GENERAL_ERROR"

fun signatureLength :: "KeyType \<Rightarrow> u32 \<Rightarrow> CK_ULONG" where
  "signatureLength KT_Rsa bits = (ucast bits + 7) div 8"
| "signatureLength KT_Ec bits = 2 * ((ucast bits + 7) div 8)"
| "signatureLength KT_Other bits = 0"

definition agentSignMechanism :: "CK_ULONG \<Rightarrow> Mechanism" where
  "agentSignMechanism m =
     (if m = CKM_ECDSA then EcdsaSign else if m = CKM_SHA256_RSA_PKCS then Sha256RsaPkcs1Sign else RsaPkcs1Sign)"

definition slotHasMechanism :: "Slot \<Rightarrow> CK_ULONG \<Rightarrow> bool" where
  "slotHasMechanism slot mech \<longleftrightarrow> mech \<in> set (sl_mechanisms slot)"

section \<open>Attributes of the card's objects\<close>

definition certDerOf :: "AgentPublic \<Rightarrow> Slot \<Rightarrow> Object \<Rightarrow> (string \<times> bytes) list \<Rightarrow>
    BytesResult \<times> (string \<times> bytes) list" where
  "certDerOf ag slot obj cache =
     (case map_of cache (ob_certId obj) of
        Some der \<Rightarrow> (\<lparr>br_status = S_Ok, br_bytes = der\<rparr>, cache)
      | None \<Rightarrow>
          (let der = ap_certDer ag (sl_readerPath slot) (ob_certId obj)
           in (der, if br_status der = S_Ok then emplace_by (<) (ob_certId obj) (br_bytes der) cache else cache)))"

definition fetchPubKeyOr :: "AgentPublic \<Rightarrow> Slot \<Rightarrow> Object \<Rightarrow> CK_RV + CertPublicKey" where
  "fetchPubKeyOr ag slot obj =
     (case ap_publicKey ag (sl_readerPath slot) (ob_certId obj) (ob_keyType obj) of
        Inl e \<Rightarrow> Inl (if e = S_KeyNotFound then CKR_KEY_HANDLE_INVALID else CKR_ATTRIBUTE_TYPE_INVALID)
      | Inr pk \<Rightarrow> Inr pk)"

definition privateOnly :: "Object \<Rightarrow> CK_ATTRIBUTE \<Rightarrow> bool \<Rightarrow> CK_RV \<times> CK_ATTRIBUTE" where
  "privateOnly obj attr b =
     (if ob_cls obj \<noteq> CKO_PRIVATE_KEY then (CKR_ATTRIBUTE_TYPE_INVALID, attr) else giveBool attr b)"

text \<open>The arms that need only the model.\<close>

definition serveModelAttribute :: "Object \<Rightarrow> CK_ATTRIBUTE \<Rightarrow> CK_RV \<times> CK_ATTRIBUTE" where
  "serveModelAttribute obj attr =
     (let ty = at_type attr; none = (CKR_ATTRIBUTE_TYPE_INVALID, attr)
      in if ty = CKA_CLASS then give attr (leBytes (ob_cls obj))
         else if ty = CKA_ID then give attr (ob_ckaId obj)
         else if ty = CKA_LABEL then give attr (map char_byte (ob_label obj))
         else if ty = CKA_TOKEN then giveBool attr True
         else if ty = CKA_PRIVATE then giveBool attr (ob_cls obj = CKO_PRIVATE_KEY)
         else if ty = CKA_KEY_TYPE then
           (if isKeyObject obj then give attr (leBytes (ckKeyType (ob_keyType obj))) else none)
         else if ty = CKA_CERTIFICATE_TYPE then
           (if ob_cls obj = CKO_CERTIFICATE then give attr (leBytes 0) else none)
         else if ty = CKA_SIGN then privateOnly obj attr (ob_sign obj)
         else if ty = CKA_DECRYPT then privateOnly obj attr (ob_decrypt obj)
         else if ty = CKA_DERIVE then
           (if ob_cls obj = CKO_PUBLIC_KEY then giveBool attr False else privateOnly obj attr (ob_derive obj))
         else if ty = CKA_UNWRAP then privateOnly obj attr False
         else if ty = CKA_EC_PARAMS then
           (if \<not> isKeyObject obj \<or> ob_keyType obj \<noteq> KT_Ec \<or> ecParamsDerFor (ob_keyBits obj) = [] then none
            else give attr (ecParamsDerFor (ob_keyBits obj)))
         else if ty = CKA_EXTRACTABLE then privateOnly obj attr False
         else if ty = CKA_SENSITIVE then privateOnly obj attr True
         else if ty = CKA_ALWAYS_AUTHENTICATE then privateOnly obj attr (ob_alwaysAuthenticate obj)
         else if ty = CKA_MODULUS_BITS then
           (if ob_cls obj \<noteq> CKO_PUBLIC_KEY \<or> ob_keyType obj \<noteq> KT_Rsa \<or> ob_keyBits obj = 0 then none
            else give attr (leBytes (ucast (ob_keyBits obj))))
         else none)"

text \<open>The arms served from the agent's public key.\<close>

definition servePublicKeyAttribute :: "AgentPublic \<Rightarrow> Slot \<Rightarrow> Object \<Rightarrow> CK_ATTRIBUTE \<Rightarrow> CK_RV \<times> CK_ATTRIBUTE" where
  "servePublicKeyAttribute ag slot obj attr =
     (let none = (CKR_ATTRIBUTE_TYPE_INVALID, attr)
      in if at_type attr = CKA_EC_POINT then
           (if ob_cls obj \<noteq> CKO_PUBLIC_KEY \<or> ob_keyType obj \<noteq> KT_Ec then none
            else (case fetchPubKeyOr ag slot obj of
                    Inl rv \<Rightarrow> (rv, attr)
                  | Inr (RsaPublicKey _ _) \<Rightarrow> none
                  | Inr (EcPublicKey crv x y) \<Rightarrow>
                      if \<not> isPointOfKey (ob_keyBits obj) crv x y \<or> ecPointOctetString x y = [] then none
                      else give attr (ecPointOctetString x y)))
         else if \<not> isKeyObject obj \<or> ob_keyType obj \<noteq> KT_Rsa then none
         else (case fetchPubKeyOr ag slot obj of
                 Inl rv \<Rightarrow> (rv, attr)
               | Inr (RsaPublicKey n e) \<Rightarrow> give attr (if at_type attr = CKA_MODULUS then n else e)
               | Inr (EcPublicKey _ _ _) \<Rightarrow> none))"

definition certFieldName :: "CK_ULONG \<Rightarrow> CertFieldName" where
  "certFieldName ty =
     (if ty = CKA_SERIAL_NUMBER then FieldSerialNumber else if ty = CKA_ISSUER then FieldIssuer else FieldSubject)"

text \<open>The arms served from the certificate.\<close>

definition serveCertAttribute :: "AgentPublic \<Rightarrow> Slot \<Rightarrow> Object \<Rightarrow> CK_ATTRIBUTE \<Rightarrow> (string \<times> bytes) list \<Rightarrow>
    (CK_RV \<times> CK_ATTRIBUTE) \<times> (string \<times> bytes) list" where
  "serveCertAttribute ag slot obj attr cache =
     (if ob_cls obj \<noteq> CKO_CERTIFICATE then ((CKR_ATTRIBUTE_TYPE_INVALID, attr), cache)
      else
        (case certDerOf ag slot obj cache of
           (der, cache') \<Rightarrow>
             (if br_status der \<noteq> S_Ok then (ckrFromStatus (br_status der) CKR_GENERAL_ERROR, attr)
              else if at_type attr = CKA_VALUE then give attr (br_bytes der)
              else (case certificateField (br_bytes der) (certFieldName (at_type attr)) of
                      None \<Rightarrow> (CKR_ATTRIBUTE_TYPE_INVALID, attr)
                    | Some field \<Rightarrow> give attr field), cache')))"

definition serveAttribute :: "AgentPublic \<Rightarrow> Slot \<Rightarrow> Object \<Rightarrow> CK_ATTRIBUTE \<Rightarrow> (string \<times> bytes) list \<Rightarrow>
    (CK_RV \<times> CK_ATTRIBUTE) \<times> (string \<times> bytes) list" where
  "serveAttribute ag slot obj attr cache =
     (if at_type attr \<in> {CKA_EC_POINT, CKA_MODULUS, CKA_PUBLIC_EXPONENT} then
        (servePublicKeyAttribute ag slot obj attr, cache)
      else if at_type attr \<in> {CKA_VALUE, CKA_SERIAL_NUMBER, CKA_ISSUER, CKA_SUBJECT} then
        serveCertAttribute ag slot obj attr cache
      else (serveModelAttribute obj attr, cache))"

text \<open>What the loop of \<^verbatim>\<open>C_GetAttributeValue\<close> makes of one attribute's code.\<close>

definition overallAfter :: "CK_RV \<Rightarrow> CK_ATTRIBUTE \<Rightarrow> CK_RV \<Rightarrow> CK_RV \<times> CK_ATTRIBUTE" where
  "overallAfter rv attr overall =
     (if rv = CKR_ATTRIBUTE_TYPE_INVALID then
        (CKR_ATTRIBUTE_TYPE_INVALID, attr\<lparr>at_len := CK_UNAVAILABLE_INFORMATION\<rparr>)
      else if rv \<noteq> CKR_OK then (rv, attr) else (overall, attr))"

fun serveDerivedAll :: "DerivedKey \<Rightarrow> CK_ATTRIBUTE list \<Rightarrow> CK_RV \<Rightarrow> CK_RV \<times> CK_ATTRIBUTE list" where
  "serveDerivedAll key [] overall = (overall, [])"
| "serveDerivedAll key (a # as) overall =
     (case serveDerivedKeyAttribute key a of (rv, a1) \<Rightarrow>
      case overallAfter rv a1 overall of (overall', a2) \<Rightarrow>
      case serveDerivedAll key as overall' of (rv', as') \<Rightarrow> (rv', a2 # as'))"

fun serveAll :: "AgentPublic \<Rightarrow> Slot \<Rightarrow> Object \<Rightarrow> CK_ATTRIBUTE list \<Rightarrow> CK_RV \<Rightarrow> (string \<times> bytes) list \<Rightarrow>
    (CK_RV \<times> CK_ATTRIBUTE list) \<times> (string \<times> bytes) list" where
  "serveAll ag slot obj [] overall cache = ((overall, []), cache)"
| "serveAll ag slot obj (a # as) overall cache =
     (case serveAttribute ag slot obj a cache of ((rv, a1), cache1) \<Rightarrow>
      case overallAfter rv a1 overall of (overall', a2) \<Rightarrow>
      case serveAll ag slot obj as overall' cache1 of ((rv', as'), cache2) \<Rightarrow> ((rv', a2 # as'), cache2))"

text \<open>The name filter of \<^verbatim>\<open>C_FindObjectsInit\<close>: true when the handle is to be erased.\<close>

definition isNameAttribute :: "CK_ATTRIBUTE \<Rightarrow> bool" where
  "isNameAttribute a \<longleftrightarrow> at_type a \<in> {CKA_SUBJECT, CKA_ISSUER, CKA_SERIAL_NUMBER} \<and> at_value a \<noteq> None"

fun nameMismatch :: "AgentPublic \<Rightarrow> Slot \<Rightarrow> Object option \<Rightarrow> CK_ATTRIBUTE list \<Rightarrow> (string \<times> bytes) list \<Rightarrow>
    bool \<times> (string \<times> bytes) list" where
  "nameMismatch ag slot obj [] cache = (False, cache)"
| "nameMismatch ag slot obj (want # as) cache =
     (if \<not> isNameAttribute want then nameMismatch ag slot obj as cache
      else (case obj of
              None \<Rightarrow> (True, cache)
            | Some ob \<Rightarrow>
                (case serveAttribute ag slot ob \<lparr>at_type = at_type want, at_value = None, at_len = 0\<rparr> cache of
                   ((rv, probe), cache1) \<Rightarrow>
                     if rv \<noteq> CKR_OK \<or> at_len probe \<noteq> at_len want then (True, cache1)
                     else
                       (case serveAttribute ag slot ob
                               (probe\<lparr>at_value := Some (replicate (unat (at_len probe)) 0)\<rparr>) cache1 of
                          ((rv2, probe2), cache2) \<Rightarrow>
                            if rv2 \<noteq> CKR_OK \<or> attrBytes probe2 \<noteq> attrBytes want then (True, cache2)
                            else nameMismatch ag slot obj as cache2))))"

fun eraseMismatches :: "AgentPublic \<Rightarrow> Slot \<Rightarrow> (CK_ULONG \<Rightarrow> Object option) \<Rightarrow> CK_ATTRIBUTE list \<Rightarrow> CK_ULONG list \<Rightarrow>
    (string \<times> bytes) list \<Rightarrow> CK_ULONG list \<times> (string \<times> bytes) list" where
  "eraseMismatches ag slot resolve tmpl [] cache = ([], cache)"
| "eraseMismatches ag slot resolve tmpl (h # hs) cache =
     (case nameMismatch ag slot (resolve h) tmpl cache of (bad, cache1) \<Rightarrow>
      case eraseMismatches ag slot resolve tmpl hs cache1 of (kept, cache2) \<Rightarrow>
        (if bad then kept else h # kept, cache2))"

end
