(* ===== verification/ObjectLaws.thy ===== *)
theory ObjectLaws
  imports Module
begin

text \<open>
  What the slot model and the derived-key attributes promise a caller: the mechanisms a slot lists
  are those its keys can carry out, and a secret that may not leave the module is not served, not
  even in part.
\<close>

section \<open>Mechanisms\<close>

text \<open>The mechanisms one private key object is for, on a card that reads behind \<open>preAuth\<close>.\<close>

definition keyMechanisms :: "PreReadAuth \<Rightarrow> Object \<Rightarrow> CK_ULONG set" where
  "keyMechanisms preAuth obj =
     (if ob_cls obj \<noteq> CKO_PRIVATE_KEY then {}
      else if ob_keyType obj = KT_Rsa then
        (if ob_sign obj then {if preAuth = PreReadAuth_Can then CKM_SHA256_RSA_PKCS else CKM_RSA_PKCS} else {}) \<union>
        (if ob_decrypt obj then {CKM_RSA_PKCS} else {})
      else if ob_keyType obj = KT_Ec then
        (if ob_sign obj then {CKM_ECDSA} else {}) \<union> (if ob_derive obj then {CKM_ECDH1_DERIVE} else {})
      else {})"

definition certMechanisms :: "PreReadAuth \<Rightarrow> CertEntry \<Rightarrow> CK_ULONG set" where
  "certMechanisms preAuth c = (\<Union>obj\<in>set (certObjects c). keyMechanisms preAuth obj)"

lemma in_certMechanisms:
  "m \<in> certMechanisms preAuth c \<longleftrightarrow>
     ce_keyType c = KT_Rsa \<and> certSigns c \<and> m = (if preAuth = PreReadAuth_Can then CKM_SHA256_RSA_PKCS else CKM_RSA_PKCS) \<or>
     ce_keyType c = KT_Rsa \<and> ce_canDecrypt c \<and> m = CKM_RSA_PKCS \<or>
     ce_keyType c = KT_Ec \<and> certSigns c \<and> m = CKM_ECDSA \<or>
     ce_keyType c = KT_Ec \<and> ce_canDerive c \<and> m = CKM_ECDH1_DERIVE"
  by (cases "ce_keyType c") (simp_all add: certMechanisms_def certObjects_def keyMechanisms_def Let_def)

lemma certEntryFrom_facts:
  assumes "certEntryFrom n preAuth = Some c"
  shows "ce_signsHashOnCard c \<longleftrightarrow> ce_keyType c = KT_Rsa \<and> preAuth = PreReadAuth_Can"
    and "ce_canDecrypt c \<Longrightarrow> preAuth = PreReadAuth_None"
    and "ce_canDerive c \<Longrightarrow> ce_keyType c = KT_Ec"
  using assms by (auto simp: certEntryFrom_def Let_def split: if_splits)

lemma in_slotMechanisms:
  "m \<in> set (slotMechanisms certs) \<longleftrightarrow>
     (if \<exists>c\<in>set certs. ce_keyType c = KT_Rsa \<and> certSigns c \<and> ce_signsHashOnCard c then m = CKM_SHA256_RSA_PKCS
      else (\<exists>c\<in>set certs. ce_keyType c = KT_Rsa \<and> (certSigns c \<or> ce_canDecrypt c)) \<and> m = CKM_RSA_PKCS) \<or>
     (\<exists>c\<in>set certs. ce_keyType c \<noteq> KT_Rsa \<and> certSigns c) \<and> m = CKM_ECDSA \<or>
     (\<exists>c\<in>set certs. ce_keyType c \<noteq> KT_Rsa \<and> ce_canDerive c) \<and> m = CKM_ECDH1_DERIVE"
  unfolding slotMechanisms_def Let_def list_ex_iff set_append set_filter by (simp add: Bex_def) blast

text \<open>A card's certificates are read behind one kind of access: either none hashes on the card, or none
  decrypts.\<close>

lemma slotMechanisms_certs:
  assumes "\<And>c. c \<in> set cs \<Longrightarrow> ce_signsHashOnCard c \<longleftrightarrow> ce_keyType c = KT_Rsa \<and> preAuth = PreReadAuth_Can"
    and "\<And>c. c \<in> set cs \<Longrightarrow> ce_canDecrypt c \<Longrightarrow> preAuth = PreReadAuth_None"
    and "\<And>c. c \<in> set cs \<Longrightarrow> ce_keyType c = KT_Rsa \<or> ce_keyType c = KT_Ec"
  shows "m \<in> set (slotMechanisms cs) \<longleftrightarrow> (\<exists>c\<in>set cs. m \<in> certMechanisms preAuth c)"
proof -
  have ec: "(\<exists>c\<in>set cs. ce_keyType c \<noteq> KT_Rsa \<and> P c) \<longleftrightarrow> (\<exists>c\<in>set cs. ce_keyType c = KT_Ec \<and> P c)" for P
    using assms(3) by (metis KeyType.distinct)
  show ?thesis
  proof (cases "preAuth = PreReadAuth_Can")
    case True
    then have "\<And>c. c \<in> set cs \<Longrightarrow> \<not> ce_canDecrypt c" "\<And>c. c \<in> set cs \<Longrightarrow> ce_signsHashOnCard c = (ce_keyType c = KT_Rsa)"
      using assms(1,2) by auto
    then show ?thesis unfolding in_slotMechanisms in_certMechanisms ec using True by (simp cong: bex_cong) blast
  next
    case False
    then have "\<And>c. c \<in> set cs \<Longrightarrow> \<not> ce_signsHashOnCard c" using assms(1) by blast
    then show ?thesis unfolding in_slotMechanisms in_certMechanisms ec using False by (simp cong: bex_cong) blast
  qed
qed

text \<open>C23. The mechanisms a slot lists are exactly those its keys can carry out: for any card, read behind
  any kind of access, with any mix of RSA and EC certificates, a mechanism is in the slot's list if
  and only if one of the private keys among the slot's objects is for it.\<close>

theorem mechanisms_match_keys:
  assumes "ar_certs reader = List.map_filter (\<lambda>n. certEntryFrom n preAuth) certs" and "ar_hasCard reader"
  shows "set (sl_mechanisms (buildSlot reader)) = (\<Union>obj\<in>set (sl_objects (buildSlot reader)). keyMechanisms preAuth obj)"
proof -
  let ?cs = "filter certModelled (ar_certs reader)"
  have c: "certModelled c" "\<exists>n. certEntryFrom n preAuth = Some c" if "c \<in> set ?cs" for c
    using that assms(1) by (auto simp: map_filter_def)
  have f: "ce_signsHashOnCard c \<longleftrightarrow> ce_keyType c = KT_Rsa \<and> preAuth = PreReadAuth_Can"
    "ce_canDecrypt c \<Longrightarrow> preAuth = PreReadAuth_None" "ce_keyType c = KT_Rsa \<or> ce_keyType c = KT_Ec"
    if "c \<in> set ?cs" for c
    using certEntryFrom_facts c[OF that] by (auto simp: certModelled_def Let_def)
  have "(\<Union>obj\<in>set (sl_objects (buildSlot reader)). keyMechanisms preAuth obj) = (\<Union>c\<in>set ?cs. certMechanisms preAuth c)"
    using assms(2) by (auto simp: buildSlot_def certMechanisms_def Let_def)
  moreover have "sl_mechanisms (buildSlot reader) = slotMechanisms ?cs" using assms(2) by (simp add: buildSlot_def Let_def)
  moreover have "m \<in> set (slotMechanisms ?cs) \<longleftrightarrow> (\<exists>c\<in>set ?cs. m \<in> certMechanisms preAuth c)" for m
    by (rule slotMechanisms_certs) (use f in blast)+
  ultimately show ?thesis by (simp add: set_eq_iff)
qed

definition sample_rsa :: NeutralCert where
  "sample_rsa = \<lparr>ncert_certId = ''c'', ncert_keyId = [1], ncert_keyType = KT_Rsa, ncert_keyBits = 2048,
     ncert_signingCapable = True, ncert_canDerive = False, ncert_keyUsageBits = 4, ncert_alwaysAuthenticate = False,
     ncert_subjectCn = ''Holder''\<rparr>"

definition sample_rsa_reader :: AgentReader where
  "sample_rsa_reader = \<lparr>ar_readerPath = ''r'', ar_readerName = ''R'', ar_hasCard = True, ar_tokenLabel = ''Holder'',
     ar_tokenSerial = ''7'', ar_certs = List.map_filter (\<lambda>n. certEntryFrom n PreReadAuth_None) [sample_rsa]\<rparr>"

theorem mechanisms_match_keys_witness:
  "(\<Union>obj\<in>set (sl_objects (buildSlot sample_rsa_reader)). keyMechanisms PreReadAuth_None obj) = {CKM_RSA_PKCS}"
  using mechanisms_match_keys[of sample_rsa_reader PreReadAuth_None "[sample_rsa]"]
  by (simp add: sample_rsa_reader_def buildSlot_def slotMechanisms_def map_filter_def certEntryFrom_def sample_rsa_def
      certModelled_def certSigns_def kKeyEnciphermentBit_def kDataEnciphermentBit_def Let_def)

section \<open>Secrets\<close>

lemma serveDerivedKeyAttribute_hides:
  assumes "dt_sensitive (dk_attributes k) \<or> \<not> dt_extractable (dk_attributes k)" "length v = length (dk_value k)"
  shows "serveDerivedKeyAttribute (k\<lparr>dk_value := v\<rparr>) a = serveDerivedKeyAttribute k a"
  using assms by (simp add: serveDerivedKeyAttribute_def Let_def)

text \<open>C25. A secret that is sensitive or not extractable does not leave the module: whatever attributes a
  caller asks for and whatever it searches by, the answers are the same for any other secret of the
  same length, so nothing about the secret's bytes is in them.\<close>

theorem sensitive_secret_hidden:
  assumes "dt_sensitive (dk_attributes k) \<or> \<not> dt_extractable (dk_attributes k)" "length v = length (dk_value k)"
  shows "serveDerivedAll (k\<lparr>dk_value := v\<rparr>) as rv = serveDerivedAll k as rv \<and>
    derivedKeyMatches (k\<lparr>dk_value := v\<rparr>) as = derivedKeyMatches k as"
proof -
  have "serveDerivedAll (k\<lparr>dk_value := v\<rparr>) as rv = serveDerivedAll k as rv"
    by (induction as arbitrary: rv) (simp_all add: serveDerivedKeyAttribute_hides[OF assms])
  moreover have "derivedKeyMatchesAttr (k\<lparr>dk_value := v\<rparr>) = derivedKeyMatchesAttr k"
    by (simp add: derivedKeyMatchesAttr_def fun_eq_iff)
  ultimately show ?thesis by (simp add: derivedKeyMatches_def)
qed

theorem sensitive_secret_hidden_witness:
  "serveDerivedAll \<lparr>dk_slot = 0, dk_creator = 1, dk_attributes = defaultTemplate, dk_value = [1, 2]\<rparr>
     [\<lparr>at_type = CKA_VALUE, at_value = Some [0, 0], at_len = 2\<rparr>] CKR_OK =
   (CKR_ATTRIBUTE_SENSITIVE, [\<lparr>at_type = CKA_VALUE, at_value = Some [0, 0], at_len = CK_UNAVAILABLE_INFORMATION\<rparr>])"
  using sensitive_secret_hidden[of "\<lparr>dk_slot = 0, dk_creator = 1, dk_attributes = defaultTemplate, dk_value = [3, 4]\<rparr>" "[1, 2]"
      "[\<lparr>at_type = CKA_VALUE, at_value = Some [0, 0], at_len = 2\<rparr>]" CKR_OK]
  by (simp add: defaultTemplate_def serveDerivedKeyAttribute_def overallAfter_def Let_def)

end
