(* ===== verification/Cryptoki.thy ===== *)
theory Cryptoki
  imports Module
begin

text \<open>
  The entry points that use the library state (\<^verbatim>\<open>src/pkcs11/Module.cpp\<close>), and the relation that
  interleaves the threads inside them. An entry point either returns at once or leaves a thread
  behind; the thread's later regions are \<open>threadStep\<close>. The in-flight guard (\<^verbatim>\<open>RpcInFlightGuard\<close>) is taken
  under the lock and dropped in a region of its own, as its destructor does.
\<close>

section \<open>State\<close>

text \<open>What follows a refreshed model, with the arguments of the entry point that asked for it.\<close>

datatype RefreshCont =
    ContSlotList bool bool CK_ULONG
  | ContSlotInfo CK_ULONG
  | ContTokenInfo CK_ULONG
  | ContMechanismList CK_ULONG bool CK_ULONG
  | ContMechanismInfo CK_ULONG CK_ULONG
  | ContOpenSession CK_ULONG CK_ULONG

record SignJob =
  sj_session :: CK_ULONG
  sj_reader :: string
  sj_certId :: string
  sj_mech :: CK_ULONG
  sj_keyType :: KeyType
  sj_keyBits :: u32
  sj_data :: bytes
  sj_null :: bool
  sj_room :: CK_ULONG

record DecryptJob =
  dj_session :: CK_ULONG
  dj_reader :: string
  dj_certId :: string
  dj_keyBits :: u32
  dj_data :: bytes
  dj_null :: bool
  dj_room :: CK_ULONG

record DeriveJob =
  vj_session :: CK_ULONG
  vj_slot :: CK_ULONG
  vj_reader :: string
  vj_certId :: string
  vj_serial :: string
  vj_point :: bytes
  vj_wanted :: DerivedKeyTemplate

text \<open>A region that only tidies up; it runs under the lock.\<close>

datatype LockedAct =
    ClearSign CK_ULONG
  | ClearDecrypt CK_ULONG
  | DropLogin Status CK_ULONG
  | RecordLogin Status CK_ULONG

datatype Thread =
    SnapshotRpc u64 RefreshCont
  | SnapshotAnswered u64 AgentSnapshot RefreshCont
  | SnapshotPublish u64 AgentSnapshot RefreshCont
  | SessionInfoRpc CK_ULONG CK_ULONG string u64
  | SessionInfoEnd CK_ULONG CK_ULONG u64 "bool option" bool
  | LoginRpc CK_ULONG string
  | SignRpc SignJob
  | DecryptRpc DecryptJob
  | DeriveRpc DeriveJob
  | DeriveStore DeriveJob bytes
  | Cleanup "LockedAct list" "CK_ULONG option" CK_RV
  | FinalizeWait

text \<open>\<open>mo_logouts\<close> are the readers whose logout was sent to the agent; its answer is ignored.\<close>

record ModuleState =
  mo_lib :: "Library option"
  mo_rpcInFlight :: int
  mo_started :: u64
  mo_published :: u64
  mo_logouts :: "string list"
  mo_threads :: "Thread list"

text \<open>The result of an entry point: its code, or \<^verbatim>\<open>None\<close> while a thread is still in it.\<close>

type_synonym call = "CK_RV option \<times> ModuleState"

definition spawn :: "Thread \<Rightarrow> ModuleState \<Rightarrow> ModuleState" where
  "spawn t st = st\<lparr>mo_threads := t # mo_threads st\<rparr>"

definition withLib :: "(Library \<Rightarrow> call) \<Rightarrow> ModuleState \<Rightarrow> call" where
  "withLib f st = (case mo_lib st of None \<Rightarrow> (Some CKR_CRYPTOKI_NOT_INITIALIZED, st) | Some lib \<Rightarrow> f lib)"

definition withSession :: "CK_ULONG \<Rightarrow> (Library \<Rightarrow> Session \<Rightarrow> call) \<Rightarrow> ModuleState \<Rightarrow> call" where
  "withSession h f st =
     withLib (\<lambda>lib. case session h (li_state lib) of
                      None \<Rightarrow> (Some CKR_SESSION_HANDLE_INVALID, st)
                    | Some s \<Rightarrow> f lib s) st"

definition putState :: "Library \<Rightarrow> SessionState \<Rightarrow> ModuleState \<Rightarrow> ModuleState" where
  "putState lib ss st = st\<lparr>mo_lib := Some (lib\<lparr>li_state := ss\<rparr>)\<rparr>"

definition overState :: "(SessionState \<Rightarrow> SessionState) \<Rightarrow> ModuleState \<Rightarrow> ModuleState" where
  "overState f st = st\<lparr>mo_lib := map_option (\<lambda>lib. lib\<lparr>li_state := f (li_state lib)\<rparr>) (mo_lib st)\<rparr>"

definition tellLogout :: "CK_ULONG \<Rightarrow> SessionState \<Rightarrow> ModuleState \<Rightarrow> ModuleState" where
  "tellLogout slot ss st =
     (case slotById slot ss of None \<Rightarrow> st | Some sl \<Rightarrow> st\<lparr>mo_logouts := mo_logouts st @ [sl_readerPath sl]\<rparr>)"

section \<open>The in-flight guard\<close>

definition armGuard :: "CK_ULONG option \<Rightarrow> ModuleState \<Rightarrow> ModuleState" where
  "armGuard g st =
     (let st1 = (case g of None \<Rightarrow> st | Some h \<Rightarrow> overState (modSession h (\<lambda>s. s\<lparr>se_rpcInFlight := True\<rparr>)) st)
      in st1\<lparr>mo_rpcInFlight := mo_rpcInFlight st1 + 1\<rparr>)"

definition dropGuard :: "CK_ULONG option \<Rightarrow> ModuleState \<Rightarrow> ModuleState" where
  "dropGuard g st =
     (let st1 = (case g of None \<Rightarrow> st | Some h \<Rightarrow> overState (modSession h (\<lambda>s. s\<lparr>se_rpcInFlight := False\<rparr>)) st)
      in st1\<lparr>mo_rpcInFlight := mo_rpcInFlight st1 - 1\<rparr>)"

section \<open>General purpose\<close>

record InitArgs =
  ia_reserved :: bool
  ia_customMutex :: bool
  ia_osLockingOk :: bool

definition C_Initialize :: "InitArgs option \<Rightarrow> ModuleState \<Rightarrow> call" where
  "C_Initialize args st =
     (if mo_lib st \<noteq> None then (Some CKR_CRYPTOKI_ALREADY_INITIALIZED, st)
      else
        (let fresh = (Some CKR_OK, st\<lparr>mo_lib := Some \<lparr>li_state = freshState, li_certDers = []\<rparr>\<rparr>)
         in case args of
              None \<Rightarrow> fresh
            | Some a \<Rightarrow>
                if ia_reserved a then (Some CKR_ARGUMENTS_BAD, st)
                else if ia_customMutex a \<and> \<not> ia_osLockingOk a then (Some CKR_CANT_LOCK, st)
                else fresh))"

definition C_Finalize :: "bool \<Rightarrow> ModuleState \<Rightarrow> call" where
  "C_Finalize reserved st =
     withLib (\<lambda>lib. if reserved then (Some CKR_ARGUMENTS_BAD, st) else (None, spawn FinalizeWait st)) st"

text \<open>The wait ends drained, or after thirty seconds.\<close>

definition finalizeWake :: "ModuleState \<Rightarrow> CK_RV \<times> ModuleState" where
  "finalizeWake st =
     (if mo_rpcInFlight st \<noteq> 0 then (CKR_FUNCTION_FAILED, st) else (CKR_OK, st\<lparr>mo_lib := None\<rparr>))"

section \<open>Slots and tokens\<close>

definition refreshModel :: "RefreshCont \<Rightarrow> ModuleState \<Rightarrow> call" where
  "refreshModel cont st =
     (let ticket = mo_started st + 1
      in (None, spawn (SnapshotRpc ticket cont) (armGuard None (st\<lparr>mo_started := ticket\<rparr>))))"

definition publishSnapshot :: "u64 \<Rightarrow> AgentSnapshot \<Rightarrow> Library \<Rightarrow> ModuleState \<Rightarrow> ModuleState" where
  "publishSnapshot ticket snapshot lib st =
     (if ticket > mo_published st
      then putState lib (setModel (build snapshot) (li_state lib)) (st\<lparr>mo_published := ticket\<rparr>)
      else st)"

definition C_GetSlotList :: "bool \<Rightarrow> bool \<Rightarrow> CK_ULONG option \<Rightarrow> ModuleState \<Rightarrow> call" where
  "C_GetSlotList tokenPresent listNull count st =
     withLib (\<lambda>lib. case count of
                      None \<Rightarrow> (Some CKR_ARGUMENTS_BAD, st)
                    | Some n \<Rightarrow> refreshModel (ContSlotList tokenPresent listNull n) st) st"

definition withInfo :: "bool \<Rightarrow> RefreshCont \<Rightarrow> ModuleState \<Rightarrow> call" where
  "withInfo infoNull cont st =
     withLib (\<lambda>lib. if infoNull then (Some CKR_ARGUMENTS_BAD, st) else refreshModel cont st) st"

definition C_GetSlotInfo :: "CK_ULONG \<Rightarrow> bool \<Rightarrow> ModuleState \<Rightarrow> call" where
  "C_GetSlotInfo slotID infoNull = withInfo infoNull (ContSlotInfo slotID)"

definition C_GetTokenInfo :: "CK_ULONG \<Rightarrow> bool \<Rightarrow> ModuleState \<Rightarrow> call" where
  "C_GetTokenInfo slotID infoNull = withInfo infoNull (ContTokenInfo slotID)"

definition C_GetMechanismList :: "CK_ULONG \<Rightarrow> bool \<Rightarrow> CK_ULONG option \<Rightarrow> ModuleState \<Rightarrow> call" where
  "C_GetMechanismList slotID listNull count st =
     withLib (\<lambda>lib. case count of
                      None \<Rightarrow> (Some CKR_ARGUMENTS_BAD, st)
                    | Some n \<Rightarrow> refreshModel (ContMechanismList slotID listNull n) st) st"

definition C_GetMechanismInfo :: "CK_ULONG \<Rightarrow> CK_ULONG \<Rightarrow> bool \<Rightarrow> ModuleState \<Rightarrow> call" where
  "C_GetMechanismInfo slotID type infoNull = withInfo infoNull (ContMechanismInfo slotID type)"

abbreviation CKF_RW_SESSION :: CK_ULONG where "CKF_RW_SESSION \<equiv> 2"
abbreviation CKF_SERIAL_SESSION :: CK_ULONG where "CKF_SERIAL_SESSION \<equiv> 4"

definition C_OpenSession :: "CK_ULONG \<Rightarrow> CK_ULONG \<Rightarrow> bool \<Rightarrow> ModuleState \<Rightarrow> call" where
  "C_OpenSession slotID flags handleNull st =
     withLib (\<lambda>lib. if handleNull then (Some CKR_ARGUMENTS_BAD, st)
                    else if flags AND CKF_SERIAL_SESSION = 0 then (Some CKR_SESSION_PARALLEL_NOT_SUPPORTED, st)
                    else refreshModel (ContOpenSession slotID flags) st) st"

text \<open>The two-call convention for a list: its length, and the list when there is room for it.\<close>

definition giveList :: "'a list \<Rightarrow> bool \<Rightarrow> CK_ULONG \<Rightarrow> CK_RV \<times> CK_ULONG \<times> 'a list" where
  "giveList xs listNull room =
     (if listNull then (CKR_OK, of_nat (length xs), [])
      else if unat room < length xs then (CKR_BUFFER_TOO_SMALL, of_nat (length xs), [])
      else (CKR_OK, of_nat (length xs), xs))"

record CkSlotInfo =
  si_slotDescription :: bytes
  si_manufacturerID :: bytes
  si_flags :: CK_ULONG

definition slotInfo :: "Slot \<Rightarrow> CkSlotInfo" where
  "slotInfo slot =
     \<lparr>si_slotDescription = padField 64 (map char_byte
        (if sl_readerName slot = [] then sl_readerPath slot else sl_readerName slot)),
      si_manufacturerID = padField 32 (map char_byte ''LibreSCRS''),
      si_flags = (if sl_tokenPresent slot then 7 else 6)\<rparr>"

record CkTokenInfo =
  ti_label :: bytes
  ti_manufacturerID :: bytes
  ti_model :: bytes
  ti_serialNumber :: bytes
  ti_flags :: CK_ULONG

definition tokenInfo :: "Slot \<Rightarrow> CkTokenInfo" where
  "tokenInfo slot =
     \<lparr>ti_label = padField 32 (map char_byte
        (if sl_tokenLabel slot = [] then ''LibreSCRS Token'' else sl_tokenLabel slot)),
      ti_manufacturerID = padField 32 (map char_byte ''LibreSCRS''),
      ti_model = padField 16 (map char_byte ''agent-proxy''),
      ti_serialNumber = padField 16 (map char_byte (sl_tokenSerial slot)),
      ti_flags = 0x400 OR 0x8 OR 0x4 OR 0x100\<rparr>"

record CkMechanismInfo =
  mi_minKeySize :: CK_ULONG
  mi_maxKeySize :: CK_ULONG
  mi_flags :: CK_ULONG

abbreviation CKF_HW :: CK_ULONG where "CKF_HW \<equiv> 0x1"
abbreviation CKF_DECRYPT :: CK_ULONG where "CKF_DECRYPT \<equiv> 0x200"
abbreviation CKF_SIGN :: CK_ULONG where "CKF_SIGN \<equiv> 0x800"
abbreviation CKF_DERIVE :: CK_ULONG where "CKF_DERIVE \<equiv> 0x80000"
abbreviation CKF_EC_ALL :: CK_ULONG where "CKF_EC_ALL \<equiv> 0x100000 OR 0x800000 OR 0x1000000"

definition mechanismInfo :: "CK_ULONG \<Rightarrow> CkMechanismInfo" where
  "mechanismInfo type =
     (if type = CKM_ECDSA then \<lparr>mi_minKeySize = 256, mi_maxKeySize = 521, mi_flags = CKF_HW OR CKF_SIGN OR CKF_EC_ALL\<rparr>
      else if type = CKM_ECDH1_DERIVE then
        \<lparr>mi_minKeySize = 256, mi_maxKeySize = 521, mi_flags = CKF_HW OR CKF_DERIVE OR CKF_EC_ALL\<rparr>
      else if type = CKM_SHA256_RSA_PKCS then
        \<lparr>mi_minKeySize = 2048, mi_maxKeySize = 4096, mi_flags = CKF_HW OR CKF_SIGN\<rparr>
      else \<lparr>mi_minKeySize = 2048, mi_maxKeySize = 4096, mi_flags = CKF_HW OR CKF_SIGN OR CKF_DECRYPT\<rparr>)"

text \<open>The rest of each entry point once the model is fresh: its code and the new session state.\<close>

definition refreshed :: "RefreshCont \<Rightarrow> SessionState \<Rightarrow> CK_RV \<times> SessionState" where
  "refreshed cont ss =
     (case cont of
        ContSlotList tokenPresent listNull room \<Rightarrow> (fst (giveList (slotIds tokenPresent ss) listNull room), ss)
      | ContSlotInfo slotID \<Rightarrow>
          (case slotById slotID ss of None \<Rightarrow> (CKR_SLOT_ID_INVALID, ss) | Some s \<Rightarrow> (CKR_OK, ss))
      | ContTokenInfo slotID \<Rightarrow>
          (case slotById slotID ss of
             None \<Rightarrow> (CKR_SLOT_ID_INVALID, ss)
           | Some s \<Rightarrow> (if \<not> sl_tokenPresent s then CKR_TOKEN_NOT_PRESENT else CKR_OK, ss))
      | ContMechanismList slotID listNull room \<Rightarrow>
          (case slotById slotID ss of
             None \<Rightarrow> (CKR_SLOT_ID_INVALID, ss)
           | Some s \<Rightarrow> (fst (giveList (sl_mechanisms s) listNull room), ss))
      | ContMechanismInfo slotID type \<Rightarrow>
          (case slotById slotID ss of
             None \<Rightarrow> (CKR_SLOT_ID_INVALID, ss)
           | Some s \<Rightarrow> (if \<not> slotHasMechanism s type then CKR_MECHANISM_INVALID else CKR_OK, ss))
      | ContOpenSession slotID flags \<Rightarrow>
          (case slotById slotID ss of
             None \<Rightarrow> (CKR_SLOT_ID_INVALID, ss)
           | Some s \<Rightarrow>
               if \<not> sl_tokenPresent s then (CKR_TOKEN_NOT_PRESENT, ss)
               else (CKR_OK, snd (openSession slotID flags ss))))"

section \<open>Sessions\<close>

definition C_CloseSession :: "CK_ULONG \<Rightarrow> ModuleState \<Rightarrow> call" where
  "C_CloseSession hSession st =
     withSession hSession
       (\<lambda>lib s.
          (let ss1 = snd (closeSession hSession (li_state lib)); st1 = putState lib ss1 st
           in (Some CKR_OK, if \<not> slotHasSessions (se_slot s) ss1 then tellLogout (se_slot s) ss1 st1 else st1))) st"

definition C_CloseAllSessions :: "CK_ULONG \<Rightarrow> ModuleState \<Rightarrow> call" where
  "C_CloseAllSessions slotID st =
     withLib (\<lambda>lib.
       (let ss1 = closeAllSessions slotID (li_state lib)
        in (Some CKR_OK, tellLogout slotID ss1 (putState lib ss1 st)))) st"

definition C_GetSessionInfo :: "CK_ULONG \<Rightarrow> bool \<Rightarrow> time \<Rightarrow> ModuleState \<Rightarrow> call" where
  "C_GetSessionInfo hSession infoNull now st =
     withLib (\<lambda>lib.
       if infoNull then (Some CKR_ARGUMENTS_BAD, st)
       else (case session hSession (li_state lib) of
               None \<Rightarrow> (Some CKR_SESSION_HANDLE_INVALID, st)
             | Some s \<Rightarrow>
                 (let slot = se_slot s; ss = li_state lib
                  in case slotById slot ss of
                       Some sl \<Rightarrow>
                         if loginCheckDue slot now ss then
                           (let reader = sl_readerPath sl; generation = loginGeneration slot ss;
                                st1 = armGuard None (putState lib (markLoginChecked slot now ss) st)
                            in (None, spawn (if reader = [] then SessionInfoEnd hSession slot generation None True
                                             else SessionInfoRpc hSession slot reader generation) st1))
                         else (None, spawn (SessionInfoEnd hSession slot 0 None False) st)
                     | None \<Rightarrow> (None, spawn (SessionInfoEnd hSession slot 0 None False) st)))) st"

abbreviation CKS_RO_PUBLIC_SESSION :: CK_ULONG where "CKS_RO_PUBLIC_SESSION \<equiv> 0"
abbreviation CKS_RO_USER_FUNCTIONS :: CK_ULONG where "CKS_RO_USER_FUNCTIONS \<equiv> 1"
abbreviation CKS_RW_PUBLIC_SESSION :: CK_ULONG where "CKS_RW_PUBLIC_SESSION \<equiv> 2"
abbreviation CKS_RW_USER_FUNCTIONS :: CK_ULONG where "CKS_RW_USER_FUNCTIONS \<equiv> 3"

definition sessionStateOf :: "Session \<Rightarrow> SessionState \<Rightarrow> CK_ULONG" where
  "sessionStateOf s ss =
     (if isLoggedIn (se_slot s) ss
      then (if se_flags s AND CKF_RW_SESSION \<noteq> 0 then CKS_RW_USER_FUNCTIONS else CKS_RO_USER_FUNCTIONS)
      else (if se_flags s AND CKF_RW_SESSION \<noteq> 0 then CKS_RW_PUBLIC_SESSION else CKS_RO_PUBLIC_SESSION))"

text \<open>The second region: the agent's answer ends the login it was asked about, then the state is told.\<close>

definition sessionInfoEnd ::
  "CK_ULONG \<Rightarrow> CK_ULONG \<Rightarrow> u64 \<Rightarrow> bool option \<Rightarrow> ModuleState \<Rightarrow> (CK_RV \<times> CK_ULONG option) \<times> ModuleState" where
  "sessionInfoEnd hSession slot generation active st =
     (case mo_lib st of
        None \<Rightarrow> ((CKR_CRYPTOKI_NOT_INITIALIZED, None), st)
      | Some lib \<Rightarrow>
          (let ss = li_state lib;
               ss1 = (if active = Some False \<and> isLoggedIn slot ss \<and> loginGeneration slot ss = generation
                      then endLogin slot ss else ss);
               st1 = putState lib ss1 st
           in case session hSession ss1 of
                None \<Rightarrow> ((CKR_SESSION_HANDLE_INVALID, None), st1)
              | Some s \<Rightarrow> ((CKR_OK, Some (sessionStateOf s ss1)), st1)))"

abbreviation CKU_USER :: CK_ULONG where "CKU_USER \<equiv> 1"
abbreviation CKU_CONTEXT_SPECIFIC :: CK_ULONG where "CKU_CONTEXT_SPECIFIC \<equiv> 2"

definition C_Login :: "CK_ULONG \<Rightarrow> CK_ULONG \<Rightarrow> ModuleState \<Rightarrow> call" where
  "C_Login hSession userType st =
     withLib (\<lambda>lib.
       if userType \<noteq> CKU_USER \<and> userType \<noteq> CKU_CONTEXT_SPECIFIC then (Some CKR_USER_TYPE_INVALID, st)
       else (case session hSession (li_state lib) of
               None \<Rightarrow> (Some CKR_SESSION_HANDLE_INVALID, st)
             | Some s \<Rightarrow>
                 if se_rpcInFlight s then (Some CKR_OPERATION_ACTIVE, st)
                 else if userType = CKU_USER \<and> isLoggedIn (se_slot s) (li_state lib)
                 then (Some CKR_USER_ALREADY_LOGGED_IN, st)
                 else (case slotById (se_slot s) (li_state lib) of
                         None \<Rightarrow> (Some CKR_TOKEN_NOT_PRESENT, st)
                       | Some slot \<Rightarrow>
                           if \<not> sl_tokenPresent slot then (Some CKR_TOKEN_NOT_PRESENT, st)
                           else if sl_objects slot = [] then (Some CKR_KEY_HANDLE_INVALID, st)
                           else (None, spawn (LoginRpc hSession (sl_readerPath slot)) (armGuard (Some hSession) st))))) st"

definition loginAnswered :: "CK_ULONG \<Rightarrow> Status \<Rightarrow> Thread" where
  "loginAnswered hSession status =
     Cleanup [RecordLogin status hSession] (Some hSession)
       (if status \<noteq> S_Ok then ckrFromStatus status CKR_GENERAL_ERROR else CKR_OK)"

definition C_Logout :: "CK_ULONG \<Rightarrow> ModuleState \<Rightarrow> call" where
  "C_Logout hSession st =
     withSession hSession
       (\<lambda>lib s. (Some CKR_OK,
          putState lib (endLogin (se_slot s) (li_state lib)) (tellLogout (se_slot s) (li_state lib) st))) st"

section \<open>Objects\<close>

definition C_DestroyObject :: "CK_ULONG \<Rightarrow> CK_ULONG \<Rightarrow> ModuleState \<Rightarrow> call" where
  "C_DestroyObject hSession hObject st =
     withSession hSession
       (\<lambda>lib s. if isDerivedHandle hObject then
                  (case derivedKey hSession hObject (li_state lib) of
                     None \<Rightarrow> (Some CKR_OBJECT_HANDLE_INVALID, st)
                   | Some k \<Rightarrow> (Some CKR_OK, putState lib (snd (destroyDerivedKey hObject (li_state lib))) st))
                else if resolveObject (se_slot s) hObject (li_state lib) \<noteq> None
                then (Some CKR_ACTION_PROHIBITED, st)
                else (Some CKR_OBJECT_HANDLE_INVALID, st)) st"

text \<open>The template comes back filled in.\<close>

definition C_GetAttributeValue ::
  "AgentPublic \<Rightarrow> CK_ULONG \<Rightarrow> CK_ULONG \<Rightarrow> CK_ATTRIBUTE list option \<Rightarrow> ModuleState \<Rightarrow>
   (CK_RV \<times> CK_ATTRIBUTE list option) \<times> ModuleState" where
  "C_GetAttributeValue ag hSession hObject tmpl st =
     (case (mo_lib st, tmpl) of
        (None, _) \<Rightarrow> ((CKR_CRYPTOKI_NOT_INITIALIZED, tmpl), st)
      | (Some lib, None) \<Rightarrow> ((CKR_ARGUMENTS_BAD, None), st)
      | (Some lib, Some as) \<Rightarrow>
          (case session hSession (li_state lib) of
             None \<Rightarrow> ((CKR_SESSION_HANDLE_INVALID, tmpl), st)
           | Some s \<Rightarrow>
               (case slotById (se_slot s) (li_state lib) of
                  None \<Rightarrow> ((CKR_SESSION_HANDLE_INVALID, tmpl), st)
                | Some slot \<Rightarrow>
                    if isDerivedHandle hObject then
                      (case derivedKey hSession hObject (li_state lib) of
                         None \<Rightarrow> ((CKR_OBJECT_HANDLE_INVALID, tmpl), st)
                       | Some key \<Rightarrow> (map_prod id Some (serveDerivedAll key as CKR_OK), st))
                    else
                      (case resolveObject (se_slot s) hObject (li_state lib) of
                         None \<Rightarrow> ((CKR_OBJECT_HANDLE_INVALID, tmpl), st)
                       | Some obj \<Rightarrow>
                           (case serveAll ag slot obj as CKR_OK (li_certDers lib) of
                              (res, cache) \<Rightarrow>
                                (map_prod id Some res, st\<lparr>mo_lib := Some (lib\<lparr>li_certDers := cache\<rparr>)\<rparr>))))))"

definition C_FindObjectsInit :: "AgentPublic \<Rightarrow> CK_ULONG \<Rightarrow> CK_ATTRIBUTE list \<Rightarrow> ModuleState \<Rightarrow> call" where
  "C_FindObjectsInit ag hSession tmpl st =
     withSession hSession
       (\<lambda>lib s.
          if fc_active (se_find s) then (Some CKR_OPERATION_ACTIVE, st)
          else
            (let ss = li_state lib;
                 found = findMatches hSession (se_slot s) tmpl ss;
                 resolve = (\<lambda>h. if isDerivedHandle h then None else resolveObject (se_slot s) h ss)
             in case (case slotById (se_slot s) ss of
                        None \<Rightarrow> (found, li_certDers lib)
                      | Some slot \<Rightarrow> eraseMismatches ag slot resolve tmpl found (li_certDers lib)) of
                  (kept, cache) \<Rightarrow>
                    (Some CKR_OK,
                     putState (lib\<lparr>li_certDers := cache\<rparr>)
                       (modSession hSession
                          (\<lambda>s. s\<lparr>se_find := \<lparr>fc_active = True, fc_matches = kept, fc_next = 0\<rparr>\<rparr>) ss) st))) st"

text \<open>The handles given out come with the code.\<close>

definition C_FindObjects ::
  "CK_ULONG \<Rightarrow> bool \<Rightarrow> CK_ULONG \<Rightarrow> bool \<Rightarrow> ModuleState \<Rightarrow> (CK_RV \<times> CK_ULONG list) \<times> ModuleState" where
  "C_FindObjects hSession objNull maxCount countNull st =
     (case mo_lib st of
        None \<Rightarrow> ((CKR_CRYPTOKI_NOT_INITIALIZED, []), st)
      | Some lib \<Rightarrow>
          if objNull \<or> countNull then ((CKR_ARGUMENTS_BAD, []), st)
          else (case session hSession (li_state lib) of
                  None \<Rightarrow> ((CKR_SESSION_HANDLE_INVALID, []), st)
                | Some s \<Rightarrow>
                    if \<not> fc_active (se_find s) then ((CKR_OPERATION_NOT_INITIALIZED, []), st)
                    else
                      (let f = se_find s; out = take (unat maxCount) (drop (fc_next f) (fc_matches f))
                       in ((CKR_OK, out),
                           putState lib (modSession hSession
                             (\<lambda>s. s\<lparr>se_find := f\<lparr>fc_next := fc_next f + length out\<rparr>\<rparr>) (li_state lib)) st))))"

definition C_FindObjectsFinal :: "CK_ULONG \<Rightarrow> ModuleState \<Rightarrow> call" where
  "C_FindObjectsFinal hSession st =
     withSession hSession
       (\<lambda>lib s. if \<not> fc_active (se_find s) then (Some CKR_OPERATION_NOT_INITIALIZED, st)
                else (Some CKR_OK,
                      putState lib (modSession hSession (\<lambda>s. s\<lparr>se_find := freshFind\<rparr>) (li_state lib)) st)) st"

section \<open>Decryption\<close>

definition C_DecryptInit :: "CK_ULONG \<Rightarrow> CK_ULONG option \<Rightarrow> CK_ULONG \<Rightarrow> ModuleState \<Rightarrow> call" where
  "C_DecryptInit hSession mech hKey st =
     withLib (\<lambda>lib. case mech of None \<Rightarrow> (Some CKR_ARGUMENTS_BAD, st) | Some m \<Rightarrow>
       withSession hSession
         (\<lambda>lib s.
            if dc_active (se_decrypt s) then (Some CKR_OPERATION_ACTIVE, st)
            else (case slotById (se_slot s) (li_state lib) of
                    None \<Rightarrow> (Some CKR_SESSION_HANDLE_INVALID, st)
                  | Some slot \<Rightarrow>
                      if m \<noteq> CKM_RSA_PKCS \<or> \<not> slotHasMechanism slot CKM_RSA_PKCS then (Some CKR_MECHANISM_INVALID, st)
                      else (case resolveObject (se_slot s) hKey (li_state lib) of
                              None \<Rightarrow> (Some CKR_KEY_HANDLE_INVALID, st)
                            | Some obj \<Rightarrow>
                                if ob_cls obj \<noteq> CKO_PRIVATE_KEY then (Some CKR_KEY_HANDLE_INVALID, st)
                                else if ob_keyType obj \<noteq> KT_Rsa then (Some CKR_KEY_TYPE_INCONSISTENT, st)
                                else if \<not> ob_decrypt obj then (Some CKR_KEY_FUNCTION_NOT_PERMITTED, st)
                                else (Some CKR_OK, putState lib (modSession hSession
                                       (\<lambda>s. s\<lparr>se_decrypt := \<lparr>dc_active = True, dc_reader = sl_readerPath slot,
                                              dc_certId = ob_certId obj, dc_keyBits = ob_keyBits obj,
                                              dc_accumulated = []\<rparr>\<rparr>) (li_state lib)) st)))) st) st"

text \<open>
  What the unlocked part of \<^verbatim>\<open>doDecrypt\<close> answers without the card, and what it makes of the card's
  answer: the regions that follow, the code, the length written back and the bytes handed out.
\<close>

definition decryptPlan :: "DecryptJob \<Rightarrow> (CK_RV \<times> CK_ULONG) option" where
  "decryptPlan j = (if dj_null j \<and> dj_keyBits j \<noteq> 0 then Some (CKR_OK, ucast ((dj_keyBits j + 7) div 8)) else None)"

definition decryptFinish :: "DecryptJob \<Rightarrow> BytesResult \<Rightarrow> LockedAct list \<times> CK_RV \<times> CK_ULONG \<times> bytes option" where
  "decryptFinish j res =
     (let h = dj_session j; n = of_nat (length (br_bytes res))
      in if br_status res \<noteq> S_Ok then
           ([ClearDecrypt h, DropLogin (br_status res) h],
            ckrFromStatus (br_status res) CKR_ENCRYPTED_DATA_LEN_RANGE, dj_room j, None)
         else if dj_null j then ([], CKR_OK, n, None)
         else if unat (dj_room j) < length (br_bytes res) then ([], CKR_BUFFER_TOO_SMALL, n, None)
         else ([ClearDecrypt h], CKR_OK, n, Some (br_bytes res)))"

definition doDecrypt :: "CK_ULONG \<Rightarrow> bytes \<Rightarrow> bool \<Rightarrow> bool \<Rightarrow> CK_ULONG option \<Rightarrow> ModuleState \<Rightarrow> call" where
  "doDecrypt hSession ct useAccumulated dataNull room st =
     (case room of None \<Rightarrow> (Some CKR_ARGUMENTS_BAD, st) | Some n \<Rightarrow>
      withSession hSession
        (\<lambda>lib s.
           if \<not> dc_active (se_decrypt s) then (Some CKR_OPERATION_NOT_INITIALIZED, st)
           else if se_rpcInFlight s then (Some CKR_OPERATION_ACTIVE, st)
           else
             (let j = \<lparr>dj_session = hSession, dj_reader = dc_reader (se_decrypt s),
                    dj_certId = dc_certId (se_decrypt s), dj_keyBits = dc_keyBits (se_decrypt s),
                    dj_data = (if useAccumulated then dc_accumulated (se_decrypt s) else ct),
                    dj_null = dataNull, dj_room = n\<rparr>
              in (None, spawn (case decryptPlan j of
                                 Some (rv, _) \<Rightarrow> Cleanup [] (Some hSession) rv
                               | None \<Rightarrow> DecryptRpc j) (armGuard (Some hSession) st)))) st)"

definition C_Decrypt :: "CK_ULONG \<Rightarrow> bytes \<Rightarrow> bool \<Rightarrow> CK_ULONG option \<Rightarrow> ModuleState \<Rightarrow> call" where
  "C_Decrypt hSession ct dataNull room = doDecrypt hSession ct False dataNull room"

definition C_DecryptUpdate :: "CK_ULONG \<Rightarrow> bytes option \<Rightarrow> ModuleState \<Rightarrow> call" where
  "C_DecryptUpdate hSession part st =
     withSession hSession
       (\<lambda>lib s. if \<not> dc_active (se_decrypt s) then (Some CKR_OPERATION_NOT_INITIALIZED, st)
                else if se_rpcInFlight s then (Some CKR_OPERATION_ACTIVE, st)
                else (Some CKR_OK, putState lib (modSession hSession
                       (\<lambda>s. s\<lparr>se_decrypt := (se_decrypt s)\<lparr>dc_accumulated := dc_accumulated (se_decrypt s) @
                              (case part of None \<Rightarrow> [] | Some bs \<Rightarrow> bs)\<rparr>\<rparr>) (li_state lib)) st)) st"

definition C_DecryptFinal :: "CK_ULONG \<Rightarrow> bool \<Rightarrow> CK_ULONG option \<Rightarrow> ModuleState \<Rightarrow> call" where
  "C_DecryptFinal hSession dataNull room = doDecrypt hSession [] True dataNull room"

section \<open>Signing\<close>

definition C_SignInit :: "CK_ULONG \<Rightarrow> CK_ULONG option \<Rightarrow> CK_ULONG \<Rightarrow> ModuleState \<Rightarrow> call" where
  "C_SignInit hSession mech hKey st =
     withLib (\<lambda>lib. case mech of None \<Rightarrow> (Some CKR_ARGUMENTS_BAD, st) | Some m \<Rightarrow>
       withSession hSession
         (\<lambda>lib s.
            if sc_active (se_sign s) then (Some CKR_OPERATION_ACTIVE, st)
            else (case slotById (se_slot s) (li_state lib) of
                    None \<Rightarrow> (Some CKR_SESSION_HANDLE_INVALID, st)
                  | Some slot \<Rightarrow>
                      if m \<notin> {CKM_RSA_PKCS, CKM_SHA256_RSA_PKCS, CKM_ECDSA} \<or> \<not> slotHasMechanism slot m
                      then (Some CKR_MECHANISM_INVALID, st)
                      else (case resolveObject (se_slot s) hKey (li_state lib) of
                              None \<Rightarrow> (Some CKR_KEY_HANDLE_INVALID, st)
                            | Some obj \<Rightarrow>
                                if ob_cls obj \<noteq> CKO_PRIVATE_KEY then (Some CKR_KEY_HANDLE_INVALID, st)
                                else if (m = CKM_ECDSA) \<noteq> (ob_keyType obj = KT_Ec)
                                then (Some CKR_KEY_TYPE_INCONSISTENT, st)
                                else if \<not> ob_sign obj then (Some CKR_KEY_FUNCTION_NOT_PERMITTED, st)
                                else (Some CKR_OK, putState lib (modSession hSession
                                       (\<lambda>s. s\<lparr>se_sign := \<lparr>sc_active = True, sc_reader = sl_readerPath slot,
                                              sc_certId = ob_certId obj, sc_keyBits = ob_keyBits obj,
                                              sc_mechanism = m, sc_keyType = ob_keyType obj,
                                              sc_accumulated = []\<rparr>\<rparr>) (li_state lib)) st)))) st) st"

text \<open>The unlocked part of \<^verbatim>\<open>doSign\<close>, before and after the card.\<close>

definition signPlan :: "SignJob \<Rightarrow> (LockedAct list \<times> CK_RV \<times> CK_ULONG) option" where
  "signPlan j =
     (let sigLen = signatureLength (sj_keyType j) (sj_keyBits j)
      in if sj_mech j = CKM_ECDSA \<and> length (sj_data j) \<notin> {32, 48, 64} then
           Some ([ClearSign (sj_session j)], CKR_DATA_LEN_RANGE, sj_room j)
         else if sigLen \<noteq> 0 \<and> (sj_null j \<or> sj_room j < sigLen) then
           Some ([], if sj_null j then CKR_OK else CKR_BUFFER_TOO_SMALL, sigLen)
         else None)"

definition signFinish :: "SignJob \<Rightarrow> BytesResult \<Rightarrow> LockedAct list \<times> CK_RV \<times> CK_ULONG \<times> bytes option" where
  "signFinish j res =
     (let h = sj_session j; n = of_nat (length (br_bytes res))
      in if br_status res \<noteq> S_Ok then
           ([ClearSign h, DropLogin (br_status res) h],
            ckrFromStatus (br_status res) CKR_DATA_LEN_RANGE, sj_room j, None)
         else if sj_mech j = CKM_ECDSA \<and> n \<noteq> signatureLength (sj_keyType j) (sj_keyBits j) then
           ([ClearSign h], CKR_DEVICE_ERROR, sj_room j, None)
         else if sj_null j then ([], CKR_OK, n, None)
         else if unat (sj_room j) < length (br_bytes res) then ([], CKR_BUFFER_TOO_SMALL, n, None)
         else ([ClearSign h], CKR_OK, n, Some (br_bytes res)))"

definition doSign :: "CK_ULONG \<Rightarrow> bytes \<Rightarrow> bool \<Rightarrow> bool \<Rightarrow> CK_ULONG option \<Rightarrow> ModuleState \<Rightarrow> call" where
  "doSign hSession data useAccumulated sigNull room st =
     (case room of None \<Rightarrow> (Some CKR_ARGUMENTS_BAD, st) | Some n \<Rightarrow>
      withSession hSession
        (\<lambda>lib s.
           if \<not> sc_active (se_sign s) then (Some CKR_OPERATION_NOT_INITIALIZED, st)
           else if se_rpcInFlight s then (Some CKR_OPERATION_ACTIVE, st)
           else
             (let j = \<lparr>sj_session = hSession, sj_reader = sc_reader (se_sign s), sj_certId = sc_certId (se_sign s),
                    sj_mech = sc_mechanism (se_sign s), sj_keyType = sc_keyType (se_sign s),
                    sj_keyBits = sc_keyBits (se_sign s),
                    sj_data = (if useAccumulated then sc_accumulated (se_sign s) else data),
                    sj_null = sigNull, sj_room = n\<rparr>
              in (None, spawn (case signPlan j of
                                 Some (acts, rv, _) \<Rightarrow> Cleanup acts (Some hSession) rv
                               | None \<Rightarrow> SignRpc j) (armGuard (Some hSession) st)))) st)"

definition C_Sign :: "CK_ULONG \<Rightarrow> bytes \<Rightarrow> bool \<Rightarrow> CK_ULONG option \<Rightarrow> ModuleState \<Rightarrow> call" where
  "C_Sign hSession data sigNull room = doSign hSession data False sigNull room"

definition C_SignUpdate :: "CK_ULONG \<Rightarrow> bytes \<Rightarrow> ModuleState \<Rightarrow> call" where
  "C_SignUpdate hSession part st =
     withSession hSession
       (\<lambda>lib s. if \<not> sc_active (se_sign s) then (Some CKR_OPERATION_NOT_INITIALIZED, st)
                else (Some CKR_OK, putState lib (modSession hSession
                       (\<lambda>s. s\<lparr>se_sign := (se_sign s)\<lparr>sc_accumulated := sc_accumulated (se_sign s) @ part\<rparr>\<rparr>)
                       (li_state lib)) st)) st"

definition C_SignFinal :: "CK_ULONG \<Rightarrow> bool \<Rightarrow> CK_ULONG option \<Rightarrow> ModuleState \<Rightarrow> call" where
  "C_SignFinal hSession sigNull room = doSign hSession [] True sigNull room"

section \<open>Key agreement\<close>

text \<open>\<^verbatim>\<open>CK_ECDH1_DERIVE_PARAMS\<close>; absent when the pointer is null or the length is not the structure's.\<close>

record EcdhParams =
  ep_kdf :: CK_ULONG
  ep_sharedDataLen :: CK_ULONG
  ep_publicData :: "bytes option"

record DeriveMechanism =
  dm_mechanism :: CK_ULONG
  dm_params :: "EcdhParams option"

definition deriveJob ::
  "CK_ULONG \<Rightarrow> Session \<Rightarrow> DeriveMechanism \<Rightarrow> CK_ULONG \<Rightarrow> CK_ATTRIBUTE list option \<Rightarrow> nat \<Rightarrow> SessionState \<Rightarrow>
   CK_RV + DeriveJob" where
  "deriveJob hSession s m hBaseKey tmpl count ss =
     (case slotById (se_slot s) ss of None \<Rightarrow> Inl CKR_SESSION_HANDLE_INVALID | Some slot \<Rightarrow>
      if dm_mechanism m \<noteq> CKM_ECDH1_DERIVE \<or> \<not> slotHasMechanism slot CKM_ECDH1_DERIVE then Inl CKR_MECHANISM_INVALID
      else if \<not> isLoggedIn (se_slot s) ss then Inl CKR_USER_NOT_LOGGED_IN
      else (case dm_params m of None \<Rightarrow> Inl CKR_MECHANISM_PARAM_INVALID | Some params \<Rightarrow>
        if ep_kdf params \<noteq> 1 \<or> ep_sharedDataLen params \<noteq> 0 then Inl CKR_MECHANISM_PARAM_INVALID
        else (case resolveObject (se_slot s) hBaseKey ss of None \<Rightarrow> Inl CKR_KEY_HANDLE_INVALID | Some base \<Rightarrow>
          if ob_cls base \<noteq> CKO_PRIVATE_KEY then Inl CKR_KEY_HANDLE_INVALID
          else if ob_keyType base \<noteq> KT_Ec then Inl CKR_KEY_TYPE_INCONSISTENT
          else if \<not> ob_derive base then Inl CKR_KEY_FUNCTION_NOT_PERMITTED
          else (case ep_publicData params of None \<Rightarrow> Inl CKR_MECHANISM_PARAM_INVALID | Some pub \<Rightarrow>
            (case peerPointFromPublicData pub (ob_keyBits base) of
               None \<Rightarrow> Inl CKR_MECHANISM_PARAM_INVALID
             | Some point \<Rightarrow>
                 sum_bind (parseDerivedKeyTemplate tmpl count)
                   (\<lambda>parsed.
                      if (case dt_valueLen parsed of
                            None \<Rightarrow> False | Some n \<Rightarrow> n > (ucast (ob_keyBits base) + 7) div 8)
                      then Inl CKR_TEMPLATE_INCONSISTENT
                      else Inr \<lparr>vj_session = hSession, vj_slot = se_slot s, vj_reader = sl_readerPath slot,
                             vj_certId = ob_certId base, vj_serial = sl_tokenSerial slot, vj_point = point,
                             vj_wanted = parsed\<rparr>))))))"

definition C_DeriveKey ::
  "CK_ULONG \<Rightarrow> DeriveMechanism option \<Rightarrow> CK_ULONG \<Rightarrow> CK_ATTRIBUTE list option \<Rightarrow> nat \<Rightarrow> bool \<Rightarrow> ModuleState \<Rightarrow> call"
where
  "C_DeriveKey hSession mech hBaseKey tmpl count keyNull st =
     withLib (\<lambda>lib. case mech of None \<Rightarrow> (Some CKR_ARGUMENTS_BAD, st) | Some m \<Rightarrow>
       if keyNull then (Some CKR_ARGUMENTS_BAD, st)
       else withSession hSession
         (\<lambda>lib s. if se_rpcInFlight s then (Some CKR_OPERATION_ACTIVE, st)
                  else (case deriveJob hSession s m hBaseKey tmpl count (li_state lib) of
                          Inl rv \<Rightarrow> (Some rv, st)
                        | Inr j \<Rightarrow> (None, spawn (DeriveRpc j) (armGuard (Some hSession) st)))) st) st"

definition deriveAnswered :: "DeriveJob \<Rightarrow> BytesResult \<Rightarrow> Thread" where
  "deriveAnswered j res =
     (if br_status res \<noteq> S_Ok then
        Cleanup [DropLogin (br_status res) (vj_session j)] (Some (vj_session j))
          (ckrFromStatus (br_status res) CKR_MECHANISM_PARAM_INVALID)
      else (case derivedKeyValue (br_bytes res) (vj_wanted j) of
              Inl rv \<Rightarrow> Cleanup [] (Some (vj_session j)) rv
            | Inr val \<Rightarrow> DeriveStore j val))"

text \<open>The last region: the secret is kept only where its login and its card still stand.\<close>

definition deriveStore :: "DeriveJob \<Rightarrow> bytes \<Rightarrow> ModuleState \<Rightarrow> CK_RV \<times> ModuleState" where
  "deriveStore j val st =
     (case mo_lib st of None \<Rightarrow> (CKR_CRYPTOKI_NOT_INITIALIZED, st) | Some lib \<Rightarrow>
      (case session (vj_session j) (li_state lib) of None \<Rightarrow> (CKR_SESSION_HANDLE_INVALID, st) | Some s \<Rightarrow>
       (case slotById (vj_slot j) (li_state lib) of None \<Rightarrow> (CKR_DEVICE_REMOVED, st) | Some now \<Rightarrow>
        if \<not> sl_tokenPresent now \<or> sl_tokenSerial now \<noteq> vj_serial j then (CKR_DEVICE_REMOVED, st)
        else if \<not> isLoggedIn (se_slot s) (li_state lib) then (CKR_USER_NOT_LOGGED_IN, st)
        else (CKR_OK, putState lib (snd (addDerivedKey
               \<lparr>dk_slot = vj_slot j, dk_creator = vj_session j, dk_attributes = vj_wanted j, dk_value = val\<rparr>
               (li_state lib))) st))))"

section \<open>Threads\<close>

definition runAct :: "LockedAct \<Rightarrow> time \<Rightarrow> ModuleState \<Rightarrow> ModuleState" where
  "runAct act now st =
     (case mo_lib st of None \<Rightarrow> st | Some lib \<Rightarrow>
      (let ss = li_state lib
       in case act of
            ClearSign h \<Rightarrow> putState lib (modSession h (\<lambda>s. s\<lparr>se_sign := freshSign\<rparr>) ss) st
          | ClearDecrypt h \<Rightarrow> putState lib (modSession h (\<lambda>s. s\<lparr>se_decrypt := freshDecrypt\<rparr>) ss) st
          | DropLogin status h \<Rightarrow>
              (if status \<noteq> S_UserNotLoggedIn then st
               else (case session h ss of None \<Rightarrow> st | Some s \<Rightarrow> putState lib (endLogin (se_slot s) ss) st))
          | RecordLogin status h \<Rightarrow>
              (if status \<noteq> S_Ok then st
               else (case session h ss of None \<Rightarrow> st | Some s \<Rightarrow> putState lib (setLoggedIn (se_slot s) now ss) st))))"

text \<open>The agent's answer to the question a thread waits on.\<close>

datatype RpcAnswer =
    AnsSnapshot AgentSnapshot
  | AnsActive "bool option"
  | AnsStatus Status
  | AnsBytes BytesResult

fun rpcAnswered :: "Thread \<Rightarrow> RpcAnswer \<Rightarrow> Thread option" where
  "rpcAnswered (SnapshotRpc ticket cont) (AnsSnapshot snap) = Some (SnapshotAnswered ticket snap cont)"
| "rpcAnswered (SessionInfoRpc h slot reader gen) (AnsActive a) = Some (SessionInfoEnd h slot gen a True)"
| "rpcAnswered (LoginRpc h reader) (AnsStatus s) = Some (loginAnswered h s)"
| "rpcAnswered (SignRpc j) (AnsBytes res) =
     (case signFinish j res of (acts, rv, _) \<Rightarrow> Some (Cleanup acts (Some (sj_session j)) rv))"
| "rpcAnswered (DecryptRpc j) (AnsBytes res) =
     (case decryptFinish j res of (acts, rv, _) \<Rightarrow> Some (Cleanup acts (Some (dj_session j)) rv))"
| "rpcAnswered (DeriveRpc j) (AnsBytes res) = Some (deriveAnswered j res)"
| "rpcAnswered _ _ = None"

text \<open>The next locked region of a thread: the thread that remains, if any, and the state.\<close>

fun threadStep :: "Thread \<Rightarrow> time \<Rightarrow> ModuleState \<Rightarrow> (Thread option \<times> ModuleState) option" where
  "threadStep (SnapshotAnswered ticket snap cont) now st = Some (Some (SnapshotPublish ticket snap cont), dropGuard None st)"
| "threadStep (SnapshotPublish ticket snap cont) now st =
     (case mo_lib st of
        None \<Rightarrow> Some (None, st)
      | Some lib \<Rightarrow>
          (let st1 = publishSnapshot ticket snap lib st
           in case mo_lib st1 of
                None \<Rightarrow> Some (None, st1)
              | Some lib1 \<Rightarrow> Some (None, putState lib1 (snd (refreshed cont (li_state lib1))) st1)))"
| "threadStep (SessionInfoEnd h slot gen active held) now st =
     (case sessionInfoEnd h slot gen active st of
        ((rv, _), st1) \<Rightarrow> Some (if held then Some (Cleanup [] None rv) else None, st1))"
| "threadStep (DeriveStore j val) now st =
     (case deriveStore j val st of (rv, st1) \<Rightarrow> Some (Some (Cleanup [] (Some (vj_session j)) rv), st1))"
| "threadStep (Cleanup (act # acts) g rv) now st = Some (Some (Cleanup acts g rv), runAct act now st)"
| "threadStep (Cleanup [] g rv) now st = Some (None, dropGuard g st)"
| "threadStep FinalizeWait now st = Some (None, snd (finalizeWake st))"
| "threadStep _ now st = None"

definition swapThread :: "Thread \<Rightarrow> Thread option \<Rightarrow> ModuleState \<Rightarrow> ModuleState" where
  "swapThread t t' st =
     st\<lparr>mo_threads := (case t' of None \<Rightarrow> [] | Some u \<Rightarrow> [u]) @ remove1 t (mo_threads st)\<rparr>"

text \<open>Every entry point with its arguments.\<close>

datatype Call =
    CallInitialize "InitArgs option"
  | CallFinalize bool
  | CallGetSlotList bool bool "CK_ULONG option"
  | CallGetSlotInfo CK_ULONG bool
  | CallGetTokenInfo CK_ULONG bool
  | CallGetMechanismList CK_ULONG bool "CK_ULONG option"
  | CallGetMechanismInfo CK_ULONG CK_ULONG bool
  | CallOpenSession CK_ULONG CK_ULONG bool
  | CallCloseSession CK_ULONG
  | CallCloseAllSessions CK_ULONG
  | CallGetSessionInfo CK_ULONG bool
  | CallLogin CK_ULONG CK_ULONG
  | CallLogout CK_ULONG
  | CallDestroyObject CK_ULONG CK_ULONG
  | CallGetAttributeValue AgentPublic CK_ULONG CK_ULONG "CK_ATTRIBUTE list option"
  | CallFindObjectsInit AgentPublic CK_ULONG "CK_ATTRIBUTE list"
  | CallFindObjects CK_ULONG bool CK_ULONG bool
  | CallFindObjectsFinal CK_ULONG
  | CallDecryptInit CK_ULONG "CK_ULONG option" CK_ULONG
  | CallDecrypt CK_ULONG bytes bool "CK_ULONG option"
  | CallDecryptUpdate CK_ULONG "bytes option"
  | CallDecryptFinal CK_ULONG bool "CK_ULONG option"
  | CallSignInit CK_ULONG "CK_ULONG option" CK_ULONG
  | CallSign CK_ULONG bytes bool "CK_ULONG option"
  | CallSignUpdate CK_ULONG bytes
  | CallSignFinal CK_ULONG bool "CK_ULONG option"
  | CallDeriveKey CK_ULONG "DeriveMechanism option" CK_ULONG "CK_ATTRIBUTE list option" nat bool

fun enter :: "Call \<Rightarrow> time \<Rightarrow> ModuleState \<Rightarrow> call" where
  "enter (CallInitialize a) now st = C_Initialize a st"
| "enter (CallFinalize r) now st = C_Finalize r st"
| "enter (CallGetSlotList p n c) now st = C_GetSlotList p n c st"
| "enter (CallGetSlotInfo s n) now st = C_GetSlotInfo s n st"
| "enter (CallGetTokenInfo s n) now st = C_GetTokenInfo s n st"
| "enter (CallGetMechanismList s n c) now st = C_GetMechanismList s n c st"
| "enter (CallGetMechanismInfo s t n) now st = C_GetMechanismInfo s t n st"
| "enter (CallOpenSession s f n) now st = C_OpenSession s f n st"
| "enter (CallCloseSession h) now st = C_CloseSession h st"
| "enter (CallCloseAllSessions s) now st = C_CloseAllSessions s st"
| "enter (CallGetSessionInfo h n) now st = C_GetSessionInfo h n now st"
| "enter (CallLogin h u) now st = C_Login h u st"
| "enter (CallLogout h) now st = C_Logout h st"
| "enter (CallDestroyObject h k) now st = C_DestroyObject h k st"
| "enter (CallGetAttributeValue ag h k t) now st =
     (case C_GetAttributeValue ag h k t st of ((rv, _), st') \<Rightarrow> (Some rv, st'))"
| "enter (CallFindObjectsInit ag h t) now st = C_FindObjectsInit ag h t st"
| "enter (CallFindObjects h n m c) now st = (case C_FindObjects h n m c st of ((rv, _), st') \<Rightarrow> (Some rv, st'))"
| "enter (CallFindObjectsFinal h) now st = C_FindObjectsFinal h st"
| "enter (CallDecryptInit h m k) now st = C_DecryptInit h m k st"
| "enter (CallDecrypt h d n r) now st = C_Decrypt h d n r st"
| "enter (CallDecryptUpdate h p) now st = C_DecryptUpdate h p st"
| "enter (CallDecryptFinal h n r) now st = C_DecryptFinal h n r st"
| "enter (CallSignInit h m k) now st = C_SignInit h m k st"
| "enter (CallSign h d n r) now st = C_Sign h d n r st"
| "enter (CallSignUpdate h p) now st = C_SignUpdate h p st"
| "enter (CallSignFinal h n r) now st = C_SignFinal h n r st"
| "enter (CallDeriveKey h m b t c n) now st = C_DeriveKey h m b t c n st"

inductive mstep :: "ModuleState \<Rightarrow> ModuleState \<Rightarrow> bool" where
  enter: "enter c now st = (rv, st') \<Longrightarrow> mstep st st'"
| answer: "t \<in> set (mo_threads st) \<Longrightarrow> rpcAnswered t a = Some t' \<Longrightarrow> mstep st (swapThread t (Some t') st)"
| region: "t \<in> set (mo_threads st) \<Longrightarrow> threadStep t now st = Some (t', st') \<Longrightarrow> mstep st (swapThread t t' st')"

definition moduleInit :: ModuleState where
  "moduleInit = \<lparr>mo_lib = None, mo_rpcInFlight = 0, mo_started = 0, mo_published = 0, mo_logouts = [],
     mo_threads = []\<rparr>"

text \<open>The states after \<open>n\<close> steps.\<close>

inductive mrun :: "nat \<Rightarrow> ModuleState \<Rightarrow> bool" where
  init: "mrun 0 moduleInit"
| step: "mrun n st \<Longrightarrow> mstep st st' \<Longrightarrow> mrun (Suc n) st'"

end
