(* ===== verification/SessionLaws.thy ===== *)
theory SessionLaws
  imports Session
begin

text \<open>
  The session bookkeeping on its own: handles resolve to what they were made for, slot ids are
  stable, and logins and derived keys live only as long as what they belong to.
\<close>

section \<open>The invariant\<close>

text \<open>
  Every derived key belongs to an open session of its slot, the slot is shown and logged in; every
  login has a session. Derived handles are told apart by their high bit.
\<close>

definition handlesInv :: "(CK_ULONG \<times> DerivedKey) list \<Rightarrow> bool" where
  "handlesInv ds \<longleftrightarrow> distinct (map fst ds) \<and> (\<forall>h \<in> fst ` set ds. isDerivedHandle h)"

lemma handlesInv_filter [simp]: "handlesInv ds \<Longrightarrow> handlesInv (filter P ds)"
  by (auto simp: handlesInv_def distinct_map_filter)

definition stateInv :: "SessionState \<Rightarrow> bool" where
  "stateInv ss \<longleftrightarrow>
     distinct (map fst (ss_sessions ss)) \<and> handlesInv (ss_derived ss) \<and>
     (\<forall>(h, k) \<in> set (ss_derived ss).
        isLoggedIn (dk_slot k) ss \<and> slotById (dk_slot k) ss \<noteq> None \<and>
        (\<exists>s. session (dk_creator k) ss = Some s \<and> se_slot s = dk_slot k)) \<and>
     (\<forall>slot. isLoggedIn slot ss \<longrightarrow> slotHasSessions slot ss)"

lemma stateInvI:
  assumes "distinct (map fst (ss_sessions ss))" and "handlesInv (ss_derived ss)"
    and "\<And>h k. (h, k) \<in> set (ss_derived ss) \<Longrightarrow> isLoggedIn (dk_slot k) ss \<and> slotById (dk_slot k) ss \<noteq> None \<and>
      (\<exists>s. session (dk_creator k) ss = Some s \<and> se_slot s = dk_slot k)"
    and "\<And>slot. isLoggedIn slot ss \<Longrightarrow> slotHasSessions slot ss"
  shows "stateInv ss"
  using assms unfolding stateInv_def by blast

lemma stateInvD:
  assumes "stateInv ss"
  shows "distinct (map fst (ss_sessions ss))"
    and "(h, k) \<in> set (ss_derived ss) \<Longrightarrow> isLoggedIn (dk_slot k) ss"
    and "(h, k) \<in> set (ss_derived ss) \<Longrightarrow> slotById (dk_slot k) ss \<noteq> None"
    and "(h, k) \<in> set (ss_derived ss) \<Longrightarrow> \<exists>s. session (dk_creator k) ss = Some s \<and> se_slot s = dk_slot k"
    and "isLoggedIn slot ss \<Longrightarrow> slotHasSessions slot ss"
    and "handlesInv (ss_derived ss)"
  using assms unfolding stateInv_def by blast+

lemma endLogin_derived: "ss_derived (endLogin slot ss) = filter (\<lambda>(h, k). dk_slot k \<noteq> slot) (ss_derived ss)"
  by (simp add: endLogin_def destroyDerivedKeysOfSlot_def)

lemma slotById_alt: "slotById i ss = map_option ((!) (ss_model ss)) (map_of (ss_slotIndex ss) i)"
  by (simp add: slotById_def split: option.splits)

lemma endLogin_simps [simp]:
  "ss_sessions (endLogin slot ss) = ss_sessions ss"
  "ss_slotIndex (endLogin slot ss) = ss_slotIndex ss"
  "ss_model (endLogin slot ss) = ss_model ss"
  "ss_nextSession (endLogin slot ss) = ss_nextSession ss"
  "ss_readerToSlot (endLogin slot ss) = ss_readerToSlot ss"
  "ss_nextSlotId (endLogin slot ss) = ss_nextSlotId ss"
  "slotById i (endLogin slot ss) = slotById i ss"
  "session h (endLogin slot ss) = session h ss"
  "slotHasSessions i (endLogin slot ss) = slotHasSessions i ss"
  "isLoggedIn i (endLogin slot ss) \<longleftrightarrow> i \<noteq> slot \<and> isLoggedIn i ss"
  "(h, k) \<in> set (ss_derived (endLogin slot ss)) \<longleftrightarrow> (h, k) \<in> set (ss_derived ss) \<and> dk_slot k \<noteq> slot"
  by (auto simp: endLogin_def destroyDerivedKeysOfSlot_def slotById_alt session_def slotHasSessions_def
      isLoggedIn_def split: option.splits)

lemma stateInv_fresh: "stateInv freshState"
  by (simp add: stateInv_def handlesInv_def freshState_def isLoggedIn_def)

lemma stateInv_endLogin: "stateInv ss \<Longrightarrow> stateInv (endLogin slot ss)"
  by (rule stateInvI) (auto simp: endLogin_derived dest: stateInvD)

lemma slotHasSessions_iff: "slotHasSessions slot ss \<longleftrightarrow> (\<exists>h s. (h, s) \<in> set (ss_sessions ss) \<and> se_slot s = slot)"
  by (auto simp: slotHasSessions_def list_ex_iff)

lemma session_slotHasSessions: "session h ss = Some s \<Longrightarrow> slotHasSessions (se_slot s) ss"
  by (auto simp: session_def slotHasSessions_iff dest: map_of_SomeD)

lemma stateInv_setLoggedIn:
  assumes "stateInv ss" "slotHasSessions slot ss"
  shows "stateInv (setLoggedIn slot now ss)"
proof -
  have "isLoggedIn i (setLoggedIn slot now ss) \<longleftrightarrow> i = slot \<or> isLoggedIn i ss" for i
    by (auto simp: setLoggedIn_def isLoggedIn_def Let_def split: option.splits)
  moreover have "slotById i (setLoggedIn slot now ss) = slotById i ss"
    "session h (setLoggedIn slot now ss) = session h ss"
    "slotHasSessions i (setLoggedIn slot now ss) = slotHasSessions i ss" for i h
    by (simp_all add: setLoggedIn_def Let_def slotById_alt session_def slotHasSessions_def)
  moreover have "ss_derived (setLoggedIn slot now ss) = ss_derived ss"
    "ss_sessions (setLoggedIn slot now ss) = ss_sessions ss"
    by (simp_all add: setLoggedIn_def Let_def)
  ultimately show ?thesis using assms by (intro stateInvI) (auto dest: stateInvD)
qed

lemma stateInv_markLoginChecked: "stateInv ss \<Longrightarrow> stateInv (markLoginChecked slot now ss)"
proof -
  assume inv: "stateInv ss"
  have "isLoggedIn i (markLoginChecked slot now ss) = isLoggedIn i ss" for i
    by (auto simp: markLoginChecked_def isLoggedIn_def split: option.splits)
  moreover have "slotById i (markLoginChecked slot now ss) = slotById i ss"
    "session h (markLoginChecked slot now ss) = session h ss"
    "slotHasSessions i (markLoginChecked slot now ss) = slotHasSessions i ss"
    "ss_derived (markLoginChecked slot now ss) = ss_derived ss"
    "ss_sessions (markLoginChecked slot now ss) = ss_sessions ss" for i h
    by (simp_all add: markLoginChecked_def slotById_alt session_def slotHasSessions_def)
  ultimately show ?thesis using inv by (intro stateInvI) (auto dest: stateInvD)
qed

text \<open>Changes to a session that leave its slot alone.\<close>

lemma slotHasSessions_modSession:
  assumes "\<And>s. se_slot (f s) = se_slot s"
  shows "slotHasSessions slot (modSession h f ss) = slotHasSessions slot ss"
  by (simp add: slotHasSessions_def modSession_def modify_key_def list_ex_iff case_prod_beta
      if_distrib[of se_slot] assms cong: if_cong)

lemma modSession_simps [simp]:
  "ss_derived (modSession h f ss) = ss_derived ss"
  "slotById i (modSession h f ss) = slotById i ss"
  "isLoggedIn i (modSession h f ss) = isLoggedIn i ss"
  "ss_nextSession (modSession h f ss) = ss_nextSession ss"
  "session h' (modSession h f ss) = (if h' = h then map_option f (session h ss) else session h' ss)"
  by (simp_all add: modSession_def slotById_alt isLoggedIn_def session_def)

lemma stateInv_modSession:
  assumes "stateInv ss" "\<And>s. se_slot (f s) = se_slot s"
  shows "stateInv (modSession h f ss)"
proof -
  have "distinct (map fst (ss_sessions (modSession h f ss)))"
    using assms(1) by (simp add: stateInv_def modSession_def)
  then show ?thesis
    using assms slotHasSessions_modSession[of f] by (intro stateInvI) (auto dest: stateInvD)
qed

lemma openSession_simps:
  assumes "openSession slot flags ss = (h, ss')"
  shows "h = ss_nextSession ss" "ss_derived ss' = ss_derived ss" "slotById i ss' = slotById i ss"
    "isLoggedIn i ss' = isLoggedIn i ss" "ss_nextSession ss' = ss_nextSession ss + 1"
    "session h' ss' = (case session h' ss of Some s \<Rightarrow> Some s | None \<Rightarrow> if h' = h then Some
        \<lparr>se_slot = slot, se_flags = flags, se_find = freshFind, se_sign = freshSign,
         se_decrypt = freshDecrypt, se_rpcInFlight = False\<rparr> else None)"
  using assms
  by (auto simp: openSession_def Let_def slotById_alt isLoggedIn_def session_def map_of_emplace_by
      split: option.splits)

lemma set_emplace_mono: "set m \<subseteq> set (emplace_by lt k v m)"
  by (auto simp: emplace_by_def split: option.splits)

lemma stateInv_openSession:
  assumes "stateInv ss" "openSession slot flags ss = (h, ss')"
  shows "stateInv ss'"
proof -
  note o = openSession_simps[OF assms(2)]
  have sub: "set (ss_sessions ss) \<subseteq> set (ss_sessions ss')"
    using assms(2) set_emplace_mono by (fastforce simp: openSession_def Let_def)
  have "distinct (map fst (ss_sessions ss'))"
    using assms by (auto simp: stateInv_def openSession_def Let_def distinct_emplace_by)
  then show ?thesis
  proof (rule stateInvI)
    show "handlesInv (ss_derived ss')" using stateInvD(6)[OF assms(1)] by (simp add: o)
    show "isLoggedIn i ss' \<Longrightarrow> slotHasSessions i ss'" for i
      using stateInvD(5)[OF assms(1)] sub unfolding slotHasSessions_iff o by blast
  next
    fix i k
    assume "(i, k) \<in> set (ss_derived ss')"
    then have "(i, k) \<in> set (ss_derived ss)" by (simp add: o)
    from stateInvD(2,3,4)[OF assms(1) this]
    show "isLoggedIn (dk_slot k) ss' \<and> slotById (dk_slot k) ss' \<noteq> None \<and>
      (\<exists>s. session (dk_creator k) ss' = Some s \<and> se_slot s = dk_slot k)" by (auto simp: o)
  qed
qed

lemma isDerivedHandle_bit: "isDerivedHandle h \<longleftrightarrow> bit h 63"
  unfolding isDerivedHandle_def kDerivedHandleBit_def push_bit_of_1 and_exp_eq_0_iff_not_bit by simp

lemma isDerivedHandle_OR [simp]: "isDerivedHandle (kDerivedHandleBit OR n)"
  unfolding isDerivedHandle_bit kDerivedHandleBit_def by (simp add: bit_simps)

lemma stateInv_addDerivedKey:
  assumes "stateInv ss" "isLoggedIn (dk_slot k) ss" "slotById (dk_slot k) ss \<noteq> None"
    "session (dk_creator k) ss = Some s" "se_slot s = dk_slot k"
  shows "stateInv (snd (addDerivedKey k ss))"
proof -
  have "set (ss_derived (snd (addDerivedKey k ss))) \<subseteq> insert (kDerivedHandleBit OR ss_nextDerived ss, k) (set (ss_derived ss))"
    by (simp add: addDerivedKey_def Let_def set_emplace_by)
  moreover have "isLoggedIn i (snd (addDerivedKey k ss)) = isLoggedIn i ss"
    "slotById i (snd (addDerivedKey k ss)) = slotById i ss"
    "session h (snd (addDerivedKey k ss)) = session h ss"
    "slotHasSessions i (snd (addDerivedKey k ss)) = slotHasSessions i ss"
    "ss_sessions (snd (addDerivedKey k ss)) = ss_sessions ss" for i h
    by (simp_all add: addDerivedKey_def Let_def isLoggedIn_def slotById_alt session_def slotHasSessions_def)
  moreover have "handlesInv (ss_derived (snd (addDerivedKey k ss)))"
    using stateInvD(6)[OF assms(1)]
    by (auto simp: addDerivedKey_def Let_def handlesInv_def distinct_emplace_by
        dest!: subsetD[OF set_emplace_by])
  ultimately show ?thesis
    using assms by (intro stateInvI) (auto dest: stateInvD)
qed

lemma stateInv_subset:
  assumes "stateInv ss" "ss' = ss\<lparr>ss_derived := filter P (ss_derived ss)\<rparr>"
  shows "stateInv ss'"
proof -
  have "isLoggedIn i ss' = isLoggedIn i ss" "slotById i ss' = slotById i ss" "session h ss' = session h ss"
    "slotHasSessions i ss' = slotHasSessions i ss" "ss_sessions ss' = ss_sessions ss" "ss_derived ss' = filter P (ss_derived ss)" for i h
    by (simp_all add: assms(2) isLoggedIn_def slotById_alt session_def slotHasSessions_def)
  then show ?thesis using assms(1) by (intro stateInvI) (auto dest: stateInvD)
qed

lemma stateInv_destroyDerivedKey: "stateInv ss \<Longrightarrow> stateInv (snd (destroyDerivedKey h ss))"
  by (rule stateInv_subset[where P = "\<lambda>(h', k). h' \<noteq> h"]) (auto simp: destroyDerivedKey_def)

text \<open>Dropping sessions whose slots keep no key that needs them.\<close>

lemma stateInv_dropSessions:
  assumes "stateInv ss" "ss' = ss\<lparr>ss_sessions := filter P (ss_sessions ss)\<rparr>"
    "\<And>h k s. (h, k) \<in> set (ss_derived ss) \<Longrightarrow> (dk_creator k, s) \<in> set (ss_sessions ss) \<Longrightarrow> P (dk_creator k, s)"
    "\<And>slot. isLoggedIn slot ss \<Longrightarrow> slotHasSessions slot ss'"
  shows "stateInv ss'"
proof -
  have d: "distinct (map fst (ss_sessions ss))" using assms(1) by (simp add: stateInv_def)
  have keep: "session c ss' = Some s" if "session c ss = Some s" "P (c, s)" for c s
    using that d assms(2) by (simp add: session_def map_of_filter_keep)
  have eqs: "isLoggedIn i ss' = isLoggedIn i ss" "slotById i ss' = slotById i ss" "ss_derived ss' = ss_derived ss" for i
    by (simp_all add: assms(2) isLoggedIn_def slotById_alt)
  show ?thesis
  proof (rule stateInvI)
    show "distinct (map fst (ss_sessions ss'))" using d by (simp add: assms(2) distinct_map_filter)
    show "handlesInv (ss_derived ss')" using stateInvD(6)[OF assms(1)] by (simp add: eqs)
    show "isLoggedIn slot ss' \<Longrightarrow> slotHasSessions slot ss'" for slot using assms(4) by (simp add: eqs)
  next
    fix h k
    assume "(h, k) \<in> set (ss_derived ss')"
    then have hk: "(h, k) \<in> set (ss_derived ss)" by (simp add: eqs)
    from stateInvD(4)[OF assms(1) hk] obtain s where s: "session (dk_creator k) ss = Some s" "se_slot s = dk_slot k"
      by blast
    then have "session (dk_creator k) ss' = Some s"
      using keep assms(3)[OF hk] by (simp add: session_def map_of_SomeD)
    then show "isLoggedIn (dk_slot k) ss' \<and> slotById (dk_slot k) ss' \<noteq> None \<and>
        (\<exists>s. session (dk_creator k) ss' = Some s \<and> se_slot s = dk_slot k)"
      using s stateInvD(2,3)[OF assms(1) hk] by (auto simp: eqs)
  qed
qed

lemma stateInv_closeAllSessions: "stateInv ss \<Longrightarrow> stateInv (closeAllSessions slot ss)"
proof -
  assume inv: "stateInv ss"
  have e: "stateInv (endLogin slot ss)" by (rule stateInv_endLogin[OF inv])
  show ?thesis
    unfolding closeAllSessions_def Let_def
  proof (rule stateInv_dropSessions[OF e refl])
    fix h k s
    assume "(h, k) \<in> set (ss_derived (endLogin slot ss))"
      and s: "(dk_creator k, s) \<in> set (ss_sessions (endLogin slot ss))"
    then have "dk_slot k \<noteq> slot" "\<exists>s'. session (dk_creator k) ss = Some s' \<and> se_slot s' = dk_slot k"
      using stateInvD(4)[OF inv] by auto
    moreover have "session (dk_creator k) ss = Some s"
      using stateInvD(1)[OF inv] s by (simp add: session_def)
    ultimately show "case (dk_creator k, s) of (h, s) \<Rightarrow> se_slot s \<noteq> slot" by simp
  next
    fix i
    assume "isLoggedIn i (endLogin slot ss)"
    then have "i \<noteq> slot" "slotHasSessions i ss" using stateInvD(5)[OF inv] by simp_all
    then show "slotHasSessions i ((endLogin slot ss)\<lparr>ss_sessions :=
        filter (\<lambda>(h, s). se_slot s \<noteq> slot) (ss_sessions (endLogin slot ss))\<rparr>)"
      by (auto simp: slotHasSessions_iff)
  qed
qed

lemma stateInv_closeSession: "stateInv ss \<Longrightarrow> stateInv (snd (closeSession h ss))"
proof -
  assume inv: "stateInv ss"
  let ?ss1 = "destroyDerivedKeysOfSession h ss"
  have inv1: "stateInv ?ss1" by (rule stateInv_subset[OF inv destroyDerivedKeysOfSession_def])
  show ?thesis
  proof (cases "map_of (ss_sessions ?ss1) h")
    case None
    then show ?thesis using inv1 by (simp add: closeSession_def Let_def)
  next
    case (Some s)
    let ?ss2 = "?ss1\<lparr>ss_sessions := filter (\<lambda>(h', s'). h' \<noteq> h) (ss_sessions ?ss1)\<rparr>"
    have own: "dk_creator k \<noteq> h" if "(i, k) \<in> set (ss_derived ?ss1)" for i k
      using that by (auto simp: destroyDerivedKeysOfSession_def)
    have other: "slotHasSessions i ?ss2" if "isLoggedIn i ?ss1" "i \<noteq> se_slot s" for i
    proof -
      from stateInvD(5)[OF inv1 that(1)] obtain h' s' where "(h', s') \<in> set (ss_sessions ?ss1)" "se_slot s' = i"
        by (auto simp: slotHasSessions_iff)
      moreover have "h' \<noteq> h"
        using calculation Some that(2) stateInvD(1)[OF inv1] by (metis map_of_eq_Some_iff option.inject)
      ultimately show ?thesis by (auto simp: slotHasSessions_iff)
    qed
    show ?thesis
    proof (cases "slotHasSessions (se_slot s) ?ss2")
      case True
      have "stateInv ?ss2"
        by (rule stateInv_dropSessions[OF inv1 refl]) (use own other True in auto)
      then show ?thesis using Some True by (simp add: closeSession_def Let_def)
    next
      case False
      let ?e = "endLogin (se_slot s) ?ss1"
      have "stateInv (?e\<lparr>ss_sessions := filter (\<lambda>(h', s'). h' \<noteq> h) (ss_sessions ?e)\<rparr>)"
      proof (rule stateInv_dropSessions[OF stateInv_endLogin[OF inv1] refl])
        show "slotHasSessions i (?e\<lparr>ss_sessions := filter (\<lambda>(h', s'). h' \<noteq> h) (ss_sessions ?e)\<rparr>)"
          if "isLoggedIn i ?e" for i
          using other[of i] that by (simp add: slotHasSessions_def)
      qed (use own in auto)
      moreover have "?e\<lparr>ss_sessions := filter (\<lambda>(h', s'). h' \<noteq> h) (ss_sessions ?e)\<rparr> = endLogin (se_slot s) ?ss2"
        by (simp add: endLogin_def destroyDerivedKeysOfSlot_def)
      ultimately show ?thesis using Some False by (simp add: closeSession_def Let_def)
    qed
  qed
qed

section \<open>Refreshing the model\<close>

lemma assignSlots_simps [simp]:
  "ss_sessions (assignSlots i slots ss) = ss_sessions ss"
  "ss_derived (assignSlots i slots ss) = ss_derived ss"
  "ss_logins (assignSlots i slots ss) = ss_logins ss"
  "ss_nextSession (assignSlots i slots ss) = ss_nextSession ss"
  "ss_model (assignSlots i slots ss) = ss_model ss"
  by (induction i slots ss rule: assignSlots.induct) (simp_all split: option.splits)

text \<open>The last loop of \<^verbatim>\<open>setModel\<close>: exactly the changed slots lose their login.\<close>

lemma endChanged:
  fixes before :: "(CK_ULONG \<times> string) list"
  defines "loop \<equiv> \<lambda>before ss. fold (\<lambda>(slot, serial) s. if tokenChanged serial (slotById slot s) then endLogin slot s else s)
    before ss"
  shows "ss_sessions (loop before ss) = ss_sessions ss \<and> ss_nextSession (loop before ss) = ss_nextSession ss \<and>
    ss_slotIndex (loop before ss) = ss_slotIndex ss \<and> ss_model (loop before ss) = ss_model ss \<and>
    ss_readerToSlot (loop before ss) = ss_readerToSlot ss \<and> ss_nextSlotId (loop before ss) = ss_nextSlotId ss \<and>
    (\<forall>i. isLoggedIn i (loop before ss) \<longleftrightarrow> isLoggedIn i ss \<and>
      (\<forall>serial. (i, serial) \<in> set before \<longrightarrow> \<not> tokenChanged serial (slotById i ss))) \<and>
    (\<forall>h k. (h, k) \<in> set (ss_derived (loop before ss)) \<longleftrightarrow> (h, k) \<in> set (ss_derived ss) \<and>
      (\<forall>serial. (dk_slot k, serial) \<in> set before \<longrightarrow> \<not> tokenChanged serial (slotById (dk_slot k) ss)))"
  unfolding loop_def
proof (induction before arbitrary: ss)
  case (Cons p before)
  obtain slot serial where p: "p = (slot, serial)" by (cases p)
  show ?case
    by (simp add: p Cons.IH) (auto simp: Cons.IH)
qed simp

lemma endChanged_handles:
  "handlesInv (ss_derived ss) \<Longrightarrow> handlesInv (ss_derived (fold (\<lambda>(slot, serial) s.
     if tokenChanged serial (slotById slot s) then endLogin slot s else s) before ss))"
  by (induction before arbitrary: ss) (auto simp: endLogin_derived)

lemma setModel_facts:
  "ss_sessions (setModel model ss) = ss_sessions ss"
  "ss_nextSession (setModel model ss) = ss_nextSession ss"
  "ss_model (setModel model ss) = model"
  "isLoggedIn i (setModel model ss) \<longleftrightarrow> isLoggedIn i ss \<and>
     (\<forall>serial. (i, serial) \<in> set (serialsBefore ss) \<longrightarrow> \<not> tokenChanged serial (slotById i (setModel model ss)))"
  "(h, k) \<in> set (ss_derived (setModel model ss)) \<longleftrightarrow> (h, k) \<in> set (ss_derived ss) \<and>
     (\<forall>serial. (dk_slot k, serial) \<in> set (serialsBefore ss) \<longrightarrow>
        \<not> tokenChanged serial (slotById (dk_slot k) (setModel model ss)))"
proof -
  let ?st1 = "assignSlots 0 model (ss\<lparr>ss_model := model, ss_slotIndex := []\<rparr>)"
  have l: "isLoggedIn i ?st1 = isLoggedIn i ss" for i by (simp add: isLoggedIn_def)
  have "ss_slotIndex (setModel model ss) = ss_slotIndex ?st1" "ss_model (setModel model ss) = ss_model ?st1"
    unfolding setModel_def Let_def by (simp_all add: endChanged)
  then have s: "slotById i (setModel model ss) = slotById i ?st1" for i by (simp add: slotById_alt)
  show "ss_sessions (setModel model ss) = ss_sessions ss" "ss_nextSession (setModel model ss) = ss_nextSession ss"
    "ss_model (setModel model ss) = model"
    unfolding setModel_def Let_def by (simp_all add: endChanged)
  show "isLoggedIn i (setModel model ss) \<longleftrightarrow> isLoggedIn i ss \<and>
     (\<forall>serial. (i, serial) \<in> set (serialsBefore ss) \<longrightarrow> \<not> tokenChanged serial (slotById i (setModel model ss)))"
    unfolding s unfolding setModel_def Let_def by (simp add: endChanged l)
  show "(h, k) \<in> set (ss_derived (setModel model ss)) \<longleftrightarrow> (h, k) \<in> set (ss_derived ss) \<and>
     (\<forall>serial. (dk_slot k, serial) \<in> set (serialsBefore ss) \<longrightarrow>
        \<not> tokenChanged serial (slotById (dk_slot k) (setModel model ss)))"
    unfolding s unfolding setModel_def Let_def by (simp add: endChanged)
qed

lemma serialsBefore_iff:
  "slotById i ss = Some s \<Longrightarrow> (i, if sl_tokenPresent s then sl_tokenSerial s else []) \<in> set (serialsBefore ss)"
  by (force simp: serialsBefore_def slotById_alt Let_def dest: map_of_SomeD)

text \<open>What a derived key or a login that outlives a refresh says about its card.\<close>

lemma survives_refresh:
  assumes "slotById i ss = Some s"
    and "\<forall>serial. (i, serial) \<in> set (serialsBefore ss) \<longrightarrow> \<not> tokenChanged serial (slotById i ss')"
  shows "\<exists>s'. slotById i ss' = Some s' \<and> sl_tokenPresent s \<and> sl_tokenPresent s' \<and>
    sl_tokenSerial s' = sl_tokenSerial s \<and> sl_tokenSerial s \<noteq> []"
  using assms(2)[rule_format, OF serialsBefore_iff[OF assms(1)]]
  by (auto simp: tokenChanged_def split: if_splits option.splits)

lemma stateInv_setModel: "stateInv ss \<Longrightarrow> stateInv (setModel model ss)"
proof (rule stateInvI)
  assume inv: "stateInv ss"
  show "distinct (map fst (ss_sessions (setModel model ss)))"
    using stateInvD(1)[OF inv] by (simp add: setModel_facts)
  show "handlesInv (ss_derived (setModel model ss))"
    unfolding setModel_def Let_def by (rule endChanged_handles) (use stateInvD(6)[OF inv] in simp)
  show "isLoggedIn i (setModel model ss) \<Longrightarrow> slotHasSessions i (setModel model ss)" for i
    using stateInvD(5)[OF inv] by (simp add: setModel_facts slotHasSessions_def)
  fix h k
  assume "(h, k) \<in> set (ss_derived (setModel model ss))"
  then have hk: "(h, k) \<in> set (ss_derived ss)" and un: "\<forall>serial. (dk_slot k, serial) \<in> set (serialsBefore ss) \<longrightarrow>
        \<not> tokenChanged serial (slotById (dk_slot k) (setModel model ss))"
    by (simp_all add: setModel_facts)
  then have "slotById (dk_slot k) (setModel model ss) \<noteq> None" "isLoggedIn (dk_slot k) (setModel model ss)"
    using stateInvD(2,3)[OF inv hk] survives_refresh[OF _ un] by (auto simp: setModel_facts(4))
  then show "isLoggedIn (dk_slot k) (setModel model ss) \<and> slotById (dk_slot k) (setModel model ss) \<noteq> None \<and>
      (\<exists>s. session (dk_creator k) (setModel model ss) = Some s \<and> se_slot s = dk_slot k)"
    using stateInvD(4)[OF inv hk] by (simp add: session_def setModel_facts(1))
qed

section \<open>Slot ids\<close>

text \<open>Each reader has one id of its own, and a shown slot sits under its reader's id.\<close>

definition slotsInv :: "SessionState \<Rightarrow> bool" where
  "slotsInv ss \<longleftrightarrow>
     distinct (map fst (ss_readerToSlot ss)) \<and>
     (\<forall>r i. map_of (ss_readerToSlot ss) r = Some i \<longrightarrow> unat i < length (ss_readerToSlot ss)) \<and>
     (\<forall>r r' i. map_of (ss_readerToSlot ss) r = Some i \<longrightarrow> map_of (ss_readerToSlot ss) r' = Some i \<longrightarrow> r = r') \<and>
     ss_nextSlotId ss = of_nat (length (ss_readerToSlot ss)) \<and>
     (\<forall>i n. map_of (ss_slotIndex ss) i = Some n \<longrightarrow>
        n < length (ss_model ss) \<and> map_of (ss_readerToSlot ss) (sl_readerPath (ss_model ss ! n)) = Some i)"

lemma length_ins_by [simp]: "length (ins_by lt k v m) = Suc (length m)"
  by (induction lt k v m rule: ins_by.induct) auto

lemma assignSlots_slotsInv:
  assumes "slotsInv ss" "ss_model ss = pre @ slots" "length pre = i"
    "length (ss_readerToSlot ss) + length slots < 2 ^ 64"
  shows "slotsInv (assignSlots i slots ss) \<and>
    map_of (ss_readerToSlot ss) \<subseteq>\<^sub>m map_of (ss_readerToSlot (assignSlots i slots ss)) \<and>
    length (ss_readerToSlot (assignSlots i slots ss)) \<le> length (ss_readerToSlot ss) + length slots"
  using assms
proof (induction i slots ss arbitrary: pre rule: assignSlots.induct)
  case (1 i ss)
  then show ?case by simp
next
  case (2 i s slots ss)
  let ?r = "ss_readerToSlot ss" and ?p = "sl_readerPath s"
  let ?ss' = "case map_of ?r ?p of
      None \<Rightarrow> ss\<lparr>ss_nextSlotId := ss_nextSlotId ss + 1,
        ss_readerToSlot := emplace_by (<) ?p (ss_nextSlotId ss) ?r,
        ss_slotIndex := assign_by (<) (ss_nextSlotId ss) i (ss_slotIndex ss)\<rparr>
    | Some slot \<Rightarrow> ss\<lparr>ss_slotIndex := assign_by (<) slot i (ss_slotIndex ss)\<rparr>"
  have at: "ss_model ss ! i = s" "i < length (ss_model ss)" using 2(3,4) by (auto simp: nth_append)
  have step: "slotsInv ?ss' \<and> map_of ?r \<subseteq>\<^sub>m map_of (ss_readerToSlot ?ss') \<and>
      length (ss_readerToSlot ?ss') \<le> Suc (length ?r)"
  proof (cases "map_of ?r ?p")
    case (Some slot)
    then show ?thesis using 2(2) at by (auto simp: slotsInv_def)
  next
    case None
    have n: "unat (of_nat (length ?r) :: u64) = length ?r"
      using 2(5) by (simp add: unat_of_nat)
    have old: "map_of ?r r \<noteq> Some (of_nat (length ?r))" for r
      using 2(2) n unfolding slotsInv_def by (metis less_irrefl)
    have e: "emplace_by (<) ?p v ?r = ins_by (<) ?p v ?r" for v using None by (simp add: emplace_by_def)
    have m: "map_of (ins_by (<) ?p v ?r) = (map_of ?r)(?p \<mapsto> v)" for v by (rule map_of_ins_by[OF None])
    have ne: "sl_readerPath (ss_model ss ! m) \<noteq> sl_readerPath (ss_model ss ! i)" if "map_of (ss_slotIndex ss) j = Some m" for j m
      using that 2(2) None at(1) unfolding slotsInv_def by (metis option.distinct(1))
    have "ss_nextSlotId ss = of_nat (length ?r)" using 2(2) by (simp add: slotsInv_def)
    then show ?thesis
      using 2(2) at None n old ne
      unfolding slotsInv_def
      by (auto simp: e m map_le_def dom_def distinct_ins_by less_Suc_eq simp del: map_of_eq_Some_iff split: if_splits)
  qed
  have "slotsInv (assignSlots (Suc i) slots ?ss') \<and>
      map_of (ss_readerToSlot ?ss') \<subseteq>\<^sub>m map_of (ss_readerToSlot (assignSlots (Suc i) slots ?ss')) \<and>
      length (ss_readerToSlot (assignSlots (Suc i) slots ?ss')) \<le> length (ss_readerToSlot ?ss') + length slots"
    using step 2(3-5) by (intro 2(1)[where pre = "pre @ [s]"]) (auto split: option.splits)
  then show ?case using step map_le_trans[of "map_of ?r"] by auto
qed

lemma setModel_slots:
  assumes "slotsInv ss" "length (ss_readerToSlot ss) + length model < 2 ^ 64"
  shows "slotsInv (setModel model ss) \<and> map_of (ss_readerToSlot ss) \<subseteq>\<^sub>m map_of (ss_readerToSlot (setModel model ss)) \<and>
    length (ss_readerToSlot (setModel model ss)) \<le> length (ss_readerToSlot ss) + length model"
proof -
  let ?ss0 = "ss\<lparr>ss_model := model, ss_slotIndex := []\<rparr>"
  have "slotsInv ?ss0" using assms(1) by (simp add: slotsInv_def)
  from assignSlots_slotsInv[OF this, of "[]" model 0] assms(2)
  show ?thesis unfolding setModel_def Let_def by (simp add: slotsInv_def endChanged)
qed

lemma setModels_slots:
  "slotsInv ss \<Longrightarrow> length (ss_readerToSlot ss) + sum_list (map length models) < 2 ^ 64 \<Longrightarrow>
   slotsInv (fold setModel models ss) \<and>
   map_of (ss_readerToSlot ss) \<subseteq>\<^sub>m map_of (ss_readerToSlot (fold setModel models ss)) \<and>
   length (ss_readerToSlot (fold setModel models ss)) \<le> length (ss_readerToSlot ss) + sum_list (map length models)"
proof (induction models arbitrary: ss)
  case (Cons model models)
  have "slotsInv (setModel model ss)" "map_of (ss_readerToSlot ss) \<subseteq>\<^sub>m map_of (ss_readerToSlot (setModel model ss))"
    and le: "length (ss_readerToSlot (setModel model ss)) \<le> length (ss_readerToSlot ss) + length model"
    using setModel_slots[OF Cons.prems(1)] Cons.prems(2) by auto
  moreover from this have "length (ss_readerToSlot (setModel model ss)) + sum_list (map length models) < 2 ^ 64"
    using Cons.prems(2) by simp
  ultimately show ?case using Cons.IH[of "setModel model ss"] le map_le_trans by fastforce
qed simp

lemma slotById_reader:
  "slotsInv ss \<Longrightarrow> slotById i ss = Some s \<Longrightarrow> map_of (ss_readerToSlot ss) (sl_readerPath s) = Some i"
  by (auto simp: slotsInv_def slotById_alt)

section \<open>Handles\<close>

lemma index_word: "n < 2 ^ 32 - 1 \<Longrightarrow> unat (of_nat n + 1 :: u64) = Suc n"
proof -
  assume n: "n < 2 ^ 32 - 1"
  have "unat (of_nat (Suc n) :: u64) = Suc n" using n by (simp only: unat_of_nat) simp
  then show ?thesis by (simp add: add.commute)
qed

lemma mask32: "(w :: u64) AND kIndexMask = take_bit 32 w"
  by (simp add: kIndexMask_def take_bit_eq_mask mask_eq_exp_minus_1)

lemma slot_bits: "unat (slot :: u64) < 2 ^ 31 \<Longrightarrow> bit slot n \<Longrightarrow> n < 31"
proof -
  assume "unat slot < 2 ^ 31" "bit slot n"
  then have "take_bit 31 (unat slot) = unat slot" "bit (unat slot) n"
    by (simp_all add: take_bit_nat_eq_self bit_simps)
  then show "n < 31" by (metis bit_take_bit_iff)
qed

lemma handle_parts:
  assumes "unat slot < 2 ^ 31" "n < 2 ^ 32 - 1"
  shows "drop_bit 32 (encodeHandle slot n) = slot" "encodeHandle slot n AND kIndexMask = of_nat n + 1"
    "\<not> isDerivedHandle (encodeHandle slot n)"
proof -
  let ?w = "of_nat n + 1 :: u64"
  have w: "bit ?w m \<Longrightarrow> m < 32" for m
  proof -
    assume "bit ?w m"
    then have "bit (unat ?w) m" by (simp add: bit_simps)
    moreover have "take_bit 32 (unat ?w) = unat ?w"
      using assms(2) index_word[OF assms(2)] by (intro take_bit_nat_eq_self) simp
    ultimately show "m < 32" by (metis bit_take_bit_iff)
  qed
  have e: "encodeHandle slot n = push_bit 32 slot OR take_bit 32 ?w"
    by (simp add: encodeHandle_def mask32 kSlotShift_def)
  show "drop_bit 32 (encodeHandle slot n) = slot"
    unfolding e by (rule bit_word_eqI) (use slot_bits[OF assms(1)] in \<open>fastforce simp: bit_simps\<close>)
  show "encodeHandle slot n AND kIndexMask = ?w"
    unfolding e mask32 by (rule bit_word_eqI) (use w in \<open>auto simp: bit_simps\<close>)
  have "\<not> bit (encodeHandle slot n) 63"
    unfolding e using slot_bits[OF assms(1), of 31] w[of 63] by (auto simp: bit_simps)
  then show "\<not> isDerivedHandle (encodeHandle slot n)"
    by (simp add: isDerivedHandle_bit)
qed

lemma handle_decompose:
  assumes "drop_bit 32 h = slot" "h AND kIndexMask \<noteq> 0"
  shows "h = encodeHandle slot (unat ((h AND kIndexMask) - 1))"
proof -
  let ?w = "(h AND kIndexMask) - 1"
  have "(of_nat (unat ?w) + 1 :: u64) = h AND kIndexMask" by simp
  then have "encodeHandle slot (unat ?w) = push_bit 32 (drop_bit 32 h) OR take_bit 32 h"
    by (simp add: encodeHandle_def kSlotShift_def mask32 assms(1) and.assoc)
  also have "\<dots> = h" by (rule bit_word_eqI) (auto simp: bit_simps)
  finally show ?thesis by simp
qed

lemma resolve_encode:
  assumes "slotById slot ss = Some s" "unat slot < 2 ^ 31" "length (sl_objects s) < 2 ^ 32 - 1"
    "i < length (sl_objects s)"
  shows "resolveObject slot (encodeHandle slot i) ss = Some (sl_objects s ! i)"
proof -
  have i: "i < 2 ^ 32 - 1" using assms(3,4) by linarith
  have "unat (of_nat i + 1 - 1 :: u64) = i" using i by (simp add: unat_of_nat)
  moreover have "(of_nat i + 1 :: u64) \<noteq> 0" using index_word[OF i] by (metis nat.distinct(1) unat_0)
  ultimately show ?thesis
    using assms(1,4) handle_parts[OF assms(2) i] by (simp add: resolveObject_def kSlotShift_def Let_def)
qed

lemma resolve_handle:
  assumes "slotById slot ss = Some s" "resolveObject slot h ss = Some obj"
  shows "\<exists>i < length (sl_objects s). obj = sl_objects s ! i \<and> h = encodeHandle slot i"
proof -
  have h: "drop_bit 32 h = slot" "h AND kIndexMask \<noteq> 0"
    and i: "unat ((h AND kIndexMask) - 1) < length (sl_objects s)"
      "obj = sl_objects s ! unat ((h AND kIndexMask) - 1)"
    using assms by (auto simp: resolveObject_def kSlotShift_def Let_def split: if_splits)
  then show ?thesis using handle_decompose by blast
qed

section \<open>Properties\<close>

text \<open>C20. Searching a slot is exact: with fewer than two to the 31 slots and fewer objects than an index
  holds, the handles found that are not derived are those that resolve on the slot to an object
  matching the template, and the derived ones are those the session sees as a derived key matching
  it. No handle is of both kinds, and none is stale.\<close>

theorem find_matches_exact:
  assumes "stateInv ss" and "slotById slot ss = Some s" and "unat slot < 2 ^ 31"
    and "length (sl_objects s) < 2 ^ 32 - 1"
  shows "h \<in> set (findMatches sess slot tmpl ss) \<longleftrightarrow>
    (if isDerivedHandle h
     then (\<exists>k. derivedKey sess h ss = Some k \<and> derivedKeyMatches k tmpl)
     else (\<exists>obj. resolveObject slot h ss = Some obj \<and> list_all (objectMatchesAttr obj) tmpl))"
proof -
  have card: "(\<exists>i < length (sl_objects s). h = encodeHandle slot i \<and> list_all (objectMatchesAttr (sl_objects s ! i)) tmpl) \<longleftrightarrow>
      \<not> isDerivedHandle h \<and> (\<exists>obj. resolveObject slot h ss = Some obj \<and> list_all (objectMatchesAttr obj) tmpl)"
    using resolve_encode[OF assms(2-4)] resolve_handle[OF assms(2)] handle_parts(3)[OF assms(3)]
      less_trans[OF _ assms(4)] by blast
  have keys: "distinct (map fst (ss_derived ss))" "\<And>k. (h, k) \<in> set (ss_derived ss) \<Longrightarrow> isDerivedHandle h"
    using stateInvD(6)[OF assms(1)] by (auto simp: handlesInv_def)
  have der: "(\<exists>k. (h, k) \<in> set (ss_derived ss) \<and> derivedKey sess h ss \<noteq> None \<and> derivedKeyMatches k tmpl) \<longleftrightarrow>
      isDerivedHandle h \<and> (\<exists>k. derivedKey sess h ss = Some k \<and> derivedKeyMatches k tmpl)"
    using keys eq_key_imp_eq_value[OF keys(1), of h]
    by (auto simp: derivedKey_def split: option.splits if_splits)
  have "h \<in> set (findMatches sess slot tmpl ss) \<longleftrightarrow>
      (\<exists>i < length (sl_objects s). h = encodeHandle slot i \<and> list_all (objectMatchesAttr (sl_objects s ! i)) tmpl) \<or>
      (\<exists>k. (h, k) \<in> set (ss_derived ss) \<and> derivedKey sess h ss \<noteq> None \<and> derivedKeyMatches k tmpl)"
    by (auto simp: findMatches_def assms(2) image_iff)
  then show ?thesis unfolding card der by auto
qed

text \<open>A slot with a signing key, logged in, with one derived key.\<close>

definition sample_cert :: CertEntry where
  "sample_cert = \<lparr>ce_certId = ''c1'', ce_label = ''Holder'', ce_holderName = ''Holder'', ce_ckaId = [1],
     ce_signingCapable = True, ce_canSign = True, ce_canDecrypt = False, ce_signsHashOnCard = False,
     ce_alwaysAuthenticate = False, ce_canDerive = True, ce_keyType = KT_Ec, ce_keyBits = 256\<rparr>"

definition sample_reader :: AgentReader where
  "sample_reader = \<lparr>ar_readerPath = ''r0'', ar_readerName = ''Reader'', ar_hasCard = True, ar_tokenLabel = ''Holder'',
     ar_tokenSerial = ''7'', ar_certs = [sample_cert]\<rparr>"

definition sample_session :: SessionState where
  "sample_session = snd (addDerivedKey \<lparr>dk_slot = 0, dk_creator = 1, dk_attributes = defaultTemplate, dk_value = [9]\<rparr>
     (setLoggedIn 0 5 (snd (openSession 0 4 (setModel (build [sample_reader]) freshState)))))"

lemma sample_slot: "slotById 0 sample_session = Some (buildSlot sample_reader)"
  by (simp add: sample_session_def addDerivedKey_def setLoggedIn_def openSession_def setModel_def Let_def
      slotById_alt build_def freshState_def serialsBefore_def assign_by_def)

lemma sample_session_inv: "stateInv sample_session"
proof -
  let ?ss0 = "setModel (build [sample_reader]) freshState"
  obtain h ss1 where o: "openSession 0 4 ?ss0 = (h, ss1)" by fastforce
  have h: "h = 1" using openSession_simps(1)[OF o] by (simp add: setModel_facts freshState_def)
  have inv1: "stateInv ss1" by (rule stateInv_openSession[OF stateInv_setModel[OF stateInv_fresh] o])
  have "session 1 ?ss0 = None" by (simp add: session_def setModel_facts freshState_def)
  then obtain s where s: "session 1 ss1 = Some s" "se_slot s = 0" using openSession_simps(6)[OF o, of 1] h by simp
  then have inv2: "stateInv (setLoggedIn 0 5 ss1)"
    using stateInv_setLoggedIn[OF inv1] session_slotHasSessions[OF s(1)] by simp
  have "slotById 0 (setLoggedIn 0 5 ss1) \<noteq> None"
    using sample_slot o by (auto simp: sample_session_def addDerivedKey_def Let_def slotById_alt)
  moreover have "isLoggedIn 0 (setLoggedIn 0 5 ss1)" "session 1 (setLoggedIn 0 5 ss1) = Some s"
    using s by (simp_all add: setLoggedIn_def isLoggedIn_def session_def Let_def)
  ultimately show ?thesis
    unfolding sample_session_def o snd_conv
    using s(2) by (intro stateInv_addDerivedKey[OF inv2]) simp_all
qed

theorem find_matches_exact_witness:
  "encodeHandle 0 2 \<in> set (findMatches 1 0 [] sample_session) \<longleftrightarrow>
    (if isDerivedHandle (encodeHandle 0 2)
     then (\<exists>k. derivedKey 1 (encodeHandle 0 2) sample_session = Some k \<and> derivedKeyMatches k [])
     else (\<exists>obj. resolveObject 0 (encodeHandle 0 2) sample_session = Some obj \<and> list_all (objectMatchesAttr obj) []))"
  by (rule find_matches_exact[OF sample_session_inv sample_slot])
     (simp_all add: buildSlot_def sample_reader_def sample_cert_def certModelled_def certObjects_def Let_def
       nistCurveByBits_def kNistCurves_def)

text \<open>C22. A slot id keeps meaning the same reader: over any run of refreshes, in which readers come, go
  and come back in any order, if an id names a slot at two moments, both slots are of the same
  reader.\<close>

theorem slot_ids_stable:
  assumes "sum_list (map length (models @ later)) < 2 ^ 64"
    and "slotById i (fold setModel models freshState) = Some s"
    and "slotById i (fold setModel (models @ later) freshState) = Some s'"
  shows "sl_readerPath s' = sl_readerPath s"
proof -
  have inv0: "slotsInv freshState" by (simp add: slotsInv_def freshState_def)
  let ?ss = "fold setModel models freshState" and ?ss' = "fold setModel (models @ later) freshState"
  have a: "slotsInv ?ss" "length (ss_readerToSlot ?ss) \<le> sum_list (map length models)"
    using setModels_slots[OF inv0, of models] assms(1) by (simp_all add: freshState_def)
  have b: "slotsInv ?ss'" "map_of (ss_readerToSlot ?ss) \<subseteq>\<^sub>m map_of (ss_readerToSlot ?ss')"
    using setModels_slots[OF a(1), of later] a(2) assms(1) by simp_all
  have "map_of (ss_readerToSlot ?ss') (sl_readerPath s) = Some i"
    using slotById_reader[OF a(1) assms(2)] b(2) by (metis domI map_le_def)
  moreover have "map_of (ss_readerToSlot ?ss') (sl_readerPath s') = Some i" by (rule slotById_reader[OF b(1) assms(3)])
  ultimately show ?thesis using b(1) unfolding slotsInv_def by blast
qed

theorem slot_ids_stable_witness:
  "sl_readerPath (buildSlot sample_reader) = sl_readerPath (buildSlot sample_reader)"
proof (rule slot_ids_stable[where models = "[build [sample_reader]]" and later = "[[], build [sample_reader]]" and i = 0])
  show "sum_list (map length ([build [sample_reader]] @ [[], build [sample_reader]])) < (2 :: nat) ^ 64"
    by (simp add: build_def)
qed (simp_all add: setModel_def Let_def slotById_alt build_def freshState_def serialsBefore_def assign_by_def
    emplace_by_def tokenChanged_def endLogin_def destroyDerivedKeysOfSlot_def)

end
