(* ===== verification/CryptokiLaws.thy ===== *)
theory CryptokiLaws
  imports Cryptoki SessionLaws "HOL-Library.Multiset"
begin

text \<open>
  What one step of the module does (\<^verbatim>\<open>src/pkcs11/Module.cpp\<close>): every entry point, every answer of the
  agent and every locked region falls into one of a few shapes, told apart by what it does to the
  in-flight guards and to the sessions.
\<close>

section \<open>Guards\<close>

text \<open>The guard a thread holds: none, one without a session, or one on a session.\<close>

fun guardOf :: "Thread \<Rightarrow> CK_ULONG option option" where
  "guardOf (SnapshotRpc _ _) = Some None"
| "guardOf (SnapshotAnswered _ _ _) = Some None"
| "guardOf (SnapshotPublish _ _ _) = None"
| "guardOf (SessionInfoRpc _ _ _ _) = Some None"
| "guardOf (SessionInfoEnd _ _ _ _ held) = (if held then Some None else None)"
| "guardOf (LoginRpc h _) = Some (Some h)"
| "guardOf (SignRpc j) = Some (Some (sj_session j))"
| "guardOf (DecryptRpc j) = Some (Some (dj_session j))"
| "guardOf (DeriveRpc j) = Some (Some (vj_session j))"
| "guardOf (DeriveStore j _) = Some (Some (vj_session j))"
| "guardOf (Cleanup _ g _) = Some g"
| "guardOf FinalizeWait = None"

definition guardCount :: "Thread list \<Rightarrow> nat" where
  "guardCount ts = length (filter (\<lambda>t. guardOf t \<noteq> None) ts)"

definition guardsOn :: "Thread list \<Rightarrow> CK_ULONG \<Rightarrow> nat" where
  "guardsOn ts h = length (filter (\<lambda>t. guardOf t = Some (Some h)) ts)"

lemma length_filter_remove1:
  "t \<in> set ts \<Longrightarrow> length (filter P ts) = (if P t then 1 else 0) + length (filter P (remove1 t ts))"
  by (induction ts) auto

lemma guards_Cons [simp]:
  "guardCount (t # ts) = (if guardOf t \<noteq> None then 1 else 0) + guardCount ts"
  "guardsOn (t # ts) h = (if guardOf t = Some (Some h) then 1 else 0) + guardsOn ts h"
  by (simp_all add: guardCount_def guardsOn_def)

lemma guards_remove1:
  "t \<in> set ts \<Longrightarrow> guardCount ts = (if guardOf t \<noteq> None then 1 else 0) + guardCount (remove1 t ts)"
  "t \<in> set ts \<Longrightarrow> guardsOn ts h = (if guardOf t = Some (Some h) then 1 else 0) + guardsOn (remove1 t ts) h"
  unfolding guardCount_def guardsOn_def by (simp_all only: length_filter_remove1)

text \<open>The job of a derivation under way.\<close>

fun deriveJobOf :: "Thread \<Rightarrow> DeriveJob option" where
  "deriveJobOf (DeriveRpc j) = Some j"
| "deriveJobOf (DeriveStore j _) = Some j"
| "deriveJobOf _ = None"

section \<open>Changes to the session state\<close>

text \<open>
  Every region but the ones that open a session or handle a guard changes the session state
  tamely: no handle is new, no session changes its slot or its in-flight flag, and a derived key that
  stays has the same card under it.
\<close>

definition sameCard :: "Slot option \<Rightarrow> Slot option \<Rightarrow> bool" where
  "sameCard a b \<longleftrightarrow> a = b \<or> (\<exists>s s'. a = Some s \<and> b = Some s' \<and> sl_tokenPresent s \<and> sl_tokenPresent s' \<and>
     sl_tokenSerial s' = sl_tokenSerial s \<and> sl_tokenSerial s \<noteq> [])"

lemma sameCard_refl [simp]: "sameCard a a"
  by (simp add: sameCard_def)

definition keysKeepCard :: "SessionState \<Rightarrow> SessionState \<Rightarrow> bool" where
  "keysKeepCard ss ss' \<longleftrightarrow> (\<forall>h k. (h, k) \<in> set (ss_derived ss) \<longrightarrow> (h, k) \<in> set (ss_derived ss') \<longrightarrow>
     sameCard (slotById (dk_slot k) ss) (slotById (dk_slot k) ss'))"

lemma keysKeepCard_same: "(\<And>i. slotById i ss' = slotById i ss) \<Longrightarrow> keysKeepCard ss ss'"
  by (simp add: keysKeepCard_def)

definition tame :: "SessionState \<Rightarrow> SessionState \<Rightarrow> bool" where
  "tame ss ss' \<longleftrightarrow> stateInv ss' \<and> keysKeepCard ss ss' \<and> ss_nextSession ss' = ss_nextSession ss \<and>
     (\<forall>h s'. session h ss' = Some s' \<longrightarrow>
        (\<exists>s. session h ss = Some s \<and> se_slot s' = se_slot s \<and> se_rpcInFlight s' = se_rpcInFlight s))"

lemma tame_refl: "stateInv ss \<Longrightarrow> tame ss ss"
  by (simp add: tame_def keysKeepCard_same)

lemma tame_same:
  assumes "stateInv ss'" "keysKeepCard ss ss'" "ss_sessions ss' = ss_sessions ss" "ss_nextSession ss' = ss_nextSession ss"
  shows "tame ss ss'"
  using assms by (simp add: tame_def session_def)

lemma keysKeepCard_ops:
  "keysKeepCard ss (endLogin slot ss)"
  "keysKeepCard ss (markLoginChecked slot now ss)"
  "keysKeepCard ss (setLoggedIn slot now ss)"
  "keysKeepCard ss (snd (destroyDerivedKey h ss))"
  "keysKeepCard ss (snd (addDerivedKey k ss))"
  "keysKeepCard ss (snd (closeSession h ss))"
  "keysKeepCard ss (closeAllSessions slot ss)"
  "keysKeepCard ss (modSession h f ss)"
  by (rule keysKeepCard_same,
      simp add: slotById_alt markLoginChecked_def setLoggedIn_def destroyDerivedKey_def addDerivedKey_def closeSession_def
        closeAllSessions_def modSession_def destroyDerivedKeysOfSession_def Let_def split: option.splits)+

lemma keysKeepCard_setModel:
  assumes "stateInv ss"
  shows "keysKeepCard ss (setModel model ss)"
  unfolding keysKeepCard_def
proof (intro allI impI)
  fix h k
  assume hk: "(h, k) \<in> set (ss_derived ss)" "(h, k) \<in> set (ss_derived (setModel model ss))"
  obtain s where "slotById (dk_slot k) ss = Some s" using stateInvD(3)[OF assms hk(1)] by blast
  with survives_refresh[OF this] hk(2) show "sameCard (slotById (dk_slot k) ss) (slotById (dk_slot k) (setModel model ss))"
    unfolding setModel_facts(5) sameCard_def by blast
qed

lemma tame_ops:
  assumes inv: "stateInv ss"
  shows "tame ss (endLogin slot ss)"
    and "tame ss (setModel model ss)"
    and "tame ss (markLoginChecked slot now ss)"
    and "session h ss = Some s \<Longrightarrow> tame ss (setLoggedIn (se_slot s) now ss)"
    and "tame ss (snd (destroyDerivedKey h ss))"
    and "tame ss (snd (closeSession h ss))"
    and "tame ss (closeAllSessions slot ss)"
    and "(\<And>s. se_slot (f s) = se_slot s \<and> se_rpcInFlight (f s) = se_rpcInFlight s) \<Longrightarrow> tame ss (modSession h f ss)"
    and "isLoggedIn (dk_slot k) ss \<Longrightarrow> slotById (dk_slot k) ss \<noteq> None \<Longrightarrow> session (dk_creator k) ss = Some s' \<Longrightarrow>
      se_slot s' = dk_slot k \<Longrightarrow> tame ss (snd (addDerivedKey k ss))"
proof -
  show "tame ss (endLogin slot ss)" by (rule tame_same) (simp_all add: inv stateInv_endLogin keysKeepCard_ops)
  show "tame ss (setModel model ss)"
    by (rule tame_same) (simp_all add: inv stateInv_setModel setModel_facts keysKeepCard_setModel)
  show "tame ss (markLoginChecked slot now ss)"
    by (rule tame_same[OF stateInv_markLoginChecked[OF inv] keysKeepCard_ops(2)]) (simp_all add: markLoginChecked_def)
  show "session h ss = Some s \<Longrightarrow> tame ss (setLoggedIn (se_slot s) now ss)"
    by (rule tame_same[OF stateInv_setLoggedIn[OF inv session_slotHasSessions] keysKeepCard_ops(3)])
       (simp_all add: setLoggedIn_def Let_def)
  show "tame ss (snd (destroyDerivedKey h ss))"
    by (rule tame_same[OF stateInv_destroyDerivedKey[OF inv] keysKeepCard_ops(4)]) (simp_all add: destroyDerivedKey_def)
  show "isLoggedIn (dk_slot k) ss \<Longrightarrow> slotById (dk_slot k) ss \<noteq> None \<Longrightarrow> session (dk_creator k) ss = Some s' \<Longrightarrow>
      se_slot s' = dk_slot k \<Longrightarrow> tame ss (snd (addDerivedKey k ss))"
    by (rule tame_same[OF stateInv_addDerivedKey[OF inv] keysKeepCard_ops(5)]) (simp_all add: addDerivedKey_def Let_def)
  have d: "distinct (map fst (ss_sessions ss))" by (rule stateInvD(1)[OF inv])
  have "ss_nextSession (snd (closeSession h ss)) = ss_nextSession ss \<and>
      (\<exists>P. ss_sessions (snd (closeSession h ss)) = filter P (ss_sessions ss))"
    by (auto simp: closeSession_def Let_def destroyDerivedKeysOfSession_def intro: exI[of _ "\<lambda>_. True"] split: option.splits)
  then show "tame ss (snd (closeSession h ss))"
    using stateInv_closeSession[OF inv] d
    by (auto simp: tame_def session_def map_of_filter_keep keysKeepCard_ops split: option.splits if_splits)
  have "ss_nextSession (closeAllSessions slot ss) = ss_nextSession ss \<and>
      (\<exists>P. ss_sessions (closeAllSessions slot ss) = filter P (ss_sessions ss))"
    by (auto simp: closeAllSessions_def Let_def)
  then show "tame ss (closeAllSessions slot ss)"
    using stateInv_closeAllSessions[OF inv] d
    by (auto simp: tame_def session_def map_of_filter_keep keysKeepCard_ops split: option.splits if_splits)
  show "tame ss (modSession h f ss)" if "\<And>s. se_slot (f s) = se_slot s \<and> se_rpcInFlight (f s) = se_rpcInFlight s"
    using stateInv_modSession[OF inv, of f h] that by (auto simp: tame_def keysKeepCard_ops split: if_splits)
qed

section \<open>What an entry point does\<close>

text \<open>It changes the session state tamely or starts the library; or it leaves a thread without a session
  guard; or it arms the guard of an idle session.\<close>

definition tameLib :: "ModuleState \<Rightarrow> ModuleState \<Rightarrow> bool" where
  "tameLib st st' \<longleftrightarrow> (\<exists>l l'. mo_lib st = Some l \<and> mo_lib st' = Some l' \<and>
     (stateInv (li_state l) \<longrightarrow> tame (li_state l) (li_state l')))"

definition quiet :: "ModuleState \<Rightarrow> ModuleState \<Rightarrow> bool" where
  "quiet st st' \<longleftrightarrow> mo_threads st' = mo_threads st \<and> mo_rpcInFlight st' = mo_rpcInFlight st \<and>
     (st' = st \<or> tameLib st st' \<or> mo_lib st = None \<and> map_option li_state (mo_lib st') = Some freshState)"

definition spawns :: "Thread \<Rightarrow> ModuleState \<Rightarrow> ModuleState \<Rightarrow> bool" where
  "spawns t st st' \<longleftrightarrow> mo_threads st' = t # mo_threads st \<and> tameLib st st' \<and> deriveJobOf t = None \<and>
     (guardOf t = None \<and> mo_rpcInFlight st' = mo_rpcInFlight st \<or>
      guardOf t = Some None \<and> mo_rpcInFlight st' = mo_rpcInFlight st + 1)"

definition arms :: "CK_ULONG \<Rightarrow> Thread \<Rightarrow> ModuleState \<Rightarrow> ModuleState \<Rightarrow> bool" where
  "arms h t st st' \<longleftrightarrow> st' = spawn t (armGuard (Some h) st) \<and> guardOf t = Some (Some h) \<and>
     (\<exists>l s. mo_lib st = Some l \<and> session h (li_state l) = Some s \<and> \<not> se_rpcInFlight s \<and>
        (\<forall>j. deriveJobOf t = Some j \<longrightarrow> vj_session j = h \<and> vj_slot j = se_slot s))"

definition enterOk :: "ModuleState \<Rightarrow> ModuleState \<Rightarrow> bool" where
  "enterOk st st' \<longleftrightarrow> quiet st st' \<or> (\<exists>t. spawns t st st') \<or> (\<exists>h t. arms h t st st')"

lemma enterOk_refl [simp]: "enterOk st st"
  by (simp add: enterOk_def quiet_def)

lemma enterOk_put:
  assumes "mo_lib st = Some lib" "stateInv (li_state lib) \<Longrightarrow> tame (li_state lib) ss"
    "li_state lib' = li_state lib \<or> True"
  shows "enterOk st (putState lib' ss st)"
  using assms by (auto simp: enterOk_def quiet_def tameLib_def putState_def)

lemma tellLogout_facts [simp]:
  "mo_lib (tellLogout slot ss st) = mo_lib st" "mo_threads (tellLogout slot ss st) = mo_threads st"
  "mo_rpcInFlight (tellLogout slot ss st) = mo_rpcInFlight st"
  by (simp_all add: tellLogout_def split: option.splits)

lemma enterOk_told:
  assumes "mo_lib st = Some lib" "stateInv (li_state lib) \<Longrightarrow> tame (li_state lib) ss"
  shows "enterOk st (tellLogout slot ss' (putState lib ss st))" "enterOk st (putState lib ss (tellLogout slot ss' st))"
  using assms by (auto simp: enterOk_def quiet_def tameLib_def putState_def)

lemma enterOk_spawn:
  assumes "tameLib st st1" "mo_threads st1 = mo_threads st" "deriveJobOf t = None"
    "guardOf t = None \<and> mo_rpcInFlight st1 = mo_rpcInFlight st \<or> guardOf t = Some None \<and> mo_rpcInFlight st1 = mo_rpcInFlight st + 1"
  shows "enterOk st (spawn t st1)"
proof -
  have "spawns t st (spawn t st1)" using assms by (simp add: spawns_def spawn_def tameLib_def)
  then show ?thesis by (auto simp: enterOk_def)
qed

lemma enterOk_arm:
  assumes "mo_lib st = Some lib" "session h (li_state lib) = Some s" "\<not> se_rpcInFlight s" "guardOf t = Some (Some h)"
    "\<And>j. deriveJobOf t = Some j \<Longrightarrow> vj_session j = h \<and> vj_slot j = se_slot s"
  shows "enterOk st (spawn t (armGuard (Some h) st))"
proof -
  have "arms h t st (spawn t (armGuard (Some h) st))" using assms by (auto simp: arms_def)
  then show ?thesis by (auto simp: enterOk_def)
qed

lemma tameLib_refl: "mo_lib st = Some lib \<Longrightarrow> tameLib st st"
  by (auto simp: tameLib_def tame_refl)

lemma withLib_ok:
  "withLib f st = (rv, st') \<Longrightarrow> (\<And>lib. mo_lib st = Some lib \<Longrightarrow> f lib = (rv, st') \<Longrightarrow> enterOk st st') \<Longrightarrow> enterOk st st'"
  by (auto simp: withLib_def split: option.splits)

lemma withSession_ok:
  "withSession h f st = (rv, st') \<Longrightarrow>
   (\<And>lib s. mo_lib st = Some lib \<Longrightarrow> session h (li_state lib) = Some s \<Longrightarrow> f lib s = (rv, st') \<Longrightarrow> enterOk st st') \<Longrightarrow>
   enterOk st st'"
  by (auto simp: withSession_def withLib_def split: option.splits)

lemma refreshModel_ok:
  assumes "refreshModel cont st = (rv, st')" "mo_lib st = Some lib"
  shows "enterOk st st'"
proof -
  have "st' = spawn (SnapshotRpc (mo_started st + 1) cont) (armGuard None (st\<lparr>mo_started := mo_started st + 1\<rparr>))"
    using assms(1) by (simp add: refreshModel_def Let_def)
  then show ?thesis
    using assms(2) by (auto intro!: enterOk_spawn simp: armGuard_def tameLib_def tame_refl)
qed

lemma refresh_calls_ok:
  "C_GetSlotList p n c st = (rv, st') \<Longrightarrow> enterOk st st'"
  "withInfo b cont st = (rv, st') \<Longrightarrow> enterOk st st'"
  "C_GetMechanismList i n c st = (rv, st') \<Longrightarrow> enterOk st st'"
  "C_OpenSession i flags n st = (rv, st') \<Longrightarrow> enterOk st st'"
  unfolding C_GetSlotList_def withInfo_def C_GetMechanismList_def C_OpenSession_def
  by (auto elim!: withLib_ok simp: refreshModel_ok split: option.splits if_splits)

lemma state_calls_ok:
  "C_Initialize a st = (rv, st') \<Longrightarrow> enterOk st st'"
  "C_Finalize r st = (rv, st') \<Longrightarrow> enterOk st st'"
  "C_CloseSession h st = (rv, st') \<Longrightarrow> enterOk st st'"
  "C_CloseAllSessions i st = (rv, st') \<Longrightarrow> enterOk st st'"
  "C_Logout h st = (rv, st') \<Longrightarrow> enterOk st st'"
  "C_DestroyObject h k st = (rv, st') \<Longrightarrow> enterOk st st'"
proof -
  show "C_Initialize a st = (rv, st') \<Longrightarrow> enterOk st st'"
    by (auto simp: C_Initialize_def Let_def enterOk_def quiet_def split: if_splits option.splits)
  show "C_Finalize r st = (rv, st') \<Longrightarrow> enterOk st st'"
    unfolding C_Finalize_def
    by (erule withLib_ok) (auto intro!: enterOk_spawn tameLib_refl split: if_splits)
  show "C_CloseSession h st = (rv, st') \<Longrightarrow> enterOk st st'"
    unfolding C_CloseSession_def Let_def
    by (erule withSession_ok) (auto intro!: enterOk_put enterOk_told tame_ops split: if_splits)
  show "C_CloseAllSessions i st = (rv, st') \<Longrightarrow> enterOk st st'"
    unfolding C_CloseAllSessions_def Let_def by (erule withLib_ok) (auto intro!: enterOk_told tame_ops)
  show "C_Logout h st = (rv, st') \<Longrightarrow> enterOk st st'"
    unfolding C_Logout_def by (erule withSession_ok) (auto intro!: enterOk_told tame_ops)
  show "C_DestroyObject h k st = (rv, st') \<Longrightarrow> enterOk st st'"
    unfolding C_DestroyObject_def
    by (erule withSession_ok) (auto intro!: enterOk_put tame_ops split: if_splits option.splits)
qed

lemma cursor_calls_ok:
  "C_FindObjectsInit ag h tmpl st = (rv, st') \<Longrightarrow> enterOk st st'"
  "C_FindObjectsFinal h st = (rv, st') \<Longrightarrow> enterOk st st'"
  "C_DecryptUpdate h part st = (rv, st') \<Longrightarrow> enterOk st st'"
  "C_SignUpdate h p st = (rv, st') \<Longrightarrow> enterOk st st'"
  "C_DecryptInit h m k st = (rv, st') \<Longrightarrow> enterOk st st'"
  "C_SignInit h m k st = (rv, st') \<Longrightarrow> enterOk st st'"
proof -
  show "C_FindObjectsInit ag h tmpl st = (rv, st') \<Longrightarrow> enterOk st st'"
    unfolding C_FindObjectsInit_def Let_def
    by (erule withSession_ok) (auto intro!: enterOk_put tame_ops(8) split: if_splits prod.splits)
  show "C_FindObjectsFinal h st = (rv, st') \<Longrightarrow> enterOk st st'"
    unfolding C_FindObjectsFinal_def by (erule withSession_ok) (auto intro!: enterOk_put tame_ops(8) split: if_splits)
  show "C_DecryptUpdate h part st = (rv, st') \<Longrightarrow> enterOk st st'"
    unfolding C_DecryptUpdate_def by (erule withSession_ok) (auto intro!: enterOk_put tame_ops(8) split: if_splits)
  show "C_SignUpdate h p st = (rv, st') \<Longrightarrow> enterOk st st'"
    unfolding C_SignUpdate_def by (erule withSession_ok) (auto intro!: enterOk_put tame_ops(8) split: if_splits)
  show "C_DecryptInit h m k st = (rv, st') \<Longrightarrow> enterOk st st'"
    unfolding C_DecryptInit_def
    by (erule withLib_ok, split option.splits)
       (auto elim!: withSession_ok intro!: enterOk_put tame_ops(8) split: if_splits option.splits)
  show "C_SignInit h m k st = (rv, st') \<Longrightarrow> enterOk st st'"
    unfolding C_SignInit_def
    by (erule withLib_ok, split option.splits)
       (auto elim!: withSession_ok intro!: enterOk_put tame_ops(8) split: if_splits option.splits)
qed

lemma read_calls_ok:
  "C_GetAttributeValue ag h k tmpl st = (r, st') \<Longrightarrow> enterOk st st'"
  "C_FindObjects h n m c st = (q, st') \<Longrightarrow> enterOk st st'"
proof -
  have "tameLib st (st\<lparr>mo_lib := Some (lib\<lparr>li_certDers := cache\<rparr>)\<rparr>)" if "mo_lib st = Some lib" for lib cache
    using that by (auto simp: tameLib_def tame_refl)
  then show "C_GetAttributeValue ag h k tmpl st = (r, st') \<Longrightarrow> enterOk st st'"
    by (auto simp: C_GetAttributeValue_def enterOk_def quiet_def split: option.splits if_splits prod.splits)
  show "C_FindObjects h n m c st = (q, st') \<Longrightarrow> enterOk st st'"
    by (auto simp: C_FindObjects_def Let_def intro!: enterOk_put tame_ops(8) split: option.splits if_splits)
qed

lemma armed_calls_ok:
  "doDecrypt h d u n r st = (rv, st') \<Longrightarrow> enterOk st st'"
  "doSign h d u n r st = (rv, st') \<Longrightarrow> enterOk st st'"
  "C_Login h ut st = (rv, st') \<Longrightarrow> enterOk st st'"
proof -
  show "doDecrypt h d u n r st = (rv, st') \<Longrightarrow> enterOk st st'"
    unfolding doDecrypt_def Let_def
    by (cases r; simp; erule withSession_ok) (auto intro!: enterOk_arm split: if_splits option.splits)
  show "doSign h d u n r st = (rv, st') \<Longrightarrow> enterOk st st'"
    unfolding doSign_def Let_def
    by (cases r; simp; erule withSession_ok) (auto intro!: enterOk_arm split: if_splits option.splits)
  show "C_Login h ut st = (rv, st') \<Longrightarrow> enterOk st st'"
    unfolding C_Login_def
    by (erule withLib_ok) (auto intro!: enterOk_arm split: if_splits option.splits)
qed

lemma deriveJob_fields:
  "deriveJob h s m k tmpl c ss = Inr j \<Longrightarrow> vj_session j = h \<and> vj_slot j = se_slot s"
  by (auto simp: deriveJob_def sum_bind_def split: option.splits if_splits sum.splits)

lemma deriveKey_ok: "C_DeriveKey h m k tmpl c n st = (rv, st') \<Longrightarrow> enterOk st st'"
proof -
  have arm: "enterOk st (spawn (DeriveRpc j) (armGuard (Some h) st))"
    if "mo_lib st = Some lib" "session h (li_state lib) = Some s" "\<not> se_rpcInFlight s"
      "deriveJob h s m' k tmpl c (li_state lib) = Inr j" for lib s m' j
    using that deriveJob_fields[OF that(4)] by (intro enterOk_arm[of st lib h s]) auto
  show "C_DeriveKey h m k tmpl c n st = (rv, st') \<Longrightarrow> enterOk st st'"
    unfolding C_DeriveKey_def
    by (erule withLib_ok, cases m; simp; cases n; simp)
       (auto elim!: withSession_ok intro: arm split: if_splits sum.splits)
qed

lemma sessionInfo_ok: "C_GetSessionInfo h n now st = (rv, st') \<Longrightarrow> enterOk st st'"
  unfolding C_GetSessionInfo_def Let_def
  by (erule withLib_ok)
     (auto intro!: enterOk_spawn tameLib_refl
       simp: armGuard_def putState_def tameLib_def tame_ops(3) split: if_splits option.splits)

lemma enter_ok: "enter c now st = (rv, st') \<Longrightarrow> enterOk st st'"
  by (cases c)
     (auto simp: C_GetSlotInfo_def C_GetTokenInfo_def C_GetMechanismInfo_def C_Sign_def C_SignFinal_def C_Decrypt_def
       C_DecryptFinal_def split: prod.splits
       intro: refresh_calls_ok state_calls_ok cursor_calls_ok read_calls_ok armed_calls_ok deriveKey_ok sessionInfo_ok)

section \<open>What an answer and a region do\<close>

lemma rpcAnswered_facts:
  assumes "rpcAnswered t a = Some t'"
  shows "guardOf t' = guardOf t" "deriveJobOf t' = deriveJobOf t \<or> deriveJobOf t' = None" "guardOf t \<noteq> None"
  using assms
  by (cases t; cases a; auto simp: loginAnswered_def deriveAnswered_def split: prod.splits sum.splits if_splits)+

text \<open>A region keeps the thread's guard and changes the state tamely, or drops the guard, or opens a
  session after a refresh, or ends the library once drained.\<close>

definition opens :: "ModuleState \<Rightarrow> ModuleState \<Rightarrow> bool" where
  "opens st st' \<longleftrightarrow> mo_rpcInFlight st' = mo_rpcInFlight st \<and>
     (\<exists>l l' ss slot flags. mo_lib st = Some l \<and> mo_lib st' = Some l' \<and>
       (stateInv (li_state l) \<longrightarrow> tame (li_state l) ss) \<and> li_state l' = snd (openSession slot flags ss))"

definition keeps :: "ModuleState \<Rightarrow> ModuleState \<Rightarrow> bool" where
  "keeps st st' \<longleftrightarrow> mo_rpcInFlight st' = mo_rpcInFlight st \<and> (st' = st \<or> tameLib st st')"

definition guardOpt :: "Thread option \<Rightarrow> CK_ULONG option option" where
  "guardOpt t = Option.bind t guardOf"

definition deriveOpt :: "Thread option \<Rightarrow> DeriveJob option" where
  "deriveOpt t = Option.bind t deriveJobOf"

definition regionOk :: "Thread \<Rightarrow> Thread option \<Rightarrow> ModuleState \<Rightarrow> ModuleState \<Rightarrow> bool" where
  "regionOk t t' st st' \<longleftrightarrow> mo_threads st' = mo_threads st \<and> deriveOpt t' = None \<and>
     (guardOpt t' = guardOf t \<and> (keeps st st' \<or> opens st st') \<or>
      guardOpt t' = None \<and> (\<exists>g. guardOf t = Some g \<and> st' = dropGuard g st) \<or>
      guardOpt t' = None \<and> guardOf t = None \<and> mo_rpcInFlight st = 0 \<and> st' = st\<lparr>mo_lib := None\<rparr>)"

lemma keeps_refl [simp]: "keeps st st"
  by (simp add: keeps_def)

lemma keeps_put:
  "mo_lib st = Some lib \<Longrightarrow> (stateInv (li_state lib) \<Longrightarrow> tame (li_state lib) ss) \<Longrightarrow> keeps st (putState lib ss st)"
  by (auto simp: keeps_def tameLib_def putState_def)

lemma runAct_keeps: "keeps st (runAct act now st)"
  by (auto simp: runAct_def Let_def intro!: keeps_put tame_ops(1,8) tame_ops(4)
      split: option.splits LockedAct.splits)

lemma sessionInfoEnd_keeps: "sessionInfoEnd h slot gen active st = (r, st') \<Longrightarrow> keeps st st'"
  by (auto simp: sessionInfoEnd_def Let_def intro!: keeps_put tame_ops(1) tame_refl split: option.splits if_splits)

definition jobFits :: "DeriveJob \<Rightarrow> ModuleState \<Rightarrow> bool" where
  "jobFits j st \<longleftrightarrow> (\<forall>l s. mo_lib st = Some l \<longrightarrow> session (vj_session j) (li_state l) = Some s \<longrightarrow> se_slot s = vj_slot j)"

lemma deriveStore_keeps:
  assumes "deriveStore j val st = (rv, st')" "jobFits j st"
  shows "keeps st st'"
  using assms
  by (auto simp: deriveStore_def jobFits_def intro!: keeps_put tame_ops(9) split: option.splits if_splits)

lemma finalizeWake_cases:
  "snd (finalizeWake st) = st \<or> mo_rpcInFlight st = 0 \<and> snd (finalizeWake st) = st\<lparr>mo_lib := None\<rparr>"
  by (simp add: finalizeWake_def)

lemma refreshed_cases:
  "snd (refreshed cont ss) = ss \<or> (\<exists>slot flags. snd (refreshed cont ss) = snd (openSession slot flags ss))"
  by (auto simp: refreshed_def split: RefreshCont.splits option.splits)

lemma publish_ok:
  assumes lib: "mo_lib st = Some lib"
    and st1: "st1 = publishSnapshot ticket snap lib st" "mo_lib st1 = Some lib1"
    and st': "st' = putState lib1 (snd (refreshed cont (li_state lib1))) st1"
  shows "mo_threads st' = mo_threads st \<and> (keeps st st' \<or> opens st st')"
proof -
  have t: "stateInv (li_state lib) \<Longrightarrow> tame (li_state lib) (li_state lib1)"
    using lib st1 by (auto simp: publishSnapshot_def putState_def tame_refl tame_ops(2) split: if_splits)
  have c: "mo_threads st' = mo_threads st" "mo_rpcInFlight st' = mo_rpcInFlight st"
    by (simp_all add: st' st1(1) publishSnapshot_def putState_def)
  have l': "mo_lib st' = Some (lib1\<lparr>li_state := snd (refreshed cont (li_state lib1))\<rparr>)" by (simp add: st' putState_def)
  consider "snd (refreshed cont (li_state lib1)) = li_state lib1"
    | slot flags where "snd (refreshed cont (li_state lib1)) = snd (openSession slot flags (li_state lib1))"
    using refreshed_cases by metis
  then show ?thesis
  proof cases
    case 1 then show ?thesis using c t lib l' by (simp add: keeps_def tameLib_def)
  next
    case 2 then show ?thesis using c t lib l' by (auto simp: opens_def)
  qed
qed

lemma threads_kept [simp]:
  "mo_threads (runAct act now st) = mo_threads st"
  "mo_threads (dropGuard g st) = mo_threads st"
  "mo_threads (armGuard g st) = mo_threads st"
  "mo_threads (snd (finalizeWake st)) = mo_threads st"
  "sessionInfoEnd h slot gen active st = (r, st') \<Longrightarrow> mo_threads st' = mo_threads st"
  "deriveStore j val st = (rv, st') \<Longrightarrow> mo_threads st' = mo_threads st"
  by (auto simp: runAct_def dropGuard_def armGuard_def overState_def finalizeWake_def sessionInfoEnd_def deriveStore_def
      putState_def Let_def split: option.splits LockedAct.splits if_splits)

lemma threadStep_ok:
  assumes "threadStep t now st = Some (t', st')" "\<And>j. deriveJobOf t = Some j \<Longrightarrow> jobFits j st"
  shows "regionOk t t' st st'"
proof (cases t)
  case (SnapshotPublish ticket snap cont)
  show ?thesis
  proof (cases "mo_lib st")
    case None
    then show ?thesis using assms SnapshotPublish by (simp add: regionOk_def guardOpt_def deriveOpt_def)
  next
    case (Some lib)
    have "mo_lib (publishSnapshot ticket snap lib st) \<noteq> None"
      using Some by (simp add: publishSnapshot_def putState_def)
    then obtain lib1 where l1: "mo_lib (publishSnapshot ticket snap lib st) = Some lib1" by blast
    then have "st' = putState lib1 (snd (refreshed cont (li_state lib1))) (publishSnapshot ticket snap lib st)" "t' = None"
      using assms Some SnapshotPublish by (simp_all add: Let_def)
    then show ?thesis
      using publish_ok[OF Some refl l1, of st' cont] SnapshotPublish
      by (simp add: regionOk_def guardOpt_def deriveOpt_def)
  qed
next
  case (Cleanup acts g rv)
  then show ?thesis using assms
    by (cases acts) (auto simp: regionOk_def guardOpt_def deriveOpt_def runAct_keeps)
next
  case FinalizeWait
  then show ?thesis using assms finalizeWake_cases[of st]
    by (auto simp: regionOk_def guardOpt_def deriveOpt_def)
qed (use assms in \<open>auto simp: regionOk_def guardOpt_def deriveOpt_def sessionInfoEnd_keeps deriveStore_keeps
       split: prod.splits\<close>)

end
