(* ===== verification/CryptokiRuns.thy ===== *)
theory CryptokiRuns
  imports CryptokiLaws
begin

text \<open>
  What holds of the module in every interleaving of the threads inside it: the library is never
  freed under a call that is out with the agent, a session never has two such calls, and derived
  keys never outlive their session, their login or their card.
\<close>

section \<open>The invariant\<close>

text \<open>The counter is the number of guards, and there are none without a library.\<close>

definition countInv :: "ModuleState \<Rightarrow> bool" where
  "countInv st \<longleftrightarrow> mo_rpcInFlight st = int (guardCount (mo_threads st)) \<and>
     (mo_lib st = None \<longrightarrow> guardCount (mo_threads st) = 0)"

text \<open>The session state after at most \<open>n\<close> steps, against the threads in the module.\<close>

definition sessInv :: "nat \<Rightarrow> SessionState \<Rightarrow> Thread list \<Rightarrow> bool" where
  "sessInv n ss ts \<longleftrightarrow> stateInv ss \<and> unat (ss_nextSession ss) \<le> Suc n \<and>
     (\<forall>h s. session h ss = Some s \<longrightarrow>
        h < ss_nextSession ss \<and> se_rpcInFlight s = (guardsOn ts h = 1)) \<and>
     (\<forall>h. guardsOn ts h \<le> 1 \<and> (guardsOn ts h = 1 \<longrightarrow> h < ss_nextSession ss)) \<and>
     (\<forall>t\<in>set ts. \<forall>j s. deriveJobOf t = Some j \<longrightarrow> session (vj_session j) ss = Some s \<longrightarrow> se_slot s = vj_slot j)"

lemma sessInvI:
  assumes "stateInv ss" "unat (ss_nextSession ss) \<le> Suc n"
    and "\<And>h s. session h ss = Some s \<Longrightarrow> h < ss_nextSession ss"
    and "\<And>h s. session h ss = Some s \<Longrightarrow> se_rpcInFlight s = (guardsOn ts h = 1)"
    and "\<And>h. guardsOn ts h \<le> 1"
    and "\<And>h. guardsOn ts h = 1 \<Longrightarrow> h < ss_nextSession ss"
    and "\<And>t j s. t \<in> set ts \<Longrightarrow> deriveJobOf t = Some j \<Longrightarrow> session (vj_session j) ss = Some s \<Longrightarrow> se_slot s = vj_slot j"
  shows "sessInv n ss ts"
  using assms unfolding sessInv_def by blast

lemma sessInvD:
  assumes "sessInv n ss ts"
  shows "stateInv ss" "unat (ss_nextSession ss) \<le> Suc n"
    and "session h ss = Some s \<Longrightarrow> h < ss_nextSession ss"
    and "session h ss = Some s \<Longrightarrow> se_rpcInFlight s = (guardsOn ts h = 1)"
    and "guardsOn ts h \<le> 1"
    and "guardsOn ts h = 1 \<Longrightarrow> h < ss_nextSession ss"
    and "t \<in> set ts \<Longrightarrow> deriveJobOf t = Some j \<Longrightarrow> session (vj_session j) ss = Some s \<Longrightarrow> se_slot s = vj_slot j"
  using assms unfolding sessInv_def by blast+

lemma sessInv_more: "sessInv n ss ts \<Longrightarrow> n \<le> m \<Longrightarrow> sessInv m ss ts"
  by (auto simp: sessInv_def)

lemma sessInv_unguarded: "sessInv n ss ts \<Longrightarrow> session h ss = Some s \<Longrightarrow> \<not> se_rpcInFlight s \<Longrightarrow> guardsOn ts h = 0"
  using sessInvD(4,5)[of n ss ts h] by fastforce

lemma sessInv_tame:
  assumes inv: "sessInv n ss ts" and "stateInv ss \<Longrightarrow> tame ss ss'"
  shows "sessInv n ss' ts"
proof -
  note d = sessInvD[OF inv]
  have t: "tame ss ss'" using assms(2) d(1) .
  then have keep: "stateInv ss'" "ss_nextSession ss' = ss_nextSession ss"
    and s: "session h ss' = Some s' \<Longrightarrow>
      \<exists>s. session h ss = Some s \<and> se_slot s' = se_slot s \<and> se_rpcInFlight s' = se_rpcInFlight s" for h s'
    by (simp_all add: tame_def)
  show ?thesis
    by (rule sessInvI) (use d(2,3) keep d(5) in \<open>auto dest!: s intro: d(6,7) simp: d(4)\<close>)
qed

lemma sessInv_threads:
  assumes "sessInv n ss ts" "\<And>h. guardsOn ts' h = guardsOn ts h"
    "\<And>t j. t \<in> set ts' \<Longrightarrow> deriveJobOf t = Some j \<Longrightarrow> \<exists>u\<in>set ts. deriveJobOf u = Some j"
  shows "sessInv n ss ts'"
  using assms(1) assms(3) unfolding sessInv_def assms(2) by blast

lemma sessInv_arm:
  assumes inv: "sessInv n ss ts" and s: "session h ss = Some s" "\<not> se_rpcInFlight s"
    and t: "guardOf t = Some (Some h)"
    and j: "\<And>j. deriveJobOf t = Some j \<Longrightarrow> vj_session j = h \<and> vj_slot j = se_slot s"
  shows "sessInv n (modSession h (\<lambda>s. s\<lparr>se_rpcInFlight := True\<rparr>) ss) (t # ts)"
proof -
  note d = sessInvD[OF inv]
  have g: "guardsOn (t # ts) i = (if i = h then 1 else guardsOn ts i)" for i
    using sessInv_unguarded[OF inv s] t by simp
  show ?thesis
  proof (rule sessInvI, goal_cases)
    case 1 show ?case using d(1) by (simp add: stateInv_modSession)
  next
    case 2 show ?case using d(2) by simp
  next
    case (3 i s') then show ?case using d(3)[of i] by (auto split: if_splits)
  next
    case (4 i s') then show ?case unfolding g using d(4)[of i] by (auto split: if_splits)
  next
    case (5 i) then show ?case unfolding g using d(5) by simp
  next
    case (6 i) then show ?case unfolding g modSession_simps by (cases "i = h") (simp_all only: d(6) d(3)[OF s(1)] if_False)
  next
    case (7 u j' s') then show ?case using j[of j'] s d(7)[of u j'] by (auto split: if_splits)
  qed
qed

lemma sessInv_drop:
  assumes inv: "sessInv n ss ts" and t: "t \<in> set ts" "guardOf t = Some (Some h)"
  shows "sessInv n (modSession h (\<lambda>s. s\<lparr>se_rpcInFlight := False\<rparr>) ss) (remove1 t ts)"
proof -
  note d = sessInvD[OF inv]
  have g: "guardsOn (remove1 t ts) i = (if i = h then 0 else guardsOn ts i)" for i
    using guards_remove1(2)[OF t(1), of i] t(2) d(5)[of h] by (auto split: if_splits)
  show ?thesis
  proof (rule sessInvI, goal_cases)
    case 1 show ?case using d(1) by (simp add: stateInv_modSession)
  next
    case 2 show ?case using d(2) by simp
  next
    case (3 i s') then show ?case using d(3)[of i] by (auto split: if_splits)
  next
    case (4 i s') then show ?case unfolding g using d(4)[of i] by (auto split: if_splits)
  next
    case (5 i) then show ?case unfolding g using d(5) by simp
  next
    case (6 i) then show ?case unfolding g modSession_simps by (cases "i = h") (simp_all add: d(6))
  next
    case (7 u j' s') then show ?case using d(7)[of u j'] set_remove1_subset[of t ts] by (auto split: if_splits)
  qed
qed

lemma sessInv_open:
  assumes inv: "sessInv n ss ts" and n: "n + 2 < 2 ^ 64" and o: "openSession slot flags ss = (h, ss')"
  shows "sessInv (Suc n) ss' ts"
proof -
  note os = openSession_simps[OF o]
  note d = sessInvD[OF inv]
  have next': "unat (ss_nextSession ss + 1) = Suc (unat (ss_nextSession ss))"
    using unat_add_lem[of "ss_nextSession ss" 1] d(2) n by simp
  have up: "i < ss_nextSession ss + 1 \<longleftrightarrow> i < ss_nextSession ss \<or> i = ss_nextSession ss" for i
    by (auto simp: word_less_nat_alt word_unat_eq_iff next' less_Suc_eq)
  have fresh: "session (ss_nextSession ss) ss = None"
    using d(3)[of "ss_nextSession ss"] by (cases "session (ss_nextSession ss) ss") auto
  have none: "guardsOn ts (ss_nextSession ss) \<noteq> 1" using d(6)[of "ss_nextSession ss"] by auto
  show ?thesis
  proof (rule sessInvI, goal_cases)
    case 1 show ?case by (rule stateInv_openSession[OF d(1) o])
  next
    case 2 show ?case using d(2) by (simp add: os next')
  next
    case (3 i s') then show ?case using d(3)[of i] by (auto simp: os up split: option.splits if_splits)
  next
    case (4 i s') then show ?case using d(4)[of i] none fresh by (auto simp: os split: option.splits if_splits)
  next
    case (5 i) then show ?case by (rule d(5))
  next
    case (6 i) then show ?case using d(6)[of i] by (simp add: os up)
  next
    case (7 t j s')
    have "guardOf t = Some (Some (vj_session j))" using 7(2) by (cases t) auto
    then have "guardsOn ts (vj_session j) = 1"
      using guards_remove1(2)[OF 7(1), of "vj_session j"] d(5)[of "vj_session j"] by simp
    then show ?case using 7 d(7)[of t j] none by (auto simp: os split: option.splits if_splits)
  qed
qed

definition modInv :: "nat \<Rightarrow> ModuleState \<Rightarrow> bool" where
  "modInv n st \<longleftrightarrow> (\<forall>l. mo_lib st = Some l \<longrightarrow> sessInv n (li_state l) (mo_threads st))"

lemma guardCount_0: "guardCount ts = 0 \<longleftrightarrow> (\<forall>t\<in>set ts. guardOf t = None)"
  by (auto simp: guardCount_def filter_empty_conv)

lemma guardsOn_0: "(\<And>t. t \<in> set ts \<Longrightarrow> guardOf t = None) \<Longrightarrow> guardsOn ts h = 0"
  by (auto simp: guardsOn_def filter_empty_conv)

lemma sessInv_fresh:
  assumes "guardCount ts = 0"
  shows "sessInv n freshState ts"
proof -
  have none: "t \<in> set ts \<Longrightarrow> guardOf t = None" for t using assms by (simp add: guardCount_0)
  have "guardsOn ts h = 0" for h by (rule guardsOn_0[OF none])
  moreover have "t \<in> set ts \<Longrightarrow> deriveJobOf t = None" for t using none[of t] by (cases t) auto
  ultimately show ?thesis
    by (intro sessInvI) (simp_all add: stateInv_fresh, simp_all add: freshState_def session_def)
qed

text \<open>Entry points.\<close>

lemma armGuard_facts [simp]:
  "mo_lib (armGuard (Some h) st) =
     map_option (\<lambda>l. l\<lparr>li_state := modSession h (\<lambda>s. s\<lparr>se_rpcInFlight := True\<rparr>) (li_state l)\<rparr>) (mo_lib st)"
  "mo_lib (dropGuard (Some h) st) =
     map_option (\<lambda>l. l\<lparr>li_state := modSession h (\<lambda>s. s\<lparr>se_rpcInFlight := False\<rparr>) (li_state l)\<rparr>) (mo_lib st)"
  "mo_lib (dropGuard None st) = mo_lib st"
  "mo_rpcInFlight (armGuard g st) = mo_rpcInFlight st + 1"
  "mo_rpcInFlight (dropGuard g st) = mo_rpcInFlight st - 1"
  by (simp_all add: armGuard_def dropGuard_def overState_def Let_def split: option.splits)

lemma enter_count: "enterOk st st' \<Longrightarrow> countInv st \<Longrightarrow> countInv st'"
  unfolding enterOk_def quiet_def spawns_def arms_def
  by (auto simp: countInv_def tameLib_def spawn_def)

lemma enter_inv:
  assumes "enterOk st st'" "countInv st" "modInv n st"
  shows "modInv n st'"
proof -
  consider "quiet st st'" | t where "spawns t st st'" | h t where "arms h t st st'" using assms(1) enterOk_def by blast
  then show ?thesis
  proof cases
    case 1
    then show ?thesis
      using assms(2,3) by (auto simp: modInv_def quiet_def tameLib_def countInv_def intro: sessInv_tame sessInv_fresh)
  next
    case 2
    then have ts: "mo_threads st' = t # mo_threads st" "tameLib st st'"
      and t: "deriveJobOf t = None" "\<And>h. guardOf t \<noteq> Some (Some h)"
      by (auto simp: spawns_def)
    have "sessInv n ss (t # mo_threads st)" if "sessInv n ss (mo_threads st)" for ss
      by (rule sessInv_threads[OF that]) (use t in auto)
    moreover have "sessInv n (li_state l) (mo_threads st)" if "mo_lib st' = Some l" for l
      using that ts(2) assms(3) by (auto simp: modInv_def tameLib_def intro: sessInv_tame)
    ultimately show ?thesis using ts(1) by (simp add: modInv_def)
  next
    case 3
    then obtain l s where *: "mo_lib st = Some l" "session h (li_state l) = Some s" "\<not> se_rpcInFlight s"
      "guardOf t = Some (Some h)" "\<And>j. deriveJobOf t = Some j \<Longrightarrow> vj_session j = h \<and> vj_slot j = se_slot s"
      "st' = spawn t (armGuard (Some h) st)"
      unfolding arms_def by blast
    have "sessInv n (li_state l) (mo_threads st)" using assms(3) *(1) by (simp add: modInv_def)
    from sessInv_arm[OF this *(2-5)] show ?thesis using *(1,6) by (simp add: modInv_def spawn_def)
  qed
qed

text \<open>Answers and regions.\<close>

lemma swapThread_facts [simp]:
  "mo_lib (swapThread t t' st) = mo_lib st" "mo_rpcInFlight (swapThread t t' st) = mo_rpcInFlight st"
  by (simp_all add: swapThread_def)

lemma swap_guards:
  assumes "t \<in> set (mo_threads st)"
  shows "guardCount (mo_threads (swapThread t t' st)) + (if guardOf t = None then 0 else 1) =
      guardCount (mo_threads st) + (if guardOpt t' = None then 0 else 1)"
    and "guardsOn (mo_threads (swapThread t t' st)) h + (if guardOf t = Some (Some h) then 1 else 0) =
      guardsOn (mo_threads st) h + (if guardOpt t' = Some (Some h) then 1 else 0)"
  using guards_remove1(1)[OF assms] guards_remove1(2)[OF assms, of h]
  by (auto simp: swapThread_def guardOpt_def split: option.splits)

lemma swap_inv:
  assumes inv: "sessInv n ss (mo_threads st)" and t: "t \<in> set (mo_threads st)"
    and g: "guardOpt t' = guardOf t" and d: "deriveOpt t' = None \<or> deriveOpt t' = deriveJobOf t"
  shows "sessInv n ss (mo_threads (swapThread t t' st))"
proof (rule sessInv_threads[OF inv])
  show "guardsOn (mo_threads (swapThread t t' st)) h = guardsOn (mo_threads st) h" for h
    using swap_guards(2)[OF t, of t' h] g by (simp split: if_splits)
  show "\<exists>u\<in>set (mo_threads st). deriveJobOf u = Some j"
    if "u \<in> set (mo_threads (swapThread t t' st))" "deriveJobOf u = Some j" for u j
    using that t d set_remove1_subset[of t "mo_threads st"]
    by (auto simp: swapThread_def deriveOpt_def split: option.splits)
qed

lemma answer_inv:
  assumes "t \<in> set (mo_threads st)" "rpcAnswered t a = Some t'"
  shows "countInv st \<Longrightarrow> countInv (swapThread t (Some t') st)" "modInv n st \<Longrightarrow> modInv n (swapThread t (Some t') st)"
proof -
  have g: "guardOpt (Some t') = guardOf t" "deriveOpt (Some t') = None \<or> deriveOpt (Some t') = deriveJobOf t"
    using rpcAnswered_facts[OF assms(2)] by (auto simp: guardOpt_def deriveOpt_def)
  show "countInv st \<Longrightarrow> countInv (swapThread t (Some t') st)"
    using swap_guards(1)[OF assms(1), of "Some t'"] g(1) by (auto simp: countInv_def split: if_splits)
  show "modInv n st \<Longrightarrow> modInv n (swapThread t (Some t') st)"
    using swap_inv[OF _ assms(1) g] by (simp add: modInv_def)
qed

lemma regionE:
  assumes "regionOk t t' st st'"
  obtains "guardOpt t' = guardOf t" "keeps st st'"
  | "guardOpt t' = guardOf t" "opens st st'"
  | g where "guardOpt t' = None" "guardOf t = Some g" "st' = dropGuard g st"
  | "guardOpt t' = None" "guardOf t = None" "mo_rpcInFlight st = 0" "st' = st\<lparr>mo_lib := None\<rparr>"
  using assms unfolding regionOk_def by metis

lemma region_count:
  assumes "t \<in> set (mo_threads st)" "regionOk t t' st st'" "countInv st"
  shows "countInv (swapThread t t' st')"
proof -
  have ts: "mo_threads st' = mo_threads st" using assms(2) by (simp add: regionOk_def)
  have "t \<in> set (mo_threads st')" using assms(1) ts by simp
  note sw = swap_guards(1)[OF this, of t']
  from assms(2) show ?thesis
  proof (cases rule: regionE)
    case 1
    then show ?thesis using sw assms(3) ts by (auto simp: countInv_def keeps_def tameLib_def split: if_splits)
  next
    case 2
    then show ?thesis using sw assms(3) ts by (auto simp: countInv_def opens_def split: if_splits)
  next
    case (3 g)
    then have "mo_lib st' = None \<longleftrightarrow> mo_lib st = None" by (cases g) auto
    then show ?thesis using 3 sw assms(3) ts by (auto simp: countInv_def split: if_splits)
  next
    case 4
    then show ?thesis using sw assms(3) ts by (auto simp: countInv_def split: if_splits)
  qed
qed

lemma region_inv:
  assumes "t \<in> set (mo_threads st)" "regionOk t t' st st'" "modInv n st" and n: "n + 2 < 2 ^ 64"
  shows "modInv (Suc n) (swapThread t t' st')"
proof -
  have ts: "mo_threads st' = mo_threads st" "deriveOpt t' = None" using assms(2) by (simp_all add: regionOk_def)
  have t: "t \<in> set (mo_threads st')" using assms(1) ts by simp
  have settle: "modInv (Suc n) (swapThread t t' st')"
    if "guardOpt t' = guardOf t" "\<And>l. mo_lib st' = Some l \<Longrightarrow> sessInv (Suc n) (li_state l) (mo_threads st)"
    using swap_inv[OF _ t that(1)] that(2) ts by (simp add: modInv_def)
  from assms(2) show ?thesis
  proof (cases rule: regionE)
    case 1
    have "sessInv n (li_state l) (mo_threads st)" if "mo_lib st' = Some l" for l
      using that 1(2) assms(3) by (auto simp: keeps_def tameLib_def modInv_def intro: sessInv_tame)
    from sessInv_more[OF this] show ?thesis by (intro settle[OF 1(1)]) simp_all
  next
    case 2
    then obtain l l' ss slot flags where *: "mo_lib st = Some l" "mo_lib st' = Some l'"
      "stateInv (li_state l) \<Longrightarrow> tame (li_state l) ss" "li_state l' = snd (openSession slot flags ss)"
      unfolding opens_def by blast
    have "sessInv n ss (mo_threads st)" using sessInv_tame[OF _ *(3)] assms(3) *(1) by (simp add: modInv_def)
    from sessInv_open[OF this n surjective_pairing] show ?thesis by (intro settle[OF 2(1)]) (use *(2,4) in simp)
  next
    case (3 g)
    show ?thesis
    proof (cases g)
      case None
      have "sessInv (Suc n) ss (mo_threads (swapThread t t' st'))" if "sessInv n ss (mo_threads st)" for ss
      proof (rule sessInv_threads[OF sessInv_more[OF that]])
        show "guardsOn (mo_threads (swapThread t t' st')) h = guardsOn (mo_threads st) h" for h
          using swap_guards(2)[OF t, of t' h] 3(1,2) None ts by simp
        show "\<exists>u\<in>set (mo_threads st). deriveJobOf u = Some j"
          if "u \<in> set (mo_threads (swapThread t t' st'))" "deriveJobOf u = Some j" for u j
          using that ts set_remove1_subset[of t "mo_threads st"]
          by (auto simp: swapThread_def deriveOpt_def split: option.splits)
      qed simp
      moreover have "mo_lib st' = mo_lib st" using 3(3) None by simp
      ultimately show ?thesis using assms(3) unfolding modInv_def swapThread_facts by simp
    next
      case (Some h)
      then have g: "guardOf t = Some (Some h)" using 3 by simp
      have "sessInv (Suc n) ss (mo_threads (swapThread t t' st'))" if "sessInv n ss (remove1 t (mo_threads st))" for ss
      proof (rule sessInv_threads[OF sessInv_more[OF that]])
        show "guardsOn (mo_threads (swapThread t t' st')) i = guardsOn (remove1 t (mo_threads st)) i" for i
          using swap_guards(2)[OF t, of t' i] guards_remove1(2)[OF assms(1), of i] g 3(1) ts by (simp split: if_splits)
        show "\<exists>u\<in>set (remove1 t (mo_threads st)). deriveJobOf u = Some j"
          if "u \<in> set (mo_threads (swapThread t t' st'))" "deriveJobOf u = Some j" for u j
          using that ts by (auto simp: swapThread_def deriveOpt_def split: option.splits)
      qed simp
      moreover have "mo_lib st' = map_option (\<lambda>l. l\<lparr>li_state :=
          modSession h (\<lambda>s. s\<lparr>se_rpcInFlight := False\<rparr>) (li_state l)\<rparr>) (mo_lib st)"
        using 3(3) Some by simp
      ultimately show ?thesis
        using sessInv_drop[OF _ assms(1) g] assms(3) unfolding modInv_def swapThread_facts by auto
    qed
  next
    case 4
    then show ?thesis by (simp add: modInv_def)
  qed
qed

section \<open>Runs\<close>

inductive_cases mstepE: "mstep st st'"

lemma jobFits_inv:
  assumes "modInv n st" "t \<in> set (mo_threads st)" "deriveJobOf t = Some j"
  shows "jobFits j st"
  using assms sessInvD(7) unfolding modInv_def jobFits_def by blast

lemma mrun_inv: "mrun n st \<Longrightarrow> n + 2 < 2 ^ 64 \<Longrightarrow> countInv st \<and> modInv n st"
proof (induction rule: mrun.induct)
  case init
  show ?case by (simp add: countInv_def modInv_def moduleInit_def guardCount_def)
next
  case (step n st st')
  then have inv: "countInv st" "modInv n st" and n: "n + 2 < 2 ^ 64" by auto
  have more: "modInv n st' \<Longrightarrow> modInv (Suc n) st'" for st' by (auto simp: modInv_def intro: sessInv_more)
  from step.hyps(2) show ?case
  proof cases
    case (enter c now rv)
    then show ?thesis using enter_ok enter_count enter_inv inv more by blast
  next
    case (answer t a t')
    then show ?thesis using answer_inv[OF answer(2,3)] inv more by blast
  next
    case (region t now t' st1)
    have "regionOk t t' st st1" using threadStep_ok[OF region(3)] jobFits_inv[OF inv(2) region(2)] by blast
    then show ?thesis using region_count[OF region(2) _ inv(1)] region_inv[OF region(2) _ inv(2) n] region(1) by blast
  qed
qed

lemma mrun_lib:
  assumes "mrun n st" "n + 2 < 2 ^ 64" "mo_lib st = Some l"
  shows "sessInv n (li_state l) (mo_threads st)"
  using mrun_inv[OF assms(1,2)] assms(3) by (simp add: modInv_def)

text \<open>A derived key that stays over a step has the same card under it.\<close>

lemma tameLib_card:
  assumes "tameLib st st'" "mo_lib st = Some l" "mo_lib st' = Some l'" "stateInv (li_state l)"
  shows "keysKeepCard (li_state l) (li_state l')"
  using assms by (auto simp: tameLib_def tame_def)

lemma openSession_card: "keysKeepCard ss ss1 \<Longrightarrow> keysKeepCard ss (snd (openSession slot flags ss1))"
  unfolding keysKeepCard_def
  using openSession_simps(2,3)[OF surjective_pairing[of "openSession slot flags ss1"]] by simp

lemma guard_card:
  assumes "mo_lib st = Some l" "mo_lib st' = Some l'" "st' = spawn t (armGuard (Some h) st) \<or> st' = dropGuard g st"
  shows "keysKeepCard (li_state l) (li_state l')"
  using assms by (cases g) (auto simp: spawn_def keysKeepCard_ops(8) keysKeepCard_same)

lemma step_card:
  assumes "mstep st st'" "modInv n st" "mo_lib st = Some l" "mo_lib st' = Some l'"
  shows "keysKeepCard (li_state l) (li_state l')"
proof -
  have inv: "stateInv (li_state l)" using assms(2,3) sessInvD(1) by (auto simp: modInv_def)
  note tame = tameLib_card[OF _ assms(3) _ inv] and guard = guard_card[OF assms(3)]
  from assms(1) show ?thesis
  proof cases
    case (enter c now rv)
    from enter_ok[OF enter] consider "st' = st" | "tameLib st st'" | h t where "st' = spawn t (armGuard (Some h) st)"
      using assms(3) unfolding enterOk_def quiet_def spawns_def arms_def by auto
    then show ?thesis using tame[OF _ assms(4)] guard[OF assms(4)] assms(3,4) by cases (auto simp: keysKeepCard_same)
  next
    case (answer t a t')
    then show ?thesis using assms(3,4) by (simp add: keysKeepCard_same)
  next
    case (region t now t' st1)
    have l': "mo_lib st1 = Some l'" using region(1) assms(4) by simp
    have "regionOk t t' st st1" using threadStep_ok[OF region(3)] jobFits_inv[OF assms(2) region(2)] by blast
    then show ?thesis
    proof (cases rule: regionE)
      case 1
      then show ?thesis using tame[OF _ l'] l' assms(3) by (auto simp: keeps_def keysKeepCard_same)
    next
      case 2
      then show ?thesis using assms(3) l' inv by (auto simp: opens_def tame_def intro: openSession_card)
    next
      case (3 g)
      then show ?thesis using guard[OF l'] by blast
    next
      case 4
      then show ?thesis using l' by simp
    qed
  qed
qed

section \<open>A run\<close>

text \<open>The first thread moves on: by the agent's answer, or by its next region.\<close>

definition doCall :: "Call \<Rightarrow> ModuleState \<Rightarrow> ModuleState" where
  "doCall c st = snd (enter c 0 st)"

definition doAnswer :: "RpcAnswer \<Rightarrow> ModuleState \<Rightarrow> ModuleState" where
  "doAnswer a st =
     (case mo_threads st of [] \<Rightarrow> st | t # ts \<Rightarrow>
      (case rpcAnswered t a of None \<Rightarrow> st | Some t' \<Rightarrow> swapThread t (Some t') st))"

definition doRegion :: "ModuleState \<Rightarrow> ModuleState" where
  "doRegion st =
     (case mo_threads st of [] \<Rightarrow> st | t # ts \<Rightarrow>
      (case threadStep t 5 st of None \<Rightarrow> st | Some (t', st') \<Rightarrow> swapThread t t' st'))"

definition reaches :: "nat \<Rightarrow> ModuleState \<Rightarrow> bool" where
  "reaches n st \<longleftrightarrow> (\<exists>m\<le>n. mrun m st)"

lemma reaches_init: "reaches 0 moduleInit"
  by (auto simp: reaches_def intro: mrun.init)

lemma reaches_step: "reaches n st \<Longrightarrow> mstep st st' \<or> st' = st \<Longrightarrow> reaches (Suc n) st'"
  unfolding reaches_def by (meson mrun.step Suc_le_mono le_SucI)

lemma reaches_doCall: "reaches n st \<Longrightarrow> reaches (Suc n) (doCall c st)"
  unfolding doCall_def by (erule reaches_step) (metis mstep.enter surjective_pairing)

lemma reaches_doAnswer: "reaches n st \<Longrightarrow> reaches (Suc n) (doAnswer a st)"
  by (erule reaches_step) (auto simp: doAnswer_def split: list.splits option.splits intro: mstep.answer)

lemma reaches_doRegion: "reaches n st \<Longrightarrow> reaches (Suc n) (doRegion st)"
  by (erule reaches_step) (auto simp: doRegion_def split: list.splits option.splits intro: mstep.region)

text \<open>A library opened, a session on the card's slot, a login, and a key derived in it.\<close>

definition sample_opened :: ModuleState where
  "sample_opened = doRegion (doRegion (doAnswer (AnsSnapshot [sample_reader])
     (doCall (CallOpenSession 0 4 False) (doCall (CallInitialize None) moduleInit))))"

definition sample_signing_in :: ModuleState where
  "sample_signing_in = doCall (CallLogin 1 1) sample_opened"

definition sample_logged :: ModuleState where
  "sample_logged = doRegion (doRegion (doAnswer (AnsStatus S_Ok) sample_signing_in))"

definition sample_derive :: Call where
  "sample_derive = CallDeriveKey 1 (Some \<lparr>dm_mechanism = CKM_ECDH1_DERIVE,
     dm_params = Some \<lparr>ep_kdf = 1, ep_sharedDataLen = 0, ep_publicData = Some (4 # replicate 64 7)\<rparr>\<rparr>)
     (encodeHandle 0 2) (Some []) 0 False"

definition sample_secret :: RpcAnswer where
  "sample_secret = AnsBytes \<lparr>br_status = S_Ok, br_bytes = replicate 32 9\<rparr>"

definition sample_derived :: ModuleState where
  "sample_derived = doRegion (doRegion (doAnswer sample_secret (doCall sample_derive sample_logged)))"

definition sample_dk :: "CK_ULONG \<times> DerivedKey" where
  "sample_dk = (kDerivedHandleBit OR 1,
     \<lparr>dk_slot = 0, dk_creator = 1, dk_attributes = defaultTemplate, dk_value = replicate 32 9\<rparr>)"

definition stateOf :: "ModuleState \<Rightarrow> SessionState" where
  "stateOf st = (case mo_lib st of None \<Rightarrow> freshState | Some l \<Rightarrow> li_state l)"

lemma sample_opened_reached: "reaches 5 sample_opened"
  using reaches_doRegion[OF reaches_doRegion[OF reaches_doAnswer[OF reaches_doCall[OF reaches_doCall[OF reaches_init]]]]]
  by (simp add: sample_opened_def numeral_eq_Suc)

lemma sample_signing_in_reached: "reaches 6 sample_signing_in"
  using reaches_doCall[OF sample_opened_reached] by (simp add: sample_signing_in_def)

lemma sample_derived_reached: "reaches 13 sample_derived"
proof -
  have "reaches 9 sample_logged"
    using reaches_doRegion[OF reaches_doRegion[OF reaches_doAnswer[OF sample_signing_in_reached]]]
    by (simp add: sample_logged_def)
  from reaches_doRegion[OF reaches_doRegion[OF reaches_doAnswer[OF reaches_doCall[OF this]]]] show ?thesis
    by (simp add: sample_derived_def)
qed

section \<open>Properties\<close>

text \<open>C6. The library is never freed under a call: in every interleaving of entry points, answers and
  locked regions, whenever a thread is out with the agent or has yet to come back from it, the
  library object exists and the in-flight counter that \<^verbatim>\<open>C_Finalize\<close> waits on is the number of such
  threads. The bound keeps the 64-bit session counter from wrapping.\<close>

theorem calls_keep_the_library:
  assumes "mrun n st" "n + 2 < 2 ^ 64"
  shows "mo_rpcInFlight st = int (length (filter (\<lambda>t. guardOf t \<noteq> None) (mo_threads st))) \<and>
    (\<forall>t\<in>set (mo_threads st). guardOf t \<noteq> None \<longrightarrow> mo_lib st \<noteq> None)"
  using mrun_inv[OF assms] guardCount_0[of "mo_threads st"] by (auto simp: countInv_def guardCount_def)


text \<open>C7. Derived keys are confined: whenever one exists, its handle is a derived one, its slot is shown
  and logged in, and the session that derived it is open on that slot. Closing that session,
  logging out, losing the lease and changing the card all end the key.\<close>

theorem derived_keys_confined:
  assumes "mrun n st" "n + 2 < 2 ^ 64" "mo_lib st = Some l" "(h, k) \<in> set (ss_derived (li_state l))"
  shows "isDerivedHandle h \<and> isLoggedIn (dk_slot k) (li_state l) \<and> slotById (dk_slot k) (li_state l) \<noteq> None \<and>
    (\<exists>s. session (dk_creator k) (li_state l) = Some s \<and> se_slot s = dk_slot k)"
  using stateInvD(2-4,6)[OF sessInvD(1)[OF mrun_lib[OF assms(1-3)]]] assms(4) by (fastforce simp: handlesInv_def)

text \<open>C21. A derived key keeps its card: a key that is there before and after a step, whatever the step
  publishes about the readers, is on a slot unchanged by it or on one that shows the same non-empty
  serial number before and after.\<close>

theorem derived_key_keeps_card:
  assumes "mrun n st" "n + 2 < 2 ^ 64" "mstep st st'" "mo_lib st = Some l" "mo_lib st' = Some l'"
    and "(h, k) \<in> set (ss_derived (li_state l))" "(h, k) \<in> set (ss_derived (li_state l'))"
  shows "slotById (dk_slot k) (li_state l') = slotById (dk_slot k) (li_state l) \<or>
    (\<exists>s s'. slotById (dk_slot k) (li_state l) = Some s \<and> slotById (dk_slot k) (li_state l') = Some s' \<and>
       sl_tokenPresent s \<and> sl_tokenPresent s' \<and> sl_tokenSerial s' = sl_tokenSerial s \<and> sl_tokenSerial s \<noteq> [])"
proof -
  have "keysKeepCard (li_state l) (li_state l')"
    using step_card[OF assms(3) _ assms(4,5)] mrun_inv[OF assms(1,2)] by blast
  then show ?thesis using assms(6,7) unfolding keysKeepCard_def sameCard_def by metis
qed

section \<open>Witnesses\<close>

lemma reachesE:
  assumes "reaches n st" "n < 100"
  obtains m where "mrun m st" "m + 2 < 2 ^ 64"
  using assms unfolding reaches_def by force

lemma sample_signing_in_facts:
  "map guardOf (mo_threads sample_signing_in) = [Some (Some 1)]" "mo_threads sample_signing_in = [LoginRpc 1 ''r0'']"
  "mo_lib sample_signing_in \<noteq> None" "map_option se_rpcInFlight (session 1 (stateOf sample_signing_in)) = Some True"
  by code_simp+

theorem calls_keep_the_library_witness:
  "mo_rpcInFlight sample_signing_in = 1 \<and> mo_threads sample_signing_in = [LoginRpc 1 ''r0''] \<and>
   mo_lib sample_signing_in \<noteq> None"
proof -
  obtain m where m: "mrun m sample_signing_in" "m + 2 < 2 ^ 64" using reachesE[OF sample_signing_in_reached] by auto
  show ?thesis using calls_keep_the_library[OF m] sample_signing_in_facts(2) by simp
qed


lemma sample_derived_facts:
  "mo_lib sample_derived \<noteq> None" "list_ex (\<lambda>x. x = sample_dk) (ss_derived (stateOf sample_derived))"
  by code_simp+

theorem derived_keys_confined_witness: "isLoggedIn 0 (stateOf sample_derived)"
proof -
  obtain m where m: "mrun m sample_derived" "m + 2 < 2 ^ 64" using reachesE[OF sample_derived_reached] by auto
  obtain l where l: "mo_lib sample_derived = Some l" using sample_derived_facts(1) by blast
  have "(fst sample_dk, snd sample_dk) \<in> set (ss_derived (li_state l))"
    using sample_derived_facts(2) l by (simp add: stateOf_def list_ex_iff)
  from derived_keys_confined[OF m l this] show ?thesis using l by (simp add: stateOf_def sample_dk_def)
qed

text \<open>A refresh that renames the card's label.\<close>

definition sample_reread :: ModuleState where
  "sample_reread = doRegion (doAnswer (AnsSnapshot [sample_reader\<lparr>ar_tokenLabel := ''New''\<rparr>])
     (doCall (CallGetSlotList False True (Some 0)) sample_derived))"

lemma sample_reread_facts:
  "mo_threads sample_reread = [SnapshotPublish 2 [sample_reader\<lparr>ar_tokenLabel := ''New''\<rparr>] (ContSlotList False True 0)]"
  "mo_lib sample_reread \<noteq> None" "list_ex (\<lambda>x. x = sample_dk) (ss_derived (stateOf sample_reread))"
  "mo_lib (doRegion sample_reread) \<noteq> None"
  "list_ex (\<lambda>x. x = sample_dk) (ss_derived (stateOf (doRegion sample_reread)))"
  "map_option sl_tokenLabel (slotById 0 (stateOf sample_reread)) = Some ''Holder''"
  "map_option sl_tokenLabel (slotById 0 (stateOf (doRegion sample_reread))) = Some ''New''"
  by code_simp+

theorem derived_key_keeps_card_witness:
  "map_option sl_tokenSerial (slotById 0 (stateOf (doRegion sample_reread))) =
   map_option sl_tokenSerial (slotById 0 (stateOf sample_reread)) \<and>
   map_option sl_tokenLabel (slotById 0 (stateOf (doRegion sample_reread))) \<noteq>
   map_option sl_tokenLabel (slotById 0 (stateOf sample_reread))"
proof -
  have "reaches 16 sample_reread"
    using reaches_doRegion[OF reaches_doAnswer[OF reaches_doCall[OF sample_derived_reached]]]
    by (simp add: sample_reread_def)
  then obtain m where m: "mrun m sample_reread" "m + 2 < 2 ^ 64" by (rule reachesE) simp
  obtain t where t: "mo_threads sample_reread = [t]" "\<And>st. threadStep t 5 st \<noteq> None"
    using sample_reread_facts(1) by (simp add: Let_def split: option.splits)
  obtain t' st' where r: "threadStep t 5 sample_reread = Some (t', st')" using t(2) by fast
  have step: "mstep sample_reread (doRegion sample_reread)"
    using mstep.region[OF _ r] t(1) r by (simp add: doRegion_def)
  obtain l l' where l: "mo_lib sample_reread = Some l" "mo_lib (doRegion sample_reread) = Some l'"
    using sample_reread_facts(2,4) by blast
  have "(fst sample_dk, snd sample_dk) \<in> set (ss_derived (li_state l))"
    "(fst sample_dk, snd sample_dk) \<in> set (ss_derived (li_state l'))"
    using sample_reread_facts(3,5) l by (simp_all add: stateOf_def list_ex_iff)
  from derived_key_keeps_card[OF m step l this] show ?thesis
    using l sample_reread_facts(6,7) by (auto simp: stateOf_def sample_dk_def)
qed

text \<open>The two logins of a derivation that was out while the user logged out and in again.\<close>

definition sample_relogin :: ModuleState where
  "sample_relogin = doRegion (doRegion (doAnswer sample_secret (doRegion (doRegion (doAnswer (AnsStatus S_Ok)
     (doCall (CallLogin 2 1) (doCall (CallLogout 2) (doCall sample_derive
       (doRegion (doRegion (doAnswer (AnsSnapshot [sample_reader]) (doCall (CallOpenSession 0 4 False) sample_logged))))))))))))"

lemma sample_relogin_reached: "reaches 22 sample_relogin"
proof -
  have "reaches 9 sample_logged"
    using reaches_doRegion[OF reaches_doRegion[OF reaches_doAnswer[OF sample_signing_in_reached]]]
    by (simp add: sample_logged_def)
  from reaches_doRegion[OF reaches_doRegion[OF reaches_doAnswer[OF reaches_doCall[OF this]]]]
  have "reaches 13 (doRegion (doRegion (doAnswer a (doCall c sample_logged))))" for a c by simp
  from reaches_doRegion[OF reaches_doRegion[OF reaches_doAnswer[OF reaches_doRegion[OF reaches_doRegion[OF reaches_doAnswer[OF
    reaches_doCall[OF reaches_doCall[OF reaches_doCall[OF this]]]]]]]]]
  show ?thesis by (simp add: sample_relogin_def)
qed

text \<open>C33. A derivation that is out while the user logs out and in again through another session keeps its
  key: the run below starts under the slot's first login with no key, and ends under its second with
  the key of the first, although the entry point drops a key whose login has ended.\<close>

theorem derived_key_crosses_logins:
  "reaches 22 sample_relogin \<and>
   loginGeneration 0 (stateOf sample_logged) = 1 \<and> ss_derived (stateOf sample_logged) = [] \<and>
   loginGeneration 0 (stateOf sample_relogin) = 2 \<and> map snd (ss_derived (stateOf sample_relogin)) = [snd sample_dk]"
proof -
  have "loginGeneration 0 (stateOf sample_logged) = 1 \<and> ss_derived (stateOf sample_logged) = [] \<and>
      loginGeneration 0 (stateOf sample_relogin) = 2 \<and> map snd (ss_derived (stateOf sample_relogin)) = [snd sample_dk]"
    by code_simp
  then show ?thesis using sample_relogin_reached by blast
qed

end
