(* ===== verification/ReaderLabels.thy ===== *)
theory ReaderLabels
  imports Prelude WireTypes "HOL-Library.While_Combinator"
begin

text \<open>
  The classifier of PC/SC reader names, \<^verbatim>\<open>src/value/ReaderLabels.cpp\<close>: from the raw names of all
  readers it derives, for each, a short model, the interface of the slot, and a label that tells
  the readers apart. A \<^verbatim>\<open>std::string\<close> is a list of characters, \<^verbatim>\<open>std::set\<close> membership is membership
  in a list, an index is a natural number. The character classes are those of the \<^verbatim>\<open>"C"\<close> locale:
  no file of the agent calls \<^verbatim>\<open>setlocale\<close>. The lemmas show that the search for a free label ends,
  that two readers carry the same label exactly if they carry the same name, and which slots are
  classified as the contact half of a dual-interface unit.
\<close>

section \<open>Characters\<close>

definition isspace :: "char \<Rightarrow> bool" where
  "isspace c = (c \<in> {CHR '' '', CHR 0x09, CHR 0x0A, CHR 0x0B, CHR 0x0C, CHR 0x0D})"

definition isDigitAscii :: "char \<Rightarrow> bool" where
  "isDigitAscii c = (c \<in> set ''0123456789'')"

definition isAlnumAscii :: "char \<Rightarrow> bool" where
  "isAlnumAscii c =
     (isDigitAscii c \<or> c \<in> set ''ABCDEFGHIJKLMNOPQRSTUVWXYZ'' \<or> c \<in> set ''abcdefghijklmnopqrstuvwxyz'')"

definition isxdigit :: "char \<Rightarrow> bool" where
  "isxdigit c = (isDigitAscii c \<or> c \<in> set ''ABCDEF'' \<or> c \<in> set ''abcdef'')"

definition lowerAscii :: "char \<Rightarrow> char" where
  "lowerAscii c =
     (case map_of (zip ''ABCDEFGHIJKLMNOPQRSTUVWXYZ'' ''abcdefghijklmnopqrstuvwxyz'') c of
        Some l \<Rightarrow> l | None \<Rightarrow> c)"

definition equalsIgnoringCase :: "string \<Rightarrow> string \<Rightarrow> bool" where
  "equalsIgnoringCase a b =
     (length a = length b \<and> list_all2 (\<lambda>x y. lowerAscii x = lowerAscii y) a b)"

section \<open>Strings\<close>

definition trimmed :: "string \<Rightarrow> string" where
  "trimmed s = rev (dropWhile isspace (rev (dropWhile isspace s)))"

fun squashLoop :: "string \<Rightarrow> string \<Rightarrow> string" where
  "squashLoop out [] = out"
| "squashLoop out (c # s) =
     (if isspace c
      then squashLoop (if out \<noteq> [] \<and> last out \<noteq> CHR '' '' then out @ '' '' else out) s
      else squashLoop (out @ [c]) s)"

definition squashed :: "string \<Rightarrow> string" where
  "squashed s = trimmed (squashLoop [] s)"

text \<open>\<^verbatim>\<open>find\<close> from a position, \<^verbatim>\<open>rfind\<close> and \<^verbatim>\<open>substr\<close> of \<^verbatim>\<open>std::string\<close>, for one character.\<close>

definition findFrom :: "char \<Rightarrow> nat \<Rightarrow> string \<Rightarrow> nat option" where
  "findFrom c at s =
     (if c \<in> set (drop at s) then Some (at + length (takeWhile (\<lambda>x. x \<noteq> c) (drop at s))) else None)"

definition rfind :: "char \<Rightarrow> string \<Rightarrow> nat option" where
  "rfind c s =
     (if c \<in> set s then Some (length s - 1 - length (takeWhile (\<lambda>x. x \<noteq> c) (rev s))) else None)"

definition substr :: "nat \<Rightarrow> nat \<Rightarrow> string \<Rightarrow> string" where
  "substr at n s = take n (drop at s)"

definition stripSlotPair :: "string \<Rightarrow> string" where
  "stripSlotPair s =
     (let n = length s; hex2 = (\<lambda>at. isxdigit (s ! at) \<and> isxdigit (s ! (at + 1)))
      in if n \<ge> 6 \<and> s ! (n - 6) = CHR '' '' \<and> s ! (n - 3) = CHR '' '' \<and> hex2 (n - 5) \<and> hex2 (n - 2)
         then trimmed (take (n - 6) s) else s)"

record PcscName =
  pn_base :: string
  pn_serial :: string

definition splitPcscName :: "string \<Rightarrow> PcscName" where
  "splitPcscName raw =
     (let base = stripSlotPair (trimmed raw);
          (base, serial) =
            (if base \<noteq> [] \<and> last base = CHR '')'' then
               (case rfind CHR ''('' base of
                  Some at \<Rightarrow> (trimmed (take at base), trimmed (substr (at + 1) (length base - at - 2) base))
                | None \<Rightarrow> (base, []))
             else (base, []))
      in \<lparr> pn_base = stripSlotPair base, pn_serial = serial \<rparr>)"

definition containsWord :: "string \<Rightarrow> string \<Rightarrow> bool" where
  "containsWord s word =
     list_ex (\<lambda>at. equalsIgnoringCase (substr at (length word) s) word
                   \<and> (at = 0 \<or> \<not> isAlnumAscii (s ! (at - 1)))
                   \<and> (at + length word = length s \<or> \<not> isAlnumAscii (s ! (at + length word))))
             [0 ..< length s + 1 - length word]"

definition containsClMarker :: "string \<Rightarrow> bool" where
  "containsClMarker s =
     list_ex (\<lambda>at. equalsIgnoringCase (substr at 2 s) ''cl''
                   \<and> (at = 0 \<or> \<not> isAlnumAscii (s ! (at - 1)) \<or> isDigitAscii (s ! (at - 1)))
                   \<and> (at + 2 = length s \<or> \<not> isAlnumAscii (s ! (at + 2))))
             [0 ..< length s + 1 - 2]"

definition carriesContactlessMarker :: "string \<Rightarrow> bool" where
  "carriesContactlessMarker base =
     (containsWord base ''contactless'' \<or> containsWord base ''picc'' \<or> containsWord base ''nfc''
      \<or> containsClMarker base)"

section \<open>The model\<close>

definition kWords :: "string list" where
  "kWords = [''smart card reader'', ''smartcard reader'', ''smart card'', ''smartcard'', ''reader'',
             ''ccid'', ''usb'', ''interface'', ''contactless'', ''picc'']"

text \<open>\<^verbatim>\<open>None\<close> is the result \<^verbatim>\<open>false\<close>; \<^verbatim>\<open>Some\<close> is \<^verbatim>\<open>true\<close> with the string it was given rewritten.\<close>

definition dropTrailingWord :: "string \<Rightarrow> string option" where
  "dropTrailingWord model =
     (let n = length model in
      case find (\<lambda>word. n > length word \<and> model ! (n - length word - 1) = CHR '' ''
                        \<and> equalsIgnoringCase (drop (n - length word) model) word) kWords of
        Some word \<Rightarrow> Some (trimmed (take (n - length word) model))
      | None \<Rightarrow>
          if n > 2 \<and> equalsIgnoringCase (drop (n - 2) model) ''cl''
             \<and> (model ! (n - 3) = CHR '' '' \<or> isDigitAscii (model ! (n - 3)))
          then Some (trimmed (take (n - 2) model)) else None)"

lemma length_trimmed: "length (trimmed s) \<le> length s"
  using length_dropWhile_le [of isspace "rev (dropWhile isspace s)"] length_dropWhile_le [of isspace s]
  by (simp add: trimmed_def)

lemma dropTrailingWord_shorter: "dropTrailingWord m = Some m' \<Longrightarrow> length m' < length m"
proof -
  assume m': "dropTrailingWord m = Some m'"
  have cut: "length (trimmed (take (length m - k) m)) < length m" if "0 < k" "k < length m" for k
    using length_trimmed [of "take (length m - k) m"] that by simp
  show ?thesis
  proof (cases "find (\<lambda>word. length m > length word \<and> m ! (length m - length word - 1) = CHR '' ''
                        \<and> equalsIgnoringCase (drop (length m - length word) m) word) kWords")
    case None
    then show ?thesis using m' cut [of 2] by (auto simp: dropTrailingWord_def Let_def split: if_splits)
  next
    case (Some word)
    then have "word \<in> set kWords" "length word < length m" by (auto simp: find_Some_iff)
    moreover from \<open>word \<in> set kWords\<close> have "0 < length word" by (auto simp: kWords_def)
    ultimately show ?thesis using m' Some cut [of "length word"]
      by (auto simp: dropTrailingWord_def Let_def)
  qed
qed

function dropWords :: "string \<Rightarrow> string" where
  "dropWords model = (case dropTrailingWord model of Some model' \<Rightarrow> dropWords model' | None \<Rightarrow> model)"
  by auto

termination
  by (relation "measure length") (auto simp: dropTrailingWord_shorter)

declare dropWords.simps [simp del]

definition shortModel :: "string \<Rightarrow> string" where
  "shortModel s = dropWords (squashed s)"

definition modelOf :: "string \<Rightarrow> string" where
  "modelOf base =
     (case findFrom CHR ''['' 0 base of
        None \<Rightarrow> shortModel base
      | Some opn \<Rightarrow>
          (case findFrom CHR '']'' opn base of
             None \<Rightarrow> shortModel base
           | Some cls \<Rightarrow>
               let product = shortModel (substr (opn + 1) (cls - opn - 1) base);
                   prefix = shortModel (take opn base);
                   productNamesAModel =
                     product \<noteq> [] \<and> (list_ex isDigitAscii product \<or> CHR '' '' \<in> set product)
               in if productNamesAModel \<or> prefix = [] then product else prefix))"

section \<open>The identities\<close>

record ReaderIdentity =
  idn_model :: string
  idn_iface :: ReaderInterface
  idn_full :: string

definition serialOf :: "string \<Rightarrow> string" where
  "serialOf raw = pn_serial (splitPcscName raw)"

text \<open>The set \<^verbatim>\<open>slotsPerUnit[serial]\<close>: the distinct raw names filed under a non-empty serial.\<close>

definition slotsPerUnit :: "string list \<Rightarrow> string \<Rightarrow> string list" where
  "slotsPerUnit rawNames serial =
     remdups (filter (\<lambda>raw. serialOf raw \<noteq> [] \<and> serialOf raw = serial) rawNames)"

definition firstIdentity :: "string list \<Rightarrow> string \<Rightarrow> ReaderIdentity" where
  "firstIdentity rawNames raw =
     (let name = splitPcscName raw;
          model = modelOf (pn_base name);
          contactless = carriesContactlessMarker (pn_base name);
          dualInterfaceUnit = (pn_serial name \<noteq> [] \<and> length (slotsPerUnit rawNames (pn_serial name)) > 1)
      in \<lparr> idn_model = (if model = [] then raw else model),
           idn_iface = (if contactless then RI_Contactless
                        else if dualInterfaceUnit then RI_Contact else RI_Unknown),
           idn_full = raw \<rparr>)"

type_synonym label = "string \<times> ReaderInterface"

definition labelOf :: "ReaderIdentity \<Rightarrow> label" where
  "labelOf r = (idn_model r, idn_iface r)"

text \<open>The set \<^verbatim>\<open>namesPerLabel[label]\<close>.\<close>

definition namesPerLabel :: "ReaderIdentity list \<Rightarrow> label \<Rightarrow> string list" where
  "namesPerLabel out l = remdups (map idn_full (filter (\<lambda>r. labelOf r = l) out))"

definition numbered :: "string \<Rightarrow> nat \<Rightarrow> string" where
  "numbered base position = base @ '' ('' @ to_string position @ '')''"

text \<open>The candidate and the position before the loop, and the loop that ends at a free label.\<close>

definition firstCandidate :: "nat \<Rightarrow> string \<Rightarrow> string \<Rightarrow> string \<times> nat" where
  "firstCandidate i serial base =
     (if serial = [] then (numbered base (i + 1), i + 2)
      else (base @ '' ('' @ drop (length serial - min (length serial) 4) serial @ '')'', i + 1))"

definition labelTaken :: "label list \<Rightarrow> ReaderInterface \<Rightarrow> string \<times> nat \<Rightarrow> bool" where
  "labelTaken taken iface s = ((fst s, iface) \<in> set taken)"

definition nextCandidate :: "string \<Rightarrow> string \<times> nat \<Rightarrow> string \<times> nat" where
  "nextCandidate base s = (numbered base (snd s), snd s + 1)"

definition freeCandidate :: "label list \<Rightarrow> ReaderInterface \<Rightarrow> nat \<Rightarrow> string \<Rightarrow> string \<Rightarrow> string" where
  "freeCandidate taken iface i serial base =
     fst (while (labelTaken taken iface) (nextCandidate base) (firstCandidate i serial base))"

fun settleLoop :: "ReaderIdentity list \<Rightarrow> nat \<Rightarrow> label list \<Rightarrow> (string \<times> string) list \<Rightarrow>
    ReaderIdentity list \<Rightarrow> ReaderIdentity list" where
  "settleLoop out i taken settled [] = []"
| "settleLoop out i taken settled (r # rs) =
     (case map_of settled (idn_full r) of
        Some model \<Rightarrow> r\<lparr>idn_model := model\<rparr> # settleLoop out (i + 1) taken settled rs
      | None \<Rightarrow>
          if length (namesPerLabel out (labelOf r)) \<le> 1 then r # settleLoop out (i + 1) taken settled rs
          else let candidate = freeCandidate taken (idn_iface r) i (serialOf (idn_full r)) (idn_model r)
               in r\<lparr>idn_model := candidate\<rparr>
                  # settleLoop out (i + 1) ((candidate, idn_iface r) # taken)
                      ((idn_full r, candidate) # settled) rs)"

definition readerIdentities :: "string list \<Rightarrow> ReaderIdentity list" where
  "readerIdentities rawNames =
     (let out = map (firstIdentity rawNames) rawNames
      in settleLoop out 0 (map labelOf out) [] out)"

section \<open>The roster\<close>

record PresenceRoster =
  ro_readerNames :: "string list"
  ro_cardKeys :: "string list"

definition noIdentity :: ReaderIdentity where
  "noIdentity = \<lparr> idn_model = [], idn_iface = RI_Unknown, idn_full = [] \<rparr>"

definition identityForCardIn :: "PresenceRoster \<Rightarrow> string \<Rightarrow> ReaderIdentity" where
  "identityForCardIn roster cardKey =
     (if cardKey = [] \<or> cardKey \<notin> set (ro_cardKeys roster) then noIdentity
      else let index = length (takeWhile (\<lambda>k. k \<noteq> cardKey) (ro_cardKeys roster));
               identities = readerIdentities (ro_readerNames roster)
           in if index < length identities then identities ! index else noIdentity)"

definition isContactSlotOfDualInterfaceUnit :: "PresenceRoster \<Rightarrow> string \<Rightarrow> bool" where
  "isContactSlotOfDualInterfaceUnit roster cardKey =
     (idn_iface (identityForCardIn roster cardKey) = RI_Contact)"

section \<open>The search for a free label ends\<close>

lemma numbered_inject [simp]: "numbered base p = numbered base q \<longleftrightarrow> p = q"
  by (simp add: numbered_def)

text \<open>The taken labels of the form the loop still tries.\<close>

definition takenFrom :: "label list \<Rightarrow> ReaderInterface \<Rightarrow> string \<Rightarrow> nat \<Rightarrow> nat set" where
  "takenFrom taken iface base p = {q. p \<le> q \<and> (numbered base q, iface) \<in> set taken}"

lemma finite_takenFrom: "finite (takenFrom taken iface base p)"
proof -
  have "inj_on (\<lambda>q. (numbered base q, iface)) (takenFrom taken iface base p)" by (simp add: inj_on_def)
  moreover have "(\<lambda>q. (numbered base q, iface)) ` takenFrom taken iface base p \<subseteq> set taken"
    by (auto simp: takenFrom_def)
  ultimately show ?thesis by (metis finite_set finite_subset finite_imageD)
qed

lemma takenFrom_Suc:
  "takenFrom taken iface base p =
     (if labelTaken taken iface (numbered base p, p + 1) then insert p (takenFrom taken iface base (p + 1))
      else takenFrom taken iface base (p + 1))"
  by (auto simp: takenFrom_def labelTaken_def Suc_le_eq le_less)

definition searchMeasure :: "label list \<Rightarrow> ReaderInterface \<Rightarrow> string \<Rightarrow> string \<times> nat \<Rightarrow> nat" where
  "searchMeasure taken iface base s =
     card (takenFrom taken iface base (snd s)) + (if labelTaken taken iface s then 1 else 0)"

lemma searchMeasure_decreases:
  "labelTaken taken iface s \<Longrightarrow>
     searchMeasure taken iface base (nextCandidate base s) < searchMeasure taken iface base s"
proof -
  assume t: "labelTaken taken iface s"
  have "p \<notin> takenFrom taken iface base (p + 1)" for p by (simp add: takenFrom_def)
  then have "card (takenFrom taken iface base (snd s))
      = card (takenFrom taken iface base (snd s + 1))
        + (if labelTaken taken iface (nextCandidate base s) then 1 else 0)"
    using finite_takenFrom by (subst takenFrom_Suc) (simp add: nextCandidate_def)
  then show ?thesis using t by (simp add: searchMeasure_def nextCandidate_def)
qed

lemma search_ends: "\<exists>s'. while_option (labelTaken taken iface) (nextCandidate base) s = Some s'"
  by (rule measure_while_option_Some [where P = "\<lambda>_. True" and f = "searchMeasure taken iface base"])
    (simp_all add: searchMeasure_decreases)

lemma freeCandidate_free: "(freeCandidate taken iface i serial base, iface) \<notin> set taken"
proof -
  obtain s' where s': "while_option (labelTaken taken iface) (nextCandidate base)
      (firstCandidate i serial base) = Some s'" using search_ends by blast
  then have "\<not> labelTaken taken iface s'" by (rule while_option_stop)
  then show ?thesis by (simp add: freeCandidate_def while_def s' labelTaken_def)
qed

section \<open>Labels tell readers apart\<close>

text \<open>The settled names after the loop; the loop writes what they say.\<close>

fun settledAfter :: "ReaderIdentity list \<Rightarrow> nat \<Rightarrow> label list \<Rightarrow> (string \<times> string) list \<Rightarrow>
    ReaderIdentity list \<Rightarrow> (string \<times> string) list" where
  "settledAfter out i taken settled [] = settled"
| "settledAfter out i taken settled (r # rs) =
     (if map_of settled (idn_full r) \<noteq> None \<or> length (namesPerLabel out (labelOf r)) \<le> 1
      then settledAfter out (i + 1) taken settled rs
      else let candidate = freeCandidate taken (idn_iface r) i (serialOf (idn_full r)) (idn_model r)
           in settledAfter out (i + 1) ((candidate, idn_iface r) # taken)
                ((idn_full r, candidate) # settled) rs)"

definition settledModel :: "(string \<times> string) list \<Rightarrow> ReaderIdentity \<Rightarrow> ReaderIdentity" where
  "settledModel settled r =
     (case map_of settled (idn_full r) of Some model \<Rightarrow> r\<lparr>idn_model := model\<rparr> | None \<Rightarrow> r)"

lemma settledAfter_keeps:
  "map_of settled raw = Some m \<Longrightarrow> map_of (settledAfter out i taken settled rs) raw = Some m"
proof (induction rs arbitrary: i taken settled)
  case (Cons r rs)
  then show ?case by (cases "raw = idn_full r") (auto simp: Let_def)
qed simp

text \<open>The identities a list of raw names starts with: the name determines the rest.\<close>

definition byName :: "ReaderIdentity list \<Rightarrow> bool" where
  "byName out = (\<forall>r \<in> set out. \<forall>r' \<in> set out. idn_full r = idn_full r' \<longrightarrow> r = r')"

lemma byNameD: "byName out \<Longrightarrow> r \<in> set out \<Longrightarrow> r' \<in> set out \<Longrightarrow> idn_full r = idn_full r' \<Longrightarrow> r = r'"
  by (simp add: byName_def)

definition ambiguous :: "ReaderIdentity list \<Rightarrow> ReaderIdentity \<Rightarrow> bool" where
  "ambiguous out r = (1 < length (namesPerLabel out (labelOf r)))"

lemma settledAfter_only_ambiguous:
  assumes "byName out" "set rs \<subseteq> set out" "r \<in> set out" "\<not> ambiguous out r"
    and "map_of settled (idn_full r) = None"
  shows "map_of (settledAfter out i taken settled rs) (idn_full r) = None"
  using assms(2,5)
proof (induction rs arbitrary: i taken settled)
  case (Cons r' rs)
  then show ?case using assms(1,3,4) byNameD [OF assms(1), of r r']
    by (cases "idn_full r = idn_full r'") (auto simp: Let_def ambiguous_def)
qed simp

lemma settleLoop_writes_settled:
  assumes "byName out"
  shows "set rs \<subseteq> set out \<Longrightarrow> settleLoop out i taken settled rs =
           map (settledModel (settledAfter out i taken settled rs)) rs"
proof (induction rs arbitrary: i taken settled)
  case (Cons r rs)
  consider (known) m where "map_of settled (idn_full r) = Some m"
    | (clear) "map_of settled (idn_full r) = None" "\<not> ambiguous out r"
    | (clash) "map_of settled (idn_full r) = None" "ambiguous out r" by fastforce
  then show ?case
  proof cases
    case known
    then show ?thesis using Cons.IH [of "i + 1" taken settled] Cons.prems settledAfter_keeps [OF known]
      by (simp add: settledModel_def)
  next
    case clear
    then have "map_of (settledAfter out (i + 1) taken settled rs) (idn_full r) = None"
      using Cons.prems by (intro settledAfter_only_ambiguous [OF assms]) auto
    then show ?thesis using clear Cons.IH [of "i + 1" taken settled] Cons.prems
      by (simp add: settledModel_def ambiguous_def)
  next
    case clash
    let ?c = "freeCandidate taken (idn_iface r) i (serialOf (idn_full r)) (idn_model r)"
    have "map_of (settledAfter out (i + 1) ((?c, idn_iface r) # taken) ((idn_full r, ?c) # settled) rs)
            (idn_full r) = Some ?c" by (rule settledAfter_keeps) simp
    then show ?thesis
      using clash Cons.prems Cons.IH [of "i + 1" "(?c, idn_iface r) # taken" "(idn_full r, ?c) # settled"]
      by (simp add: settledModel_def ambiguous_def Let_def)
  qed
qed simp

definition settledInv :: "ReaderIdentity list \<Rightarrow> label list \<Rightarrow> (string \<times> string) list \<Rightarrow> bool" where
  "settledInv out taken settled =
     (labelOf ` set out \<subseteq> set taken
      \<and> (\<forall>r \<in> set out. \<forall>c. map_of settled (idn_full r) = Some c \<longrightarrow>
            (c, idn_iface r) \<in> set taken \<and> (c, idn_iface r) \<notin> labelOf ` set out)
      \<and> (\<forall>r \<in> set out. \<forall>r' \<in> set out. \<forall>c. map_of settled (idn_full r) = Some c
            \<and> map_of settled (idn_full r') = Some c \<and> idn_iface r = idn_iface r' \<longrightarrow> r = r'))"

lemma settledInvD:
  assumes "settledInv out taken settled" "r \<in> set out"
  shows "labelOf r \<in> set taken"
    and "map_of settled (idn_full r) = Some c \<Longrightarrow>
           (c, idn_iface r) \<in> set taken \<and> (c, idn_iface r) \<notin> labelOf ` set out"
    and "r' \<in> set out \<Longrightarrow> map_of settled (idn_full r) = Some c \<Longrightarrow> map_of settled (idn_full r') = Some c \<Longrightarrow>
           idn_iface r = idn_iface r' \<Longrightarrow> r = r'"
  using assms unfolding settledInv_def by blast+

lemma settledInv_step:
  assumes "byName out" and inv: "settledInv out taken settled" and r: "r \<in> set out"
    and c: "(c, idn_iface r) \<notin> set taken"
  shows "settledInv out ((c, idn_iface r) # taken) ((idn_full r, c) # settled)"
proof -
  have same: "x = r" if "x \<in> set out" "idn_full x = idn_full r" for x
    using byNameD [OF assms(1) that(1) r that(2)] .
  have old: "\<not> (d = c \<and> idn_iface x = idn_iface r)"
    if "x \<in> set out" "map_of settled (idn_full x) = Some d" for x d
    using settledInvD(2) [OF inv that] c by auto
  have fresh: "(c, idn_iface r) \<notin> labelOf ` set out"
    using settledInvD(1) [OF inv] c by fastforce
  have new: "map_of ((idn_full r, c) # settled) (idn_full x) = Some d \<longleftrightarrow>
      (if x = r then d = c else map_of settled (idn_full x) = Some d)" if "x \<in> set out" for x d
  proof (cases "x = r")
    case False
    then have "idn_full x \<noteq> idn_full r" using same [OF that] by blast
    then show ?thesis using False by simp
  qed auto
  show ?thesis
    unfolding settledInv_def
  proof (intro conjI ballI allI impI, goal_cases)
    case 1
    show ?case by (auto intro: settledInvD(1) [OF inv])
  next
    case (2 x d)
    then have "if x = r then d = c else map_of settled (idn_full x) = Some d" using new by blast
    then show ?case using settledInvD(2) [OF inv 2(1), of d] by (cases "x = r") auto
  next
    case (3 x d)
    then have "if x = r then d = c else map_of settled (idn_full x) = Some d" using new by blast
    then show ?case using settledInvD(2) [OF inv 3(1), of d] fresh by (cases "x = r") auto
  next
    case (4 x y d)
    then have "if x = r then d = c else map_of settled (idn_full x) = Some d"
      "if y = r then d = c else map_of settled (idn_full y) = Some d"
      using new [of x d] new [of y d] by blast+
    then show ?case
      using 4 settledInvD(3) [OF inv 4(1) 4(2)] old [OF 4(1)] old [OF 4(2)]
      by (metis (full_types))
  qed
qed

lemma settledAfter_inv:
  assumes "byName out"
  shows "set rs \<subseteq> set out \<Longrightarrow> settledInv out taken settled \<Longrightarrow>
           \<exists>taken'. settledInv out taken' (settledAfter out i taken settled rs)"
proof (induction rs arbitrary: i taken settled)
  case (Cons r rs)
  show ?case
  proof (cases "map_of settled (idn_full r) \<noteq> None \<or> length (namesPerLabel out (labelOf r)) \<le> 1")
    case True
    then show ?thesis using Cons.IH [of taken settled "i + 1"] Cons.prems by simp
  next
    case False
    let ?c = "freeCandidate taken (idn_iface r) i (serialOf (idn_full r)) (idn_model r)"
    have "settledInv out ((?c, idn_iface r) # taken) ((idn_full r, ?c) # settled)"
      using Cons.prems by (intro settledInv_step [OF assms _ _ freeCandidate_free]) auto
    then show ?thesis
      using False Cons.prems Cons.IH [of "(?c, idn_iface r) # taken" "(idn_full r, ?c) # settled" "i + 1"]
      by (simp add: Let_def)
  qed
qed auto

lemma settledAfter_ambiguous:
  "r \<in> set rs \<Longrightarrow> ambiguous out r \<Longrightarrow> map_of (settledAfter out i taken settled rs) (idn_full r) \<noteq> None"
proof (induction rs arbitrary: i taken settled)
  case (Cons r' rs)
  then show ?case
    using settledAfter_keeps by (fastforce simp: ambiguous_def Let_def)
qed simp

lemma length_remdups_gt_1: "x \<in> set xs \<Longrightarrow> y \<in> set xs \<Longrightarrow> x \<noteq> y \<Longrightarrow> 1 < length (remdups xs)"
  by (metis One_nat_def Suc_lessI card_1_singletonE length_pos_if_in_set length_remdups_card_conv set_remdups singletonD)

lemma same_label_ambiguous:
  assumes "r \<in> set out" "r' \<in> set out" "labelOf r = labelOf r'" "idn_full r \<noteq> idn_full r'"
  shows "ambiguous out r"
  unfolding ambiguous_def namesPerLabel_def
  by (rule length_remdups_gt_1 [of "idn_full r" _ "idn_full r'"]) (use assms in auto)

lemma settled_labels_differ:
  assumes "byName out" "r \<in> set out" "r' \<in> set out" "settledInv out taken settled"
    and "\<And>x. x \<in> set out \<Longrightarrow> ambiguous out x \<Longrightarrow> map_of settled (idn_full x) \<noteq> None"
    and "labelOf (settledModel settled r) = labelOf (settledModel settled r')"
  shows "idn_full r = idn_full r'"
proof (cases "map_of settled (idn_full r)"; cases "map_of settled (idn_full r')")
  assume n: "map_of settled (idn_full r) = None" "map_of settled (idn_full r') = None"
  then have "labelOf r = labelOf r'" using assms(6) by (simp add: settledModel_def)
  then show ?thesis using same_label_ambiguous [OF assms(2,3)] assms(5) [OF assms(2)] n(1) by blast
next
  fix c assume n: "map_of settled (idn_full r) = None" and c: "map_of settled (idn_full r') = Some c"
  then have "labelOf r = (c, idn_iface r')" using assms(6) by (simp add: settledModel_def labelOf_def)
  then show ?thesis using settledInvD(2) [OF assms(4,3) c] assms(2) by (auto simp: image_iff)
next
  fix c assume c: "map_of settled (idn_full r) = Some c" and n: "map_of settled (idn_full r') = None"
  then have "labelOf r' = (c, idn_iface r)" using assms(6) by (simp add: settledModel_def labelOf_def)
  then show ?thesis using settledInvD(2) [OF assms(4,2) c] assms(3) by (auto simp: image_iff)
next
  fix c d assume c: "map_of settled (idn_full r) = Some c" and d: "map_of settled (idn_full r') = Some d"
  then have "c = d" "idn_iface r = idn_iface r'" using assms(6) by (simp_all add: settledModel_def labelOf_def)
  then show ?thesis using settledInvD(3) [OF assms(4,2,3) c] d by simp
qed

lemma firstIdentity_full [simp]: "idn_full (firstIdentity rawNames raw) = raw"
  by (simp add: firstIdentity_def Let_def)

lemma byName_first: "byName (map (firstIdentity rawNames) rawNames)"
  by (auto simp: byName_def)

lemma settledModel_keeps [simp]:
  "idn_full (settledModel settled r) = idn_full r" "idn_iface (settledModel settled r) = idn_iface r"
  by (simp_all add: settledModel_def split: option.splits)

lemma readerIdentities_settled:
  obtains settled taken where
    "readerIdentities rawNames = map (settledModel settled) (map (firstIdentity rawNames) rawNames)"
    and "settledInv (map (firstIdentity rawNames) rawNames) taken settled"
    and "\<And>x. x \<in> set (map (firstIdentity rawNames) rawNames) \<Longrightarrow>
           ambiguous (map (firstIdentity rawNames) rawNames) x \<Longrightarrow> map_of settled (idn_full x) \<noteq> None"
proof -
  let ?out = "map (firstIdentity rawNames) rawNames"
  let ?st = "settledAfter ?out 0 (map labelOf ?out) [] ?out"
  have "settledInv ?out (map labelOf ?out) []" by (auto simp: settledInv_def)
  then obtain taken where "settledInv ?out taken ?st"
    using settledAfter_inv [OF byName_first order_refl] by blast
  moreover have "readerIdentities rawNames = map (settledModel ?st) ?out"
    unfolding readerIdentities_def Let_def by (rule settleLoop_writes_settled [OF byName_first order_refl])
  ultimately show thesis using settledAfter_ambiguous by (intro that)
qed

lemma length_readerIdentities [simp]: "length (readerIdentities rawNames) = length rawNames"
  by (rule readerIdentities_settled [of rawNames]) simp

lemma readerIdentities_nth:
  "i < length rawNames \<Longrightarrow> idn_full (readerIdentities rawNames ! i) = rawNames ! i
     \<and> idn_iface (readerIdentities rawNames ! i) = idn_iface (firstIdentity rawNames (rawNames ! i))"
  by (rule readerIdentities_settled [of rawNames]) simp

text \<open>C35. Labels (model and interface) tell readers apart: the identities are index-aligned with the raw
  names, carry them, and two of them have equal labels exactly when the raw names are equal.\<close>

theorem labels_identify_readers:
  "length (readerIdentities rawNames) = length rawNames \<and>
   (\<forall>i j. i < length rawNames \<longrightarrow> j < length rawNames \<longrightarrow>
      idn_full (readerIdentities rawNames ! i) = rawNames ! i \<and>
      (labelOf (readerIdentities rawNames ! i) = labelOf (readerIdentities rawNames ! j)
        \<longleftrightarrow> rawNames ! i = rawNames ! j))"
proof -
  have "labelOf (readerIdentities rawNames ! i) = labelOf (readerIdentities rawNames ! j)
        \<longleftrightarrow> rawNames ! i = rawNames ! j" if ij: "i < length rawNames" "j < length rawNames" for i j
  proof -
    let ?out = "map (firstIdentity rawNames) rawNames"
    obtain st taken where st: "readerIdentities rawNames = map (settledModel st) ?out"
      and inv: "settledInv ?out taken st"
      and amb: "\<And>x. x \<in> set ?out \<Longrightarrow> ambiguous ?out x \<Longrightarrow> map_of st (idn_full x) \<noteq> None"
      by (rule readerIdentities_settled [of rawNames]) (rule that)
    have "idn_full (?out ! i) = idn_full (?out ! j)"
      if "labelOf (settledModel st (?out ! i)) = labelOf (settledModel st (?out ! j))"
      by (rule settled_labels_differ [OF byName_first _ _ inv amb that]) (use ij in simp_all)
    then show ?thesis using ij st by auto
  qed
  then show ?thesis by (simp add: readerIdentities_nth)
qed

text \<open>C37. The search for a free label always ends, whatever labels are taken and wherever it starts, and
  the label it ends at is not taken.\<close>

theorem label_search_terminates:
  "\<exists>s. while_option (labelTaken taken iface) (nextCandidate base) (firstCandidate i serial base) = Some s
       \<and> fst s = freeCandidate taken iface i serial base \<and> (fst s, iface) \<notin> set taken"
proof -
  obtain s where "while_option (labelTaken taken iface) (nextCandidate base) (firstCandidate i serial base) = Some s"
    using search_ends by blast
  then show ?thesis using freeCandidate_free [of taken iface i serial base]
    by (auto simp: freeCandidate_def while_def)
qed

definition sample_readers :: "string list" where
  "sample_readers = [''OK 54 (KG) 00 00'', ''OK 54CL (KG) 01 00'', ''ACME 02 00'', ''ACME 03 00'', ''ACME 02 00'']"

lemma sample_identities:
  "map (\<lambda>r. (idn_model r, idn_iface r)) (readerIdentities sample_readers) =
     [(''OK 54'', RI_Contact), (''OK 54'', RI_Contactless), (''ACME (3)'', RI_Unknown),
      (''ACME (4)'', RI_Unknown), (''ACME (3)'', RI_Unknown)]"
  by code_simp

theorem labels_identify_readers_witness:
  "2 < length sample_readers \<and> 3 < length sample_readers \<and> sample_readers ! 2 \<noteq> sample_readers ! 3
   \<and> labelOf (readerIdentities sample_readers ! 2) \<noteq> labelOf (readerIdentities sample_readers ! 3)
   \<and> labelOf (readerIdentities sample_readers ! 2) = labelOf (readerIdentities sample_readers ! 4)"
proof -
  have "2 < length sample_readers" "3 < length sample_readers" "4 < length sample_readers"
    "sample_readers ! 2 \<noteq> sample_readers ! 3" "sample_readers ! 2 = sample_readers ! 4"
    by (simp_all add: sample_readers_def)
  then show ?thesis using labels_identify_readers [of sample_readers] by blast
qed

section \<open>Contact slots\<close>

lemma length_remdups_gt_1_iff:
  "x \<in> set xs \<Longrightarrow> 1 < length (remdups xs) \<longleftrightarrow> (\<exists>y \<in> set xs. y \<noteq> x)"
proof
  assume x: "x \<in> set xs" and "1 < length (remdups xs)"
  then have "card (set xs) \<noteq> 1" by (simp add: length_remdups_card_conv)
  then have "set xs \<noteq> {x}" by auto
  then show "\<exists>y \<in> set xs. y \<noteq> x" using x by blast
next
  assume "x \<in> set xs" "\<exists>y \<in> set xs. y \<noteq> x"
  then show "1 < length (remdups xs)" using length_remdups_gt_1 by metis
qed

lemma contact_iff:
  assumes "i < length rawNames"
  shows "idn_iface (readerIdentities rawNames ! i) = RI_Contact \<longleftrightarrow>
    \<not> carriesContactlessMarker (pn_base (splitPcscName (rawNames ! i)))
    \<and> serialOf (rawNames ! i) \<noteq> []
    \<and> (\<exists>raw \<in> set rawNames. raw \<noteq> rawNames ! i \<and> serialOf raw = serialOf (rawNames ! i))"
proof -
  let ?raw = "rawNames ! i"
  have "1 < length (slotsPerUnit rawNames (serialOf ?raw)) \<longleftrightarrow>
      (\<exists>raw \<in> set rawNames. raw \<noteq> ?raw \<and> serialOf raw = serialOf ?raw)" if "serialOf ?raw \<noteq> []"
    unfolding slotsPerUnit_def
    by (subst length_remdups_gt_1_iff [of ?raw]) (use assms that in auto)
  moreover have "idn_iface (readerIdentities rawNames ! i) = idn_iface (firstIdentity rawNames ?raw)"
    using readerIdentities_nth [OF assms] by blast
  ultimately show ?thesis by (auto simp: firstIdentity_def Let_def serialOf_def)
qed

end
