(* ===== verification/CardHolder.thy ===== *)
theory CardHolder
  imports Prelude WireTypes RateLimit "HOL-Library.Multiset"
begin

text \<open>
  The card side of one reader. First the routing over candidate plugins
  (\<^verbatim>\<open>operations/CardPluginRouting.h\<close>, \<^verbatim>\<open>operations/CardTypeArbitration.h\<close>,
  \<^verbatim>\<open>presence/PluginCapabilityResolver.cpp\<close>), then \<^verbatim>\<open>CardSessionHolder\<close>
  (\<^verbatim>\<open>operations/CardSessionHolder.cpp\<close>), which owns the one connection of a reader: in use, parked
  as a power hold, or absent. Plugins and card sessions belong to the middleware, so they are values
  of type variables and what they answer is an argument; a null plugin pointer is \<open>None\<close>, a thrown
  exception is \<open>Inl ()\<close>. What the holder does to the middleware is kept in its log. The lemmas show
  that a reader never has two connections and that secrets are left only with the session in use.
\<close>

section \<open>Candidate plugins\<close>

record 'p PluginApi =
  pa_capabilities :: "'p \<Rightarrow> u32"
  pa_hasCapability :: "u32 \<Rightarrow> u32 \<Rightarrow> bool"
  pa_identityData :: u32
  pa_pki :: u32
  pa_pinManagement :: u32
  pa_pluginId :: "'p \<Rightarrow> string"
  pa_probePriority :: "'p \<Rightarrow> int"

type_synonym 'p CandidateList = "'p option list"

fun filterByCapability :: "'p PluginApi \<Rightarrow> u32 \<Rightarrow> 'p CandidateList \<Rightarrow> 'p CandidateList" where
  "filterByCapability api required [] = []"
| "filterByCapability api required (None # cands) = filterByCapability api required cands"
| "filterByCapability api required (Some c # cands) =
     (if pa_hasCapability api (pa_capabilities api c) required
      then Some c # filterByCapability api required cands else filterByCapability api required cands)"

definition identityCandidates :: "'p PluginApi \<Rightarrow> 'p CandidateList \<Rightarrow> 'p CandidateList" where
  "identityCandidates api = filterByCapability api (pa_identityData api)"

definition pkiCandidates :: "'p PluginApi \<Rightarrow> 'p CandidateList \<Rightarrow> 'p CandidateList" where
  "pkiCandidates api = filterByCapability api (pa_pki api)"

fun signingCandidates :: "'p PluginApi \<Rightarrow> 'p CandidateList \<Rightarrow> 'p CandidateList" where
  "signingCandidates api [] = []"
| "signingCandidates api (None # cands) = signingCandidates api cands"
| "signingCandidates api (Some c # cands) =
     (if pa_hasCapability api (pa_capabilities api c) (pa_pki api)
         \<and> pa_hasCapability api (pa_capabilities api c) (pa_pinManagement api)
      then Some c # signingCandidates api cands else signingCandidates api cands)"

definition prioritizeCandidate :: "'p PluginApi \<Rightarrow> string \<Rightarrow> 'p CandidateList \<Rightarrow> 'p CandidateList" where
  "prioritizeCandidate api pluginId cands =
     (let match = (\<lambda>c. case c of Some p \<Rightarrow> pa_pluginId api p = pluginId | None \<Rightarrow> False) in
      if pluginId = [] then cands
      else case dropWhile (\<lambda>c. \<not> match c) cands of
             [] \<Rightarrow> cands
           | c # rest \<Rightarrow> c # takeWhile (\<lambda>c. \<not> match c) cands @ rest)"

fun unionFrom :: "'p PluginApi \<Rightarrow> u32 \<Rightarrow> 'p CandidateList \<Rightarrow> u32" where
  "unionFrom api u [] = u"
| "unionFrom api u (None # cands) = unionFrom api u cands"
| "unionFrom api u (Some c # cands) = unionFrom api (or u (pa_capabilities api c)) cands"

definition unionCapabilities :: "'p PluginApi \<Rightarrow> 'p CandidateList \<Rightarrow> u32" where
  "unionCapabilities api cands = unionFrom api 0 cands"

fun arbitrateFrom :: "'p PluginApi \<Rightarrow> 'p option \<times> bool \<Rightarrow> 'p CandidateList \<Rightarrow> 'p option \<times> bool" where
  "arbitrateFrom api wt [] = wt"
| "arbitrateFrom api wt (None # cands) = arbitrateFrom api wt cands"
| "arbitrateFrom api (winner, tied) (Some c # cands) =
     (case winner of
        None \<Rightarrow> arbitrateFrom api (Some c, False) cands
      | Some w \<Rightarrow>
          if pa_probePriority api c < pa_probePriority api w then arbitrateFrom api (Some c, False) cands
          else if pa_probePriority api c = pa_probePriority api w then arbitrateFrom api (winner, True) cands
          else arbitrateFrom api (winner, tied) cands)"

definition arbitrateCardType :: "'p PluginApi \<Rightarrow> 'p CandidateList \<Rightarrow> string" where
  "arbitrateCardType api cands =
     (case arbitrateFrom api (None, False) cands of
        (Some w, False) \<Rightarrow> pa_pluginId api w | _ \<Rightarrow> [])"

text \<open>The plugin service of the middleware, absent when the resolver was built without one.\<close>

record ('p, 's) PluginService =
  ps_findPluginForCard :: "bytes \<Rightarrow> unit + 'p option"
  ps_findAllCandidates :: "bytes \<Rightarrow> 's \<Rightarrow> unit + 'p CandidateList"

definition resolvePlugin :: "('p, 's) PluginService option \<Rightarrow> bytes \<Rightarrow> 'p option" where
  "resolvePlugin service atr =
     (case service of None \<Rightarrow> None
      | Some svc \<Rightarrow> (case ps_findPluginForCard svc atr of Inl _ \<Rightarrow> None | Inr p \<Rightarrow> p))"

definition resolveCandidates :: "('p, 's) PluginService option \<Rightarrow> bytes \<Rightarrow> 's \<Rightarrow> 'p CandidateList" where
  "resolveCandidates service atr session =
     (case service of None \<Rightarrow> []
      | Some svc \<Rightarrow>
          (let candidates = (case ps_findAllCandidates svc atr session of Inl _ \<Rightarrow> [] | Inr cs \<Rightarrow> cs)
           in if candidates = [] then
                (case ps_findPluginForCard svc atr of Inr (Some fast) \<Rightarrow> [Some fast] | _ \<Rightarrow> [])
              else candidates))"

section \<open>The session holder\<close>

definition kIdleClose :: time where
  "kIdleClose = 45 * 10 ^ 9"

definition PreReadAuth_None :: PreReadAuth where
  "PreReadAuth_None = 0"

text \<open>Answers of the session factory, and what the holder does to plugins and sessions.\<close>

datatype ('s, 'e) OpenResult = OpenThrows | OpenFailed 'e | OpenOk 's

datatype ('p, 's) CardEffect =
    Opened 's
  | HandedOut 's "'p CandidateList"
  | ClearCredentials 'p 's
  | ClearCachedPaceCredentials 's
  | ClearActiveChannel 's
  | Dropped 's

text \<open>What the middleware and the clock answer during one call; a clock that throws answers \<open>None\<close>.\<close>

record ('p, 's, 'e) CardEnv =
  ce_open :: "('s, 'e) OpenResult"
  ce_resolve :: "'s \<Rightarrow> unit + 'p CandidateList"
  ce_preReadAuth :: "'p \<Rightarrow> 's \<Rightarrow> unit + PreReadAuth"
  ce_hasLiveSecureChannel :: "'s \<Rightarrow> bool"
  ce_now :: "time option"

record ('p, 's) Holder =
  h_session :: "'s option"
  h_candidates :: "'p CandidateList"
  h_preReadAuth :: "PreReadAuth option"
  h_lastUsed :: time
  h_hold :: "'s option"
  h_log :: "('p, 's) CardEffect list"

definition holderInit :: "('p, 's) Holder" where
  "holderInit = \<lparr> h_session = None, h_candidates = [], h_preReadAuth = None, h_lastUsed = 0,
                  h_hold = None, h_log = [] \<rparr>"

definition logged :: "('p, 's) CardEffect list \<Rightarrow> ('p, 's) Holder \<Rightarrow> ('p, 's) Holder" where
  "logged es h = h\<lparr>h_log := h_log h @ es\<rparr>"

datatype ('p, 's, 'e) Acquired = AcquireThrew | AcquireError 'e | AcquireOk 's "'p CandidateList"

text \<open>The connection \<open>acquire\<close> goes on with when there is no session: the hold, or a new one.\<close>

definition takeOrOpen :: "('p, 's, 'e) CardEnv \<Rightarrow> ('p, 's) Holder \<Rightarrow>
    ('p, 's, 'e) Acquired + 's \<times> ('p, 's) Holder" where
  "takeOrOpen env h =
     (case h_hold h of
        Some s \<Rightarrow> Inr (s, h\<lparr>h_hold := None\<rparr>)
      | None \<Rightarrow> (case ce_open env of
                   OpenThrows \<Rightarrow> Inl AcquireThrew
                 | OpenFailed e \<Rightarrow> Inl (AcquireError e)
                 | OpenOk s \<Rightarrow> Inr (s, logged [Opened s] h)))"

definition handOut :: "('p, 's, 'e) CardEnv \<Rightarrow> ('p, 's) Holder \<Rightarrow> ('p, 's, 'e) Acquired \<times> ('p, 's) Holder" where
  "handOut env h =
     (case h_session h of
        None \<Rightarrow> (AcquireThrew, h)
      | Some s \<Rightarrow>
          (case ce_now env of
             None \<Rightarrow> (AcquireThrew, h)
           | Some now \<Rightarrow> (AcquireOk s (h_candidates h),
                          logged [HandedOut s (h_candidates h)] (h\<lparr>h_lastUsed := now\<rparr>))))"

definition acquire :: "('p, 's, 'e) CardEnv \<Rightarrow> ('p, 's) Holder \<Rightarrow> ('p, 's, 'e) Acquired \<times> ('p, 's) Holder" where
  "acquire env h =
     (case h_session h of
        Some _ \<Rightarrow> handOut env h
      | None \<Rightarrow>
          (case takeOrOpen env h of
             Inl a \<Rightarrow> (a, h)
           | Inr (s, h') \<Rightarrow>
               (case ce_resolve env s of
                  Inl _ \<Rightarrow> (AcquireThrew, logged [Dropped s] h')
                | Inr cands \<Rightarrow> handOut env (h'\<lparr>h_session := Some s, h_candidates := cands\<rparr>))))"

definition eraseCredentials :: "('p, 's) Holder \<Rightarrow> ('p, 's) Holder" where
  "eraseCredentials h =
     (let es = (case h_session h of
                  Some s \<Rightarrow> map (\<lambda>p. ClearCredentials p s) (List.map_filter id (h_candidates h))
                | None \<Rightarrow> [])
      in (logged es h)\<lparr>h_candidates := [], h_preReadAuth := None\<rparr>)"

definition dropping :: "'s option \<Rightarrow> ('p, 's) CardEffect list" where
  "dropping x = (case x of Some s \<Rightarrow> [Dropped s] | None \<Rightarrow> [])"

definition invalidate :: "('p, 's) Holder \<Rightarrow> ('p, 's) Holder" where
  "invalidate h =
     (let h' = eraseCredentials h
      in (logged (dropping (h_session h') @ dropping (h_hold h')) h')\<lparr>h_session := None, h_hold := None\<rparr>)"

text \<open>The first requirement other than none among the candidates; a null candidate is skipped.\<close>

fun firstPreReadAuth :: "('p, 's, 'e) CardEnv \<Rightarrow> 's \<Rightarrow> 'p CandidateList \<Rightarrow> unit + PreReadAuth" where
  "firstPreReadAuth env s [] = Inr PreReadAuth_None"
| "firstPreReadAuth env s (None # cs) = firstPreReadAuth env s cs"
| "firstPreReadAuth env s (Some p # cs) =
     (case ce_preReadAuth env p s of
        Inl u \<Rightarrow> Inl u
      | Inr m \<Rightarrow> if m \<noteq> PreReadAuth_None then Inr m else firstPreReadAuth env s cs)"

definition preReadAuth :: "('p, 's, 'e) CardEnv \<Rightarrow> ('p, 's) Holder \<Rightarrow> PreReadAuth \<times> ('p, 's) Holder" where
  "preReadAuth env h =
     (case h_preReadAuth h of
        Some m \<Rightarrow> (m, h)
      | None \<Rightarrow>
          (case acquire env h of
             (AcquireOk s cands, h') \<Rightarrow>
               (case firstPreReadAuth env s cands of
                  Inl _ \<Rightarrow> (PreReadAuth_None, h')
                | Inr m \<Rightarrow> (m, h'\<lparr>h_preReadAuth := Some m\<rparr>))
           | (_, h') \<Rightarrow> (PreReadAuth_None, h')))"

record 'p CardResolution =
  cr_candidates :: "'p CandidateList"
  cr_capabilities :: u32
  cr_preReadAuth :: PreReadAuth

definition fullResolution :: "'p PluginApi \<Rightarrow> 'e \<Rightarrow> ('p, 's, 'e) CardEnv \<Rightarrow> ('p, 's) Holder \<Rightarrow>
    ('e + 'p CardResolution) \<times> ('p, 's) Holder" where
  "fullResolution api protocolError env h =
     (case acquire env h of
        (AcquireThrew, h') \<Rightarrow> (Inl protocolError, h')
      | (AcquireError e, h') \<Rightarrow> (Inl e, h')
      | (AcquireOk s cands, h') \<Rightarrow>
          if cands = [] then
            (Inr \<lparr> cr_candidates = [], cr_capabilities = 0, cr_preReadAuth = PreReadAuth_None \<rparr>, invalidate h')
          else let (m, h'') = preReadAuth env h' in
            (Inr \<lparr> cr_candidates = cands, cr_capabilities = unionCapabilities api cands,
                   cr_preReadAuth = m \<rparr>, h''))"

definition acquireHold :: "('p, 's, 'e) CardEnv \<Rightarrow> ('p, 's) Holder \<Rightarrow> ('p, 's) Holder" where
  "acquireHold env h =
     (if h_hold h \<noteq> None \<or> h_session h \<noteq> None then h
      else case ce_open env of
             OpenOk s \<Rightarrow> (logged [Opened s] h)\<lparr>h_hold := Some s\<rparr>
           | _ \<Rightarrow> h)"

definition releaseHold :: "('p, 's) Holder \<Rightarrow> ('p, 's) Holder" where
  "releaseHold h = (logged (dropping (h_hold h)) h)\<lparr>h_hold := None\<rparr>"

definition demote :: "('p, 's, 'e) CardEnv \<Rightarrow> ('p, 's) Holder \<Rightarrow> ('p, 's) Holder" where
  "demote env h =
     (case h_session h of
        None \<Rightarrow> h
      | Some s \<Rightarrow>
          if ce_hasLiveSecureChannel env s then invalidate h
          else (logged ([ClearCachedPaceCredentials s, ClearActiveChannel s] @ dropping (h_hold h))
                  (eraseCredentials h))\<lparr>h_hold := Some s, h_session := None\<rparr>)"

definition sweepHolder :: "('p, 's, 'e) CardEnv \<Rightarrow> bool \<Rightarrow> ('p, 's) Holder \<Rightarrow> ('p, 's) Holder" where
  "sweepHolder env holdWanted h =
     (case ce_now env of
        None \<Rightarrow> h
      | Some now \<Rightarrow>
          if h_session h \<noteq> None then
            (if now - h_lastUsed h < kIdleClose then h
             else if holdWanted then demote env h else invalidate h)
          else if holdWanted then acquireHold env h else h)"

section \<open>Candidates keep their order\<close>

lemma filterByCapability_eq:
  "filterByCapability api required cands =
     filter (\<lambda>c. case c of Some p \<Rightarrow> pa_hasCapability api (pa_capabilities api p) required | None \<Rightarrow> False) cands"
  by (induction api required cands rule: filterByCapability.induct) simp_all

lemma signingCandidates_eq:
  "signingCandidates api cands =
     filterByCapability api (pa_pinManagement api) (pkiCandidates api cands)"
  unfolding pkiCandidates_def
  by (induction api cands rule: signingCandidates.induct) (simp_all add: filterByCapability_eq)

lemma mset_prioritizeCandidate: "mset (prioritizeCandidate api pluginId cands) = mset cands"
proof -
  define P where "P c = (\<not> (case c of Some p \<Rightarrow> pa_pluginId api p = pluginId | None \<Rightarrow> False))" for c
  have "mset (takeWhile P cands) + mset (dropWhile P cands) = mset cands"
    by (metis mset_append takeWhile_dropWhile_id)
  then show ?thesis
    unfolding prioritizeCandidate_def P_def [symmetric] Let_def
    by (auto simp flip: P_def split: list.splits)
qed

text \<open>The arbitration in one pass agrees with its reading: the candidates of least priority, and a
  winner only if there is exactly one.\<close>

definition leastPriority :: "'p PluginApi \<Rightarrow> 'p list \<Rightarrow> 'p list" where
  "leastPriority api ps = filter (\<lambda>p. pa_probePriority api p = Min (pa_probePriority api ` set ps)) ps"

definition arbitrationOf :: "'p PluginApi \<Rightarrow> 'p list \<Rightarrow> 'p option \<times> bool" where
  "arbitrationOf api ps =
     (case leastPriority api ps of [] \<Rightarrow> (None, False) | w # ws \<Rightarrow> (Some w, ws \<noteq> []))"

lemma leastPriority_Nil_iff [simp]: "leastPriority api ps = [] \<longleftrightarrow> ps = []"
proof (cases "ps = []")
  case False
  then have "Min (pa_probePriority api ` set ps) \<in> pa_probePriority api ` set ps" by (intro Min_in) auto
  then obtain p where "p \<in> set ps" "pa_probePriority api p = Min (pa_probePriority api ` set ps)" by auto
  then show ?thesis using False by (auto simp: leastPriority_def filter_empty_conv)
qed (simp add: leastPriority_def)

lemma leastPriority_hd:
  assumes "leastPriority api ps = w # ws"
  shows "pa_probePriority api w = Min (pa_probePriority api ` set ps)"
proof -
  have "w \<in> set (leastPriority api ps)" by (simp add: assms)
  then show ?thesis by (simp add: leastPriority_def)
qed

lemma leastPriority_snoc:
  assumes "leastPriority api ps = w # ws"
  shows "leastPriority api (ps @ [c]) =
     (if pa_probePriority api c < pa_probePriority api w then [c]
      else if pa_probePriority api c = pa_probePriority api w then w # ws @ [c] else w # ws)"
proof -
  have ps: "ps \<noteq> []" using assms by (auto simp: leastPriority_def)
  let ?m = "Min (pa_probePriority api ` set ps)"
  have m: "Min (pa_probePriority api ` set (ps @ [c])) = min (pa_probePriority api c) ?m"
    using ps by simp
  have ge: "?m \<le> pa_probePriority api p" if "p \<in> set ps" for p using that by simp
  have "filter (\<lambda>p. pa_probePriority api p = pa_probePriority api c) ps = []"
    if "pa_probePriority api c < ?m" using ge that by (auto simp: filter_empty_conv dest!: ge)
  then show ?thesis
    using assms leastPriority_hd [OF assms] unfolding leastPriority_def m
    by (auto simp: min_def)
qed

lemma arbitrateFrom_arbitrationOf:
  "arbitrateFrom api (arbitrationOf api ps) cands = arbitrationOf api (ps @ List.map_filter id cands)"
proof (induction cands arbitrary: ps)
  case Nil
  then show ?case by (cases "arbitrationOf api ps") (simp add: map_filter_simps)
next
  case (Cons c cands)
  show ?case
  proof (cases c)
    case None
    then show ?thesis using Cons.IH [of ps] by (cases "arbitrationOf api ps") (simp add: map_filter_simps)
  next
    case (Some p)
    have "arbitrateFrom api (arbitrationOf api ps) (Some p # cands)
        = arbitrateFrom api (arbitrationOf api (ps @ [p])) cands"
    proof (cases "leastPriority api ps")
      case Nil
      then have "ps = []" by simp
      then show ?thesis by (simp add: arbitrationOf_def leastPriority_def)
    next
      case (Cons w ws)
      then show ?thesis by (simp add: arbitrationOf_def leastPriority_snoc [OF Cons])
    qed
    then show ?thesis using Cons.IH [of "ps @ [p]"] Some by (simp add: map_filter_simps)
  qed
qed

lemma arbitrateCardType_spec:
  "arbitrateCardType api cands =
     (case leastPriority api (List.map_filter id cands) of [w] \<Rightarrow> pa_pluginId api w | _ \<Rightarrow> [])"
  using arbitrateFrom_arbitrationOf [of api "[]" cands]
  by (simp add: arbitrateCardType_def arbitrationOf_def leastPriority_def split: list.splits)

section \<open>Connections and secrets\<close>

text \<open>Read off the log: which plugins may hold a credential for which session, which sessions may
  cache PACE secrets or run a channel, and how many connections are open.\<close>

fun credentialStep :: "('p, 's) CardEffect \<Rightarrow> ('p \<times> 's) set \<Rightarrow> ('p \<times> 's) set" where
  "credentialStep (HandedOut s cands) L = L \<union> {(p, s) |p. Some p \<in> set cands}"
| "credentialStep (ClearCredentials p s) L = L - {(p, s)}"
| "credentialStep _ L = L"

definition credentialsLeft :: "('p, 's) CardEffect list \<Rightarrow> ('p \<times> 's) set" where
  "credentialsLeft es = fold credentialStep es {}"

fun paceStep :: "('p, 's) CardEffect \<Rightarrow> 's set \<Rightarrow> 's set" where
  "paceStep (HandedOut s cands) L = insert s L"
| "paceStep (ClearCachedPaceCredentials s) L = L - {s}"
| "paceStep (Dropped s) L = L - {s}"
| "paceStep _ L = L"

definition paceLeft :: "('p, 's) CardEffect list \<Rightarrow> 's set" where
  "paceLeft es = fold paceStep es {}"

fun channelStep :: "('p, 's) CardEffect \<Rightarrow> 's set \<Rightarrow> 's set" where
  "channelStep (HandedOut s cands) L = insert s L"
| "channelStep (ClearActiveChannel s) L = L - {s}"
| "channelStep (Dropped s) L = L - {s}"
| "channelStep _ L = L"

definition channelLeft :: "('p, 's) CardEffect list \<Rightarrow> 's set" where
  "channelLeft es = fold channelStep es {}"

fun connectionStep :: "('p, 's) CardEffect \<Rightarrow> int \<Rightarrow> int" where
  "connectionStep (Opened s) n = n + 1"
| "connectionStep (Dropped s) n = n - 1"
| "connectionStep _ n = n"

definition connections :: "('p, 's) CardEffect list \<Rightarrow> int" where
  "connections es = fold connectionStep es 0"

lemma left_append:
  "credentialsLeft (es @ fs) = fold credentialStep fs (credentialsLeft es)"
  "paceLeft (es @ fs) = fold paceStep fs (paceLeft es)"
  "channelLeft (es @ fs) = fold channelStep fs (channelLeft es)"
  "connections (es @ fs) = fold connectionStep fs (connections es)"
  by (simp_all add: credentialsLeft_def paceLeft_def channelLeft_def connections_def)

lemma clearing_credentials:
  "fold credentialStep (map (\<lambda>p. ClearCredentials p s) ps) L = L - {(p, s) |p. p \<in> set ps}"
  by (induction ps arbitrary: L) auto

lemma clearing_only_credentials:
  "fold paceStep (map (\<lambda>p. ClearCredentials p s) ps) M = M"
  "fold channelStep (map (\<lambda>p. ClearCredentials p s) ps) M = M"
  "fold connectionStep (map (\<lambda>p. ClearCredentials p s) ps) n = n"
  by (induction ps arbitrary: M n) simp_all

lemma set_map_filter_id: "set (List.map_filter id cands) = {p. Some p \<in> set cands}"
  by (induction cands) (auto simp: map_filter_simps split: option.splits)

definition held :: "'s option \<Rightarrow> int" where
  "held x = (case x of Some _ \<Rightarrow> 1 | None \<Rightarrow> 0)"

definition holderInv :: "('p, 's) Holder \<Rightarrow> bool" where
  "holderInv h =
     ((h_session h = None \<or> h_hold h = None)
      \<and> credentialsLeft (h_log h) \<subseteq> {(p, s). h_session h = Some s \<and> Some p \<in> set (h_candidates h)}
      \<and> paceLeft (h_log h) \<subseteq> set_option (h_session h)
      \<and> channelLeft (h_log h) \<subseteq> set_option (h_session h)
      \<and> connections (h_log h) = held (h_session h) + held (h_hold h))"

lemma holderInv_init: "holderInv holderInit"
  by (simp add: holderInv_def holderInit_def held_def credentialsLeft_def paceLeft_def channelLeft_def
      connections_def)

lemmas holder_simps = holderInv_def logged_def left_append held_def dropping_def

lemma handOut_inv: "holderInv h \<Longrightarrow> handOut env h = (a, h') \<Longrightarrow> holderInv h'"
  by (auto simp: handOut_def holder_simps split: option.splits)

lemma takeOrOpen_inv:
  "holderInv h \<Longrightarrow> h_session h = None \<Longrightarrow> takeOrOpen env h = Inr (s, h') \<Longrightarrow>
     h_session h' = None \<and> h_hold h' = None \<and> credentialsLeft (h_log h') = {}
     \<and> paceLeft (h_log h') = {} \<and> channelLeft (h_log h') = {} \<and> connections (h_log h') = 1"
  by (auto simp: takeOrOpen_def holder_simps split: option.splits OpenResult.splits)

lemma acquire_inv: "holderInv h \<Longrightarrow> acquire env h = (a, h') \<Longrightarrow> holderInv h'"
proof (cases "h_session h")
  case None
  assume inv: "holderInv h" and acq: "acquire env h = (a, h')"
  show ?thesis
  proof (cases "takeOrOpen env h")
    case (Inl x)
    then show ?thesis using inv acq None by (simp add: acquire_def)
  next
    case (Inr sh)
    obtain s h1 where sh: "sh = (s, h1)" by (cases sh)
    note t = takeOrOpen_inv [OF inv None Inr [unfolded sh]]
    show ?thesis
    proof (cases "ce_resolve env s")
      case (Inl x)
      then show ?thesis using acq None Inr sh t by (auto simp: acquire_def holder_simps)
    next
      case (Inr cands)
      then have "handOut env (h1\<lparr>h_session := Some s, h_candidates := cands\<rparr>) = (a, h')"
        using acq None \<open>takeOrOpen env h = Inr sh\<close> sh by (simp add: acquire_def)
      moreover have "holderInv (h1\<lparr>h_session := Some s, h_candidates := cands\<rparr>)"
        using t by (simp add: holder_simps)
      ultimately show ?thesis using handOut_inv by blast
    qed
  qed
next
  case (Some s)
  assume "holderInv h" "acquire env h = (a, h')"
  then show ?thesis using Some handOut_inv by (simp add: acquire_def)
qed

text \<open>After the credentials were erased no plugin holds one for any session.\<close>

lemma eraseCredentials_keeps [simp]:
  "h_session (eraseCredentials h) = h_session h" "h_hold (eraseCredentials h) = h_hold h"
  "h_lastUsed (eraseCredentials h) = h_lastUsed h"
  "paceLeft (h_log (eraseCredentials h)) = paceLeft (h_log h)"
  "channelLeft (h_log (eraseCredentials h)) = channelLeft (h_log h)"
  "connections (h_log (eraseCredentials h)) = connections (h_log h)"
  by (auto simp: eraseCredentials_def Let_def logged_def left_append clearing_only_credentials
      split: option.splits)

lemma eraseCredentials_erases: "holderInv h \<Longrightarrow> credentialsLeft (h_log (eraseCredentials h)) = {}"
  by (auto simp: eraseCredentials_def Let_def logged_def left_append clearing_credentials
      set_map_filter_id holderInv_def split: option.splits)

text \<open>A holder without a session in use and without any secret left in the middleware.\<close>

definition wiped :: "('p, 's) Holder \<Rightarrow> bool" where
  "wiped h = (h_session h = None \<and> credentialsLeft (h_log h) = {} \<and> paceLeft (h_log h) = {}
              \<and> channelLeft (h_log h) = {})"

lemma invalidate_wipes: "holderInv h \<Longrightarrow> wiped (invalidate h) \<and> h_hold (invalidate h) = None \<and> holderInv (invalidate h)"
  using eraseCredentials_erases [of h]
  by (auto simp: invalidate_def Let_def wiped_def holder_simps split: option.splits)

lemma demote_wipes: "holderInv h \<Longrightarrow> h_session h \<noteq> None \<Longrightarrow> wiped (demote env h) \<and> holderInv (demote env h)"
  using eraseCredentials_erases [of h] invalidate_wipes [of h]
  by (auto simp: demote_def wiped_def holder_simps split: option.splits)

lemma preReadAuth_inv: "holderInv h \<Longrightarrow> preReadAuth env h = (m, h') \<Longrightarrow> holderInv h'"
  using acquire_inv [of h env]
  by (auto simp: preReadAuth_def holderInv_def split: option.splits prod.splits Acquired.splits sum.splits)

lemma fullResolution_inv: "holderInv h \<Longrightarrow> fullResolution api e env h = (r, h') \<Longrightarrow> holderInv h'"
proof -
  assume inv: "holderInv h" and full: "fullResolution api e env h = (r, h')"
  obtain a h1 where a: "acquire env h = (a, h1)" by fastforce
  have inv1: "holderInv h1" using acquire_inv [OF inv a] .
  obtain m h2 where p: "preReadAuth env h1 = (m, h2)" by fastforce
  show ?thesis
    using full a p inv1 preReadAuth_inv [OF inv1 p] invalidate_wipes [OF inv1]
    by (cases a) (auto simp: fullResolution_def split: if_splits)
qed

lemma acquireHold_inv: "holderInv h \<Longrightarrow> holderInv (acquireHold env h)"
  by (auto simp: acquireHold_def holder_simps split: OpenResult.splits)

lemma releaseHold_inv: "holderInv h \<Longrightarrow> holderInv (releaseHold h)"
  by (auto simp: releaseHold_def holder_simps split: option.splits)

lemma sweepHolder_inv: "holderInv h \<Longrightarrow> holderInv (sweepHolder env w h)"
  using acquireHold_inv [of h env] invalidate_wipes [of h] demote_wipes [of h env]
  by (auto simp: sweepHolder_def split: option.splits)

section \<open>Runs of a holder\<close>

text \<open>The worker of the reader calls the holder one operation at a time; each call meets its own answers
  of the middleware and the clock.\<close>

datatype HolderOp = HAcquire | HInvalidate | HFullResolution | HAcquireHold | HReleaseHold | HSweep bool

fun holderStep :: "'p PluginApi \<Rightarrow> 'e \<Rightarrow> ('p, 's, 'e) CardEnv \<times> HolderOp \<Rightarrow> ('p, 's) Holder \<Rightarrow> ('p, 's) Holder" where
  "holderStep api e (env, HAcquire) h = snd (acquire env h)"
| "holderStep api e (env, HInvalidate) h = invalidate h"
| "holderStep api e (env, HFullResolution) h = snd (fullResolution api e env h)"
| "holderStep api e (env, HAcquireHold) h = acquireHold env h"
| "holderStep api e (env, HReleaseHold) h = releaseHold h"
| "holderStep api e (env, HSweep w) h = sweepHolder env w h"

definition holderRun :: "'p PluginApi \<Rightarrow> 'e \<Rightarrow> (('p, 's, 'e) CardEnv \<times> HolderOp) list \<Rightarrow> ('p, 's) Holder" where
  "holderRun api e ops = fold (holderStep api e) ops holderInit"

lemma holderStep_inv: "holderInv h \<Longrightarrow> holderInv (holderStep api e op h)"
  by (induction api e op h rule: holderStep.induct)
    (auto simp: invalidate_wipes acquireHold_inv releaseHold_inv sweepHolder_inv
      intro: acquire_inv [OF _ prod.collapse [symmetric]] fullResolution_inv [OF _ prod.collapse [symmetric]])

lemma holderRun_inv: "holderInv (holderRun api e ops)"
  unfolding holderRun_def
  by (rule fold_invariant [where Q = "\<lambda>_. True"]) (simp_all add: holderInv_init holderStep_inv)

text \<open>C19. Over every run of a reader's holder there is at most one open connection, in use or parked, and
  a credential of a plugin, a cached PACE secret or a secure channel is left only with the session in
  use: a parked connection carries none.\<close>

theorem secrets_only_in_session:
  "let h = holderRun api e ops in
     (h_session h = None \<or> h_hold h = None)
     \<and> connections (h_log h) = held (h_session h) + held (h_hold h)
     \<and> credentialsLeft (h_log h) \<subseteq> {(p, s). h_session h = Some s \<and> Some p \<in> set (h_candidates h)}
     \<and> paceLeft (h_log h) \<subseteq> set_option (h_session h)
     \<and> channelLeft (h_log h) \<subseteq> set_option (h_session h)"
  using holderRun_inv [of api e ops] by (simp add: holderInv_def Let_def)

text \<open>A sweep that finds the session idle for 45 seconds or longer ends its use and leaves no secret of
  any session behind, whether the connection is parked or closed.\<close>

theorem idle_sweep_wipes:
  assumes "ce_now env = Some now" "kIdleClose \<le> now - h_lastUsed (holderRun api e ops)"
  shows "wiped (sweepHolder env holdWanted (holderRun api e ops))"
proof (cases "h_session (holderRun api e ops)")
  case None
  then have "wiped (holderRun api e ops)"
    using holderRun_inv [of api e ops] by (auto simp: wiped_def holderInv_def)
  then show ?thesis using None assms(1)
    by (auto simp: sweepHolder_def acquireHold_def wiped_def logged_def left_append split: OpenResult.splits)
next
  case (Some s)
  then show ?thesis
    using assms invalidate_wipes [OF holderRun_inv [of api e ops]]
      demote_wipes [OF holderRun_inv [of api e ops], of env]
    by (simp add: sweepHolder_def)
qed

text \<open>A hold that is wanted can be missing: a sweep that finds a secure channel closes the connection and
  opens none, so the reader has no connection until the next sweep.\<close>

lemma wanted_hold_closed:
  "h_session h = Some s \<Longrightarrow> ce_hasLiveSecureChannel env s \<Longrightarrow> ce_now env = Some now \<Longrightarrow>
   kIdleClose \<le> now - h_lastUsed h \<Longrightarrow>
   h_session (sweepHolder env True h) = None \<and> h_hold (sweepHolder env True h) = None"
  by (simp add: sweepHolder_def demote_def invalidate_def Let_def)

definition sample_api :: "nat PluginApi" where
  "sample_api = \<lparr> pa_capabilities = (\<lambda>p. of_nat p), pa_hasCapability = (\<lambda>c r. and c r = r),
     pa_identityData = 1, pa_pki = 2, pa_pinManagement = 4,
     pa_pluginId = (\<lambda>p. to_string p), pa_probePriority = int \<rparr>"

definition sample_env :: "time \<Rightarrow> (nat, nat, nat) CardEnv" where
  "sample_env now = \<lparr> ce_open = OpenOk 7, ce_resolve = (\<lambda>s. Inr [Some 3, None, Some 6]),
     ce_preReadAuth = (\<lambda>p s. Inr 0), ce_hasLiveSecureChannel = (\<lambda>s. False), ce_now = Some now \<rparr>"

definition sample_holder :: "(nat, nat) Holder" where
  "sample_holder = holderRun sample_api (0 :: nat) [(sample_env 5, HAcquire)]"

lemmas sample_holder_simps = sample_holder_def holderRun_def sample_env_def holderInit_def acquire_def
  takeOrOpen_def handOut_def logged_def

theorem idle_sweep_wipes_witness:
  "h_session sample_holder = Some 7
   \<and> wiped (sweepHolder (sample_env (5 + kIdleClose)) True sample_holder)
   \<and> h_hold (sweepHolder (sample_env (5 + kIdleClose)) True sample_holder) = Some 7"
proof (intro conjI)
  show s: "h_session sample_holder = Some 7" by (simp add: sample_holder_simps)
  show "wiped (sweepHolder (sample_env (5 + kIdleClose)) True sample_holder)"
    unfolding sample_holder_def
    by (rule idle_sweep_wipes [of _ "5 + kIdleClose"]) (simp_all add: sample_holder_simps)
  have "h_lastUsed sample_holder = 5" by (simp add: sample_holder_simps)
  then show "h_hold (sweepHolder (sample_env (5 + kIdleClose)) True sample_holder) = Some 7"
    using s by (simp add: sweepHolder_def demote_def sample_env_def)
qed

end
