(* ===== verification/HexEncode.thy ===== *)
theory HexEncode
  imports Prelude
begin

text \<open>
  \<^verbatim>\<open>toHex\<close> of \<^verbatim>\<open>util/HexEncode.h\<close>, the one spelling of bytes as hexadecimal digits: ATRs of cards,
  the run nonce of prompt identifiers. Without a separator it identifies the bytes.
\<close>

definition hexDigits :: "bool \<Rightarrow> string" where
  "hexDigits upper = (if upper then ''0123456789ABCDEF'' else ''0123456789abcdef'')"

definition hexPair :: "bool \<Rightarrow> u8 \<Rightarrow> string" where
  "hexPair upper b = [hexDigits upper ! unat (and (drop_bit 4 b) 0x0F), hexDigits upper ! unat (and b 0x0F)]"

text \<open>The loop from the second byte on: each byte preceded by the separator, when there is one.\<close>

fun hexRest :: "char \<Rightarrow> bool \<Rightarrow> bytes \<Rightarrow> string" where
  "hexRest sep upper [] = []"
| "hexRest sep upper (b # bs) =
     (if sep \<noteq> CHR 0x00 then [sep] else []) @ hexPair upper b @ hexRest sep upper bs"

definition toHex :: "bytes \<Rightarrow> char \<Rightarrow> bool \<Rightarrow> string" where
  "toHex bs sep upper = (case bs of [] \<Rightarrow> [] | b # rest \<Rightarrow> hexPair upper b @ hexRest sep upper rest)"

lemma hexDigits_inject:
  "i < 16 \<Longrightarrow> j < 16 \<Longrightarrow> hexDigits upper ! i = hexDigits upper ! j \<Longrightarrow> i = j"
proof -
  have "distinct (hexDigits upper)" "length (hexDigits upper) = 16" by (simp_all add: hexDigits_def)
  then show "i < 16 \<Longrightarrow> j < 16 \<Longrightarrow> hexDigits upper ! i = hexDigits upper ! j \<Longrightarrow> i = j"
    by (simp add: nth_eq_iff_index_eq)
qed

lemma hexPair_inject: "hexPair upper a = hexPair upper b \<Longrightarrow> a = b"
proof -
  assume eq: "hexPair upper a = hexPair upper b"
  have low: "unat (and x 0x0F) < 16" for x :: u8
    using word_and_le1 [of x "0x0F"] by (simp add: word_le_nat_alt)
  have "and (drop_bit 4 a) 0x0F = and (drop_bit 4 b) 0x0F" "and a 0x0F = and b 0x0F"
    using eq hexDigits_inject [OF low low] by (auto simp: hexPair_def word_unat_eq_iff)
  moreover have nib: "and x 0x0F = take_bit 4 x" for x :: u8
    by (simp add: take_bit_eq_mask mask_eq_exp_minus_1)
  moreover have "take_bit 4 (drop_bit 4 x) = drop_bit 4 x" for x :: u8
    by (rule bit_word_eqI) (auto simp: bit_simps dest: bit_imp_le_length)
  ultimately have "drop_bit 4 a = drop_bit 4 b" "take_bit 4 a = take_bit 4 b" by simp_all
  then show ?thesis by (metis bits_ident)
qed

lemma length_hexPair [simp]: "length (hexPair upper b) = 2"
  by (simp add: hexPair_def)

lemma toHex_plain: "toHex bs CHR 0x00 upper = concat (map (hexPair upper) bs)"
proof -
  have "hexRest CHR 0x00 upper bs = concat (map (hexPair upper) bs)" for bs
    by (induction bs) simp_all
  then show ?thesis by (simp add: toHex_def split: list.splits)
qed

lemma toHex_inject [simp]: "toHex as CHR 0x00 upper = toHex bs CHR 0x00 upper \<longleftrightarrow> as = bs"
proof
  assume "toHex as CHR 0x00 upper = toHex bs CHR 0x00 upper"
  then show "as = bs"
    unfolding toHex_plain
  proof (induction as arbitrary: bs)
    case Nil
    then show ?case by (cases bs) (auto simp: hexPair_def)
  next
    case (Cons a as)
    then obtain b bs' where bs: "bs = b # bs'" by (cases bs) (auto simp: hexPair_def)
    then have "hexPair upper a = hexPair upper b" "concat (map (hexPair upper) as) = concat (map (hexPair upper) bs')"
      using Cons.prems by simp_all
    then show ?case using Cons.IH bs hexPair_inject by blast
  qed
qed simp

end
