(* ===== verification/Presence.thy ===== *)
theory Presence
  imports ReaderLabels CardHolder HexEncode
begin

text \<open>
  Which readers and cards there are: the published objects (\<^verbatim>\<open>presence/ObjectRegistry.cpp\<close>), the model
  of reader and card events (\<^verbatim>\<open>presence/PresenceModel.cpp\<close>), the tracker that tells the caches when a
  card is gone (\<^verbatim>\<open>presence/CardKeyTracker.cpp\<close>), the bridge from the PC/SC monitor to both
  (\<^verbatim>\<open>presence/MonitorBridge.cpp\<close>, whose dispatch runs under one mutex), and the policy of the retries
  of a card that could not be opened (\<^verbatim>\<open>presence/CardResolutionPolicy.cpp\<close>). A callback is a notice
  in the list an operation returns; a callback that was not set gives none. Identifiers are 64-bit.
\<close>

section \<open>Published objects\<close>

type_synonym ObjectId = u64

definition valid :: "ObjectId \<Rightarrow> bool" where
  "valid i = (i \<noteq> 0)"

record RegReader =
  rr_id :: ObjectId
  rr_name :: string
  rr_hasCard :: bool
  rr_card :: ObjectId
  rr_model :: string
  rr_iface :: ReaderInterface

record RegCard =
  rc_id :: ObjectId
  rc_reader :: ObjectId
  rc_capabilities :: u32
  rc_preReadAuth :: PreReadAuth
  rc_cardType :: string
  rc_atrHex :: string

record PropertyDelta =
  pd_hasCard :: bool
  pd_card :: ObjectId

datatype Notice =
    NAddReader RegReader
  | NAddCard RegCard
  | NRemoved ObjectId
  | NChanged ObjectId PropertyDelta
  | NRelabelled RegReader

text \<open>Which callbacks were set by \<^verbatim>\<open>setObservers\<close>.\<close>

record Observers =
  ob_addReader :: bool
  ob_addCard :: bool
  ob_removed :: bool
  ob_changed :: bool
  ob_relabelled :: bool

record ObjectRegistry =
  reg_readers :: "RegReader list"
  reg_cards :: "RegCard list"
  reg_observers :: Observers

definition setObservers :: "Observers \<Rightarrow> ObjectRegistry \<Rightarrow> ObjectRegistry" where
  "setObservers obs reg = reg\<lparr>reg_observers := obs\<rparr>"

definition tell :: "bool \<Rightarrow> Notice \<Rightarrow> Notice list" where
  "tell b n = (if b then [n] else [])"

definition sameLabel :: "RegReader \<Rightarrow> ReaderIdentity \<Rightarrow> bool" where
  "sameLabel r i = (rr_model r = idn_model i \<and> rr_iface r = idn_iface i)"

definition relabelled :: "RegReader \<Rightarrow> ReaderIdentity \<Rightarrow> RegReader" where
  "relabelled r i = (if sameLabel r i then r else r\<lparr>rr_model := idn_model i, rr_iface := idn_iface i\<rparr>)"

definition relabel :: "ObjectRegistry \<Rightarrow> ObjectId list \<times> ObjectRegistry" where
  "relabel reg =
     (let readers = reg_readers reg;
          labelled = zip readers (readerIdentities (map rr_name readers))
      in (map (\<lambda>(r, i). rr_id r) (filter (\<lambda>(r, i). \<not> sameLabel r i) labelled),
          reg\<lparr>reg_readers := map (\<lambda>(r, i). relabelled r i) labelled\<rparr>))"

definition findReader :: "ObjectId \<Rightarrow> RegReader list \<Rightarrow> RegReader option" where
  "findReader i readers = find (\<lambda>r. rr_id r = i) readers"

fun announceRelabels :: "ObjectRegistry \<Rightarrow> ObjectId list \<Rightarrow> ObjectId \<Rightarrow> Notice list" where
  "announceRelabels reg [] except = []"
| "announceRelabels reg (i # is) except =
     (if i = except then []
      else case findReader i (reg_readers reg) of
             Some r \<Rightarrow> tell (ob_relabelled (reg_observers reg)) (NRelabelled r)
           | None \<Rightarrow> []) @ announceRelabels reg is except"

definition contains :: "ObjectId \<Rightarrow> ObjectRegistry \<Rightarrow> bool" where
  "contains i reg =
     (list_ex (\<lambda>r. rr_id r = i) (reg_readers reg) \<or> list_ex (\<lambda>c. rc_id c = i) (reg_cards reg))"

definition addReader :: "RegReader \<Rightarrow> ObjectRegistry \<Rightarrow> Notice list \<times> ObjectRegistry" where
  "addReader reader reg =
     (if contains (rr_id reader) reg then ([], reg)
      else let (changed, reg') = relabel (reg\<lparr>reg_readers := reg_readers reg
                                   @ [reader\<lparr>rr_model := [], rr_iface := RI_Unknown\<rparr>]\<rparr>)
           in ((case findReader (rr_id reader) (reg_readers reg') of
                  Some r \<Rightarrow> tell (ob_addReader (reg_observers reg')) (NAddReader r)
                | None \<Rightarrow> [])
               @ announceRelabels reg' changed (rr_id reader), reg'))"

definition addCard :: "RegCard \<Rightarrow> ObjectRegistry \<Rightarrow> Notice list \<times> ObjectRegistry" where
  "addCard newCard reg =
     (if contains (rc_id newCard) reg then ([], reg)
      else (tell (ob_addCard (reg_observers reg)) (NAddCard newCard),
            reg\<lparr>reg_cards := reg_cards reg @ [newCard]\<rparr>))"

text \<open>\<^verbatim>\<open>find_if\<close> followed by \<^verbatim>\<open>erase\<close>: the first element goes.\<close>

fun eraseFirst :: "('a \<Rightarrow> bool) \<Rightarrow> 'a list \<Rightarrow> 'a list" where
  "eraseFirst P [] = []"
| "eraseFirst P (x # xs) = (if P x then xs else x # eraseFirst P xs)"

definition removeObject :: "ObjectId \<Rightarrow> ObjectRegistry \<Rightarrow> Notice list \<times> ObjectRegistry" where
  "removeObject i reg =
     (if list_ex (\<lambda>r. rr_id r = i) (reg_readers reg) then
        let (changed, reg') = relabel (reg\<lparr>reg_readers := eraseFirst (\<lambda>r. rr_id r = i) (reg_readers reg)\<rparr>)
        in (tell (ob_removed (reg_observers reg')) (NRemoved i) @ announceRelabels reg' changed i, reg')
      else if list_ex (\<lambda>c. rc_id c = i) (reg_cards reg) then
        (tell (ob_removed (reg_observers reg)) (NRemoved i),
         reg\<lparr>reg_cards := eraseFirst (\<lambda>c. rc_id c = i) (reg_cards reg)\<rparr>)
      else ([], reg))"

text \<open>A change through the iterator \<^verbatim>\<open>find_if\<close> returned.\<close>

fun modifyFirst :: "('a \<Rightarrow> bool) \<Rightarrow> ('a \<Rightarrow> 'a) \<Rightarrow> 'a list \<Rightarrow> 'a list" where
  "modifyFirst P f [] = []"
| "modifyFirst P f (x # xs) = (if P x then f x # xs else x # modifyFirst P f xs)"

definition updateReader :: "ObjectId \<Rightarrow> PropertyDelta \<Rightarrow> ObjectRegistry \<Rightarrow> Notice list \<times> ObjectRegistry" where
  "updateReader reader delta reg =
     (if \<not> valid reader then ([], reg)
      else case findReader reader (reg_readers reg) of
             None \<Rightarrow> ([], reg)
           | Some r \<Rightarrow>
               if rr_hasCard r = pd_hasCard delta \<and> rr_card r = pd_card delta then ([], reg)
               else (tell (ob_changed (reg_observers reg)) (NChanged reader delta),
                     reg\<lparr>reg_readers := modifyFirst (\<lambda>r. rr_id r = reader)
                          (\<lambda>r. r\<lparr>rr_hasCard := pd_hasCard delta, rr_card := pd_card delta\<rparr>) (reg_readers reg)\<rparr>))"

section \<open>The presence model\<close>

record PresenceModel =
  pm_registry :: ObjectRegistry
  pm_readerIds :: "string \<rightharpoonup> ObjectId"
  pm_cardIds :: "string \<rightharpoonup> ObjectId"
  pm_nextId :: u64

text \<open>A registry operation of the model, with the notices it gives.\<close>

type_synonym 'm noticed = "Notice list \<times> 'm"

definition onRegistry :: "(ObjectRegistry \<Rightarrow> ObjectRegistry noticed) \<Rightarrow> PresenceModel noticed \<Rightarrow> PresenceModel noticed" where
  "onRegistry f nm =
     (let (ns, m) = nm; (ns', reg) = f (pm_registry m) in (ns @ ns', m\<lparr>pm_registry := reg\<rparr>))"

definition readerIdFor :: "string \<Rightarrow> PresenceModel \<Rightarrow> ObjectId" where
  "readerIdFor name m = (case pm_readerIds m name of Some i \<Rightarrow> i | None \<Rightarrow> 0)"

definition cardIdFor :: "string \<Rightarrow> PresenceModel \<Rightarrow> ObjectId" where
  "cardIdFor readerName m = (case pm_cardIds m readerName of Some i \<Rightarrow> i | None \<Rightarrow> 0)"

definition onReaderAdded :: "string \<Rightarrow> PresenceModel noticed \<Rightarrow> PresenceModel noticed" where
  "onReaderAdded readerName nm =
     (let (ns, m) = nm in
      if pm_readerIds m readerName \<noteq> None then nm
      else let i = pm_nextId m + 1;
               m' = m\<lparr>pm_nextId := i, pm_readerIds := (pm_readerIds m)(readerName \<mapsto> i)\<rparr>
           in onRegistry (addReader \<lparr> rr_id = i, rr_name = readerName, rr_hasCard = False, rr_card = 0,
                                      rr_model = [], rr_iface = RI_Unknown \<rparr>) (ns, m'))"

definition onCardRemovedModel :: "string \<Rightarrow> PresenceModel noticed \<Rightarrow> PresenceModel noticed" where
  "onCardRemovedModel readerName nm =
     (let (ns, m) = nm in
      case pm_cardIds m readerName of
        None \<Rightarrow> nm
      | Some c \<Rightarrow>
          let (ns1, m1) = onRegistry (removeObject c) nm;
              m2 = m1\<lparr>pm_cardIds := (pm_cardIds m1)(readerName := None)\<rparr>
          in onRegistry (updateReader (readerIdFor readerName m2) \<lparr> pd_hasCard = False, pd_card = 0 \<rparr>) (ns1, m2))"

definition onReaderRemoved :: "string \<Rightarrow> PresenceModel noticed \<Rightarrow> PresenceModel noticed" where
  "onReaderRemoved readerName nm =
     (let (ns, m) = onCardRemovedModel readerName nm in
      case pm_readerIds m readerName of
        None \<Rightarrow> (ns, m)
      | Some i \<Rightarrow>
          let (ns1, m1) = onRegistry (removeObject i) (ns, m)
          in (ns1, m1\<lparr>pm_readerIds := (pm_readerIds m1)(readerName := None)\<rparr>))"

definition capsFor :: "'p PluginApi \<Rightarrow> ('p, 's) PluginService option \<Rightarrow> bytes \<Rightarrow> u32" where
  "capsFor api service atr =
     (case resolvePlugin service atr of Some p \<Rightarrow> unionCapabilities api [Some p] | None \<Rightarrow> 0)"

definition onCardInserted :: "(bytes \<Rightarrow> u32) \<Rightarrow> string \<Rightarrow> bytes \<Rightarrow> PresenceModel noticed \<Rightarrow> PresenceModel noticed" where
  "onCardInserted caps readerName atr nm =
     (let nm1 = (if pm_readerIds (snd nm) readerName = None then onReaderAdded readerName nm else nm);
          nm2 = (if pm_cardIds (snd nm1) readerName \<noteq> None then onCardRemovedModel readerName nm1 else nm1);
          (ns, m) = nm2;
          cardId = pm_nextId m + 1;
          m' = m\<lparr>pm_nextId := cardId, pm_cardIds := (pm_cardIds m)(readerName \<mapsto> cardId)\<rparr>;
          readerId = readerIdFor readerName m'
      in onRegistry (updateReader readerId \<lparr> pd_hasCard = True, pd_card = cardId \<rparr>)
           (onRegistry (addCard \<lparr> rc_id = cardId, rc_reader = readerId, rc_capabilities = caps atr,
                                  rc_preReadAuth = PreReadAuth_None, rc_cardType = [],
                                  rc_atrHex = toHex atr CHR 0x00 True \<rparr>) (ns, m')))"

section \<open>The card key tracker\<close>

type_synonym CardKeyTracker = "string \<rightharpoonup> ObjectId"

text \<open>A tracker operation returns the \<^verbatim>\<open>onKeyRemoved\<close> calls it makes when that callback is set.\<close>

definition trackerInserted :: "string \<Rightarrow> ObjectId \<Rightarrow> CardKeyTracker \<Rightarrow> (ObjectId \<times> string) list \<times> CardKeyTracker" where
  "trackerInserted readerName cardId t =
     ((case t readerName of Some previous \<Rightarrow> [(previous, readerName)] | None \<Rightarrow> []), t(readerName \<mapsto> cardId))"

definition trackerRemoved :: "string \<Rightarrow> CardKeyTracker \<Rightarrow> (ObjectId \<times> string) list \<times> CardKeyTracker" where
  "trackerRemoved readerName t =
     (case t readerName of None \<Rightarrow> ([], t)
      | Some dropped \<Rightarrow> ([(dropped, readerName)], t(readerName := None)))"

section \<open>The bridge\<close>

datatype MonitorEvent =
    EvReaderAdded string
  | EvReaderRemoved string
  | EvCardInserted string "bytes option"
  | EvCardRemoved string
  | EvError string

record Bridge =
  br_model :: PresenceModel
  br_tracker :: CardKeyTracker
  br_onKeyRemoved :: bool
  br_notices :: "Notice list"
  br_keysRemoved :: "(ObjectId \<times> string) list"

definition onModel :: "(PresenceModel noticed \<Rightarrow> PresenceModel noticed) \<Rightarrow> Bridge \<Rightarrow> Bridge" where
  "onModel f b = (let (ns, m) = f (br_notices b, br_model b) in b\<lparr>br_model := m, br_notices := ns\<rparr>)"

definition onTracker :: "(CardKeyTracker \<Rightarrow> (ObjectId \<times> string) list \<times> CardKeyTracker) \<Rightarrow> Bridge \<Rightarrow> Bridge" where
  "onTracker f b =
     (let (ks, t) = f (br_tracker b)
      in b\<lparr>br_tracker := t, br_keysRemoved := br_keysRemoved b @ (if br_onKeyRemoved b then ks else [])\<rparr>)"

fun dispatch :: "(bytes \<Rightarrow> u32) \<Rightarrow> MonitorEvent \<Rightarrow> Bridge \<Rightarrow> Bridge" where
  "dispatch caps (EvReaderAdded n) b = onModel (onReaderAdded n) b"
| "dispatch caps (EvReaderRemoved n) b = onTracker (trackerRemoved n) (onModel (onReaderRemoved n) b)"
| "dispatch caps (EvCardInserted n atr) b =
     (let b' = onModel (onCardInserted caps n (case atr of Some a \<Rightarrow> a | None \<Rightarrow> [])) b
      in onTracker (trackerInserted n (cardIdFor n (br_model b'))) b')"
| "dispatch caps (EvCardRemoved n) b = onTracker (trackerRemoved n) (onModel (onCardRemovedModel n) b)"
| "dispatch caps (EvError n) b = b"

definition allObservers :: Observers where
  "allObservers = \<lparr> ob_addReader = True, ob_addCard = True, ob_removed = True, ob_changed = True,
                    ob_relabelled = True \<rparr>"

definition emptyRegistry :: "Observers \<Rightarrow> ObjectRegistry" where
  "emptyRegistry obs = \<lparr> reg_readers = [], reg_cards = [], reg_observers = obs \<rparr>"

text \<open>The bridge with the callbacks of the registry and of the tracker set or not.\<close>

definition bridgeInit :: "Observers \<Rightarrow> bool \<Rightarrow> Bridge" where
  "bridgeInit obs onKeyRemoved =
     \<lparr> br_model = \<lparr> pm_registry = emptyRegistry obs, pm_readerIds = Map.empty, pm_cardIds = Map.empty, pm_nextId = 0 \<rparr>,
       br_tracker = Map.empty, br_onKeyRemoved = onKeyRemoved, br_notices = [], br_keysRemoved = [] \<rparr>"

definition bridgeRun :: "(bytes \<Rightarrow> u32) \<Rightarrow> Observers \<Rightarrow> bool \<Rightarrow> MonitorEvent list \<Rightarrow> Bridge" where
  "bridgeRun caps obs onKeyRemoved evs = fold (dispatch caps) evs (bridgeInit obs onKeyRemoved)"

section \<open>Retries of a card that could not be opened\<close>

text \<open>Durations are whole milliseconds as 64-bit signed counts, so the bound is written out where the code
  multiplies; \<^verbatim>\<open>milliseconds::max()\<close> is \<open>2 ^ 63 - 1\<close>.\<close>

record ResolveRetryBudget =
  rb_maxRetries :: int
  rb_firstDelay :: int
  rb_growth :: int
  rb_maxDelay :: int
  rb_totalBudget :: int

definition defaultBudget :: ResolveRetryBudget where
  "defaultBudget = \<lparr> rb_maxRetries = 3, rb_firstDelay = 50, rb_growth = 1, rb_maxDelay = 50,
                     rb_totalBudget = 2 ^ 63 - 1 \<rparr>"

record ResolveAttempts =
  ra_retries :: int
  ra_waited :: int

text \<open>C++ integer division truncates toward zero; the growth is above one where it divides.\<close>

function growDelay :: "ResolveRetryBudget \<Rightarrow> int \<Rightarrow> int \<Rightarrow> int \<Rightarrow> int" where
  "growDelay b retries i delay =
     (if i < retries \<and> rb_growth b > 1 \<and> delay < rb_maxDelay b
      then growDelay b retries (i + 1)
             (if delay > sgn (rb_maxDelay b) * (\<bar>rb_maxDelay b\<bar> div rb_growth b) then rb_maxDelay b
              else delay * rb_growth b)
      else delay)"
  by auto

termination
  by (relation "measure (\<lambda>(b, retries, i, delay). nat (retries - i))") auto

declare growDelay.simps [simp del]

definition nextRetry :: "ResolveRetryBudget \<Rightarrow> ResolveAttempts \<Rightarrow> int option" where
  "nextRetry b attempts =
     (if ra_retries attempts \<ge> rb_maxRetries b \<or> ra_waited attempts \<ge> rb_totalBudget b then None
      else Some (min (growDelay b (ra_retries attempts) 0 (min (rb_firstDelay b) (rb_maxDelay b))) (rb_maxDelay b)))"

record 'e CardProbe =
  cp_openFailure :: "'e option"
  cp_capabilities :: u32
  cp_preReadAuth :: PreReadAuth
  cp_cardType :: string

definition probe :: "'p PluginApi \<Rightarrow> 'e \<Rightarrow> ('p, 's, 'e) CardEnv \<Rightarrow> ('p, 's) Holder \<Rightarrow>
    'e CardProbe \<times> ('p, 's) Holder" where
  "probe api protocolError env h =
     (case fullResolution api protocolError env h of
        (Inl e, h') \<Rightarrow> (\<lparr> cp_openFailure = Some e, cp_capabilities = 0, cp_preReadAuth = PreReadAuth_None,
                          cp_cardType = [] \<rparr>, h')
      | (Inr r, h') \<Rightarrow> (\<lparr> cp_openFailure = None, cp_capabilities = cr_capabilities r,
                          cp_preReadAuth = cr_preReadAuth r,
                          cp_cardType = arbitrateCardType api (cr_candidates r) \<rparr>, h'))"

definition retryAfter :: "ResolveRetryBudget \<Rightarrow> ('e \<Rightarrow> bool) \<Rightarrow> 'e CardProbe \<Rightarrow> ResolveAttempts \<Rightarrow>
    int option \<times> ResolveAttempts" where
  "retryAfter b retryOn pr attempts =
     (case cp_openFailure pr of
        None \<Rightarrow> (None, attempts)
      | Some e \<Rightarrow>
          if \<not> retryOn e then (None, attempts)
          else case nextRetry b attempts of
                 None \<Rightarrow> (None, attempts)
               | Some delay \<Rightarrow> (Some delay, attempts\<lparr>ra_retries := ra_retries attempts + 1,
                                                   ra_waited := ra_waited attempts + delay\<rparr>))"

definition holdsReader :: "'e CardProbe \<Rightarrow> PresenceRoster \<Rightarrow> string \<Rightarrow> bool" where
  "holdsReader pr roster cardKey =
     (cp_capabilities pr \<noteq> 0 \<and> isContactSlotOfDualInterfaceUnit roster cardKey)"

end
