(* ===== verification/PresenceLaws.thy ===== *)
theory PresenceLaws
  imports Presence
begin

text \<open>
  What the presence objects promise. A client that applies the notices holds exactly the published
  objects. The published objects refine the plain record of which reader is there with which card. The
  tracker reports each card once, when it is gone. Retries are few, their delays grow and stay within
  the budget, and only the contact slot of a dual-interface unit is held powered.
\<close>

section \<open>Lists with unique keys\<close>

lemma find_key: "distinct (map f xs) \<Longrightarrow> x \<in> set xs \<Longrightarrow> find (\<lambda>y. f y = f x) xs = Some x"
  by (induction xs) (auto simp: image_iff)

lemma find_key_None: "k \<notin> f ` set xs \<Longrightarrow> find (\<lambda>y. f y = k) xs = None"
  by (auto simp: find_None_iff)

lemma eraseFirst_key: "distinct (map f xs) \<Longrightarrow> eraseFirst (\<lambda>y. f y = k) xs = filter (\<lambda>y. f y \<noteq> k) xs"
proof (induction xs)
  case (Cons x xs)
  have "filter (\<lambda>y. f y \<noteq> k) xs = xs" if "f x = k"
    using Cons.prems that by (auto simp: filter_id_conv image_iff)
  then show ?case using Cons by auto
qed simp

lemma modifyFirst_key:
  "distinct (map f xs) \<Longrightarrow> modifyFirst (\<lambda>y. f y = k) g xs = map (\<lambda>y. if f y = k then g y else y) xs"
proof (induction xs)
  case (Cons x xs)
  have "map (\<lambda>y. if f y = k then g y else y) xs = xs" if "f x = k"
    using Cons.prems that by (intro map_idI) (auto simp: image_iff)
  then show ?case using Cons by auto
qed simp

section \<open>Relabelling\<close>

text \<open>Everything of a reader but its label.\<close>

definition core :: "RegReader \<Rightarrow> ObjectId \<times> string \<times> bool \<times> ObjectId" where
  "core r = (rr_id r, rr_name r, rr_hasCard r, rr_card r)"

lemma core_relabelled [simp]: "core (relabelled r i) = core r"
  by (simp add: core_def relabelled_def)

lemma relabel_readers:
  "reg_readers (snd (relabel reg)) =
     map2 relabelled (reg_readers reg) (readerIdentities (map rr_name (reg_readers reg)))"
  by (simp add: relabel_def Let_def)

lemma map2_core: "length xs = length ys \<Longrightarrow> map core (map2 relabelled xs ys) = map core xs"
  by (induction xs ys rule: list_induct2) simp_all

lemma relabel_core [simp]: "map core (reg_readers (snd (relabel reg))) = map core (reg_readers reg)"
  unfolding relabel_readers by (rule map2_core) simp

lemma relabel_other [simp]:
  "reg_cards (snd (relabel reg)) = reg_cards reg"
  "reg_observers (snd (relabel reg)) = reg_observers reg"
  by (simp_all add: relabel_def Let_def)

lemma core_eqs:
  assumes "map core xs = map core ys"
  shows "map rr_id xs = map rr_id ys" "map rr_name xs = map rr_name ys" "length xs = length ys"
proof -
  have c: "map rr_id l = map fst (map core l)" "map rr_name l = map (\<lambda>c. fst (snd c)) (map core l)" for l
    by (simp_all add: core_def)
  show "map rr_id xs = map rr_id ys" "map rr_name xs = map rr_name ys"
    unfolding c by (simp_all only: assms)
  show "length xs = length ys" using assms by (rule map_eq_imp_length_eq)
qed

lemma relabel_changed:
  "i < length (reg_readers reg) \<Longrightarrow> rr_id (reg_readers reg ! i) \<notin> set (fst (relabel reg)) \<Longrightarrow>
     reg_readers (snd (relabel reg)) ! i = reg_readers reg ! i"
proof -
  assume i: "i < length (reg_readers reg)" and n: "rr_id (reg_readers reg ! i) \<notin> set (fst (relabel reg))"
  let ?ids = "readerIdentities (map rr_name (reg_readers reg))"
  have "(reg_readers reg ! i, ?ids ! i) \<in> set (zip (reg_readers reg) ?ids)"
    using i by (auto simp: set_zip)
  then have "sameLabel (reg_readers reg ! i) (?ids ! i)"
    using n by (force simp: relabel_def Let_def)
  then show ?thesis using i by (simp add: relabel_readers relabelled_def)
qed

lemma relabel_changed_ids: "set (fst (relabel reg)) \<subseteq> rr_id ` set (reg_readers reg)"
  by (auto simp: relabel_def Let_def dest: set_zip_leftD)

section \<open>A client that mirrors the registry\<close>

definition withDelta :: "ObjectId \<Rightarrow> PropertyDelta \<Rightarrow> RegReader \<Rightarrow> RegReader" where
  "withDelta i d r = (if rr_id r = i then r\<lparr>rr_hasCard := pd_hasCard d, rr_card := pd_card d\<rparr> else r)"

lemma withDelta_keeps [simp]:
  "rr_id (withDelta i d r) = rr_id r" "rr_name (withDelta i d r) = rr_name r"
  by (simp_all add: withDelta_def)

lemma map_withDelta [simp]:
  "map rr_id (map (withDelta i d) rs) = map rr_id rs" "map rr_name (map (withDelta i d) rs) = map rr_name rs"
  "rr_id ` withDelta i d ` A = rr_id ` A"
  by (auto simp: image_image)

fun mirror :: "Notice \<Rightarrow> RegReader list \<times> RegCard list \<Rightarrow> RegReader list \<times> RegCard list" where
  "mirror (NAddReader r) (rs, cs) = (rs @ [r], cs)"
| "mirror (NAddCard c) (rs, cs) = (rs, cs @ [c])"
| "mirror (NRemoved i) (rs, cs) = (filter (\<lambda>r. rr_id r \<noteq> i) rs, filter (\<lambda>c. rc_id c \<noteq> i) cs)"
| "mirror (NChanged i d) (rs, cs) = (map (withDelta i d) rs, cs)"
| "mirror (NRelabelled r) (rs, cs) = (map (\<lambda>x. if rr_id x = rr_id r then r else x) rs, cs)"

definition regOk :: "ObjectRegistry \<Rightarrow> bool" where
  "regOk reg = (distinct (map rr_id (reg_readers reg)) \<and> distinct (map rc_id (reg_cards reg))
                \<and> rr_id ` set (reg_readers reg) \<inter> rc_id ` set (reg_cards reg) = {})"

text \<open>Announcing the relabelled readers turns a list that differs from the new one only in them into it.\<close>

lemma announce_mirror:
  assumes "ob_relabelled (reg_observers reg)" "distinct (map rr_id (reg_readers reg))"
  shows "set is \<subseteq> rr_id ` set (reg_readers reg) \<Longrightarrow> map rr_id rs = map rr_id (reg_readers reg) \<Longrightarrow>
    (\<And>k. k < length rs \<Longrightarrow> rr_id (rs ! k) \<notin> set is \<or> rr_id (rs ! k) = ex \<Longrightarrow> rs ! k = reg_readers reg ! k) \<Longrightarrow>
    fold mirror (announceRelabels reg is ex) (rs, cs) = (reg_readers reg, cs)"
proof (induction "is" arbitrary: rs)
  case Nil
  then show ?case by (auto intro: nth_equalityI dest: map_eq_imp_length_eq)
next
  case (Cons i "is")
  have len: "length rs = length (reg_readers reg)" using Cons.prems(2) by (rule map_eq_imp_length_eq)
  have ids: "rr_id (rs ! k) = rr_id (reg_readers reg ! k)" if "k < length rs" for k
    using arg_cong [OF Cons.prems(2), of "\<lambda>l. l ! k"] that len by simp
  show ?case
  proof (cases "i = ex")
    case True
    have "fold mirror (announceRelabels reg is ex) (rs, cs) = (reg_readers reg, cs)"
    proof (rule Cons.IH)
      fix k assume "k < length rs" "rr_id (rs ! k) \<notin> set is \<or> rr_id (rs ! k) = ex"
      then show "rs ! k = reg_readers reg ! k" using Cons.prems(3) [of k] True by auto
    qed (use Cons.prems in simp_all)
    then show ?thesis using True by simp
  next
    case False
    obtain r where r: "r \<in> set (reg_readers reg)" "rr_id r = i" using Cons.prems(1) by auto
    then have f: "findReader i (reg_readers reg) = Some r"
      using find_key [OF assms(2), of r] by (simp add: findReader_def)
    let ?rs = "map (\<lambda>x. if rr_id x = rr_id r then r else x) rs"
    have "fold mirror (announceRelabels reg is ex) (?rs, cs) = (reg_readers reg, cs)"
    proof (rule Cons.IH)
      show "set is \<subseteq> rr_id ` set (reg_readers reg)" using Cons.prems(1) by simp
      have "map rr_id ?rs = map rr_id rs" by auto
      then show "map rr_id ?rs = map rr_id (reg_readers reg)" using Cons.prems(2) by (rule trans)
      fix k assume k: "k < length ?rs" and kk: "rr_id (?rs ! k) \<notin> set is \<or> rr_id (?rs ! k) = ex"
      show "?rs ! k = reg_readers reg ! k"
      proof (cases "rr_id (rs ! k) = i")
        case True
        then have "rr_id (reg_readers reg ! k) = rr_id r" using ids k r by simp
        then have "reg_readers reg ! k = r"
          using assms(2) r(1) k len by (auto simp: distinct_map intro: inj_onD)
        then show ?thesis using True k r by simp
      next
        case False
        then show ?thesis using k kk r Cons.prems(3) [of k] by auto
      qed
    qed
    then show ?thesis using False f assms(1) by (simp add: tell_def)
  qed
qed

datatype RegOp = RAddReader RegReader | RAddCard RegCard | RRemove ObjectId | RUpdate ObjectId PropertyDelta

fun regStep :: "RegOp \<Rightarrow> ObjectRegistry \<Rightarrow> ObjectRegistry noticed" where
  "regStep (RAddReader r) reg = addReader r reg"
| "regStep (RAddCard c) reg = addCard c reg"
| "regStep (RRemove i) reg = removeObject i reg"
| "regStep (RUpdate i d) reg = updateReader i d reg"

definition mirrored :: "ObjectRegistry \<Rightarrow> ObjectRegistry noticed \<Rightarrow> bool" where
  "mirrored reg res = (regOk (snd res) \<and> reg_observers (snd res) = reg_observers reg
     \<and> fold mirror (fst res) (reg_readers reg, reg_cards reg) = (reg_readers (snd res), reg_cards (snd res)))"

lemma regOk_relabel [simp]: "regOk (snd (relabel reg)) = regOk reg"
proof -
  have e: "map rr_id (reg_readers (snd (relabel reg))) = map rr_id (reg_readers reg)"
    by (rule core_eqs(1)) simp
  have "rr_id ` set (reg_readers (snd (relabel reg))) = rr_id ` set (reg_readers reg)"
    using arg_cong [OF e, of set] by simp
  then show ?thesis unfolding regOk_def e by simp
qed

lemma addReader_mirrored:
  assumes "regOk reg" "reg_observers reg = allObservers"
  shows "mirrored reg (addReader r reg)"
proof (cases "contains (rr_id r) reg")
  case True
  then show ?thesis using assms by (simp add: addReader_def mirrored_def)
next
  case False
  let ?r0 = "r\<lparr>rr_model := [], rr_iface := RI_Unknown\<rparr>"
  let ?reg0 = "reg\<lparr>reg_readers := reg_readers reg @ [?r0]\<rparr>"
  obtain ch reg1 where rel: "relabel ?reg0 = (ch, reg1)" by (cases "relabel ?reg0")
  note rl = relabel_core [of ?reg0, unfolded rel snd_conv] relabel_other [of ?reg0, unfolded rel snd_conv]
    relabel_changed [of _ ?reg0, unfolded rel fst_conv snd_conv] relabel_changed_ids [of ?reg0, unfolded rel fst_conv]
  have ids: "map rr_id (reg_readers reg1) = map rr_id (reg_readers reg) @ [rr_id r]"
    using core_eqs(1) [OF rl(1)] by simp
  have len: "length (reg_readers reg1) = Suc (length (reg_readers reg))"
    using arg_cong [OF ids, of length] by simp
  have ok0: "regOk ?reg0" using assms(1) False
    by (auto simp: regOk_def contains_def list_ex_iff image_iff)
  then have ok: "regOk reg1" using regOk_relabel [of ?reg0] rel by simp
  let ?r1 = "reg_readers reg1 ! length (reg_readers reg)"
  have r1: "?r1 \<in> set (reg_readers reg1)" "rr_id ?r1 = rr_id r"
    using len arg_cong [OF ids, of "\<lambda>l. l ! length (reg_readers reg)"] by (simp_all add: nth_append)
  have f: "findReader (rr_id r) (reg_readers reg1) = Some ?r1"
    using find_key [of rr_id "reg_readers reg1" ?r1] r1 ok by (simp add: findReader_def regOk_def)
  have "fold mirror (announceRelabels reg1 ch (rr_id r)) (reg_readers reg @ [?r1], reg_cards reg)
      = (reg_readers reg1, reg_cards reg)"
  proof (rule announce_mirror)
    show "ob_relabelled (reg_observers reg1)" using rl(3) assms(2) by (simp add: allObservers_def)
    show "distinct (map rr_id (reg_readers reg1))" using ok by (simp add: regOk_def)
    show "set ch \<subseteq> rr_id ` set (reg_readers reg1)"
      using rl(5) arg_cong [OF ids, of set] by auto
    show "map rr_id (reg_readers reg @ [?r1]) = map rr_id (reg_readers reg1)" using ids r1 by simp
    fix k assume k: "k < length (reg_readers reg @ [?r1])"
      and kk: "rr_id ((reg_readers reg @ [?r1]) ! k) \<notin> set ch \<or> rr_id ((reg_readers reg @ [?r1]) ! k) = rr_id r"
    show "(reg_readers reg @ [?r1]) ! k = reg_readers reg1 ! k"
    proof (cases "k < length (reg_readers reg)")
      case True
      then have "rr_id (reg_readers reg ! k) \<noteq> rr_id r"
        using False by (auto simp: contains_def list_ex_iff)
      then show ?thesis using rl(4) [of k] True kk by (auto simp: nth_append)
    next
      case False
      then have "k = length (reg_readers reg)" using k by simp
      then show ?thesis by simp
    qed
  qed
  then show ?thesis
    using False rel f ok rl(2,3) assms(2)
    by (simp add: addReader_def mirrored_def tell_def allObservers_def)
qed

lemma addCard_mirrored:
  assumes "regOk reg" "reg_observers reg = allObservers"
  shows "mirrored reg (addCard c reg)"
  using assms by (auto simp: addCard_def mirrored_def tell_def allObservers_def regOk_def contains_def
      list_ex_iff image_iff)

lemma removeObject_mirrored:
  assumes ok: "regOk reg" and obs: "reg_observers reg = allObservers"
  shows "mirrored reg (removeObject i reg)"
proof (cases "list_ex (\<lambda>r. rr_id r = i) (reg_readers reg)")
  case True
  let ?reg0 = "reg\<lparr>reg_readers := filter (\<lambda>r. rr_id r \<noteq> i) (reg_readers reg)\<rparr>"
  have er: "eraseFirst (\<lambda>r. rr_id r = i) (reg_readers reg) = filter (\<lambda>r. rr_id r \<noteq> i) (reg_readers reg)"
    using ok by (simp add: regOk_def eraseFirst_key)
  obtain ch reg1 where rel: "relabel ?reg0 = (ch, reg1)" by (cases "relabel ?reg0")
  note rl = relabel_core [of ?reg0, unfolded rel snd_conv] relabel_other [of ?reg0, unfolded rel snd_conv]
    relabel_changed [of _ ?reg0, unfolded rel fst_conv snd_conv] relabel_changed_ids [of ?reg0, unfolded rel fst_conv]
  have ids: "map rr_id (reg_readers reg1) = map rr_id (reg_readers ?reg0)" by (rule core_eqs(1) [OF rl(1)])
  have "regOk ?reg0" using ok by (auto simp: regOk_def distinct_map_filter)
  then have ok1: "regOk reg1" using regOk_relabel [of ?reg0] rel by simp
  have cs: "filter (\<lambda>c. rc_id c \<noteq> i) (reg_cards reg) = reg_cards reg"
    using True ok by (auto simp: regOk_def list_ex_iff filter_id_conv)
  have "fold mirror (announceRelabels reg1 ch i) (reg_readers ?reg0, reg_cards reg) = (reg_readers reg1, reg_cards reg)"
  proof (rule announce_mirror)
    show "ob_relabelled (reg_observers reg1)" using rl(3) obs by (simp add: allObservers_def)
    show "distinct (map rr_id (reg_readers reg1))" using ok1 by (simp add: regOk_def)
    show "set ch \<subseteq> rr_id ` set (reg_readers reg1)" using rl(5) arg_cong [OF ids, of set] by auto
    show "map rr_id (reg_readers ?reg0) = map rr_id (reg_readers reg1)" using ids by simp
    fix k assume k: "k < length (reg_readers ?reg0)"
      and kk: "rr_id (reg_readers ?reg0 ! k) \<notin> set ch \<or> rr_id (reg_readers ?reg0 ! k) = i"
    have "reg_readers ?reg0 ! k \<in> set (reg_readers ?reg0)" using k by (rule nth_mem)
    then have "rr_id (reg_readers ?reg0 ! k) \<noteq> i" by simp
    then show "reg_readers ?reg0 ! k = reg_readers reg1 ! k" using rl(4) [OF k] kk by simp
  qed
  then show ?thesis
    using True er rel ok1 rl(2,3) obs cs
    by (simp add: removeObject_def mirrored_def tell_def allObservers_def)
next
  case False
  have rs: "filter (\<lambda>r. rr_id r \<noteq> i) (reg_readers reg) = reg_readers reg"
    using False by (auto simp: list_ex_iff filter_id_conv)
  show ?thesis
    using False ok obs rs
    by (auto simp: removeObject_def mirrored_def tell_def allObservers_def regOk_def eraseFirst_key
        distinct_map_filter)
qed

lemma updateReader_mirrored:
  assumes ok: "regOk reg" and obs: "reg_observers reg = allObservers"
  shows "mirrored reg (updateReader i d reg)"
proof -
  have "distinct (map rr_id (reg_readers reg))" using ok by (simp add: regOk_def)
  then have "modifyFirst (\<lambda>r. rr_id r = i) (\<lambda>r. r\<lparr>rr_hasCard := pd_hasCard d, rr_card := pd_card d\<rparr>)
      (reg_readers reg) = map (withDelta i d) (reg_readers reg)"
    by (simp add: modifyFirst_key withDelta_def)
  moreover have "regOk (reg\<lparr>reg_readers := map (withDelta i d) (reg_readers reg)\<rparr>)"
    using ok by (simp add: regOk_def del: map_map)
  ultimately show ?thesis
    using ok obs by (simp add: updateReader_def mirrored_def tell_def allObservers_def split: option.splits)
qed

lemma regStep_mirrored:
  "regOk reg \<Longrightarrow> reg_observers reg = allObservers \<Longrightarrow> mirrored reg (regStep op reg)"
  by (cases op) (simp_all add: addReader_mirrored addCard_mirrored removeObject_mirrored updateReader_mirrored)

definition regRun :: "RegOp list \<Rightarrow> ObjectRegistry noticed \<Rightarrow> ObjectRegistry noticed" where
  "regRun ops nr = fold (\<lambda>op (ns, reg). let (ns', reg') = regStep op reg in (ns @ ns', reg')) ops nr"

lemma regRun_mirrored:
  "regOk reg \<Longrightarrow> reg_observers reg = allObservers \<Longrightarrow>
   fold mirror ns ([], []) = (reg_readers reg, reg_cards reg) \<Longrightarrow> regRun ops (ns, reg) = (ns', reg') \<Longrightarrow>
   fold mirror ns' ([], []) = (reg_readers reg', reg_cards reg')"
proof (induction ops arbitrary: ns reg)
  case (Cons op ops)
  obtain n1 r1 where s: "regStep op reg = (n1, r1)" by (cases "regStep op reg")
  have m: "mirrored reg (n1, r1)" using regStep_mirrored [OF Cons.prems(1,2), of op] s by simp
  show ?case
  proof (rule Cons.IH [of r1 "ns @ n1"])
    show "regRun ops (ns @ n1, r1) = (ns', reg')" using Cons.prems(4) s by (simp add: regRun_def)
  qed (use m Cons.prems in \<open>simp_all add: mirrored_def\<close>)
qed (simp add: regRun_def)

text \<open>C34. The notices are enough to follow the registry: a client that starts empty and applies every
  notice in order holds exactly the published readers, labels included, and cards, in order, after any
  sequence of registry operations.\<close>

theorem notices_mirror_registry:
  "fold mirror (fst (regRun ops ([], emptyRegistry allObservers))) ([], []) =
     (reg_readers (snd (regRun ops ([], emptyRegistry allObservers))),
      reg_cards (snd (regRun ops ([], emptyRegistry allObservers))))"
  by (rule regRun_mirrored [where ns = "[]" and reg = "emptyRegistry allObservers" and ops = ops])
    (simp_all add: regOk_def emptyRegistry_def)

section \<open>The table of readers and cards\<close>

text \<open>Which reader name is published under which identifier, with which card; which card has which ATR.\<close>

definition rowOf :: "RegReader \<Rightarrow> ObjectId \<times> ObjectId option" where
  "rowOf r = (rr_id r, if rr_hasCard r then Some (rr_card r) else None)"

definition table :: "ObjectRegistry \<Rightarrow> string \<rightharpoonup> ObjectId \<times> ObjectId option" where
  "table reg = map_of (map (\<lambda>r. (rr_name r, rowOf r)) (reg_readers reg))"

definition atrOf :: "ObjectRegistry \<Rightarrow> ObjectId \<rightharpoonup> string" where
  "atrOf reg = map_of (map (\<lambda>c. (rc_id c, rc_atrHex c)) (reg_cards reg))"

definition namesOk :: "ObjectRegistry \<Rightarrow> bool" where
  "namesOk reg = distinct (map rr_name (reg_readers reg))"

lemma map_eqI: "(\<And>k v. f k = Some v \<longleftrightarrow> g k = Some v) \<Longrightarrow> f = g"
  by (rule ext) (metis option.exhaust)

lemma table_iff:
  "namesOk reg \<Longrightarrow> table reg n = Some v \<longleftrightarrow> (\<exists>r \<in> set (reg_readers reg). rr_name r = n \<and> rowOf r = v)"
  unfolding table_def namesOk_def by (subst map_of_eq_Some_iff) (auto simp: comp_def)

lemma atrOf_iff:
  "regOk reg \<Longrightarrow> atrOf reg c = Some a \<longleftrightarrow> (\<exists>x \<in> set (reg_cards reg). rc_id x = c \<and> rc_atrHex x = a)"
  unfolding atrOf_def regOk_def by (subst map_of_eq_Some_iff) (auto simp: comp_def)

lemma rowOf_core: "rowOf r = (case core r of (i, n, h, c) \<Rightarrow> (i, if h then Some c else None))"
  by (simp add: rowOf_def core_def)

lemma table_core:
  assumes "map core xs = map core ys"
  shows "map (\<lambda>r. (rr_name r, rowOf r)) xs = map (\<lambda>r. (rr_name r, rowOf r)) ys"
proof -
  have "map (\<lambda>r. (rr_name r, rowOf r)) l
      = map (\<lambda>(i, n, h, c). (n, (i, if h then Some c else None))) (map core l)" for l
    by (simp add: rowOf_def core_def)
  then show ?thesis by (simp only: assms)
qed

text \<open>The identifiers in use.\<close>

definition idsOf :: "ObjectRegistry \<Rightarrow> ObjectId set" where
  "idsOf reg = rr_id ` set (reg_readers reg) \<union> rc_id ` set (reg_cards reg)"

lemma contains_iff: "contains i reg \<longleftrightarrow> i \<in> idsOf reg"
  by (auto simp: contains_def idsOf_def list_ex_iff)

lemma relabel_table:
  "table (snd (relabel reg)) = table reg" "namesOk (snd (relabel reg)) = namesOk reg"
  "idsOf (snd (relabel reg)) = idsOf reg" "atrOf (snd (relabel reg)) = atrOf reg"
proof -
  note c = relabel_core [of reg]
  have "rr_id ` set (reg_readers (snd (relabel reg))) = rr_id ` set (reg_readers reg)"
    using arg_cong [OF core_eqs(1) [OF c], of set] by simp
  then show "table (snd (relabel reg)) = table reg" "namesOk (snd (relabel reg)) = namesOk reg"
    "idsOf (snd (relabel reg)) = idsOf reg" "atrOf (snd (relabel reg)) = atrOf reg"
    unfolding table_def namesOk_def idsOf_def atrOf_def table_core [OF c] core_eqs(2) [OF c] by simp_all
qed

lemma addReader_table:
  assumes "regOk reg" "namesOk reg" "rr_id r \<notin> idsOf reg" "table reg (rr_name r) = None" "\<not> rr_hasCard r"
    "addReader r reg = (ns, reg')"
  shows "regOk reg' \<and> namesOk reg' \<and> table reg' = (table reg)(rr_name r \<mapsto> (rr_id r, None)) \<and> atrOf reg' = atrOf reg
    \<and> idsOf reg' = insert (rr_id r) (idsOf reg)"
proof -
  let ?reg0 = "reg\<lparr>reg_readers := reg_readers reg @ [r\<lparr>rr_model := [], rr_iface := RI_Unknown\<rparr>]\<rparr>"
  have nm: "rr_name r \<notin> rr_name ` set (reg_readers reg)"
    using assms(4) by (auto simp: table_def map_of_eq_None_iff image_iff)
  have reg': "reg' = snd (relabel ?reg0)"
    using assms(3,6) by (auto simp: addReader_def contains_iff split: prod.splits)
  have "regOk ?reg0" using assms(1,3) by (auto simp: regOk_def idsOf_def)
  moreover have "namesOk ?reg0" using assms(2) nm by (simp add: namesOk_def)
  moreover have "table ?reg0 = (table reg)(rr_name r \<mapsto> (rr_id r, None))"
    using assms(4,5) unfolding table_def
    by (auto simp: map_of_append rowOf_def map_add_def fun_eq_iff split: option.splits)
  moreover have "idsOf ?reg0 = insert (rr_id r) (idsOf reg)" "atrOf ?reg0 = atrOf reg"
    by (auto simp: idsOf_def atrOf_def)
  ultimately show ?thesis unfolding reg' by (simp add: relabel_table)
qed

lemma removeReader_table:
  assumes "regOk reg" "namesOk reg" "table reg n = Some (i, x)" "removeObject i reg = (ns, reg')"
  shows "regOk reg' \<and> namesOk reg' \<and> table reg' = (table reg)(n := None) \<and> atrOf reg' = atrOf reg
    \<and> idsOf reg' \<subseteq> idsOf reg"
proof -
  let ?rs = "reg_readers reg"
  let ?reg0 = "reg\<lparr>reg_readers := filter (\<lambda>r. rr_id r \<noteq> i) ?rs\<rparr>"
  obtain r where r: "r \<in> set ?rs" "rr_name r = n" "rr_id r = i"
    using assms(3) table_iff [OF assms(2)] by (auto simp: rowOf_def)
  have "eraseFirst (\<lambda>r. rr_id r = i) ?rs = filter (\<lambda>r. rr_id r \<noteq> i) ?rs"
    using assms(1) by (simp add: regOk_def eraseFirst_key)
  then have reg': "reg' = snd (relabel ?reg0)"
    using assms(4) r by (auto simp: removeObject_def list_ex_iff split: prod.splits if_splits)
  have ids: "rr_id s = i \<longleftrightarrow> s = r" if "s \<in> set ?rs" for s
    using assms(1) r that by (auto simp: regOk_def distinct_map dest: inj_onD)
  have nms: "rr_name s = n \<longleftrightarrow> s = r" if "s \<in> set ?rs" for s
    using assms(2) r that by (auto simp: namesOk_def distinct_map dest: inj_onD)
  have "regOk ?reg0" using assms(1) by (auto simp: regOk_def distinct_map_filter)
  moreover have n0: "namesOk ?reg0" using assms(2) by (simp add: namesOk_def distinct_map_filter)
  moreover have "table ?reg0 = (table reg)(n := None)"
  proof (rule map_eqI)
    fix k v
    show "table ?reg0 k = Some v \<longleftrightarrow> ((table reg)(n := None)) k = Some v"
      using table_iff [OF n0, of k v] table_iff [OF assms(2), of k v] r ids nms by auto
  qed
  moreover have "idsOf ?reg0 \<subseteq> idsOf reg" "atrOf ?reg0 = atrOf reg"
    by (auto simp: idsOf_def atrOf_def)
  ultimately show ?thesis unfolding reg' by (simp add: relabel_table)
qed

lemma addCard_table:
  assumes "regOk reg" "rc_id c \<notin> idsOf reg" "addCard c reg = (ns, reg')"
  shows "regOk reg' \<and> reg_readers reg' = reg_readers reg \<and> atrOf reg' = (atrOf reg)(rc_id c \<mapsto> rc_atrHex c)
    \<and> idsOf reg' = insert (rc_id c) (idsOf reg)"
proof -
  have reg': "reg' = reg\<lparr>reg_cards := reg_cards reg @ [c]\<rparr>"
    using assms(2,3) by (simp add: addCard_def contains_iff)
  have "atrOf reg (rc_id c) = None"
    using assms(2) by (auto simp: atrOf_def idsOf_def map_of_eq_None_iff image_iff)
  then have "atrOf reg' = (atrOf reg)(rc_id c \<mapsto> rc_atrHex c)"
    unfolding reg' atrOf_def by (auto simp: map_of_append map_add_def fun_eq_iff split: option.splits)
  then show ?thesis using assms(1,2) unfolding reg' by (auto simp: regOk_def idsOf_def)
qed

lemma removeCard_table:
  assumes "regOk reg" "atrOf reg c = Some a" "removeObject c reg = (ns, reg')"
  shows "regOk reg' \<and> reg_readers reg' = reg_readers reg \<and> atrOf reg' = (atrOf reg)(c := None) \<and> idsOf reg' \<subseteq> idsOf reg"
proof -
  obtain x where x: "x \<in> set (reg_cards reg)" "rc_id x = c" using assms(1,2) atrOf_iff by blast
  let ?reg0 = "reg\<lparr>reg_cards := filter (\<lambda>y. rc_id y \<noteq> c) (reg_cards reg)\<rparr>"
  have "\<not> list_ex (\<lambda>r. rr_id r = c) (reg_readers reg)"
    using x assms(1) by (auto simp: regOk_def list_ex_iff)
  moreover have "list_ex (\<lambda>y. rc_id y = c) (reg_cards reg)" using x by (auto simp: list_ex_iff)
  ultimately have reg': "reg' = ?reg0"
    using assms(1,3) by (simp add: removeObject_def regOk_def eraseFirst_key)
  have ok: "regOk ?reg0" using assms(1) by (auto simp: regOk_def distinct_map_filter)
  have "atrOf ?reg0 = (atrOf reg)(c := None)"
  proof (rule map_eqI)
    fix k v
    show "atrOf ?reg0 k = Some v \<longleftrightarrow> ((atrOf reg)(c := None)) k = Some v"
      using atrOf_iff [OF ok, of k v] atrOf_iff [OF assms(1), of k v] by auto
  qed
  then show ?thesis using ok unfolding reg' by (auto simp: idsOf_def)
qed

lemma updateReader_table:
  assumes "regOk reg" "namesOk reg" "table reg n = Some (i, x)" "valid i" "updateReader i d reg = (ns, reg')"
    "\<not> pd_hasCard d \<Longrightarrow> pd_card d = 0"
  shows "regOk reg' \<and> namesOk reg' \<and> atrOf reg' = atrOf reg \<and> idsOf reg' = idsOf reg
    \<and> table reg' = (table reg)(n \<mapsto> (i, if pd_hasCard d then Some (pd_card d) else None))"
proof -
  let ?rs = "reg_readers reg"
  let ?reg0 = "reg\<lparr>reg_readers := map (withDelta i d) ?rs\<rparr>"
  obtain r where r: "r \<in> set ?rs" "rr_name r = n" "rr_id r = i"
    using assms(3) table_iff [OF assms(2)] by (auto simp: rowOf_def)
  have dist: "distinct (map rr_id ?rs)" using assms(1) by (simp add: regOk_def)
  have f: "findReader i ?rs = Some r" using find_key [OF dist r(1)] r by (simp add: findReader_def)
  have ids: "rr_id s = i \<longleftrightarrow> s = r" if "s \<in> set ?rs" for s
    using assms(1) r that by (auto simp: regOk_def distinct_map dest: inj_onD)
  have nms: "rr_name s = n \<longleftrightarrow> s = r" if "s \<in> set ?rs" for s
    using assms(2) r that by (auto simp: namesOk_def distinct_map dest: inj_onD)
  have "map (withDelta i d) ?rs = ?rs" if "rr_hasCard r = pd_hasCard d" "rr_card r = pd_card d"
    by (rule map_idI) (use ids that in \<open>simp add: withDelta_def\<close>)
  then have reg': "reg' = ?reg0"
    using assms(4,5) f dist modifyFirst_key [OF dist, of i]
    by (simp add: updateReader_def withDelta_def [abs_def] split: if_splits)
  have ok: "regOk ?reg0" using assms(1) by (simp add: regOk_def del: map_map)
  have nok: "namesOk ?reg0" using assms(2) by (simp add: namesOk_def del: map_map)
  have row: "rowOf (withDelta i d s) = (if s = r then (i, if pd_hasCard d then Some (pd_card d) else None) else rowOf s)"
    if "s \<in> set ?rs" for s
    using ids [OF that] r by (cases "s = r") (simp_all add: rowOf_def withDelta_def)
  have "table ?reg0 = (table reg)(n \<mapsto> (i, if pd_hasCard d then Some (pd_card d) else None))"
  proof (rule map_eqI)
    fix k v
    have "table ?reg0 k = Some v \<longleftrightarrow> (\<exists>s \<in> set ?rs. rr_name s = k \<and> rowOf (withDelta i d s) = v)"
      using table_iff [OF nok, of k v] by auto
    also have "\<dots> \<longleftrightarrow> ((table reg)(n \<mapsto> (i, if pd_hasCard d then Some (pd_card d) else None))) k = Some v"
    proof (cases "k = n")
      case True
      then have "(\<exists>s \<in> set ?rs. rr_name s = k \<and> rowOf (withDelta i d s) = v) \<longleftrightarrow> rowOf (withDelta i d r) = v"
        using nms r by blast
      then show ?thesis using True row [OF r(1)] by (simp add: eq_commute)
    next
      case False
      then have "(\<exists>s \<in> set ?rs. rr_name s = k \<and> rowOf (withDelta i d s) = v) \<longleftrightarrow> (\<exists>s \<in> set ?rs. rr_name s = k \<and> rowOf s = v)"
        using row r(2) by (intro bex_cong refl) auto
      then show ?thesis using False table_iff [OF assms(2), of k v] by simp
    qed
    finally show "table ?reg0 k = Some v \<longleftrightarrow>
      ((table reg)(n \<mapsto> (i, if pd_hasCard d then Some (pd_card d) else None))) k = Some v" .
  qed
  then show ?thesis using ok nok unfolding reg' by (simp add: idsOf_def atrOf_def)
qed

end
