(* ===== verification/PresenceRuns.thy ===== *)
theory PresenceRuns
  imports PresenceLaws
begin

text \<open>
  Runs of the monitor bridge. The specification of presence is the plain record of which reader is
  there with which card; the published objects refine it over every sequence of events, as long as the
  64-bit counter of identifiers does not wrap. The tracker names the cards the model publishes and
  reports each card once, when it is gone.
\<close>

section \<open>The invariant of the presence model\<close>

definition presInv :: "PresenceModel \<Rightarrow> bool" where
  "presInv m = (let reg = pm_registry m in
     regOk reg \<and> namesOk reg
     \<and> pm_readerIds m = (\<lambda>n. map_option fst (table reg n))
     \<and> pm_cardIds m = (\<lambda>n. Option.bind (table reg n) snd)
     \<and> (\<forall>c. atrOf reg c \<noteq> None \<longleftrightarrow> (\<exists>n i. table reg n = Some (i, Some c)))
     \<and> (\<forall>n n' i i' c. table reg n = Some (i, Some c) \<longrightarrow> table reg n' = Some (i', Some c) \<longrightarrow> n = n')
     \<and> (\<forall>x \<in> idsOf reg. x \<noteq> 0 \<and> unat x \<le> unat (pm_nextId m)))"

definition published :: "PresenceModel \<Rightarrow> string \<rightharpoonup> string option" where
  "published m n =
     map_option (\<lambda>(i, c). Option.bind c (atrOf (pm_registry m))) (table (pm_registry m) n)"

lemma presInvI:
  assumes "regOk (pm_registry m)" "namesOk (pm_registry m)"
    "\<And>n. pm_readerIds m n = map_option fst (table (pm_registry m) n)"
    "\<And>n. pm_cardIds m n = Option.bind (table (pm_registry m) n) snd"
    "\<And>c. atrOf (pm_registry m) c \<noteq> None \<longleftrightarrow> (\<exists>n i. table (pm_registry m) n = Some (i, Some c))"
    "\<And>n n' i i' c. table (pm_registry m) n = Some (i, Some c) \<Longrightarrow>
       table (pm_registry m) n' = Some (i', Some c) \<Longrightarrow> n = n'"
    "\<And>x. x \<in> idsOf (pm_registry m) \<Longrightarrow> x \<noteq> 0 \<and> unat x \<le> unat (pm_nextId m)"
  shows "presInv m"
  using assms unfolding presInv_def Let_def fun_eq_iff by blast

lemma presInvD:
  assumes "presInv m"
  shows "regOk (pm_registry m)" "namesOk (pm_registry m)"
    "pm_readerIds m n = map_option fst (table (pm_registry m) n)"
    "pm_cardIds m n = Option.bind (table (pm_registry m) n) snd"
    "atrOf (pm_registry m) c \<noteq> None \<longleftrightarrow> (\<exists>n i. table (pm_registry m) n = Some (i, Some c))"
    "table (pm_registry m) n1 = Some (i1, Some c1) \<Longrightarrow> table (pm_registry m) n2 = Some (i2, Some c1) \<Longrightarrow> n1 = n2"
    "x \<in> idsOf (pm_registry m) \<Longrightarrow> x \<noteq> 0 \<and> unat x \<le> unat (pm_nextId m)"
  using assms unfolding presInv_def Let_def fun_eq_iff by blast+

lemma table_ids: "namesOk reg \<Longrightarrow> table reg n = Some (i, x) \<Longrightarrow> i \<in> idsOf reg"
  by (auto simp: table_iff rowOf_def idsOf_def)

lemma atrOf_ids: "regOk reg \<Longrightarrow> atrOf reg c = Some a \<Longrightarrow> c \<in> idsOf reg"
  by (auto simp: atrOf_iff idsOf_def)

text \<open>An identifier above the counter is in no table.\<close>

lemma fresh_id:
  assumes "presInv m" "unat (pm_nextId m) + 1 < 2 ^ 64"
  shows "unat (pm_nextId m + 1) = unat (pm_nextId m) + 1" "pm_nextId m + 1 \<noteq> 0"
    "pm_nextId m + 1 \<notin> idsOf (pm_registry m)"
proof -
  show u: "unat (pm_nextId m + 1) = unat (pm_nextId m) + 1"
    using assms(2) by (subst unat_add_lem [THEN iffD1]) simp_all
  then show "pm_nextId m + 1 \<noteq> 0" by (metis Suc_eq_plus1 nat.distinct(1) unat_0)
  show "pm_nextId m + 1 \<notin> idsOf (pm_registry m)"
    using presInvD(7) [OF assms(1), of "pm_nextId m + 1"] u by auto
qed

text \<open>A change at one reader does not change who holds another card.\<close>

lemma holder_upd:
  assumes "\<And>j. t k \<noteq> Some (j, Some c)" "\<And>j. v \<noteq> Some (j, Some c)"
  shows "(\<exists>n i. (t(k := v)) n = Some (i, Some c)) \<longleftrightarrow> (\<exists>n i. t n = Some (i, Some c))"
  using assms by (metis fun_upd_other fun_upd_same)

section \<open>The operations of the model\<close>

lemma onReaderAdded_inv:
  assumes inv: "presInv m" and new: "pm_readerIds m n = None" and room: "unat (pm_nextId m) + 1 < 2 ^ 64"
    and step: "onReaderAdded n (ns, m) = (ns', m')"
  shows "presInv m' \<and> published m' = (published m)(n \<mapsto> None) \<and> unat (pm_nextId m') = unat (pm_nextId m) + 1
    \<and> pm_cardIds m' = pm_cardIds m \<and> pm_cardIds m n = None \<and> pm_readerIds m' n \<noteq> None"
proof -
  let ?i = "pm_nextId m + 1"
  let ?r = "\<lparr> rr_id = ?i, rr_name = n, rr_hasCard = False, rr_card = 0, rr_model = [], rr_iface = RI_Unknown \<rparr>"
  note fr = fresh_id [OF inv room]
  have tn: "table (pm_registry m) n = None" using presInvD(3) [OF inv, of n] new by simp
  obtain ns1 reg' where add: "addReader ?r (pm_registry m) = (ns1, reg')"
    by (cases "addReader ?r (pm_registry m)")
  have m': "m' = m\<lparr>pm_nextId := ?i, pm_readerIds := (pm_readerIds m)(n \<mapsto> ?i), pm_registry := reg'\<rparr>"
    using step new add by (simp add: onReaderAdded_def onRegistry_def Let_def)
  have t: "regOk reg' \<and> namesOk reg' \<and> table reg' = (table (pm_registry m))(n \<mapsto> (?i, None))
      \<and> atrOf reg' = atrOf (pm_registry m) \<and> idsOf reg' = insert ?i (idsOf (pm_registry m))"
    using addReader_table [OF presInvD(1,2) [OF inv], of ?r ns1 reg'] fr(3) tn add by simp
  have "presInv m'"
  proof (rule presInvI, goal_cases)
    case (5 c)
    have "(\<exists>k j. table reg' k = Some (j, Some c)) \<longleftrightarrow> (\<exists>k j. table (pm_registry m) k = Some (j, Some c))"
      using t tn by (auto simp: holder_upd simp del: fun_upd_apply)
    then show ?case using presInvD(5) [OF inv, of c] t unfolding m' by simp
  next
    case (6 n1 n2 i1 i2 c)
    then show ?case using presInvD(6) [OF inv, of n1 i1 c n2 i2] t unfolding m' by (auto split: if_splits)
  next
    case (7 x)
    then show ?case using presInvD(7) [OF inv, of x] t fr unfolding m' by auto
  qed (use t presInvD(3,4) [OF inv] tn in \<open>auto simp: m'\<close>)
  moreover have "published m' = (published m)(n \<mapsto> None)"
    by (rule ext) (use t in \<open>simp add: published_def m'\<close>)
  ultimately show ?thesis using fr(1) presInvD(4) [OF inv, of n] tn by (simp add: m')
qed

lemma onCardRemoved_inv:
  assumes inv: "presInv m" and present: "pm_cardIds m n = Some c"
    and step: "onCardRemovedModel n (ns, m) = (ns', m')"
  shows "presInv m' \<and> published m' = (published m)(n \<mapsto> None) \<and> pm_nextId m' = pm_nextId m
    \<and> pm_cardIds m' = (pm_cardIds m)(n := None) \<and> pm_readerIds m' = pm_readerIds m"
proof -
  let ?reg = "pm_registry m"
  obtain i where tn: "table ?reg n = Some (i, Some c)"
    using presInvD(4) [OF inv, of n] present by (cases "table ?reg n") auto
  then obtain a where a: "atrOf ?reg c = Some a" using presInvD(5) [OF inv, of c] by auto
  have rid: "pm_readerIds m n = Some i" using presInvD(3) [OF inv, of n] tn by simp
  obtain ns1 reg1 where rm: "removeObject c ?reg = (ns1, reg1)" by (cases "removeObject c ?reg")
  have t1: "regOk reg1 \<and> reg_readers reg1 = reg_readers ?reg \<and> atrOf reg1 = (atrOf ?reg)(c := None) \<and> idsOf reg1 \<subseteq> idsOf ?reg"
    using removeCard_table [OF presInvD(1) [OF inv] a rm] .
  then have t1': "table reg1 = table ?reg" "namesOk reg1"
    using presInvD(2) [OF inv] by (simp_all add: table_def namesOk_def)
  have v: "valid i" using presInvD(7) [OF inv, of i] table_ids [OF presInvD(2) [OF inv] tn] by (simp add: valid_def)
  let ?d = "\<lparr> pd_hasCard = False, pd_card = 0 \<rparr>"
  obtain ns2 reg2 where up: "updateReader i ?d reg1 = (ns2, reg2)" by (cases "updateReader i ?d reg1")
  have t2: "regOk reg2 \<and> namesOk reg2 \<and> atrOf reg2 = atrOf reg1 \<and> idsOf reg2 = idsOf reg1
      \<and> table reg2 = (table reg1)(n \<mapsto> (i, None))"
    using updateReader_table [OF conjunct1 [OF t1] t1'(2) _ v up, of n "Some c"] tn t1'(1) by simp
  have m': "m' = m\<lparr>pm_cardIds := (pm_cardIds m)(n := None), pm_registry := reg2\<rparr>"
    using step present rm up rid by (simp add: onCardRemovedModel_def onRegistry_def Let_def readerIdFor_def)
  have other: "k = n" if "table ?reg k = Some (j, Some c)" for k j
    using presInvD(6) [OF inv that tn] .
  have "presInv m'"
  proof (rule presInvI, goal_cases)
    case (3 k)
    then show ?case using presInvD(3) [OF inv, of k] t2 t1' tn unfolding m' by auto
  next
    case (4 k)
    then show ?case using presInvD(4) [OF inv, of k] t2 t1' unfolding m' by auto
  next
    case (5 d)
    show ?case
    proof (cases "d = c")
      case True
      then show ?thesis using t2 t1 t1' other unfolding m' by (auto split: if_splits)
    next
      case False
      then have "(\<exists>k j. table reg2 k = Some (j, Some d)) \<longleftrightarrow> (\<exists>k j. table ?reg k = Some (j, Some d))"
        using t2 t1' tn by (auto simp: holder_upd simp del: fun_upd_apply)
      then show ?thesis using False presInvD(5) [OF inv, of d] t2 t1 unfolding m' by simp
    qed
  next
    case (6 n1 n2 i1 i2 d)
    then show ?case using presInvD(6) [OF inv, of n1 i1 d n2 i2] t2 t1' unfolding m' by (auto split: if_splits)
  next
    case (7 x)
    then show ?case using presInvD(7) [OF inv, of x] t2 t1 unfolding m' by auto
  qed (use t2 in \<open>simp_all add: m'\<close>)
  moreover have "published m' k = ((published m)(n \<mapsto> None)) k" for k
  proof (cases "table ?reg k")
    case (Some y)
    then show ?thesis using t2 t1 t1' other [of k] unfolding published_def m'
      by (cases y) (auto split: bind_splits)
  qed (use t2 t1' in \<open>auto simp: published_def m'\<close>)
  ultimately show ?thesis by (auto simp: m')
qed

lemma removeReader_inv:
  assumes inv: "presInv m" and tn: "table (pm_registry m) n = Some (i, None)"
    and rm: "removeObject i (pm_registry m) = (ns, reg')"
  shows "presInv (m\<lparr>pm_registry := reg', pm_readerIds := (pm_readerIds m)(n := None)\<rparr>)
    \<and> published (m\<lparr>pm_registry := reg', pm_readerIds := (pm_readerIds m)(n := None)\<rparr>) = (published m)(n := None)"
proof -
  let ?m = "m\<lparr>pm_registry := reg', pm_readerIds := (pm_readerIds m)(n := None)\<rparr>"
  have t: "regOk reg' \<and> namesOk reg' \<and> table reg' = (table (pm_registry m))(n := None)
      \<and> atrOf reg' = atrOf (pm_registry m) \<and> idsOf reg' \<subseteq> idsOf (pm_registry m)"
    using removeReader_table [OF presInvD(1,2) [OF inv] tn rm] .
  have "presInv ?m"
  proof (rule presInvI, goal_cases)
    case (4 k)
    then show ?case using presInvD(4) [OF inv, of k] t tn by auto
  next
    case (5 c)
    have "(\<exists>k j. table reg' k = Some (j, Some c)) \<longleftrightarrow> (\<exists>k j. table (pm_registry m) k = Some (j, Some c))"
      using t tn by (auto simp: holder_upd simp del: fun_upd_apply)
    then show ?case using presInvD(5) [OF inv, of c] t by simp
  next
    case (6 n1 n2 i1 i2 d)
    then show ?case using presInvD(6) [OF inv, of n1 i1 d n2 i2] t by (auto split: if_splits)
  next
    case (7 x)
    then show ?case using presInvD(7) [OF inv, of x] t by auto
  qed (use t presInvD(3) [OF inv] in auto)
  moreover have "published ?m = (published m)(n := None)"
    by (rule ext) (use t in \<open>simp add: published_def\<close>)
  ultimately show ?thesis by blast
qed

lemma onReaderRemoved_inv:
  assumes inv: "presInv m" and step: "onReaderRemoved n (ns, m) = (ns', m')"
  shows "presInv m' \<and> published m' = (published m)(n := None) \<and> pm_nextId m' = pm_nextId m
    \<and> pm_cardIds m' = (pm_cardIds m)(n := None)"
proof -
  obtain ns1 m1 where s1: "onCardRemovedModel n (ns, m) = (ns1, m1)"
    by (cases "onCardRemovedModel n (ns, m)")
  have one: "presInv m1 \<and> (published m1)(n := None) = (published m)(n := None) \<and> pm_nextId m1 = pm_nextId m
    \<and> pm_cardIds m1 = (pm_cardIds m)(n := None)"
  proof (cases "pm_cardIds m n")
    case None
    then have "m1 = m" using s1 by (simp add: onCardRemovedModel_def)
    then show ?thesis using inv None by (auto simp: fun_upd_idem)
  next
    case (Some c)
    then show ?thesis using onCardRemoved_inv [OF inv Some s1] by simp
  qed
  show ?thesis
  proof (cases "table (pm_registry m1) n")
    case None
    then have "pm_readerIds m1 n = None" "published m1 n = None"
      using presInvD(3) [OF conjunct1 [OF one], of n] by (simp_all add: published_def)
    then show ?thesis using step s1 one by (simp add: onReaderRemoved_def fun_upd_idem)
  next
    case (Some y)
    moreover have "pm_cardIds m1 n = None" using one by simp
    ultimately obtain i where tn: "table (pm_registry m1) n = Some (i, None)"
      using presInvD(4) [OF conjunct1 [OF one], of n] by (cases y) auto
    obtain ns2 reg2 where rm: "removeObject i (pm_registry m1) = (ns2, reg2)"
      by (cases "removeObject i (pm_registry m1)")
    have "m' = m1\<lparr>pm_registry := reg2, pm_readerIds := (pm_readerIds m1)(n := None)\<rparr>"
      using step s1 tn rm presInvD(3) [OF conjunct1 [OF one], of n]
      by (simp add: onReaderRemoved_def onRegistry_def)
    then show ?thesis using removeReader_inv [OF conjunct1 [OF one] tn rm] one by simp
  qed
qed

lemma insertCard_inv:
  assumes inv: "presInv m" and tn: "table (pm_registry m) n = Some (i, None)"
    and room: "unat (pm_nextId m) + 1 < 2 ^ 64" and cid: "cid = pm_nextId m + 1"
    and card: "rc_id x = cid" "rc_atrHex x = a"
    and add: "addCard x (pm_registry m) = (ns1, reg1)"
    and up: "updateReader i \<lparr> pd_hasCard = True, pd_card = cid \<rparr> reg1 = (ns2, reg2)"
    and m': "m' = m\<lparr>pm_nextId := cid, pm_cardIds := (pm_cardIds m)(n \<mapsto> cid), pm_registry := reg2\<rparr>"
  shows "presInv m' \<and> published m' = (published m)(n \<mapsto> Some a)"
proof -
  let ?reg = "pm_registry m"
  note fr = fresh_id [OF inv room, folded cid]
  have t1: "regOk reg1 \<and> reg_readers reg1 = reg_readers ?reg \<and> atrOf reg1 = (atrOf ?reg)(cid \<mapsto> a)
      \<and> idsOf reg1 = insert cid (idsOf ?reg)"
    using addCard_table [OF presInvD(1) [OF inv] _ add] fr(3) card by simp
  then have t1': "table reg1 = table ?reg" "namesOk reg1"
    using presInvD(2) [OF inv] by (simp_all add: table_def namesOk_def)
  have v: "valid i" using presInvD(7) [OF inv, of i] table_ids [OF presInvD(2) [OF inv] tn] by (simp add: valid_def)
  have t2: "regOk reg2 \<and> namesOk reg2 \<and> atrOf reg2 = atrOf reg1 \<and> idsOf reg2 = idsOf reg1
      \<and> table reg2 = (table reg1)(n \<mapsto> (i, Some cid))"
    using updateReader_table [OF conjunct1 [OF t1] t1'(2) _ v up, of n None] tn t1'(1) by simp
  have free: "table ?reg k \<noteq> Some (j, Some cid)" for k j
    using presInvD(5) [OF inv, of cid] atrOf_ids [OF presInvD(1) [OF inv], of cid] fr(3) by auto
  have "presInv m'"
  proof (rule presInvI, goal_cases)
    case (3 k)
    then show ?case using presInvD(3) [OF inv, of k] t2 t1' tn unfolding m' by auto
  next
    case (4 k)
    then show ?case using presInvD(4) [OF inv, of k] t2 t1' unfolding m' by auto
  next
    case (5 d)
    show ?case
    proof (cases "d = cid")
      case True
      then show ?thesis using t2 t1 t1' unfolding m' by auto
    next
      case False
      then have "(\<exists>k j. table reg2 k = Some (j, Some d)) \<longleftrightarrow> (\<exists>k j. table ?reg k = Some (j, Some d))"
        using t2 t1' tn by (auto simp: holder_upd simp del: fun_upd_apply)
      then show ?thesis using False presInvD(5) [OF inv, of d] t2 t1 unfolding m' by simp
    qed
  next
    case (6 n1 n2 i1 i2 d)
    then show ?case using presInvD(6) [OF inv, of n1 i1 d n2 i2] free t2 t1' unfolding m'
      by (auto split: if_splits)
  next
    case (7 y)
    then show ?case using presInvD(7) [OF inv, of y] t2 t1 fr unfolding m' by auto
  qed (use t2 in \<open>simp_all add: m'\<close>)
  moreover have "published m' k = ((published m)(n \<mapsto> Some a)) k" for k
  proof (cases "table ?reg k")
    case (Some y)
    then show ?thesis using t2 t1 t1' free [of k] unfolding published_def m'
      by (cases y) (auto split: bind_splits)
  qed (use t2 t1 t1' in \<open>auto simp: published_def m'\<close>)
  ultimately show ?thesis by blast
qed

lemma onCardInserted_inv:
  assumes inv: "presInv m" and room: "unat (pm_nextId m) + 2 < 2 ^ 64"
    and step: "onCardInserted caps n atr (ns, m) = (ns', m')"
  shows "presInv m' \<and> published m' = (published m)(n \<mapsto> Some (toHex atr CHR 0x00 True))
    \<and> unat (pm_nextId m) < unat (pm_nextId m') \<and> unat (pm_nextId m') \<le> unat (pm_nextId m) + 2
    \<and> pm_cardIds m' = (pm_cardIds m)(n \<mapsto> pm_nextId m')"
proof -
  let ?nm1 = "if pm_readerIds m n = None then onReaderAdded n (ns, m) else (ns, m)"
  obtain ns1 m1 where nm1: "?nm1 = (ns1, m1)" by (cases ?nm1)
  have one: "presInv m1 \<and> (published m1)(n := x) = (published m)(n := x) \<and> unat (pm_nextId m) \<le> unat (pm_nextId m1)
      \<and> unat (pm_nextId m1) \<le> unat (pm_nextId m) + 1 \<and> pm_cardIds m1 = pm_cardIds m \<and> pm_readerIds m1 n \<noteq> None" for x
    using onReaderAdded_inv [OF inv _ _, of n ns ns1 m1] nm1 room inv by (auto split: if_splits)
  let ?nm2 = "if pm_cardIds m1 n \<noteq> None then onCardRemovedModel n (ns1, m1) else (ns1, m1)"
  obtain ns2 m2 where nm2: "?nm2 = (ns2, m2)" by (cases ?nm2)
  have two: "presInv m2 \<and> (published m2)(n := x) = (published m1)(n := x) \<and> pm_nextId m2 = pm_nextId m1
      \<and> pm_cardIds m2 = (pm_cardIds m1)(n := None) \<and> pm_readerIds m2 n \<noteq> None" for x
    using onCardRemoved_inv [OF conjunct1 [OF one], of n _ ns1 ns2 m2] nm2 one
    by (cases "pm_cardIds m1 n") (auto simp: fun_upd_idem)
  have "pm_cardIds m2 n = None" using two by simp
  then obtain i where tn: "table (pm_registry m2) n = Some (i, None)"
    using presInvD(3,4) [OF conjunct1 [OF two], of n] two by (cases "table (pm_registry m2) n") auto
  then have rid: "pm_readerIds m2 n = Some i" using presInvD(3) [OF conjunct1 [OF two], of n] by simp
  let ?c = "pm_nextId m2 + 1"
  let ?x = "\<lparr> rc_id = ?c, rc_reader = i, rc_capabilities = caps atr, rc_preReadAuth = PreReadAuth_None,
              rc_cardType = [], rc_atrHex = toHex atr CHR 0x00 True \<rparr>"
  obtain ns3 reg3 where add: "addCard ?x (pm_registry m2) = (ns3, reg3)" by (cases "addCard ?x (pm_registry m2)")
  let ?d = "\<lparr> pd_hasCard = True, pd_card = ?c \<rparr>"
  obtain ns4 reg4 where up: "updateReader i ?d reg3 = (ns4, reg4)" by (cases "updateReader i ?d reg3")
  have m': "m' = m2\<lparr>pm_nextId := ?c, pm_cardIds := (pm_cardIds m2)(n \<mapsto> ?c), pm_registry := reg4\<rparr>"
    using step nm1 nm2 add up rid
    by (simp add: onCardInserted_def onRegistry_def Let_def readerIdFor_def split: if_splits)
  have room2: "unat (pm_nextId m2) + 1 < 2 ^ 64" using one [of None] two [of None] room by simp
  have "presInv m' \<and> published m' = (published m2)(n \<mapsto> Some (toHex atr CHR 0x00 True))"
    by (rule insertCard_inv [OF conjunct1 [OF two] tn room2 refl _ _ add up m']) simp_all
  then show ?thesis
    using one [of "Some (Some (toHex atr CHR 0x00 True))"] two [of "Some (Some (toHex atr CHR 0x00 True))"]
      fresh_id(1) [OF conjunct1 [OF two] room2]
    by (simp add: m')
qed

section \<open>The bridge refines the record of presence\<close>

text \<open>Which reader is there, with which card, as the events say.\<close>

fun presenceSpec :: "MonitorEvent \<Rightarrow> (string \<rightharpoonup> bytes option) \<Rightarrow> (string \<rightharpoonup> bytes option)" where
  "presenceSpec (EvReaderAdded n) p = (if p n = None then p(n \<mapsto> None) else p)"
| "presenceSpec (EvReaderRemoved n) p = p(n := None)"
| "presenceSpec (EvCardInserted n atr) p = p(n \<mapsto> Some (case atr of Some a \<Rightarrow> a | None \<Rightarrow> []))"
| "presenceSpec (EvCardRemoved n) p = (if p n = None then p else p(n \<mapsto> None))"
| "presenceSpec (EvError n) p = p"

definition presentAfter :: "MonitorEvent list \<Rightarrow> (string \<rightharpoonup> bytes option)" where
  "presentAfter evs = fold presenceSpec evs Map.empty"

definition spelled :: "(string \<rightharpoonup> bytes option) \<Rightarrow> (string \<rightharpoonup> string option)" where
  "spelled p n = map_option (map_option (\<lambda>a. toHex a CHR 0x00 True)) (p n)"

lemma spelled_upd [simp]:
  "spelled (p(n \<mapsto> x)) = (spelled p)(n \<mapsto> map_option (\<lambda>a. toHex a CHR 0x00 True) x)"
  "spelled (p(n := None)) = (spelled p)(n := None)"
  by (auto simp: spelled_def fun_eq_iff)

text \<open>What a run of the bridge keeps after \<open>k\<close> events.\<close>

definition bridgeInv :: "nat \<Rightarrow> Bridge \<Rightarrow> bool" where
  "bridgeInv k b =
     (presInv (br_model b) \<and> unat (pm_nextId (br_model b)) \<le> 2 * k
      \<and> br_tracker b = pm_cardIds (br_model b)
      \<and> distinct (map fst (br_keysRemoved b))
      \<and> (\<forall>(c, n) \<in> set (br_keysRemoved b).
           unat c \<le> unat (pm_nextId (br_model b)) \<and> c \<notin> ran (pm_cardIds (br_model b))))"

text \<open>The cards a step took away.\<close>

definition goneBetween :: "Bridge \<Rightarrow> Bridge \<Rightarrow> (ObjectId \<times> string) set" where
  "goneBetween b b' = {(c, n). pm_cardIds (br_model b) n = Some c \<and> pm_cardIds (br_model b') n \<noteq> Some c}"

definition reports :: "Bridge \<Rightarrow> Bridge \<Rightarrow> bool" where
  "reports b b' = (\<exists>new. br_keysRemoved b' = br_keysRemoved b @ new \<and> set new = goneBetween b b' \<and> distinct (map fst new))"

lemma cardIds_bound:
  assumes inv: "presInv m" and c: "pm_cardIds m n = Some c"
  shows "unat c \<le> unat (pm_nextId m)" "pm_cardIds m n' = Some c \<Longrightarrow> n' = n"
proof -
  obtain i where t: "table (pm_registry m) n = Some (i, Some c)"
    using presInvD(4) [OF inv, of n] c by (cases "table (pm_registry m) n") auto
  then obtain a where "atrOf (pm_registry m) c = Some a" using presInvD(5) [OF inv, of c] by auto
  then show "unat c \<le> unat (pm_nextId m)"
    using presInvD(7) [OF inv, of c] atrOf_ids [OF presInvD(1) [OF inv]] by blast
  assume "pm_cardIds m n' = Some c"
  then obtain j where "table (pm_registry m) n' = Some (j, Some c)"
    using presInvD(4) [OF inv, of n'] by (cases "table (pm_registry m) n'") auto
  then show "n' = n" using presInvD(6) [OF inv _ t] by blast
qed

lemma bridgeInv_init: "bridgeInv 0 (bridgeInit obs cb)"
proof -
  have "presInv (br_model (bridgeInit obs cb))"
    by (rule presInvI) (simp_all add: bridgeInit_def emptyRegistry_def regOk_def namesOk_def table_def atrOf_def idsOf_def)
  then show ?thesis by (simp add: bridgeInv_def bridgeInit_def)
qed

text \<open>The tracker's part of a step that only changes the card of reader \<open>n\<close>.\<close>

lemma tracker_step:
  assumes inv: "bridgeInv k b" and cb: "br_onKeyRemoved b"
    and m': "presInv m'" "unat (pm_nextId (br_model b)) \<le> unat (pm_nextId m')" "unat (pm_nextId m') \<le> 2 * (k + 1)"
    and ids: "pm_cardIds m' = (pm_cardIds (br_model b))(n := c')"
    and fresh: "\<And>c. c' = Some c \<Longrightarrow> unat (pm_nextId (br_model b)) < unat c"
    and b': "b' = b\<lparr>br_model := m', br_notices := ns, br_tracker := (br_tracker b)(n := c'),
               br_keysRemoved := br_keysRemoved b @ (case br_tracker b n of Some c \<Rightarrow> [(c, n)] | None \<Rightarrow> [])\<rparr>"
  shows "bridgeInv (k + 1) b' \<and> reports b b'"
proof -
  let ?m = "br_model b"
  have tr: "br_tracker b = pm_cardIds ?m" and pinv: "presInv ?m"
    and old: "\<And>c x. (c, x) \<in> set (br_keysRemoved b) \<Longrightarrow> unat c \<le> unat (pm_nextId ?m) \<and> c \<notin> ran (pm_cardIds ?m)"
    and dist: "distinct (map fst (br_keysRemoved b))"
    using inv by (auto simp: bridgeInv_def)
  have ranm': "x \<in> ran (pm_cardIds m') \<Longrightarrow> x \<in> ran (pm_cardIds ?m) \<and> pm_cardIds ?m n \<noteq> Some x \<or> c' = Some x" for x
    using cardIds_bound(2) [OF pinv] unfolding ids ran_def by (auto split: if_splits)
  have "c' \<noteq> Some c" if "pm_cardIds ?m n = Some c" for c
    using cardIds_bound(1) [OF pinv that] fresh [of c] by auto
  then have gone: "goneBetween b b' = (case pm_cardIds ?m n of Some c \<Rightarrow> {(c, n)} | None \<Rightarrow> {})"
    by (auto simp: goneBetween_def b' ids split: option.splits if_splits)
  have "reports b b'"
    unfolding reports_def gone by (auto simp: b' tr split: option.splits)
  moreover have "bridgeInv (k + 1) b'"
    unfolding bridgeInv_def
  proof (intro conjI)
    show "distinct (map fst (br_keysRemoved b'))"
      using dist old by (fastforce simp: b' tr ran_def split: option.splits)
    show "\<forall>(c, x) \<in> set (br_keysRemoved b'). unat c \<le> unat (pm_nextId (br_model b')) \<and> c \<notin> ran (pm_cardIds (br_model b'))"
    proof (clarify)
      fix c x assume "(c, x) \<in> set (br_keysRemoved b')"
      then consider "(c, x) \<in> set (br_keysRemoved b)" | "pm_cardIds ?m n = Some c"
        by (auto simp: b' tr split: option.splits)
      then have "unat c \<le> unat (pm_nextId ?m)" "c \<notin> ran (pm_cardIds ?m) \<or> pm_cardIds ?m n = Some c"
        using old cardIds_bound(1) [OF pinv] by (cases; blast)+
      then show "unat c \<le> unat (pm_nextId (br_model b')) \<and> c \<notin> ran (pm_cardIds (br_model b'))"
        using ranm' [of c] fresh [of c] m'(2) by (auto simp: b')
    qed
  qed (use m' ids tr in \<open>simp_all add: b'\<close>)
  ultimately show ?thesis by blast
qed

lemma noTracker_step:
  assumes "bridgeInv k b" "presInv m'" "unat (pm_nextId (br_model b)) \<le> unat (pm_nextId m')"
    "unat (pm_nextId m') \<le> 2 * (k + 1)" "pm_cardIds m' = pm_cardIds (br_model b)"
  shows "bridgeInv (k + 1) (b\<lparr>br_model := m', br_notices := ns\<rparr>) \<and> reports b (b\<lparr>br_model := m', br_notices := ns\<rparr>)"
  using assms unfolding bridgeInv_def reports_def goneBetween_def by (fastforce intro: exI [of _ "[]"])

definition refines :: "Bridge \<Rightarrow> (string \<rightharpoonup> bytes option) \<Rightarrow> bool" where
  "refines b p = (published (br_model b) = spelled p)"

lemma refinesD: "refines b p \<Longrightarrow> presInv (br_model b) \<Longrightarrow>
   (pm_readerIds (br_model b) n = None \<longleftrightarrow> p n = None) \<and> (pm_cardIds (br_model b) n = None \<longrightarrow> p n = None \<or> p n = Some None)"
proof -
  assume "refines b p" and inv: "presInv (br_model b)"
  then have e: "published (br_model b) n = spelled p n" by (simp add: refines_def)
  show ?thesis
    using e presInvD(3,4) [OF inv, of n]
    by (cases "table (pm_registry (br_model b)) n"; cases "p n") (auto simp: published_def spelled_def)
qed

lemma dispatch_step:
  assumes inv: "bridgeInv k b" and room: "2 * (k + 1) < 2 ^ 64" and cb: "br_onKeyRemoved b" and ref: "refines b p"
    and b': "b' = dispatch caps ev b"
  shows "bridgeInv (k + 1) b' \<and> reports b b' \<and> refines b' (presenceSpec ev p) \<and> br_onKeyRemoved b'"
proof (cases ev)
  let ?m = "br_model b"
  have pinv: "presInv ?m" and bound: "unat (pm_nextId ?m) \<le> 2 * k" and tr: "br_tracker b = pm_cardIds ?m"
    using inv by (auto simp: bridgeInv_def)
  note rd = refinesD [OF ref pinv]
  {
    case (EvReaderAdded n)
    obtain ns m' where s: "onReaderAdded n (br_notices b, ?m) = (ns, m')"
      by (cases "onReaderAdded n (br_notices b, ?m)")
    then have bb: "b' = b\<lparr>br_model := m', br_notices := ns\<rparr>" using EvReaderAdded b' by (simp add: onModel_def)
    show ?thesis
    proof (cases "pm_readerIds ?m n")
      case None
      have o: "presInv m' \<and> published m' = (published ?m)(n \<mapsto> None) \<and> unat (pm_nextId m') = unat (pm_nextId ?m) + 1
          \<and> pm_cardIds m' = pm_cardIds ?m"
        using onReaderAdded_inv [OF pinv None _ s] room bound by simp
      then have "bridgeInv (k + 1) b' \<and> reports b b'"
        unfolding bb using bound by (intro noTracker_step [OF inv]) simp_all
      then show ?thesis using o ref rd [of n] None EvReaderAdded cb by (simp add: refines_def bb)
    next
      case (Some i)
      then have "m' = ?m" using s by (simp add: onReaderAdded_def)
      moreover have "bridgeInv (k + 1) b' \<and> reports b b'"
        unfolding bb \<open>m' = ?m\<close> using bound pinv by (intro noTracker_step [OF inv]) simp_all
      ultimately show ?thesis using ref rd [of n] Some EvReaderAdded cb by (auto simp: refines_def bb)
    qed
  next
    case (EvReaderRemoved n)
    obtain ns m' where s: "onReaderRemoved n (br_notices b, ?m) = (ns, m')"
      by (cases "onReaderRemoved n (br_notices b, ?m)")
    have o: "presInv m' \<and> published m' = (published ?m)(n := None) \<and> pm_nextId m' = pm_nextId ?m
        \<and> pm_cardIds m' = (pm_cardIds ?m)(n := None)" using onReaderRemoved_inv [OF pinv s] .
    have "bridgeInv (k + 1) b' \<and> reports b b'"
      by (rule tracker_step [OF inv cb, where m' = m' and n = n and c' = None and ns = ns])
        (use o bound EvReaderRemoved b' s cb in \<open>auto simp: onModel_def onTracker_def trackerRemoved_def fun_upd_idem split: option.splits\<close>)
    then show ?thesis using o ref EvReaderRemoved b' s cb
      by (simp add: refines_def onModel_def onTracker_def split: prod.splits)
  next
    case (EvCardInserted n atr)
    let ?a = "case atr of Some a \<Rightarrow> a | None \<Rightarrow> []"
    obtain ns m' where s: "onCardInserted caps n ?a (br_notices b, ?m) = (ns, m')"
      by (cases "onCardInserted caps n ?a (br_notices b, ?m)")
    have o: "presInv m' \<and> published m' = (published ?m)(n \<mapsto> Some (toHex ?a CHR 0x00 True))
        \<and> unat (pm_nextId ?m) < unat (pm_nextId m') \<and> unat (pm_nextId m') \<le> unat (pm_nextId ?m) + 2
        \<and> pm_cardIds m' = (pm_cardIds ?m)(n \<mapsto> pm_nextId m')"
      using onCardInserted_inv [OF pinv _ s] room bound by simp
    have "bridgeInv (k + 1) b' \<and> reports b b'"
      by (rule tracker_step [OF inv cb, where m' = m' and n = n and c' = "Some (pm_nextId m')" and ns = ns])
        (use o bound EvCardInserted b' s cb in \<open>auto simp: onModel_def onTracker_def trackerInserted_def cardIdFor_def Let_def split: option.splits\<close>)
    then show ?thesis using o ref EvCardInserted b' s cb
      by (simp add: refines_def onModel_def onTracker_def Let_def split: prod.splits)
  next
    case (EvCardRemoved n)
    obtain ns m' where s: "onCardRemovedModel n (br_notices b, ?m) = (ns, m')"
      by (cases "onCardRemovedModel n (br_notices b, ?m)")
    have o: "presInv m' \<and> published m' = (if pm_cardIds ?m n = None then published ?m else (published ?m)(n \<mapsto> None))
        \<and> pm_nextId m' = pm_nextId ?m \<and> pm_cardIds m' = (pm_cardIds ?m)(n := None)"
    proof (cases "pm_cardIds ?m n")
      case None
      then have "m' = ?m" using s by (simp add: onCardRemovedModel_def)
      then show ?thesis using pinv None by (simp add: fun_upd_idem)
    next
      case (Some c)
      then show ?thesis using onCardRemoved_inv [OF pinv Some s] by simp
    qed
    have "bridgeInv (k + 1) b' \<and> reports b b'"
      by (rule tracker_step [OF inv cb, where m' = m' and n = n and c' = None and ns = ns])
        (use o bound EvCardRemoved b' s cb in \<open>auto simp: onModel_def onTracker_def trackerRemoved_def fun_upd_idem split: option.splits\<close>)
    moreover have "published m' = spelled (presenceSpec ev p)"
      using o ref rd [of n] presInvD(3,4) [OF pinv, of n] EvCardRemoved
      by (auto simp: refines_def fun_upd_idem spelled_def fun_eq_iff split: if_splits)
    ultimately show ?thesis using EvCardRemoved b' s cb
      by (simp add: refines_def onModel_def onTracker_def split: prod.splits)
  next
    case (EvError n)
    have "bridgeInv (k + 1) (b\<lparr>br_model := ?m, br_notices := br_notices b\<rparr>)
      \<and> reports b (b\<lparr>br_model := ?m, br_notices := br_notices b\<rparr>)"
      using bound pinv by (intro noTracker_step [OF inv]) simp_all
    then show ?thesis using EvError b' ref cb by simp
  }
qed

lemma bridgeRun_snoc [simp]: "bridgeRun caps obs cb (evs @ [ev]) = dispatch caps ev (bridgeRun caps obs cb evs)"
  by (simp add: bridgeRun_def)

lemma bridgeRun_inv:
  "2 * length evs < 2 ^ 64 \<Longrightarrow> bridgeInv (length evs) (bridgeRun caps obs True evs)
     \<and> refines (bridgeRun caps obs True evs) (presentAfter evs) \<and> br_onKeyRemoved (bridgeRun caps obs True evs)"
proof (induction evs rule: rev_induct)
  case Nil
  have "refines (bridgeInit obs True) Map.empty"
    by (auto simp: refines_def published_def spelled_def bridgeInit_def emptyRegistry_def table_def)
  then show ?case by (simp add: bridgeRun_def presentAfter_def bridgeInv_init)
      (simp add: bridgeInit_def)
next
  case (snoc ev evs)
  then show ?case
    using dispatch_step [of "length evs" "bridgeRun caps obs True evs" "presentAfter evs" _ caps ev]
    by (simp add: presentAfter_def)
qed


text \<open>Every event reports exactly the cards it took away, so that their caches are dropped, and over a
  whole run no card is reported twice.\<close>

theorem removed_cards_reported:
  assumes "2 * (length evs + 1) < 2 ^ 64"
  shows "\<exists>new. br_keysRemoved (bridgeRun caps obs True (evs @ [ev])) = br_keysRemoved (bridgeRun caps obs True evs) @ new
      \<and> set new = {(c, n). pm_cardIds (br_model (bridgeRun caps obs True evs)) n = Some c
                        \<and> pm_cardIds (br_model (bridgeRun caps obs True (evs @ [ev]))) n \<noteq> Some c}
      \<and> distinct (map fst (br_keysRemoved (bridgeRun caps obs True (evs @ [ev]))))"
proof -
  have b: "bridgeInv (length evs) (bridgeRun caps obs True evs)" "refines (bridgeRun caps obs True evs) (presentAfter evs)"
    "br_onKeyRemoved (bridgeRun caps obs True evs)"
    using bridgeRun_inv [of evs caps obs] assms by auto
  have "bridgeInv (length evs + 1) (bridgeRun caps obs True (evs @ [ev]))
      \<and> reports (bridgeRun caps obs True evs) (bridgeRun caps obs True (evs @ [ev]))"
    using dispatch_step [OF b(1) assms b(3,2) refl, of caps ev] by simp
  then show ?thesis unfolding reports_def goneBetween_def bridgeInv_def by blast
qed

definition sample_events :: "MonitorEvent list" where
  "sample_events = [EvReaderAdded ''A'', EvCardInserted ''A'' (Some [0x3B, 0x9F]), EvReaderAdded ''B'',
                    EvCardInserted ''A'' None, EvCardRemoved ''B'']"


theorem removed_cards_reported_witness:
  "2 * (length sample_events + 1) < 2 ^ 64
   \<and> distinct (map fst (br_keysRemoved (bridgeRun (\<lambda>_. 0) allObservers True (sample_events @ [EvReaderRemoved ''A'']))))
   \<and> br_keysRemoved (bridgeRun (\<lambda>_. 0) allObservers True (sample_events @ [EvReaderRemoved ''A''])) = [(2, ''A''), (4, ''A'')]"
proof -
  have e: "br_keysRemoved (bridgeRun (\<lambda>_. 0) allObservers True (sample_events @ [EvReaderRemoved ''A''])) = [(2, ''A''), (4, ''A'')]"
    by code_simp
  have l: "2 * (length sample_events + 1) < 2 ^ 64" by (simp add: sample_events_def)
  then show ?thesis using removed_cards_reported [OF l, of "\<lambda>_. 0" allObservers "EvReaderRemoved ''A''"] e by blast
qed

section \<open>Retries\<close>

definition growStep :: "ResolveRetryBudget \<Rightarrow> int \<Rightarrow> int" where
  "growStep b delay =
     (if rb_growth b > 1 \<and> delay < rb_maxDelay b
      then (if delay > sgn (rb_maxDelay b) * (\<bar>rb_maxDelay b\<bar> div rb_growth b) then rb_maxDelay b
            else delay * rb_growth b)
      else delay)"

lemma growDelay_iterates: "growDelay b retries i delay = (growStep b ^^ nat (retries - i)) delay"
proof (induction b retries i delay rule: growDelay.induct)
  case (1 b retries i delay)
  show ?case
  proof (cases "i < retries \<and> rb_growth b > 1 \<and> delay < rb_maxDelay b")
    case True
    then have "nat (retries - i) = Suc (nat (retries - (i + 1)))" by arith
    then have "(growStep b ^^ nat (retries - i)) delay = (growStep b ^^ nat (retries - (i + 1))) (growStep b delay)"
      by (simp only: funpow_Suc_right comp_apply)
    moreover have "growDelay b retries i delay = growDelay b retries (i + 1) (growStep b delay)"
      using True by (subst growDelay.simps) (simp add: growStep_def)
    moreover have "growDelay b retries (i + 1) (growStep b delay) = (growStep b ^^ nat (retries - (i + 1))) (growStep b delay)"
      using 1 [OF True] True unfolding growStep_def [of b delay] by simp
    ultimately show ?thesis by simp
  next
    case False
    have stay: "(growStep b ^^ n) delay = delay" if "\<not> (rb_growth b > 1 \<and> delay < rb_maxDelay b)" for n
      using that by (induction n) (auto simp: growStep_def)
    show ?thesis using False stay by (subst growDelay.simps) (cases "i < retries", auto)
  qed
qed

lemma growStep_bounds:
  assumes "0 \<le> delay" "delay \<le> rb_maxDelay b"
  shows "delay \<le> growStep b delay" "growStep b delay \<le> rb_maxDelay b"
proof -
  have m: "sgn (rb_maxDelay b) * (\<bar>rb_maxDelay b\<bar> div g) = rb_maxDelay b div g" for g
    using assms by (cases "rb_maxDelay b = 0") simp_all
  have "delay * rb_growth b \<le> rb_maxDelay b" if "rb_growth b > 1" "delay \<le> rb_maxDelay b div rb_growth b"
  proof -
    have "delay * rb_growth b \<le> rb_maxDelay b div rb_growth b * rb_growth b"
      using that by (intro mult_right_mono) simp_all
    also have "\<dots> \<le> rb_maxDelay b" using that by (metis add_le_same_cancel1 div_mult_mod_eq le_add_same_cancel1 pos_mod_sign order_less_trans zero_less_one)
    finally show ?thesis .
  qed
  moreover have "delay \<le> delay * rb_growth b" if "rb_growth b > 1"
    using assms(1) that mult_left_mono [of 1 "rb_growth b" delay] by simp
  ultimately show "delay \<le> growStep b delay" "growStep b delay \<le> rb_maxDelay b"
    using assms by (auto simp: growStep_def m)
qed

text \<open>The delay before retry number \<open>k\<close>.\<close>

definition delayOf :: "ResolveRetryBudget \<Rightarrow> nat \<Rightarrow> int" where
  "delayOf b k = (growStep b ^^ k) (min (rb_firstDelay b) (rb_maxDelay b))"

lemma delayOf_bounds:
  assumes "0 \<le> rb_firstDelay b" "0 \<le> rb_maxDelay b"
  shows "0 \<le> delayOf b k \<and> delayOf b k \<le> rb_maxDelay b \<and> delayOf b k \<le> delayOf b (k + 1)"
proof -
  have "0 \<le> delayOf b k \<and> delayOf b k \<le> rb_maxDelay b" for k
    by (induction k) (use assms growStep_bounds in \<open>force simp: delayOf_def\<close>)+
  then show ?thesis using growStep_bounds(1) [of "delayOf b k" b] by (auto simp: delayOf_def)
qed

text \<open>The delays of one card, probed again after each: the loop its caller runs over \<^verbatim>\<open>retryAfter\<close>.\<close>

fun retryDelays :: "ResolveRetryBudget \<Rightarrow> ('e \<Rightarrow> bool) \<Rightarrow> 'e CardProbe list \<Rightarrow> ResolveAttempts \<Rightarrow> int list" where
  "retryDelays b retryOn [] attempts = []"
| "retryDelays b retryOn (pr # prs) attempts =
     (case retryAfter b retryOn pr attempts of
        (None, _) \<Rightarrow> []
      | (Some delay, attempts') \<Rightarrow> delay # retryDelays b retryOn prs attempts')"

lemma retryDelays_are:
  assumes "0 \<le> rb_firstDelay b" "0 \<le> rb_maxDelay b"
  shows "ra_retries a = int k \<Longrightarrow>
    \<exists>n. retryDelays b retryOn prs a = map (delayOf b) [k ..< k + n] \<and> (n = 0 \<or> int (k + n) \<le> rb_maxRetries b)
      \<and> (n = 0 \<or> ra_waited a + sum_list (map (delayOf b) [k ..< k + n - 1]) < rb_totalBudget b)"
proof (induction prs arbitrary: a k)
  case Nil
  then show ?case by auto
next
  case (Cons pr prs)
  obtain d a' where ra: "retryAfter b retryOn pr a = (d, a')" by (cases "retryAfter b retryOn pr a")
  show ?case
  proof (cases d)
    case None
    then show ?thesis using ra by (intro exI [of _ 0]) simp
  next
    case (Some delay)
    then have nr: "nextRetry b a = Some delay" "a' = a\<lparr>ra_retries := ra_retries a + 1, ra_waited := ra_waited a + delay\<rparr>"
      using ra by (auto simp: retryAfter_def split: option.splits if_splits)
    then have delay: "delay = delayOf b k" and g: "int k < rb_maxRetries b" "ra_waited a < rb_totalBudget b"
      using Cons.prems delayOf_bounds [OF assms, of k]
      by (auto simp: nextRetry_def growDelay_iterates delayOf_def split: if_splits)
    obtain n where n: "retryDelays b retryOn prs a' = map (delayOf b) [k + 1 ..< k + 1 + n]"
      "n = 0 \<or> int (k + 1 + n) \<le> rb_maxRetries b"
      "n = 0 \<or> ra_waited a' + sum_list (map (delayOf b) [k + 1 ..< k + 1 + n - 1]) < rb_totalBudget b"
      using Cons.IH [of a' "k + 1"] Cons.prems nr(2) by auto
    have "retryDelays b retryOn (pr # prs) a = map (delayOf b) [k ..< k + (n + 1)]"
      using ra Some n(1) delay by (simp add: upt_conv_Cons del: upt_Suc)
    moreover have "ra_waited a + sum_list (map (delayOf b) [k ..< k + (n + 1) - 1]) < rb_totalBudget b"
      using n(3) nr(2) delay g(2) by (cases n) (auto simp: upt_conv_Cons simp del: upt_Suc)
    ultimately show ?thesis using n(2) g(1) by (intro exI [of _ "n + 1"]) auto
  qed
qed

text \<open>The retries of a card that cannot be opened are at most the budgeted number, their delays never
  shrink and never exceed the longest allowed one, however the delay grows, and a further retry is
  only granted while the time waited is below the total budget.\<close>

theorem retries_within_budget:
  assumes "0 \<le> rb_firstDelay b" "0 \<le> rb_maxDelay b"
    and ds: "retryDelays b retryOn prs \<lparr> ra_retries = 0, ra_waited = 0 \<rparr> = ds"
  shows "length ds \<le> nat (rb_maxRetries b) \<and> sorted ds \<and> (\<forall>d \<in> set ds. 0 \<le> d \<and> d \<le> rb_maxDelay b)
    \<and> (ds \<noteq> [] \<longrightarrow> sum_list (butlast ds) < rb_totalBudget b)"
proof -
  obtain n where n: "ds = map (delayOf b) [0 ..< n]" "n = 0 \<or> int n \<le> rb_maxRetries b"
    "n = 0 \<or> sum_list (map (delayOf b) [0 ..< n - 1]) < rb_totalBudget b"
    using retryDelays_are [OF assms(1,2), of "\<lparr> ra_retries = 0, ra_waited = 0 \<rparr>" 0 retryOn prs] ds by auto
  have mono: "delayOf b i \<le> delayOf b j" if "i \<le> j" for i j
    using that delayOf_bounds [OF assms(1,2)] by (auto intro: lift_Suc_mono_le)
  have "sorted ds" using mono by (auto simp: n(1) sorted_map sorted_wrt_upt intro: sorted_wrt_mono_rel [OF _ sorted_wrt_upt])
  moreover have "butlast ds = map (delayOf b) [0 ..< n - 1]" by (cases n) (simp_all add: n(1) butlast_append)
  ultimately show ?thesis using n delayOf_bounds [OF assms(1,2)] by auto
qed

definition sample_probe :: "nat CardProbe" where
  "sample_probe = \<lparr> cp_openFailure = Some 1, cp_capabilities = 0, cp_preReadAuth = 0, cp_cardType = [] \<rparr>"

theorem retries_within_budget_witness:
  "0 \<le> rb_firstDelay defaultBudget \<and> 0 \<le> rb_maxDelay defaultBudget
   \<and> retryDelays defaultBudget (\<lambda>_. True) (replicate 7 sample_probe) \<lparr> ra_retries = 0, ra_waited = 0 \<rparr> = [50, 50, 50]
   \<and> length (retryDelays defaultBudget (\<lambda>_. True) (replicate 7 sample_probe) \<lparr> ra_retries = 0, ra_waited = 0 \<rparr>)
       \<le> nat (rb_maxRetries defaultBudget)"
proof -
  have b: "0 \<le> rb_firstDelay defaultBudget" "0 \<le> rb_maxDelay defaultBudget" by (simp_all add: defaultBudget_def)
  have "retryDelays defaultBudget (\<lambda>_. True) (replicate 7 sample_probe) \<lparr> ra_retries = 0, ra_waited = 0 \<rparr> = [50, 50, 50]"
    by code_simp
  then show ?thesis using b retries_within_budget [OF b, of "\<lambda>_. True" "replicate 7 sample_probe"] by blast
qed

section \<open>Powered readers\<close>

text \<open>Only the contact slot of a dual-interface unit is held powered: a probe asks for the hold of a
  card's reader only if that reader's name carries no contactless marker and another reader of the
  roster has the same serial.\<close>

theorem only_dual_contact_slots_held:
  assumes "holdsReader pr roster cardKey" "length (ro_cardKeys roster) = length (ro_readerNames roster)"
  shows "\<exists>i < length (ro_readerNames roster). ro_cardKeys roster ! i = cardKey
    \<and> \<not> carriesContactlessMarker (pn_base (splitPcscName (ro_readerNames roster ! i)))
    \<and> serialOf (ro_readerNames roster ! i) \<noteq> []
    \<and> (\<exists>raw \<in> set (ro_readerNames roster). raw \<noteq> ro_readerNames roster ! i
          \<and> serialOf raw = serialOf (ro_readerNames roster ! i))
    \<and> cp_capabilities pr \<noteq> 0"
proof -
  let ?i = "length (takeWhile (\<lambda>k. k \<noteq> cardKey) (ro_cardKeys roster))"
  have iface: "idn_iface (identityForCardIn roster cardKey) = RI_Contact" and caps: "cp_capabilities pr \<noteq> 0"
    using assms(1) by (auto simp: holdsReader_def isContactSlotOfDualInterfaceUnit_def)
  then have i: "cardKey \<in> set (ro_cardKeys roster)" "?i < length (ro_readerNames roster)"
    "idn_iface (readerIdentities (ro_readerNames roster) ! ?i) = RI_Contact"
    by (auto simp: identityForCardIn_def noIdentity_def Let_def split: if_splits)
  have "?i < length (ro_cardKeys roster)" using i(2) assms(2) by simp
  then have "ro_cardKeys roster ! ?i = cardKey" using nth_length_takeWhile [of "\<lambda>k. k \<noteq> cardKey" "ro_cardKeys roster"] by blast
  then show ?thesis using contact_iff [OF i(2)] i caps by blast
qed

definition sample_roster :: PresenceRoster where
  "sample_roster = \<lparr> ro_readerNames = [''D 1 (K) 00 00'', ''D 1CL (K) 01 00''], ro_cardKeys = [''7'', []] \<rparr>"

theorem only_dual_contact_slots_held_witness:
  "holdsReader (sample_probe\<lparr>cp_openFailure := None, cp_capabilities := 1\<rparr>) sample_roster ''7''
   \<and> \<not> holdsReader (sample_probe\<lparr>cp_openFailure := None, cp_capabilities := 1\<rparr>) sample_roster []
   \<and> (\<exists>i < length (ro_readerNames sample_roster). ro_cardKeys sample_roster ! i = ''7'')"
proof -
  have h: "holdsReader (sample_probe\<lparr>cp_openFailure := None, cp_capabilities := 1\<rparr>) sample_roster ''7''"
    "\<not> holdsReader (sample_probe\<lparr>cp_openFailure := None, cp_capabilities := 1\<rparr>) sample_roster []"
    by code_simp+
  have "length (ro_cardKeys sample_roster) = length (ro_readerNames sample_roster)" by (simp add: sample_roster_def)
  then show ?thesis using only_dual_contact_slots_held [OF h(1)] h by blast
qed

end
