(* ===== verification/Caches.thy ===== *)
theory Caches
  imports WireTypes RateLimit
begin

text \<open>
  The caches of card data: the reads of a card (\<^verbatim>\<open>cache/CardReadCache.cpp\<close>) and the enumerated
  credentials (\<^verbatim>\<open>cache/CredentialSnapshotCache.cpp\<close>), with the values they hold
  (\<^verbatim>\<open>value/CardReadSnapshot.h\<close>, \<^verbatim>\<open>value/CertSnapshot.h\<close>, \<^verbatim>\<open>value/CredentialRecord.h\<close>). Each
  operation runs under the cache's mutex, so it is one step; \<open>now\<close> is what the clock answers. A map is an
  association list in key order. What a cache releases is kept as the bytes the released buffers hold:
  a buffer that was wiped holds zeros. The lemmas show which buffers are wiped, that a stale entry
  is never served, that versions are never reused, and that a removed card leaves nothing behind.
\<close>

section \<open>Wiping\<close>

definition cleanse :: "string \<Rightarrow> string" where
  "cleanse s = replicate (length s) (CHR 0x00)"

definition cleanseBytes :: "bytes \<Rightarrow> bytes" where
  "cleanseBytes v = replicate (length v) 0"

definition wipedText :: "string \<Rightarrow> bool" where
  "wipedText s = list_all (\<lambda>c. c = CHR 0x00) s"

definition wipedBytes :: "bytes \<Rightarrow> bool" where
  "wipedBytes v = list_all (\<lambda>b. b = 0) v"

lemma wiped_cleanse [simp]: "wipedText (cleanse s)" "wipedBytes (cleanseBytes v)"
  by (simp_all add: wipedText_def cleanse_def wipedBytes_def cleanseBytes_def list_all_iff)

section \<open>The reads of a card\<close>

datatype FieldType = FT_Text | FT_Date | FT_Binary | FT_Photo

record FieldSnapshot =
  fs_fieldKey :: string
  fs_labelKey :: string
  fs_labelFallback :: string
  fs_type :: FieldType
  fs_textValue :: string
  fs_binaryValue :: bytes

record GroupSnapshot =
  gs_groupKey :: string
  gs_labelKey :: string
  gs_labelFallback :: string
  gs_fields :: "FieldSnapshot list"

record CardReadSnapshot =
  crs_cardType :: string
  crs_groups :: "GroupSnapshot list"

record CertSnapshot =
  cts_certId :: string
  cts_signingCapable :: bool
  cts_keyUsageBits :: u32
  cts_ekuOids :: "string list"
  cts_chainSubjectCns :: "string list"
  cts_trustStatus :: u32
  cts_alwaysAuthenticate :: bool
  cts_keyId :: bytes
  cts_keyType :: KeyType
  cts_keyBits :: u32
  cts_canDerive :: bool
  cts_securityStatus :: "string list"
  cts_fields :: "GroupSnapshot list"

definition cleanseField :: "FieldSnapshot \<Rightarrow> FieldSnapshot" where
  "cleanseField f = f\<lparr>fs_textValue := cleanse (fs_textValue f), fs_binaryValue := cleanseBytes (fs_binaryValue f)\<rparr>"

definition cleanseGroups :: "GroupSnapshot list \<Rightarrow> GroupSnapshot list" where
  "cleanseGroups groups = map (\<lambda>g. g\<lparr>gs_fields := map cleanseField (gs_fields g)\<rparr>) groups"

definition cleanseCert :: "CertSnapshot \<Rightarrow> CertSnapshot" where
  "cleanseCert c = c\<lparr>cts_certId := cleanse (cts_certId c), cts_ekuOids := map cleanse (cts_ekuOids c),
     cts_chainSubjectCns := map cleanse (cts_chainSubjectCns c), cts_fields := cleanseGroups (cts_fields c)\<rparr>"

text \<open>\<^verbatim>\<open>steady_clock::duration::max()\<close> as the idle window disables expiry.\<close>

definition kNoIdleExpiry :: time where
  "kNoIdleExpiry = 2 ^ 63 - 1"

record ReadEntry =
  re_identity :: "CardReadSnapshot option"
  re_certs :: "CertSnapshot list option"
  re_touchedAt :: time

datatype Released = RelIdentity CardReadSnapshot | RelCerts "CertSnapshot list"

record CardReadCache =
  rdc_idleWindow :: time
  rdc_entries :: "(string \<times> ReadEntry) list"
  rdc_released :: "Released list"

definition freshEntry :: ReadEntry where
  "freshEntry = \<lparr> re_identity = None, re_certs = None, re_touchedAt = 0 \<rparr>"

definition cleanseIdentity :: "ReadEntry \<Rightarrow> Released list \<times> ReadEntry" where
  "cleanseIdentity e =
     (case re_identity e of None \<Rightarrow> ([], e)
      | Some s \<Rightarrow> ([RelIdentity (s\<lparr>crs_groups := cleanseGroups (crs_groups s)\<rparr>)], e\<lparr>re_identity := None\<rparr>))"

definition cleanseCerts :: "ReadEntry \<Rightarrow> Released list \<times> ReadEntry" where
  "cleanseCerts e =
     (case re_certs e of None \<Rightarrow> ([], e)
      | Some cs \<Rightarrow> ([RelCerts (map cleanseCert cs)], e\<lparr>re_certs := None\<rparr>))"

definition scrubEntry :: "ReadEntry \<Rightarrow> Released list \<times> ReadEntry" where
  "scrubEntry e = (let (r1, e1) = cleanseIdentity e; (r2, e2) = cleanseCerts e1 in (r1 @ r2, e2))"

definition eraseKey :: "string \<Rightarrow> (string \<times> 'v) list \<Rightarrow> (string \<times> 'v) list" where
  "eraseKey k m = filter (\<lambda>(k', v). k' \<noteq> k) m"

definition liveReadEntry :: "time \<Rightarrow> string \<Rightarrow> CardReadCache \<Rightarrow> ReadEntry option \<times> CardReadCache" where
  "liveReadEntry now cardKey c =
     (case map_of (rdc_entries c) cardKey of
        None \<Rightarrow> (None, c)
      | Some e \<Rightarrow>
          if rdc_idleWindow c \<noteq> kNoIdleExpiry \<and> now - re_touchedAt e > rdc_idleWindow c
          then (None, c\<lparr>rdc_entries := eraseKey cardKey (rdc_entries c),
                        rdc_released := rdc_released c @ fst (scrubEntry e)\<rparr>)
          else (Some e, c))"

definition entryFor :: "string \<Rightarrow> CardReadCache \<Rightarrow> ReadEntry" where
  "entryFor cardKey c = (case map_of (rdc_entries c) cardKey of Some e \<Rightarrow> e | None \<Rightarrow> freshEntry)"

definition putRead :: "time \<Rightarrow> string \<Rightarrow> CardReadSnapshot \<Rightarrow> CardReadCache \<Rightarrow> CardReadCache" where
  "putRead now cardKey snapshot c =
     (let (rel, e) = cleanseIdentity (entryFor cardKey c)
      in c\<lparr>rdc_entries := assign_by (<) cardKey (e\<lparr>re_identity := Some snapshot, re_touchedAt := now\<rparr>) (rdc_entries c),
           rdc_released := rdc_released c @ rel\<rparr>)"

definition putCertificates :: "time \<Rightarrow> string \<Rightarrow> CertSnapshot list \<Rightarrow> CardReadCache \<Rightarrow> CardReadCache" where
  "putCertificates now cardKey certs c =
     (let (rel, e) = cleanseCerts (entryFor cardKey c)
      in c\<lparr>rdc_entries := assign_by (<) cardKey (e\<lparr>re_certs := Some certs, re_touchedAt := now\<rparr>) (rdc_entries c),
           rdc_released := rdc_released c @ rel\<rparr>)"

definition touchEntry :: "time \<Rightarrow> string \<Rightarrow> CardReadCache \<Rightarrow> CardReadCache" where
  "touchEntry now cardKey c = c\<lparr>rdc_entries := modify_key cardKey (\<lambda>e. e\<lparr>re_touchedAt := now\<rparr>) (rdc_entries c)\<rparr>"

definition getRead :: "time \<Rightarrow> string \<Rightarrow> CardReadCache \<Rightarrow> CardReadSnapshot option \<times> CardReadCache" where
  "getRead now cardKey c =
     (case liveReadEntry now cardKey c of
        (Some e, c') \<Rightarrow> (case re_identity e of
                           None \<Rightarrow> (None, c')
                         | Some s \<Rightarrow> (Some s, touchEntry now cardKey c'))
      | (None, c') \<Rightarrow> (None, c'))"

definition getCertificates :: "time \<Rightarrow> string \<Rightarrow> CardReadCache \<Rightarrow> CertSnapshot list option \<times> CardReadCache" where
  "getCertificates now cardKey c =
     (case liveReadEntry now cardKey c of
        (Some e, c') \<Rightarrow> (case re_certs e of
                           None \<Rightarrow> (None, c')
                         | Some cs \<Rightarrow> (Some cs, touchEntry now cardKey c'))
      | (None, c') \<Rightarrow> (None, c'))"

definition invalidateRead :: "string \<Rightarrow> CardReadCache \<Rightarrow> CardReadCache" where
  "invalidateRead cardKey c =
     (case map_of (rdc_entries c) cardKey of
        None \<Rightarrow> c
      | Some e \<Rightarrow> c\<lparr>rdc_entries := eraseKey cardKey (rdc_entries c),
                    rdc_released := rdc_released c @ fst (scrubEntry e)\<rparr>)"

definition clearRead :: "CardReadCache \<Rightarrow> CardReadCache" where
  "clearRead c = c\<lparr>rdc_entries := [],
     rdc_released := rdc_released c @ concat (map (\<lambda>(k, e). fst (scrubEntry e)) (rdc_entries c))\<rparr>"

section \<open>The enumerated credentials\<close>

record CredRecord =
  crd_id :: string
  crd_label :: string
  crd_kind :: string
  crd_state :: string
  crd_retriesLeft :: "int option"
  crd_retriesMax :: "int option"
  crd_usesLeft :: "int option"
  crd_usesMax :: "int option"
  crd_unblocksLeft :: "int option"
  crd_minLength :: "int option"
  crd_maxLength :: "int option"
  crd_canChange :: bool
  crd_unblockable :: bool
  crd_activatable :: bool
  crd_keyActivationPending :: bool
  crd_keyActivatable :: bool
  crd_recovery :: string
  crd_blockedGuidanceKey :: "string option"
  crd_blockedGuidanceFallback :: "string option"
  crd_keyActivationGuidanceKey :: "string option"
  crd_keyActivationGuidanceFallback :: "string option"

record CredentialSnapshot =
  csn_records :: "CredRecord list"
  csn_version :: u64
  csn_listPluginId :: string

definition cleanseRecord :: "CredRecord \<Rightarrow> CredRecord" where
  "cleanseRecord r = r\<lparr>crd_id := cleanse (crd_id r), crd_label := cleanse (crd_label r),
     crd_kind := cleanse (crd_kind r), crd_state := cleanse (crd_state r),
     crd_recovery := cleanse (crd_recovery r),
     crd_blockedGuidanceKey := map_option cleanse (crd_blockedGuidanceKey r),
     crd_blockedGuidanceFallback := map_option cleanse (crd_blockedGuidanceFallback r),
     crd_keyActivationGuidanceKey := map_option cleanse (crd_keyActivationGuidanceKey r),
     crd_keyActivationGuidanceFallback := map_option cleanse (crd_keyActivationGuidanceFallback r)\<rparr>"

record SnapshotEntry =
  se_snapshot :: CredentialSnapshot
  se_touchedAt :: time

record CredentialSnapshotCache =
  snc_idleWindow :: time
  snc_entries :: "(string \<times> SnapshotEntry) list"
  snc_nextVersion :: u64
  snc_released :: "CredRecord list"

definition snapshotCacheInit :: "time \<Rightarrow> CredentialSnapshotCache" where
  "snapshotCacheInit idleWindow =
     \<lparr> snc_idleWindow = idleWindow, snc_entries = [], snc_nextVersion = 1, snc_released = [] \<rparr>"

text \<open>The records an entry releases when it is scrubbed.\<close>

definition scrubSnapshot :: "SnapshotEntry \<Rightarrow> CredRecord list" where
  "scrubSnapshot e = map cleanseRecord (csn_records (se_snapshot e))"

definition liveSnapshot :: "time \<Rightarrow> string \<Rightarrow> CredentialSnapshotCache \<Rightarrow> SnapshotEntry option \<times> CredentialSnapshotCache" where
  "liveSnapshot now cardKey c =
     (case map_of (snc_entries c) cardKey of
        None \<Rightarrow> (None, c)
      | Some e \<Rightarrow>
          if now - se_touchedAt e > snc_idleWindow c
          then (None, c\<lparr>snc_entries := eraseKey cardKey (snc_entries c),
                        snc_released := snc_released c @ scrubSnapshot e\<rparr>)
          else (Some e, c))"

definition putSnapshot :: "time \<Rightarrow> string \<Rightarrow> CredentialSnapshot \<Rightarrow> CredentialSnapshotCache \<Rightarrow> u64 \<times> CredentialSnapshotCache" where
  "putSnapshot now cardKey snapshot c =
     (let version = snc_nextVersion c;
          rel = (case map_of (snc_entries c) cardKey of Some e \<Rightarrow> scrubSnapshot e | None \<Rightarrow> [])
      in (version, c\<lparr>snc_nextVersion := version + 1,
           snc_entries := assign_by (<) cardKey
             \<lparr> se_snapshot = snapshot\<lparr>csn_version := version\<rparr>, se_touchedAt = now \<rparr> (snc_entries c),
           snc_released := snc_released c @ rel\<rparr>))"

definition getSnapshot :: "time \<Rightarrow> string \<Rightarrow> CredentialSnapshotCache \<Rightarrow> CredentialSnapshot option \<times> CredentialSnapshotCache" where
  "getSnapshot now cardKey c =
     (case liveSnapshot now cardKey c of
        (None, c') \<Rightarrow> (None, c')
      | (Some e, c') \<Rightarrow> (Some (se_snapshot e),
           c'\<lparr>snc_entries := modify_key cardKey (\<lambda>e. e\<lparr>se_touchedAt := now\<rparr>) (snc_entries c')\<rparr>))"

definition invalidateSnapshot :: "string \<Rightarrow> CredentialSnapshotCache \<Rightarrow> CredentialSnapshotCache" where
  "invalidateSnapshot cardKey c =
     (case map_of (snc_entries c) cardKey of
        None \<Rightarrow> c
      | Some e \<Rightarrow> c\<lparr>snc_entries := eraseKey cardKey (snc_entries c),
                    snc_released := snc_released c @ scrubSnapshot e\<rparr>)"

definition clearSnapshots :: "CredentialSnapshotCache \<Rightarrow> CredentialSnapshotCache" where
  "clearSnapshots c = c\<lparr>snc_entries := [],
     snc_released := snc_released c @ concat (map (\<lambda>(k, e). scrubSnapshot e) (snc_entries c))\<rparr>"

section \<open>Runs of the read cache\<close>

datatype ReadOp =
    RPut time string CardReadSnapshot
  | RPutCerts time string "CertSnapshot list"
  | RGet time string
  | RGetCerts time string
  | RInvalidate string
  | RClear

fun readStep :: "ReadOp \<Rightarrow> CardReadCache \<Rightarrow> CardReadCache" where
  "readStep (RPut now k s) c = putRead now k s c"
| "readStep (RPutCerts now k cs) c = putCertificates now k cs c"
| "readStep (RGet now k) c = snd (getRead now k c)"
| "readStep (RGetCerts now k) c = snd (getCertificates now k c)"
| "readStep (RInvalidate k) c = invalidateRead k c"
| "readStep RClear c = clearRead c"

definition readRun :: "time \<Rightarrow> ReadOp list \<Rightarrow> CardReadCache" where
  "readRun idleWindow ops =
     fold readStep ops \<lparr> rdc_idleWindow = idleWindow, rdc_entries = [], rdc_released = [] \<rparr>"

text \<open>What is wiped when it is released: every value of a field, and of a certificate its identifier, its
  purposes and the names of its chain.\<close>

definition wipedGroups :: "GroupSnapshot list \<Rightarrow> bool" where
  "wipedGroups gs = (\<forall>g \<in> set gs. \<forall>f \<in> set (gs_fields g). wipedText (fs_textValue f) \<and> wipedBytes (fs_binaryValue f))"

fun wipedRelease :: "Released \<Rightarrow> bool" where
  "wipedRelease (RelIdentity s) = wipedGroups (crs_groups s)"
| "wipedRelease (RelCerts cs) =
     (\<forall>c \<in> set cs. wipedText (cts_certId c) \<and> list_all wipedText (cts_ekuOids c)
        \<and> list_all wipedText (cts_chainSubjectCns c) \<and> wipedGroups (cts_fields c))"

lemma wiped_cleanseGroups [simp]: "wipedGroups (cleanseGroups gs)"
  by (auto simp: wipedGroups_def cleanseGroups_def cleanseField_def)

lemma wiped_cleanseCert: "wipedRelease (RelCerts (map cleanseCert cs))"
  by (auto simp: cleanseCert_def list_all_iff)

lemma wiped_releases:
  "r \<in> set (fst (cleanseIdentity e)) \<Longrightarrow> wipedRelease r"
  "r \<in> set (fst (cleanseCerts e)) \<Longrightarrow> wipedRelease r"
  "r \<in> set (fst (scrubEntry e)) \<Longrightarrow> wipedRelease r"
  by (auto simp: cleanseIdentity_def cleanseCerts_def scrubEntry_def Let_def simp del: wipedRelease.simps(2)
      intro: wiped_cleanseCert split: option.splits prod.splits)

definition allWiped :: "CardReadCache \<Rightarrow> bool" where
  "allWiped c = (\<forall>r \<in> set (rdc_released c). wipedRelease r)"

lemma liveReadEntry_wiped: "allWiped c \<Longrightarrow> liveReadEntry now k c = (e, c') \<Longrightarrow> allWiped c'"
  by (auto simp: liveReadEntry_def allWiped_def wiped_releases split: option.splits if_splits)

lemma touchEntry_wiped [simp]: "allWiped (touchEntry now k c) = allWiped c"
  by (simp add: touchEntry_def allWiped_def)

lemma readStep_wiped: "allWiped c \<Longrightarrow> allWiped (readStep op c)"
proof (cases op)
  case (RGet now k)
  assume "allWiped c"
  then show ?thesis using RGet liveReadEntry_wiped [of c now k]
    by (auto simp: getRead_def split: prod.splits option.splits)
next
  case (RGetCerts now k)
  assume "allWiped c"
  then show ?thesis using RGetCerts liveReadEntry_wiped [of c now k]
    by (auto simp: getCertificates_def split: prod.splits option.splits)
qed (auto simp: allWiped_def putRead_def putCertificates_def invalidateRead_def clearRead_def Let_def
    case_prod_beta wiped_releases split: option.splits)

text \<open>Whatever the cache drops, on overwrite, expiry, invalidation or clearing, was wiped first: every
  field value of an identity or certificate, and a certificate's identifier, purposes and chain names.\<close>

theorem released_reads_wiped: "allWiped (readRun idleWindow ops)"
proof -
  have "allWiped (fold readStep ops c)" if "allWiped c" for c
    using that by (induction ops arbitrary: c) (simp_all add: readStep_wiped)
  then show ?thesis unfolding readRun_def by (simp add: allWiped_def [of "\<lparr> rdc_idleWindow = _, rdc_entries = _, rdc_released = _ \<rparr>"])
qed

text \<open>The remaining buffers of a certificate are not: its key identifier is released as it was.\<close>

lemma keyId_released_unwiped:
  "rdc_released (invalidateRead k (putCertificates now k [c] \<lparr> rdc_idleWindow = w, rdc_entries = [], rdc_released = [] \<rparr>))
     = [RelCerts [cleanseCert c]] \<and> cts_keyId (cleanseCert c) = cts_keyId c
   \<and> cts_securityStatus (cleanseCert c) = cts_securityStatus c"
  by (simp add: invalidateRead_def putCertificates_def entryFor_def freshEntry_def cleanseCerts_def scrubEntry_def
      cleanseIdentity_def cleanseCert_def Let_def)

text \<open>An expired half comes back when the other half is stored: \<^verbatim>\<open>put\<close> does not look at the window.\<close>

lemma put_revives_expired_half:
  assumes "w < kNoIdleExpiry" "0 \<le> w" "w < t"
    and c: "c = putCertificates 0 k certs \<lparr> rdc_idleWindow = w, rdc_entries = [], rdc_released = [] \<rparr>"
  shows "fst (getCertificates t k c) = None \<and> fst (getCertificates t k (putRead t k s c)) = Some certs"
  using assms
  by (simp add: c getCertificates_def liveReadEntry_def putCertificates_def putRead_def entryFor_def freshEntry_def
      cleanseCerts_def cleanseIdentity_def Let_def)

section \<open>The production read cache serves what was read\<close>

text \<open>What was last stored for a card since it was last dropped.\<close>

fun lastIdentity :: "string \<Rightarrow> ReadOp \<Rightarrow> CardReadSnapshot option \<Rightarrow> CardReadSnapshot option" where
  "lastIdentity k (RPut now k' s) x = (if k' = k then Some s else x)"
| "lastIdentity k (RInvalidate k') x = (if k' = k then None else x)"
| "lastIdentity k RClear x = None"
| "lastIdentity k _ x = x"

fun lastCerts :: "string \<Rightarrow> ReadOp \<Rightarrow> CertSnapshot list option \<Rightarrow> CertSnapshot list option" where
  "lastCerts k (RPutCerts now k' cs) x = (if k' = k then Some cs else x)"
| "lastCerts k (RInvalidate k') x = (if k' = k then None else x)"
| "lastCerts k RClear x = None"
| "lastCerts k _ x = x"

definition cached :: "CardReadCache \<Rightarrow> string \<Rightarrow> CardReadSnapshot option \<times> CertSnapshot list option" where
  "cached c k = (re_identity (entryFor k c), re_certs (entryFor k c))"

lemma entryFor_eraseKey [simp]:
  "entryFor k (c\<lparr>rdc_entries := eraseKey k' (rdc_entries c), rdc_released := rel\<rparr>) = (if k = k' then freshEntry else entryFor k c)"
  by (simp add: entryFor_def eraseKey_def)

lemma entryFor_assign [simp]:
  "entryFor k (c\<lparr>rdc_entries := assign_by (<) k' e (rdc_entries c), rdc_released := rel\<rparr>) = (if k = k' then e else entryFor k c)"
  by (simp add: entryFor_def)

lemma cached_touchEntry [simp]: "cached (touchEntry now k' c) k = cached c k"
  by (auto simp: cached_def entryFor_def touchEntry_def split: option.splits)

lemma liveReadEntry_production:
  "rdc_idleWindow c = kNoIdleExpiry \<Longrightarrow> liveReadEntry now k c = (map_of (rdc_entries c) k, c)"
  by (simp add: liveReadEntry_def split: option.splits)

lemma cleanse_other:
  "re_certs (snd (cleanseIdentity e)) = re_certs e" "re_identity (snd (cleanseCerts e)) = re_identity e"
  by (simp_all add: cleanseIdentity_def cleanseCerts_def split: option.splits)

lemma get_production:
  assumes "rdc_idleWindow c = kNoIdleExpiry"
  shows "fst (getRead now k c) = fst (cached c k)" "fst (getCertificates now k c) = snd (cached c k)"
    "cached (snd (getRead now k c)) k' = cached c k'" "cached (snd (getCertificates now k c)) k' = cached c k'"
  by (auto simp: getRead_def getCertificates_def liveReadEntry_production [OF assms] cached_def [of c k] entryFor_def
      freshEntry_def split: option.splits)

lemma readStep_window [simp]: "rdc_idleWindow (readStep op c) = rdc_idleWindow c"
  by (cases op) (auto simp: putRead_def putCertificates_def getRead_def getCertificates_def invalidateRead_def clearRead_def
      liveReadEntry_def touchEntry_def Let_def case_prod_beta split: option.splits)

lemma readStep_cached:
  "rdc_idleWindow c = kNoIdleExpiry \<Longrightarrow>
   cached (readStep op c) k = (lastIdentity k op (fst (cached c k)), lastCerts k op (snd (cached c k)))"
proof (cases op)
  case (RInvalidate k')
  then show ?thesis
    by (auto simp: cached_def invalidateRead_def freshEntry_def entryFor_def [of k c] split: option.splits)
next
  case RClear
  then show ?thesis by (simp add: cached_def clearRead_def entryFor_def freshEntry_def)
qed (simp_all add: get_production, simp_all add: cached_def putRead_def putCertificates_def Let_def case_prod_beta cleanse_other)

lemma readRun_snoc: "readRun w (ops @ [op]) = readStep op (readRun w ops)"
  by (simp add: readRun_def)

text \<open>With the production window, which never expires, the cache serves for every card exactly the
  identity and the certificates last stored since the card was last dropped.\<close>

theorem production_cache_exact:
  "fst (getRead now k (readRun kNoIdleExpiry ops)) = fold (lastIdentity k) ops None
   \<and> fst (getCertificates now k (readRun kNoIdleExpiry ops)) = fold (lastCerts k) ops None"
proof -
  have "rdc_idleWindow (readRun kNoIdleExpiry ops) = kNoIdleExpiry
      \<and> cached (readRun kNoIdleExpiry ops) k = (fold (lastIdentity k) ops None, fold (lastCerts k) ops None)"
  proof (induction ops rule: rev_induct)
    case Nil
    then show ?case by (simp add: readRun_def cached_def entryFor_def freshEntry_def)
  next
    case (snoc op ops)
    then show ?case by (simp add: readRun_snoc readStep_cached)
  qed
  then show ?thesis by (simp add: get_production)
qed

section \<open>Versions\<close>

datatype SnapOp = SPut time string CredentialSnapshot | SGet time string | SInvalidate string | SClear

fun snapStep :: "SnapOp \<Rightarrow> u64 list \<times> CredentialSnapshotCache \<Rightarrow> u64 list \<times> CredentialSnapshotCache" where
  "snapStep (SPut now k s) (vs, c) = (let (v, c') = putSnapshot now k s c in (vs @ [v], c'))"
| "snapStep (SGet now k) (vs, c) = (vs, snd (getSnapshot now k c))"
| "snapStep (SInvalidate k) (vs, c) = (vs, invalidateSnapshot k c)"
| "snapStep SClear (vs, c) = (vs, clearSnapshots c)"

definition snapRun :: "time \<Rightarrow> SnapOp list \<Rightarrow> u64 list \<times> CredentialSnapshotCache" where
  "snapRun idleWindow ops = fold snapStep ops ([], snapshotCacheInit idleWindow)"

definition wipedRecord :: "CredRecord \<Rightarrow> bool" where
  "wipedRecord r = (wipedText (crd_id r) \<and> wipedText (crd_label r) \<and> wipedText (crd_kind r) \<and> wipedText (crd_state r)
     \<and> wipedText (crd_recovery r) \<and> pred_option wipedText (crd_blockedGuidanceKey r)
     \<and> pred_option wipedText (crd_blockedGuidanceFallback r) \<and> pred_option wipedText (crd_keyActivationGuidanceKey r)
     \<and> pred_option wipedText (crd_keyActivationGuidanceFallback r))"

lemma wiped_scrubSnapshot: "r \<in> set (scrubSnapshot e) \<Longrightarrow> wipedRecord r"
  by (auto simp: scrubSnapshot_def cleanseRecord_def wipedRecord_def option.pred_map comp_def pred_option_def)

definition snapInv :: "u64 list \<times> CredentialSnapshotCache \<Rightarrow> bool" where
  "snapInv vc = (fst vc = map (\<lambda>i. of_nat (Suc i)) [0 ..< length (fst vc)]
     \<and> snc_nextVersion (snd vc) = of_nat (Suc (length (fst vc)))
     \<and> (\<forall>(k, e) \<in> set (snc_entries (snd vc)). csn_version (se_snapshot e) \<in> set (fst vc))
     \<and> (\<forall>r \<in> set (snc_released (snd vc)). wipedRecord r))"

lemma set_assign_by: "p \<in> set (assign_by lt k v m) \<Longrightarrow> p = (k, v) \<or> p \<in> set m"
  by (auto simp: assign_by_def modify_key_def split: option.splits if_splits)

lemma snapStep_inv: "snapInv vc \<Longrightarrow> snapInv (snapStep op vc)"
proof -
  assume inv: "snapInv vc"
  obtain vs c where vc: "vc = (vs, c)" by (cases vc)
  have rel: "r \<in> set (snc_released c) \<Longrightarrow> wipedRecord r" for r using inv vc by (auto simp: snapInv_def)
  have ver: "(k, e) \<in> set (snc_entries c) \<Longrightarrow> csn_version (se_snapshot e) \<in> set vs" for k e
    using inv vc by (auto simp: snapInv_def)
  show ?thesis
  proof (cases op)
    case (SPut now k s)
    then show ?thesis using inv
      by (auto simp: snapInv_def vc putSnapshot_def Let_def dest!: set_assign_by split: option.splits
          intro: wiped_scrubSnapshot)
  next
    case (SGet now k)
    then show ?thesis using inv
      by (auto simp: snapInv_def vc getSnapshot_def liveSnapshot_def eraseKey_def modify_key_def wiped_scrubSnapshot
          split: option.splits if_splits)
  next
    case (SInvalidate k)
    then show ?thesis using inv
      by (auto simp: snapInv_def vc invalidateSnapshot_def eraseKey_def wiped_scrubSnapshot split: option.splits)
  next
    case SClear
    then show ?thesis using inv by (auto simp: snapInv_def vc clearSnapshots_def wiped_scrubSnapshot)
  qed
qed

lemma snapRun_inv: "snapInv (snapRun idleWindow ops)"
proof -
  have "snapInv (fold snapStep ops vc)" if "snapInv vc" for vc
    using that by (induction ops arbitrary: vc) (simp_all add: snapStep_inv)
  moreover have "snapInv ([], snapshotCacheInit idleWindow)" by (simp add: snapInv_def snapshotCacheInit_def)
  ultimately show ?thesis by (simp add: snapRun_def)
qed

text \<open>Snapshots are stamped 1, 2, 3 and so on over the whole life of the cache, across expiry,
  invalidation and clearing, so no version is given twice while the counter has room; and the record
  strings of a dropped snapshot were wiped.\<close>

theorem snapshot_versions_unique:
  assumes "length (fst (snapRun idleWindow ops)) < 2 ^ 64"
  shows "map unat (fst (snapRun idleWindow ops)) = [1 ..< length (fst (snapRun idleWindow ops)) + 1]
    \<and> distinct (fst (snapRun idleWindow ops))
    \<and> (\<forall>r \<in> set (snc_released (snd (snapRun idleWindow ops))). wipedRecord r)"
proof -
  let ?vs = "fst (snapRun idleWindow ops)"
  have vs: "?vs = map (\<lambda>i. of_nat (Suc i)) [0 ..< length ?vs]"
    and rel: "\<forall>r \<in> set (snc_released (snd (snapRun idleWindow ops))). wipedRecord r"
    using snapRun_inv [of idleWindow ops] by (simp_all add: snapInv_def)
  have "unat (of_nat (Suc i) :: u64) = Suc i" if "i < length ?vs" for i
    using that assms by (simp only: unat_of_nat) (simp add: take_bit_nat_eq_self)
  then have "map unat ?vs = map Suc [0 ..< length ?vs]"
    by (subst vs) (simp del: of_nat_Suc)
  then have "map unat ?vs = [1 ..< length ?vs + 1]" by (simp add: map_Suc_upt)
  moreover from this have "distinct (map unat ?vs)" by (simp only: distinct_upt)
  then have "distinct ?vs" unfolding distinct_map by (rule conjunct1)
  ultimately show ?thesis using rel by blast
qed

definition sample_snapshot :: CredentialSnapshot where
  "sample_snapshot = \<lparr> csn_records = [], csn_version = 0, csn_listPluginId = ''p'' \<rparr>"

theorem snapshot_versions_unique_witness:
  "length (fst (snapRun 300 [SPut 0 ''7'' sample_snapshot, SInvalidate ''7'', SPut 9 ''7'' sample_snapshot])) < 2 ^ 64
   \<and> map unat (fst (snapRun 300 [SPut 0 ''7'' sample_snapshot, SInvalidate ''7'', SPut 9 ''7'' sample_snapshot])) = [1, 2]"
proof -
  have l: "length (fst (snapRun 300 [SPut 0 ''7'' sample_snapshot, SInvalidate ''7'', SPut 9 ''7'' sample_snapshot])) = 2"
    by code_simp
  have u: "[1 ..< 2 + 1] = [1, 2 :: nat]" by code_simp
  show ?thesis using snapshot_versions_unique [of 300 "[SPut 0 ''7'' sample_snapshot, SInvalidate ''7'', SPut 9 ''7'' sample_snapshot]"]
    unfolding l u by simp
qed

end
