(* ===== verification/Credentials.thy ===== *)
theory Credentials
  imports Caches ReaderLabels
begin

text \<open>
  The secrets asked of the holder before a card is read. The MRZ payload and its check digits
  (\<^verbatim>\<open>cache/MrzPayload.h\<close>), the retry context of one operation (\<^verbatim>\<open>cache/AttemptContext.h\<close>), the cache
  of CAN and MRZ secrets with the request that serves from it or prompts (\<^verbatim>\<open>cache/CredentialCache.h\<close>,
  \<^verbatim>\<open>.cpp\<close>), the sets of caches dropped together (\<^verbatim>\<open>cache/CardRemovalCaches.h\<close>,
  \<^verbatim>\<open>cache/FullScrubCaches.h\<close>), and the identifiers of enumerated credentials
  (\<^verbatim>\<open>value/CredentialRecord.h\<close>). A request is two steps, up to the prompt and from its answer on,
  because other operations run while the dialog is open; each of the two is taken as one step.
\<close>

section \<open>The MRZ payload\<close>

record MrzParts =
  mp_mrzInfo :: string
  mp_documentNumber :: string
  mp_dateOfBirth :: string
  mp_dateOfExpiry :: string

definition isDigit :: "char \<Rightarrow> bool" where
  "isDigit c = (48 \<le> (of_char c :: nat) \<and> (of_char c :: nat) \<le> 57)"

definition isUpper :: "char \<Rightarrow> bool" where
  "isUpper c = (65 \<le> (of_char c :: nat) \<and> (of_char c :: nat) \<le> 90)"

definition mrzWeight :: "nat \<Rightarrow> int" where
  "mrzWeight i = [7, 3, 1] ! (i mod 3)"

text \<open>The loop from position \<open>i\<close> on; an illegal character makes the result \<open>-1\<close>.\<close>

fun mrzSum :: "nat \<Rightarrow> int \<Rightarrow> string \<Rightarrow> int option" where
  "mrzSum i acc [] = Some acc"
| "mrzSum i acc (c # cs) =
     (let value = (if isDigit c then Some (int (of_char c) - 48)
                   else if isUpper c then Some (int (of_char c) - 65 + 10)
                   else if c = CHR ''<'' then Some 0 else None)
      in case value of None \<Rightarrow> None | Some v \<Rightarrow> mrzSum (Suc i) (acc + v * mrzWeight i) cs)"

definition mrzCheckDigit :: "string \<Rightarrow> int" where
  "mrzCheckDigit field = (case mrzSum 0 0 field of None \<Rightarrow> -1 | Some s \<Rightarrow> s mod 10)"

definition isDocNumberField :: "string \<Rightarrow> bool" where
  "isDocNumberField f = (length f = 10 \<and> list_all (\<lambda>c. isUpper c \<or> isDigit c \<or> c = CHR ''<'') (take 9 f) \<and> isDigit (f ! 9))"

definition isDateField :: "string \<Rightarrow> bool" where
  "isDateField f = (length f = 7 \<and> list_all isDigit f)"

definition checkDigitVerifies :: "string \<Rightarrow> bool" where
  "checkDigitVerifies field =
     (let recomputed = mrzCheckDigit (butlast field)
      in recomputed \<ge> 0 \<and> int (of_char (last field)) = 48 + recomputed)"

definition newline :: char where
  "newline = CHR 0x0A"

definition parseMrzPayload :: "string \<Rightarrow> MrzParts option" where
  "parseMrzPayload v =
     (case findFrom newline 0 v of
        None \<Rightarrow> None
      | Some nl1 \<Rightarrow>
          (case findFrom newline (nl1 + 1) v of
             None \<Rightarrow> None
           | Some nl2 \<Rightarrow>
               if findFrom newline (nl2 + 1) v \<noteq> None then None
               else let f1 = take nl1 v; f2 = substr (nl1 + 1) (nl2 - (nl1 + 1)) v; f3 = drop (nl2 + 1) v in
                 if \<not> isDocNumberField f1 \<or> \<not> isDateField f2 \<or> \<not> isDateField f3 then None
                 else if \<not> checkDigitVerifies f1 \<or> \<not> checkDigitVerifies f2 \<or> \<not> checkDigitVerifies f3 then None
                 else Some \<lparr> mp_mrzInfo = f1 @ f2 @ f3, mp_documentNumber = take 9 f1, mp_dateOfBirth = take 6 f2,
                             mp_dateOfExpiry = take 6 f3 \<rparr>))"

section \<open>One operation's retry context\<close>

record AttemptContext =
  ac_attempts :: u32
  ac_lastErrorKey :: string
  ac_generationAtDispatch :: u64

definition attemptContext :: "u64 \<Rightarrow> AttemptContext" where
  "attemptContext generation =
     \<lparr> ac_attempts = 0, ac_lastErrorKey = [], ac_generationAtDispatch = generation \<rparr>"

definition recordRejection :: "string \<Rightarrow> AttemptContext \<Rightarrow> AttemptContext" where
  "recordRejection msgKey a = a\<lparr>ac_attempts := ac_attempts a + 1, ac_lastErrorKey := msgKey\<rparr>"

section \<open>The choice sink\<close>

record MrzChoiceSink =
  ms_taken :: bool
  ms_payload :: "string option"

definition offer :: "string \<Rightarrow> MrzChoiceSink \<Rightarrow> MrzChoiceSink" where
  "offer payload s = \<lparr> ms_taken = True, ms_payload = Some payload \<rparr>"

definition takeChoice :: "MrzChoiceSink \<Rightarrow> string option \<times> MrzChoiceSink" where
  "takeChoice s = (ms_payload s, \<lparr> ms_taken = False, ms_payload = None \<rparr>)"

definition resetChoice :: "MrzChoiceSink \<Rightarrow> MrzChoiceSink" where
  "resetChoice s = \<lparr> ms_taken = False, ms_payload = None \<rparr>"

section \<open>The secret cache\<close>

datatype RefusalKind = RefusalTimeout | RefusalCancelled

record CredEntry =
  ce_can :: "string option"
  ce_mrz :: "string option"
  ce_lastPromptYieldedNothing :: bool
  ce_refusalGeneration :: u64
  ce_refusalKind :: RefusalKind

type_synonym CredentialCache = "string \<rightharpoonup> CredEntry"

definition freshCred :: CredEntry where
  "freshCred = \<lparr> ce_can = None, ce_mrz = None, ce_lastPromptYieldedNothing = False, ce_refusalGeneration = 0,
                 ce_refusalKind = RefusalTimeout \<rparr>"

text \<open>\<^verbatim>\<open>m_entries[cardKey]\<close>, and a change of that entry.\<close>

definition credEntry :: "string \<Rightarrow> CredentialCache \<Rightarrow> CredEntry" where
  "credEntry k c = (case c k of Some e \<Rightarrow> e | None \<Rightarrow> freshCred)"

definition putCan :: "string \<Rightarrow> string \<Rightarrow> CredentialCache \<Rightarrow> CredentialCache" where
  "putCan k can c = c(k \<mapsto> (credEntry k c)\<lparr>ce_can := Some can\<rparr>)"

definition putMrz :: "string \<Rightarrow> string \<Rightarrow> CredentialCache \<Rightarrow> CredentialCache" where
  "putMrz k mrz c = c(k \<mapsto> (credEntry k c)\<lparr>ce_mrz := Some mrz\<rparr>)"

definition getCan :: "string \<Rightarrow> CredentialCache \<Rightarrow> string option" where
  "getCan k c = (case c k of None \<Rightarrow> None | Some e \<Rightarrow> ce_can e)"

definition getMrz :: "string \<Rightarrow> CredentialCache \<Rightarrow> string option" where
  "getMrz k c = (case c k of None \<Rightarrow> None | Some e \<Rightarrow> ce_mrz e)"

definition invalidateCred :: "string \<Rightarrow> CredentialCache \<Rightarrow> CredentialCache" where
  "invalidateCred k c = c(k := None)"

definition clearCred :: "CredentialCache \<Rightarrow> CredentialCache" where
  "clearCred c = Map.empty"

definition markCredentialWrong :: "string \<Rightarrow> CredentialCache \<Rightarrow> CredentialCache" where
  "markCredentialWrong k c = c(k \<mapsto> (credEntry k c)\<lparr>ce_can := None, ce_mrz := None\<rparr>)"

definition lastPromptYieldedNothingFor :: "string \<Rightarrow> CredentialCache \<Rightarrow> bool" where
  "lastPromptYieldedNothingFor k c = (case c k of None \<Rightarrow> False | Some e \<Rightarrow> ce_lastPromptYieldedNothing e)"

definition noteLastPromptYieldedNothing :: "string \<Rightarrow> bool \<Rightarrow> CredentialCache \<Rightarrow> CredentialCache" where
  "noteLastPromptYieldedNothing k yieldedNothing c =
     (if \<not> yieldedNothing then
        (case c k of Some e \<Rightarrow> c(k \<mapsto> e\<lparr>ce_lastPromptYieldedNothing := False\<rparr>) | None \<Rightarrow> c)
      else c(k \<mapsto> (credEntry k c)\<lparr>ce_lastPromptYieldedNothing := True\<rparr>))"

definition noteRefusal :: "string \<Rightarrow> RefusalKind \<Rightarrow> CredentialCache \<Rightarrow> CredentialCache" where
  "noteRefusal k kind c =
     c(k \<mapsto> (credEntry k c)\<lparr>ce_refusalGeneration := ce_refusalGeneration (credEntry k c) + 1, ce_refusalKind := kind\<rparr>)"

definition refusalGenerationFor :: "string \<Rightarrow> CredentialCache \<Rightarrow> u64" where
  "refusalGenerationFor k c = (case c k of None \<Rightarrow> 0 | Some e \<Rightarrow> ce_refusalGeneration e)"

definition lastRefusalKindFor :: "string \<Rightarrow> CredentialCache \<Rightarrow> RefusalKind" where
  "lastRefusalKindFor k c = (case c k of None \<Rightarrow> RefusalTimeout | Some e \<Rightarrow> ce_refusalKind e)"

definition stillWantedFor :: "string \<Rightarrow> AttemptContext option \<Rightarrow> CredentialCache \<Rightarrow> bool" where
  "stillWantedFor k attempts c =
     (case attempts of None \<Rightarrow> True | Some a \<Rightarrow> refusalGenerationFor k c \<le> ac_generationAtDispatch a)"

section \<open>Prompts\<close>

record PromptOptions =
  po_title :: string
  po_description :: string
  po_requester :: string
  po_artifact :: string
  po_cardLabel :: string
  po_pinLabel :: string
  po_minLength :: u32
  po_maxLength :: u32
  po_artifacts :: "string list"
  po_attempt :: u32
  po_lastError :: string
  po_altKinds :: "string list"
  po_promptId :: string
  po_reader :: ReaderIdentity
  po_deadlineMs :: u32
  po_altDeadlineMs :: u32

datatype PromptStatus = PS_Ok | PS_Cancelled | PS_Error | PS_Timeout | PS_HelperTooOld

datatype PromptReplyStatus = PR_Ok | PR_Cancelled | PR_Error | PR_Unauthorized | PR_Timeout | PR_OkMrz

fun promptStatusFor :: "PromptReplyStatus \<Rightarrow> bool \<Rightarrow> PromptStatus" where
  "promptStatusFor PR_Ok offered = PS_Ok"
| "promptStatusFor PR_Cancelled offered = PS_Cancelled"
| "promptStatusFor PR_Timeout offered = PS_Timeout"
| "promptStatusFor PR_OkMrz offered = (if offered then PS_Ok else PS_Error)"
| "promptStatusFor PR_Error offered = PS_Error"
| "promptStatusFor PR_Unauthorized offered = PS_Error"

fun replyStatusToken :: "PromptReplyStatus \<Rightarrow> string" where
  "replyStatusToken PR_Ok = ''ok''"
| "replyStatusToken PR_Cancelled = ''cancelled''"
| "replyStatusToken PR_Error = ''error''"
| "replyStatusToken PR_Unauthorized = ''unauthorized''"
| "replyStatusToken PR_Timeout = ''timeout''"
| "replyStatusToken PR_OkMrz = ''ok_mrz''"

definition replyStatusFromToken :: "string \<Rightarrow> PromptReplyStatus option" where
  "replyStatusFromToken token =
     find (\<lambda>s. token = replyStatusToken s) [PR_Ok, PR_Cancelled, PR_Error, PR_Unauthorized, PR_Timeout, PR_OkMrz]"

datatype PaceSecretKind = PK_Can | PK_Mrz | PK_Pin | PK_Puk

record PromptResult =
  pr_status :: PromptStatus
  pr_secret :: "string option"
  pr_chosenKind :: "PaceSecretKind option"

definition kMaxPaceAttempts :: u32 where
  "kMaxPaceAttempts = 3"

definition applyRetryContext :: "AttemptContext \<Rightarrow> PromptOptions \<Rightarrow> PromptOptions" where
  "applyRetryContext attempts opts =
     (if ac_attempts attempts = 0 then opts
      else opts\<lparr>po_attempt := ac_attempts attempts + 1, po_lastError := ac_lastErrorKey attempts\<rparr>)"

section \<open>A credential request\<close>

datatype AuthErrorKey = GenericComm | PreReadAuthFailed

datatype CredentialResult = CredOk "(string \<times> string) list" | CredCancelled | CredError AuthErrorKey

text \<open>The flags the caller passed by pointer, \<open>None\<close> for a null pointer.\<close>

record Flags =
  fl_prompterFailed :: "bool option"
  fl_userCancelled :: "bool option"
  fl_entryExpired :: "bool option"
  fl_helperTooOld :: "bool option"

definition raised :: "bool \<Rightarrow> bool option \<Rightarrow> bool option" where
  "raised b flag = map_option (\<lambda>_. b) flag"

definition buildCanResult :: "string \<Rightarrow> CredentialResult option" where
  "buildCanResult secret = (if newline \<in> set secret then None else Some (CredOk [(''can'', secret)]))"

definition buildMrzResult :: "string \<Rightarrow> CredentialResult option" where
  "buildMrzResult secret =
     (case parseMrzPayload secret of
        None \<Rightarrow> None
      | Some parts \<Rightarrow> Some (CredOk [(''mrz'', mp_mrzInfo parts), (''documentNumber'', mp_documentNumber parts),
                                     (''dateOfBirth'', mp_dateOfBirth parts), (''dateOfExpiry'', mp_dateOfExpiry parts)]))"

text \<open>The accessors and the builder the two cacheable kinds bind.\<close>

fun secretGet :: "PaceSecretKind \<Rightarrow> string \<Rightarrow> CredentialCache \<Rightarrow> string option" where
  "secretGet PK_Can k c = getCan k c"
| "secretGet PK_Mrz k c = getMrz k c"
| "secretGet _ k c = None"

fun secretPut :: "PaceSecretKind \<Rightarrow> string \<Rightarrow> string \<Rightarrow> CredentialCache \<Rightarrow> CredentialCache" where
  "secretPut PK_Can k s c = putCan k s c"
| "secretPut PK_Mrz k s c = putMrz k s c"
| "secretPut _ k s c = c"

fun secretBuild :: "PaceSecretKind \<Rightarrow> string \<Rightarrow> CredentialResult option" where
  "secretBuild PK_Can s = buildCanResult s"
| "secretBuild PK_Mrz s = buildMrzResult s"
| "secretBuild _ s = None"

definition silenced :: "string \<Rightarrow> Flags \<Rightarrow> CredentialCache \<Rightarrow> CredentialResult \<times> Flags" where
  "silenced k fl c =
     (if lastRefusalKindFor k c = RefusalCancelled
      then (CredCancelled, fl\<lparr>fl_userCancelled := raised True (fl_userCancelled fl)\<rparr>)
      else (CredError GenericComm, fl\<lparr>fl_entryExpired := raised True (fl_entryExpired fl)\<rparr>))"

datatype RequestStep = Answered CredentialResult Flags CredentialCache | AskPrompt PaceSecretKind PromptOptions

definition requestBegin :: "string \<Rightarrow> PaceSecretKind option \<Rightarrow> PromptOptions \<Rightarrow> AttemptContext option \<Rightarrow> Flags \<Rightarrow>
    CredentialCache \<Rightarrow> RequestStep" where
  "requestBegin cardKey paceKind options attempts fl c =
     (case paceKind of
        Some kind \<Rightarrow>
          if kind = PK_Pin \<or> kind = PK_Puk then Answered (CredError GenericComm) fl c
          else (case secretGet kind cardKey c of
                  Some hit \<Rightarrow>
                    (case secretBuild kind hit of
                       Some result \<Rightarrow> Answered result fl c
                     | None \<Rightarrow> Answered (CredError GenericComm) fl (invalidateCred cardKey c))
                | None \<Rightarrow>
                    if \<not> stillWantedFor cardKey attempts c
                    then (let (r, fl') = silenced cardKey fl c in Answered r fl' c)
                    else (case attempts of
                            None \<Rightarrow> AskPrompt kind options
                          | Some a \<Rightarrow> if ac_attempts a \<ge> kMaxPaceAttempts then Answered (CredError PreReadAuthFailed) fl c
                                      else AskPrompt kind (applyRetryContext a options)))
      | None \<Rightarrow> Answered (CredError GenericComm) fl c)"

text \<open>A prompt that answered: the secret of another kind is parked or refused, one of the asked kind is
  adapted and, when well formed, cached.\<close>

definition promptAnswered :: "string \<Rightarrow> PaceSecretKind \<Rightarrow> PaceSecretKind option \<Rightarrow> string \<Rightarrow> Flags \<Rightarrow>
    MrzChoiceSink option \<Rightarrow> CredentialCache \<Rightarrow> CredentialResult \<times> Flags \<times> MrzChoiceSink option \<times> CredentialCache" where
  "promptAnswered cardKey kind chosenKind secret fl0 sink c0 =
     (let fl = fl0\<lparr>fl_entryExpired := raised False (fl_entryExpired fl0)\<rparr>;
          c = noteLastPromptYieldedNothing cardKey False c0
      in if chosenKind \<noteq> None \<and> chosenKind \<noteq> Some kind then
           (if sink \<noteq> None \<and> kind = PK_Can \<and> chosenKind = Some PK_Mrz
            then (CredCancelled, fl, map_option (offer secret) sink, c)
            else (CredError GenericComm, fl\<lparr>fl_prompterFailed := raised True (fl_prompterFailed fl)\<rparr>, sink, c))
         else (case secretBuild kind secret of
                 None \<Rightarrow> (CredError GenericComm, fl, sink, c)
               | Some result \<Rightarrow> (result, fl, sink, secretPut kind cardKey secret c)))"

text \<open>A prompt that closed without a secret and was not cancelled.\<close>

definition promptEmpty :: "string \<Rightarrow> PromptStatus \<Rightarrow> Flags \<Rightarrow> CredentialCache \<Rightarrow> Flags \<times> CredentialCache" where
  "promptEmpty cardKey status fl c =
     (if status = PS_Error then (fl\<lparr>fl_prompterFailed := raised True (fl_prompterFailed fl)\<rparr>, c)
      else if status = PS_Timeout then
        (fl\<lparr>fl_entryExpired := raised True (fl_entryExpired fl)\<rparr>,
         noteRefusal cardKey RefusalTimeout (noteLastPromptYieldedNothing cardKey True c))
      else if status = PS_HelperTooOld then (fl\<lparr>fl_helperTooOld := raised True (fl_helperTooOld fl)\<rparr>, c)
      else (fl, c))"

definition requestAnswered :: "string \<Rightarrow> PaceSecretKind \<Rightarrow> AttemptContext option \<Rightarrow> PromptResult \<Rightarrow> Flags \<Rightarrow>
    MrzChoiceSink option \<Rightarrow> CredentialCache \<Rightarrow> CredentialResult \<times> Flags \<times> MrzChoiceSink option \<times> CredentialCache" where
  "requestAnswered cardKey kind attempts prompt fl sink c =
     (let empty = (pr_status prompt \<noteq> PS_Ok \<or> pr_secret prompt = None) in
      if empty \<and> \<not> stillWantedFor cardKey attempts c then
        (let (r, fl') = silenced cardKey fl c in (r, fl', sink, c))
      else if pr_status prompt = PS_Cancelled then
        (CredCancelled, fl\<lparr>fl_userCancelled := raised True (fl_userCancelled fl)\<rparr>, sink,
         noteRefusal cardKey RefusalCancelled (noteLastPromptYieldedNothing cardKey True c))
      else if empty then
        (let (fl', c') = promptEmpty cardKey (pr_status prompt) fl c in (CredError GenericComm, fl', sink, c'))
      else promptAnswered cardKey kind (pr_chosenKind prompt) (the (pr_secret prompt)) fl sink c)"

section \<open>Caches dropped together\<close>

record CardCaches =
  cc_credentials :: CredentialCache
  cc_reads :: CardReadCache
  cc_snapshots :: CredentialSnapshotCache

definition invalidateCardRemovalCaches :: "string \<Rightarrow> CardCaches \<Rightarrow> CardCaches" where
  "invalidateCardRemovalCaches cardPath cs =
     \<lparr> cc_credentials = invalidateCred cardPath (cc_credentials cs),
       cc_reads = invalidateRead cardPath (cc_reads cs),
       cc_snapshots = invalidateSnapshot cardPath (cc_snapshots cs) \<rparr>"

definition clearFullScrubCaches :: "CardCaches \<Rightarrow> CardCaches" where
  "clearFullScrubCaches cs =
     cs\<lparr>cc_credentials := clearCred (cc_credentials cs), cc_snapshots := clearSnapshots (cc_snapshots cs)\<rparr>"

section \<open>Credential records\<close>

datatype PinKind = PinKind_Unknown | PinKind_UserPin | PinKind_SignPin | PinKind_Puk | PinKind_Can
datatype PinState = PinState_Unknown | PinState_Transport | PinState_Operational | PinState_NeedsChange | PinState_Blocked
datatype PinRecovery = PinRecovery_Unknown | PinRecovery_HolderViaPuk | PinRecovery_IssuerProcess | PinRecovery_None

fun credentialKindToken :: "PinKind \<Rightarrow> string" where
  "credentialKindToken PinKind_Unknown = ''unknown''"
| "credentialKindToken PinKind_UserPin = ''user''"
| "credentialKindToken PinKind_SignPin = ''sign''"
| "credentialKindToken PinKind_Puk = ''puk''"
| "credentialKindToken PinKind_Can = ''can''"

fun credentialStateToken :: "PinState \<Rightarrow> string" where
  "credentialStateToken PinState_Unknown = ''unknown''"
| "credentialStateToken PinState_Transport = ''transport''"
| "credentialStateToken PinState_Operational = ''operational''"
| "credentialStateToken PinState_NeedsChange = ''needsChange''"
| "credentialStateToken PinState_Blocked = ''blocked''"

fun recoveryToken :: "PinRecovery \<Rightarrow> string" where
  "recoveryToken PinRecovery_Unknown = ''unknown''"
| "recoveryToken PinRecovery_HolderViaPuk = ''holderViaPuk''"
| "recoveryToken PinRecovery_IssuerProcess = ''issuerProcess''"
| "recoveryToken PinRecovery_None = ''none''"

text \<open>What the middleware reports of one PIN; lengths are \<^verbatim>\<open>size_t\<close>, the guidance a key with its default text.\<close>

record PinStatusEntry =
  ps_kind :: PinKind
  ps_reference :: nat
  ps_label :: string
  ps_state :: PinState
  ps_retriesLeft :: "int option"
  ps_retriesMax :: "int option"
  ps_usesLeft :: "int option"
  ps_usesMax :: "int option"
  ps_unblocksLeft :: "int option"
  ps_minLength :: "nat option"
  ps_maxLength :: "nat option"
  ps_canChange :: bool
  ps_unblockable :: bool
  ps_activatable :: bool
  ps_keyActivationPending :: bool
  ps_keyActivatable :: bool
  ps_recovery :: PinRecovery
  ps_blockedGuidance :: "(string \<times> string) option"
  ps_keyActivationGuidance :: "(string \<times> string) option"

text \<open>\<^verbatim>\<open>std::overflow_error\<close> is \<open>Inl ()\<close>.\<close>

definition narrowLengthToInt :: "nat option \<Rightarrow> unit + int option" where
  "narrowLengthToInt len =
     (case len of None \<Rightarrow> Inr None
      | Some n \<Rightarrow> if n > 2 ^ 31 - 1 then Inl () else Inr (Some (int n)))"

definition splitGuidance :: "(string \<times> string) option \<Rightarrow> string option \<times> string option" where
  "splitGuidance g = (case g of None \<Rightarrow> (None, None) | Some (key, txt) \<Rightarrow> (Some key, Some txt))"

definition hexChar :: "nat \<Rightarrow> char" where
  "hexChar d = ''0123456789abcdef'' ! d"

fun hexNat :: "nat \<Rightarrow> string" where
  "hexNat n = (if n < 16 then [hexChar n] else hexNat (n div 16) @ [hexChar (n mod 16)])"

declare hexNat.simps [simp del]

text \<open>The format \<^verbatim>\<open>{:02x}\<close>.\<close>

definition hex02 :: "nat \<Rightarrow> string" where
  "hex02 n = replicate (2 - length (hexNat n)) CHR ''0'' @ hexNat n"

definition toCredentialRecord :: "PinStatusEntry \<Rightarrow> unit + CredRecord" where
  "toCredentialRecord e =
     sum_bind (narrowLengthToInt (ps_minLength e)) (\<lambda>minLength.
     sum_bind (narrowLengthToInt (ps_maxLength e)) (\<lambda>maxLength.
     let kind = credentialKindToken (ps_kind e);
         (blockedKey, blockedFallback) = splitGuidance (ps_blockedGuidance e);
         (activationKey, activationFallback) = splitGuidance (ps_keyActivationGuidance e)
     in Inr \<lparr> crd_id = kind @ '':0x'' @ hex02 (ps_reference e), crd_label = ps_label e, crd_kind = kind,
              crd_state = credentialStateToken (ps_state e), crd_retriesLeft = ps_retriesLeft e,
              crd_retriesMax = ps_retriesMax e, crd_usesLeft = ps_usesLeft e, crd_usesMax = ps_usesMax e,
              crd_unblocksLeft = ps_unblocksLeft e, crd_minLength = minLength, crd_maxLength = maxLength,
              crd_canChange = ps_canChange e, crd_unblockable = ps_unblockable e, crd_activatable = ps_activatable e,
              crd_keyActivationPending = ps_keyActivationPending e, crd_keyActivatable = ps_keyActivatable e,
              crd_recovery = recoveryToken (ps_recovery e), crd_blockedGuidanceKey = blockedKey,
              crd_blockedGuidanceFallback = blockedFallback, crd_keyActivationGuidanceKey = activationKey,
              crd_keyActivationGuidanceFallback = activationFallback \<rparr>))"

definition population :: "string list \<Rightarrow> string \<Rightarrow> nat" where
  "population ids i = length (filter (\<lambda>j. j = i) ids)"

fun disambiguateFrom :: "string list \<Rightarrow> (string \<Rightarrow> nat) \<Rightarrow> CredRecord list \<Rightarrow> CredRecord list" where
  "disambiguateFrom ids nextIndex [] = []"
| "disambiguateFrom ids nextIndex (r # rs) =
     (if population ids (crd_id r) < 2 then r # disambiguateFrom ids nextIndex rs
      else r\<lparr>crd_id := crd_id r @ '':'' @ to_string (nextIndex (crd_id r))\<rparr>
           # disambiguateFrom ids (nextIndex(crd_id r := nextIndex (crd_id r) + 1)) rs)"

definition disambiguateCredentialIds :: "CredRecord list \<Rightarrow> CredRecord list" where
  "disambiguateCredentialIds records = disambiguateFrom (map crd_id records) (\<lambda>_. 0) records"

end
