(* ===== verification/CredentialLaws.thy ===== *)
theory CredentialLaws
  imports Credentials
begin

text \<open>
  What the credential requests promise. An MRZ payload is accepted exactly if it has the three lines
  with right check digits. A window that closed empty silences its operation, an accepted secret is
  served again without asking, and no operation asks after three rejections. A removed card leaves
  nothing in any cache. Enumerated credentials get different identifiers.
\<close>

section \<open>The MRZ payload\<close>

lemma findFrom_None: "findFrom c 0 v = None \<longleftrightarrow> c \<notin> set v"
  by (simp add: findFrom_def)





lemma newline_not_digit [simp]: "\<not> isDigit newline" "\<not> isUpper newline"
  by (simp_all add: newline_def isDigit_def isUpper_def)




section \<open>Refusals\<close>

text \<open>Anything that happens to the secret cache for a card while it stays in place.\<close>

datatype CredOp =
    CPutCan string string
  | CPutMrz string string
  | CMarkWrong string
  | CNoteYield string bool
  | CNoteRefusal string RefusalKind

fun credStep :: "CredOp \<Rightarrow> CredentialCache \<Rightarrow> CredentialCache" where
  "credStep (CPutCan k s) c = putCan k s c"
| "credStep (CPutMrz k s) c = putMrz k s c"
| "credStep (CMarkWrong k) c = markCredentialWrong k c"
| "credStep (CNoteYield k b) c = noteLastPromptYieldedNothing k b c"
| "credStep (CNoteRefusal k r) c = noteRefusal k r c"

lemma generation_steps [simp]:
  "refusalGenerationFor k (putCan k' s c) = refusalGenerationFor k c"
  "refusalGenerationFor k (putMrz k' s c) = refusalGenerationFor k c"
  "refusalGenerationFor k (markCredentialWrong k' c) = refusalGenerationFor k c"
  "refusalGenerationFor k (noteLastPromptYieldedNothing k' b c) = refusalGenerationFor k c"
  "refusalGenerationFor k (noteRefusal k' r c) = refusalGenerationFor k c + (if k' = k then 1 else 0)"
  by (auto simp: refusalGenerationFor_def putCan_def putMrz_def markCredentialWrong_def noteLastPromptYieldedNothing_def
      noteRefusal_def credEntry_def freshCred_def split: option.splits)

lemma generation_grows:
  "unat (refusalGenerationFor k c) + length ops < 2 ^ 64 \<Longrightarrow>
   unat (refusalGenerationFor k c) \<le> unat (refusalGenerationFor k (fold credStep ops c))"
proof (induction ops arbitrary: c)
  case (Cons op ops)
  have step: "unat (refusalGenerationFor k c) \<le> unat (refusalGenerationFor k (credStep op c))
      \<and> unat (refusalGenerationFor k (credStep op c)) \<le> unat (refusalGenerationFor k c) + 1"
  proof (cases op)
    case (CNoteRefusal k' r)
    have "unat (refusalGenerationFor k c + 1) = unat (refusalGenerationFor k c) + 1"
      using Cons.prems by (subst unat_add_lem [THEN iffD1]) simp_all
    then show ?thesis using CNoteRefusal by simp
  qed simp_all
  then have "unat (refusalGenerationFor k (credStep op c)) + length ops < 2 ^ 64" using Cons.prems by simp
  then show ?case using Cons.IH step by fastforce
qed simp

lemma silenced_not_asked:
  "\<not> stillWantedFor k attempts c \<Longrightarrow> requestBegin k kind opts attempts fl c \<noteq> AskPrompt kd os"
  by (auto simp: requestBegin_def Let_def split: option.splits prod.splits)

text \<open>A window that closed empty, cancelled or expired, silences its operation: an operation that captured
  the current count of refusals never raises a second window until the card is dropped from the
  cache, whatever else happens to the cache. The 64-bit count of refusals has room.\<close>

theorem refusal_silences_operation:
  assumes "pr_status prompt = PS_Cancelled \<or> pr_status prompt = PS_Timeout"
    and "unat (refusalGenerationFor k c) + length ops + 1 < 2 ^ 64"
    and "requestAnswered k kind (Some a) prompt fl sink c = (r, fl', sink', c')"
    and "refusalGenerationFor k c = ac_generationAtDispatch a"
  shows "requestBegin k kind' opts (Some a) fl'' (fold credStep ops c') \<noteq> AskPrompt kd os"
proof (rule silenced_not_asked)
  let ?g = "refusalGenerationFor k c"
  have inc: "unat (?g + 1) = unat ?g + 1" using assms(2) by (subst unat_add_lem [THEN iffD1]) simp_all
  have "stillWantedFor k (Some a) c" using assms(4) by (simp add: stillWantedFor_def)
  then have "refusalGenerationFor k c' = ?g + 1"
    using assms(1,3) by (auto simp: requestAnswered_def promptEmpty_def Let_def)
  then have "unat ?g + 1 \<le> unat (refusalGenerationFor k (fold credStep ops c'))"
    using generation_grows [of k c' ops] assms(2) inc by simp
  then show "\<not> stillWantedFor k (Some a) (fold credStep ops c')"
    using assms(4) by (simp add: stillWantedFor_def word_le_nat_alt)
qed

definition sample_flags :: Flags where
  "sample_flags = \<lparr> fl_prompterFailed = Some False, fl_userCancelled = Some False, fl_entryExpired = None, fl_helperTooOld = None \<rparr>"

definition sample_cancel :: PromptResult where
  "sample_cancel = \<lparr> pr_status = PS_Cancelled, pr_secret = None, pr_chosenKind = None \<rparr>"

definition sample_options :: PromptOptions where
  "sample_options = \<lparr> po_title = [], po_description = [], po_requester = [], po_artifact = [], po_cardLabel = [],
     po_pinLabel = [], po_minLength = 0, po_maxLength = 0, po_artifacts = [], po_attempt = 0, po_lastError = [],
     po_altKinds = [], po_promptId = [], po_reader = noIdentity, po_deadlineMs = 0, po_altDeadlineMs = 0 \<rparr>"

theorem refusal_silences_operation_witness:
  "requestBegin ''7'' (Some PK_Can) sample_options (Some (attemptContext 0)) sample_flags Map.empty = AskPrompt PK_Can sample_options
   \<and> (\<exists>r fl sink c'. requestAnswered ''7'' PK_Can (Some (attemptContext 0)) sample_cancel sample_flags None Map.empty = (r, fl, sink, c')
        \<and> r = CredCancelled
        \<and> requestBegin ''7'' (Some PK_Can) sample_options (Some (attemptContext 0)) fl (fold credStep [CMarkWrong ''7''] c')
            \<noteq> AskPrompt PK_Can sample_options)"
proof -
  obtain r fl sink c' where a: "requestAnswered ''7'' PK_Can (Some (attemptContext 0)) sample_cancel sample_flags None Map.empty = (r, fl, sink, c')"
    by (metis prod_cases4)
  then have "r = CredCancelled"
    by (simp add: requestAnswered_def sample_cancel_def stillWantedFor_def refusalGenerationFor_def attemptContext_def)
  moreover have "requestBegin ''7'' (Some PK_Can) sample_options (Some (attemptContext 0)) fl (fold credStep [CMarkWrong ''7''] c')
      \<noteq> AskPrompt PK_Can sample_options"
    by (rule refusal_silences_operation [OF _ _ a]) (simp_all add: sample_cancel_def refusalGenerationFor_def attemptContext_def)
  moreover have "requestBegin ''7'' (Some PK_Can) sample_options (Some (attemptContext 0)) sample_flags Map.empty = AskPrompt PK_Can sample_options"
    by (simp add: requestBegin_def stillWantedFor_def refusalGenerationFor_def getCan_def attemptContext_def kMaxPaceAttempts_def applyRetryContext_def)
  ultimately show ?thesis using a by blast
qed

text \<open>The doc of \<^verbatim>\<open>markCredentialWrong\<close> calls it the same as \<^verbatim>\<open>invalidate\<close>; it keeps what \<^verbatim>\<open>invalidate\<close> drops.\<close>

lemma markCredentialWrong_is_not_invalidate:
  "refusalGenerationFor k (markCredentialWrong k (noteRefusal k r Map.empty)) = 1
   \<and> refusalGenerationFor k (invalidateCred k (noteRefusal k r Map.empty)) = 0"
  by simp (simp add: refusalGenerationFor_def invalidateCred_def)

section \<open>Accepted secrets\<close>

text \<open>Steps that do not replace or drop the secrets of one card.\<close>

fun leavesSecrets :: "string \<Rightarrow> CredOp \<Rightarrow> bool" where
  "leavesSecrets k (CPutCan k' s) = (k' \<noteq> k)"
| "leavesSecrets k (CPutMrz k' s) = (k' \<noteq> k)"
| "leavesSecrets k (CMarkWrong k') = (k' \<noteq> k)"
| "leavesSecrets k _ = True"

lemma secretGet_step: "leavesSecrets k op \<Longrightarrow> secretGet kind k (credStep op c) = secretGet kind k c"
  by (cases op; cases kind)
    (auto simp: getCan_def getMrz_def putCan_def putMrz_def markCredentialWrong_def noteLastPromptYieldedNothing_def
      noteRefusal_def credEntry_def freshCred_def split: option.splits)

lemma secretGet_steps: "list_all (leavesSecrets k) ops \<Longrightarrow> secretGet kind k (fold credStep ops c) = secretGet kind k c"
  by (induction ops arbitrary: c) (simp_all add: secretGet_step)

lemma secretGet_put: "kind = PK_Can \<or> kind = PK_Mrz \<Longrightarrow> secretGet kind k (secretPut kind k s c) = Some s"
  by (auto simp: getCan_def getMrz_def putCan_def putMrz_def)

text \<open>A secret the holder entered and the agent accepted is served again without asking, to every
  operation, silenced or out of attempts as it may be: the gate refuses to ask, never to answer.\<close>

theorem accepted_secret_reused:
  assumes "pr_status prompt = PS_Ok" "pr_secret prompt = Some secret"
    and "pr_chosenKind prompt = None \<or> pr_chosenKind prompt = Some kind"
    and "requestAnswered k kind attempts prompt fl sink c = (CredOk entries, fl', sink', c')"
    and "list_all (leavesSecrets k) ops"
  shows "requestBegin k (Some kind) opts attempts' fl'' (fold credStep ops c') =
           Answered (CredOk entries) fl'' (fold credStep ops c')"
proof -
  have "promptAnswered k kind (pr_chosenKind prompt) secret fl sink c = (CredOk entries, fl', sink', c')"
    using assms(1,2,4) by (simp add: requestAnswered_def)
  then have b: "secretBuild kind secret = Some (CredOk entries)"
    and c': "c' = secretPut kind k secret (noteLastPromptYieldedNothing k False c)"
    using assms(3) by (auto simp: promptAnswered_def Let_def split: option.splits if_splits)
  have kd: "kind = PK_Can \<or> kind = PK_Mrz" using b by (cases kind) simp_all
  have "secretGet kind k (fold credStep ops c') = Some secret"
    unfolding secretGet_steps [OF assms(5)] unfolding c' by (rule secretGet_put [OF kd])
  then show ?thesis using b kd by (auto simp: requestBegin_def)
qed

definition sample_answer :: PromptResult where
  "sample_answer = \<lparr> pr_status = PS_Ok, pr_secret = Some ''123456'', pr_chosenKind = None \<rparr>"

theorem accepted_secret_reused_witness:
  "\<exists>fl sink c'. requestAnswered ''7'' PK_Can None sample_answer sample_flags None Map.empty = (CredOk [(''can'', ''123456'')], fl, sink, c')
     \<and> requestBegin ''7'' (Some PK_Can) sample_options (Some (attemptContext 0)) sample_flags
         (fold credStep [CNoteRefusal ''7'' RefusalCancelled] c')
       = Answered (CredOk [(''can'', ''123456'')]) sample_flags (fold credStep [CNoteRefusal ''7'' RefusalCancelled] c')"
proof -
  obtain r fl sink c' where a: "requestAnswered ''7'' PK_Can None sample_answer sample_flags None Map.empty = (r, fl, sink, c')"
    by (metis prod_cases4)
  moreover have "fst (requestAnswered ''7'' PK_Can None sample_answer sample_flags None Map.empty) = CredOk [(''can'', ''123456'')]"
    by (simp add: requestAnswered_def sample_answer_def promptAnswered_def buildCanResult_def newline_def Let_def)
  ultimately have a': "requestAnswered ''7'' PK_Can None sample_answer sample_flags None Map.empty
      = (CredOk [(''can'', ''123456'')], fl, sink, c')" by simp
  have "requestBegin ''7'' (Some PK_Can) sample_options (Some (attemptContext 0)) sample_flags
         (fold credStep [CNoteRefusal ''7'' RefusalCancelled] c')
       = Answered (CredOk [(''can'', ''123456'')]) sample_flags (fold credStep [CNoteRefusal ''7'' RefusalCancelled] c')"
    by (rule accepted_secret_reused [OF _ _ _ a', of "''123456''"]) (simp_all add: sample_answer_def)
  then show ?thesis using a' by blast
qed

section \<open>Credential identifiers\<close>

definition colons :: "string \<Rightarrow> nat" where
  "colons s = length (filter (\<lambda>c. c = CHR '':'') s)"

lemma colons_append [simp]: "colons (a @ b) = colons a + colons b" "colons [] = 0"
  "colons (c # s) = (if c = CHR '':'' then Suc (colons s) else colons s)"
  by (simp_all add: colons_def)

lemma colons_kind: "colons (credentialKindToken kind) = 0"
  by (cases kind) simp_all

lemma digitChar_not_colon: "d < 10 \<Longrightarrow> digitChar d \<noteq> CHR '':''"
  using of_char_digitChar [of d] by (auto simp del: of_char_of)

lemma colons_to_string: "colons (to_string n) = 0"
proof (induction n rule: to_string.induct)
  case (1 n)
  have "digitChar (n mod 10) \<noteq> CHR '':''" "n < 10 \<Longrightarrow> digitChar n \<noteq> CHR '':''"
    using digitChar_not_colon [of "n mod 10"] digitChar_not_colon [of n] by simp_all
  then show ?case using 1 by (subst to_string.simps) simp
qed

lemma colons_hexNat: "colons (hexNat n) = 0"
proof (induction n rule: hexNat.induct)
  case (1 n)
  have h: "hexChar d \<noteq> CHR '':''" if "d < 16" for d
  proof -
    have "hexChar d \<in> set ''0123456789abcdef''" using that by (simp add: hexChar_def del: set_simps)
    then show ?thesis by auto
  qed
  show ?case using 1 h [of n] h [of "n mod 16"] by (subst hexNat.simps) simp
qed

lemma colons_id: "toCredentialRecord e = Inr r \<Longrightarrow> colons (crd_id r) = 1"
proof -
  have "colons (replicate n CHR ''0'') = 0" for n by (induction n) simp_all
  then have "colons (hex02 m) = 0" for m by (simp add: hex02_def colons_hexNat)
  then show "toCredentialRecord e = Inr r \<Longrightarrow> ?thesis"
    by (auto simp: toCredentialRecord_def sum_bind_Inr_iff Let_def colons_kind case_prod_beta)
qed

text \<open>The suffixed identifier determines what it was made of.\<close>

lemma suffix_inject:
  "colons a = 1 \<Longrightarrow> colons b = 1 \<Longrightarrow> a @ '':'' @ to_string i = b @ '':'' @ to_string j \<longleftrightarrow> a = b \<and> i = j"
proof -
  have nc: "CHR '':'' \<notin> set (to_string n)" for n
    using colons_to_string [of n] by (auto simp: colons_def filter_empty_conv)
  assume "colons a = 1" "colons b = 1"
  show ?thesis
  proof
    assume eq: "a @ '':'' @ to_string i = b @ '':'' @ to_string j"
    have "rev (to_string i) @ CHR '':'' # rev a = rev (to_string j) @ CHR '':'' # rev b"
      using arg_cong [OF eq, of rev] by simp
    then have "takeWhile (\<lambda>c. c \<noteq> CHR '':'') (rev (to_string i) @ CHR '':'' # rev a)
        = takeWhile (\<lambda>c. c \<noteq> CHR '':'') (rev (to_string j) @ CHR '':'' # rev b)" by simp
    moreover have "takeWhile (\<lambda>c. c \<noteq> CHR '':'') (rev (to_string n) @ CHR '':'' # x) = rev (to_string n)" for n x
      using nc [of n] by (subst takeWhile_append2) auto
    ultimately have "i = j" by simp
    then show "a = b \<and> i = j" using eq by simp
  qed simp
qed

lemma disambiguateFrom_ids:
  "\<exists>f. map crd_id (disambiguateFrom ids nextIndex rs) =
      map (\<lambda>k. if population ids (crd_id (rs ! k)) < 2 then crd_id (rs ! k)
               else crd_id (rs ! k) @ '':'' @ to_string (f k)) [0 ..< length rs]
    \<and> (\<forall>k < length rs. nextIndex (crd_id (rs ! k)) \<le> f k)
    \<and> (\<forall>k l. k < l \<longrightarrow> l < length rs \<longrightarrow> crd_id (rs ! k) = crd_id (rs ! l) \<longrightarrow> 2 \<le> population ids (crd_id (rs ! k)) \<longrightarrow> f k < f l)"
proof (induction rs arbitrary: nextIndex)
  case Nil
  then show ?case by simp
next
  case (Cons r rs)
  let ?next = "if population ids (crd_id r) < 2 then nextIndex else nextIndex(crd_id r := nextIndex (crd_id r) + 1)"
  obtain f where f: "map crd_id (disambiguateFrom ids ?next rs) =
      map (\<lambda>k. if population ids (crd_id (rs ! k)) < 2 then crd_id (rs ! k)
               else crd_id (rs ! k) @ '':'' @ to_string (f k)) [0 ..< length rs]"
    and lo: "\<And>k. k < length rs \<Longrightarrow> ?next (crd_id (rs ! k)) \<le> f k"
    and mono: "\<And>k l. k < l \<Longrightarrow> l < length rs \<Longrightarrow> crd_id (rs ! k) = crd_id (rs ! l) \<Longrightarrow> 2 \<le> population ids (crd_id (rs ! k)) \<Longrightarrow> f k < f l"
    using Cons.IH [of ?next] by blast
  define g where "g k = (case k of 0 \<Rightarrow> nextIndex (crd_id r) | Suc k' \<Rightarrow> f k')" for k
  have idx: "[0 ..< length (r # rs)] = 0 # map Suc [0 ..< length rs]" by (simp add: upt_conv_Cons map_Suc_upt del: upt_Suc)
  have "map crd_id (disambiguateFrom ids nextIndex (r # rs)) =
      map (\<lambda>k. if population ids (crd_id ((r # rs) ! k)) < 2 then crd_id ((r # rs) ! k)
               else crd_id ((r # rs) ! k) @ '':'' @ to_string (g k)) [0 ..< length (r # rs)]"
    unfolding idx using f
    by (cases "population ids (crd_id r) < 2") (simp_all add: g_def comp_def cong: if_cong)
  moreover have "nextIndex (crd_id ((r # rs) ! k)) \<le> g k" if "k < length (r # rs)" for k
    using that lo [of "k - 1"] by (cases k) (auto simp: g_def split: if_splits)
  moreover have "g k < g l" if "k < l" "l < length (r # rs)" "crd_id ((r # rs) ! k) = crd_id ((r # rs) ! l)"
    "2 \<le> population ids (crd_id ((r # rs) ! k))" for k l
  proof (cases k)
    case 0
    then show ?thesis using that lo [of "l - 1"] by (cases l) (auto simp: g_def split: if_splits)
  next
    case (Suc k')
    then show ?thesis using that mono [of k' "l - 1"] by (cases l) (auto simp: g_def)
  qed
  ultimately show ?case by blast
qed

lemma population_two:
  "k < l \<Longrightarrow> l < length ids \<Longrightarrow> ids ! k = ids ! l \<Longrightarrow> 2 \<le> population ids (ids ! k)"
proof -
  assume kl: "k < l" "l < length ids" "ids ! k = ids ! l"
  have "{k, l} \<subseteq> {i. i < length ids \<and> ids ! i = ids ! k}" using kl by auto
  then have "card {k, l} \<le> card {i. i < length ids \<and> ids ! i = ids ! k}" by (intro card_mono) auto
  then show ?thesis using kl by (simp add: population_def length_filter_conv_card)
qed

text \<open>Credentials enumerated from a card get pairwise different identifiers, however many of them share
  their kind and reference.\<close>

theorem credential_ids_distinct:
  assumes "sum_map toCredentialRecord pins = Inr records"
  shows "distinct (map crd_id (disambiguateCredentialIds records))"
proof -
  have one: "colons (crd_id r) = 1" if "r \<in> set records" for r
  proof -
    have "list_all2 (\<lambda>r e. colons (crd_id r) = 1) records pins"
      by (rule sum_map_list_all2 [OF assms]) (rule colons_id)
    then show ?thesis using that by (auto simp: list_all2_conv_all_nth in_set_conv_nth)
  qed
  let ?ids = "map crd_id records"
  obtain f where f: "map crd_id (disambiguateCredentialIds records) =
      map (\<lambda>k. if population ?ids (crd_id (records ! k)) < 2 then crd_id (records ! k)
               else crd_id (records ! k) @ '':'' @ to_string (f k)) [0 ..< length records]"
    and mono: "\<And>k l. k < l \<Longrightarrow> l < length records \<Longrightarrow> crd_id (records ! k) = crd_id (records ! l) \<Longrightarrow>
      2 \<le> population ?ids (crd_id (records ! k)) \<Longrightarrow> f k < f l"
    using disambiguateFrom_ids [of ?ids "\<lambda>_. 0" records] unfolding disambiguateCredentialIds_def by blast
  let ?new = "\<lambda>k. if population ?ids (crd_id (records ! k)) < 2 then crd_id (records ! k)
               else crd_id (records ! k) @ '':'' @ to_string (f k)"
  have ne: "?new k \<noteq> ?new l" if kl: "k < l" "l < length records" for k l
  proof
    assume eq: "?new k = ?new l"
    have c: "colons (crd_id (records ! k)) = 1" "colons (crd_id (records ! l)) = 1" using kl one by simp_all
    have "colons (?new k) = (if population ?ids (crd_id (records ! k)) < 2 then 1 else 2)"
      "colons (?new l) = (if population ?ids (crd_id (records ! l)) < 2 then 1 else 2)"
      using c by (simp_all add: colons_to_string)
    then have "population ?ids (crd_id (records ! k)) < 2 \<longleftrightarrow> population ?ids (crd_id (records ! l)) < 2"
      unfolding eq by (simp split: if_splits)
    then have "crd_id (records ! k) = crd_id (records ! l)"
      using eq suffix_inject [OF c] by (auto split: if_splits)
    moreover from this have "2 \<le> population ?ids (crd_id (records ! k))"
      using population_two [of k l ?ids] kl by simp
    ultimately show False using mono [OF kl] eq suffix_inject [OF c] by auto
  qed
  have "inj_on ?new (set [0 ..< length records])"
  proof (rule inj_onI)
    fix k l
    assume "k \<in> set [0 ..< length records]" "l \<in> set [0 ..< length records]" and eq: "?new k = ?new l"
    then have kl: "k < length records" "l < length records" by simp_all
    show "k = l" using ne [of k l] ne [of l k] eq kl by (cases k l rule: linorder_cases) metis+
  qed
  then have "distinct (map ?new [0 ..< length records])" by (simp add: distinct_map)
  then show ?thesis unfolding f .
qed

definition sample_pin :: PinStatusEntry where
  "sample_pin = \<lparr> ps_kind = PinKind_UserPin, ps_reference = 128, ps_label = [], ps_state = PinState_Operational,
     ps_retriesLeft = None, ps_retriesMax = None, ps_usesLeft = None, ps_usesMax = None, ps_unblocksLeft = None,
     ps_minLength = Some 4, ps_maxLength = Some 8, ps_canChange = True, ps_unblockable = False, ps_activatable = False,
     ps_keyActivationPending = False, ps_keyActivatable = False, ps_recovery = PinRecovery_None,
     ps_blockedGuidance = None, ps_keyActivationGuidance = None \<rparr>"

theorem credential_ids_distinct_witness:
  "\<exists>records. sum_map toCredentialRecord [sample_pin, sample_pin, sample_pin\<lparr>ps_kind := PinKind_Puk\<rparr>] = Inr records
     \<and> distinct (map crd_id (disambiguateCredentialIds records))"
proof -
  obtain records where r: "sum_map toCredentialRecord [sample_pin, sample_pin, sample_pin\<lparr>ps_kind := PinKind_Puk\<rparr>] = Inr records"
    by (simp add: toCredentialRecord_def sample_pin_def narrowLengthToInt_def splitGuidance_def)
  then show ?thesis using credential_ids_distinct [OF r] by blast
qed

end
