(* ===== verification/RemovalRuns.thy ===== *)
theory RemovalRuns
  imports PresenceRuns CredentialLaws
begin

text \<open>
  The monitor bridge and the caches of card data together: a host names each card in the caches by a
  key made of its object identifier, and its removal hook drops that key from the caches
  (\<^verbatim>\<open>cache/CardRemovalCaches.h\<close>) for every card \<^verbatim>\<open>CardKeyTracker\<close> reports. The runs interleave monitor events
  with the reads and writes of the operations. While operations write only for cards in place, the
  caches hold nothing of a card that is gone. Nothing in the code enforces that premise: a read that
  finishes just before its card leaves stores its result after the hook has run, and no one drops it.
\<close>

section \<open>The composed system\<close>

record CardSystem =
  sys_bridge :: Bridge
  sys_caches :: CardCaches

datatype SystemStep =
    SysEvent MonitorEvent
  | SysRead ReadOp
  | SysSnapshot SnapOp
  | SysCredential CredOp

definition onRead :: "ReadOp \<Rightarrow> CardCaches \<Rightarrow> CardCaches" where
  "onRead op cs = cs\<lparr>cc_reads := readStep op (cc_reads cs)\<rparr>"

definition onSnapshot :: "SnapOp \<Rightarrow> CardCaches \<Rightarrow> CardCaches" where
  "onSnapshot op cs = cs\<lparr>cc_snapshots := snd (snapStep op ([], cc_snapshots cs))\<rparr>"

definition onCredential :: "CredOp \<Rightarrow> CardCaches \<Rightarrow> CardCaches" where
  "onCredential op cs = cs\<lparr>cc_credentials := credStep op (cc_credentials cs)\<rparr>"

text \<open>The removal hook runs for the cards an event newly reports, in the order of the reports.\<close>

definition runHook :: "(ObjectId \<Rightarrow> string) \<Rightarrow> Bridge \<Rightarrow> Bridge \<Rightarrow> CardCaches \<Rightarrow> CardCaches" where
  "runHook keyOf b b' cs =
     fold (\<lambda>(c, n). invalidateCardRemovalCaches (keyOf c)) (drop (length (br_keysRemoved b)) (br_keysRemoved b')) cs"

fun systemStep :: "(bytes \<Rightarrow> u32) \<Rightarrow> (ObjectId \<Rightarrow> string) \<Rightarrow> SystemStep \<Rightarrow> CardSystem \<Rightarrow> CardSystem" where
  "systemStep caps keyOf (SysEvent ev) s =
     (let b' = dispatch caps ev (sys_bridge s)
      in \<lparr> sys_bridge = b', sys_caches = runHook keyOf (sys_bridge s) b' (sys_caches s) \<rparr>)"
| "systemStep caps keyOf (SysRead op) s = s\<lparr>sys_caches := onRead op (sys_caches s)\<rparr>"
| "systemStep caps keyOf (SysSnapshot op) s = s\<lparr>sys_caches := onSnapshot op (sys_caches s)\<rparr>"
| "systemStep caps keyOf (SysCredential op) s = s\<lparr>sys_caches := onCredential op (sys_caches s)\<rparr>"

definition systemInit :: "Observers \<Rightarrow> time \<Rightarrow> CardSystem" where
  "systemInit obs idleWindow =
     \<lparr> sys_bridge = bridgeInit obs True,
       sys_caches = \<lparr> cc_credentials = Map.empty,
                      cc_reads = \<lparr> rdc_idleWindow = kNoIdleExpiry, rdc_entries = [], rdc_released = [] \<rparr>,
                      cc_snapshots = snapshotCacheInit idleWindow \<rparr> \<rparr>"

definition systemRun :: "(bytes \<Rightarrow> u32) \<Rightarrow> (ObjectId \<Rightarrow> string) \<Rightarrow> Observers \<Rightarrow> time \<Rightarrow> SystemStep list \<Rightarrow> CardSystem" where
  "systemRun caps keyOf obs idleWindow steps = fold (systemStep caps keyOf) steps (systemInit obs idleWindow)"

text \<open>The card a step writes for.\<close>

fun writtenRead :: "ReadOp \<Rightarrow> string option" where
  "writtenRead (RPut now k s) = Some k"
| "writtenRead (RPutCerts now k cs) = Some k"
| "writtenRead _ = None"

fun writtenSnapshot :: "SnapOp \<Rightarrow> string option" where
  "writtenSnapshot (SPut now k s) = Some k"
| "writtenSnapshot _ = None"

fun writtenCredential :: "CredOp \<Rightarrow> string" where
  "writtenCredential (CPutCan k s) = k"
| "writtenCredential (CPutMrz k s) = k"
| "writtenCredential (CMarkWrong k) = k"
| "writtenCredential (CNoteYield k b) = k"
| "writtenCredential (CNoteRefusal k r) = k"

fun written :: "SystemStep \<Rightarrow> string option" where
  "written (SysEvent ev) = None"
| "written (SysRead op) = writtenRead op"
| "written (SysSnapshot op) = writtenSnapshot op"
| "written (SysCredential op) = Some (writtenCredential op)"

definition presentKeys :: "(ObjectId \<Rightarrow> string) \<Rightarrow> CardSystem \<Rightarrow> string set" where
  "presentKeys keyOf s = keyOf ` ran (pm_cardIds (br_model (sys_bridge s)))"

definition writesInPlace :: "(ObjectId \<Rightarrow> string) \<Rightarrow> SystemStep \<Rightarrow> CardSystem \<Rightarrow> bool" where
  "writesInPlace keyOf st s = (case written st of None \<Rightarrow> True | Some k \<Rightarrow> k \<in> presentKeys keyOf s)"

fun allInPlace :: "(bytes \<Rightarrow> u32) \<Rightarrow> (ObjectId \<Rightarrow> string) \<Rightarrow> SystemStep list \<Rightarrow> CardSystem \<Rightarrow> bool" where
  "allInPlace caps keyOf [] s = True"
| "allInPlace caps keyOf (st # steps) s =
     (writesInPlace keyOf st s \<and> allInPlace caps keyOf steps (systemStep caps keyOf st s))"

section \<open>What the caches hold\<close>

definition occupied :: "CardCaches \<Rightarrow> string set" where
  "occupied cs = dom (cc_credentials cs) \<union> fst ` set (rdc_entries (cc_reads cs)) \<union> fst ` set (snc_entries (cc_snapshots cs))"

lemma keys_assign_by: "fst ` set (assign_by lt k v m) \<subseteq> insert k (fst ` set m)"
  using set_assign_by [of _ lt k v m] by (auto simp: image_iff) (metis fst_conv)

lemma set_keys_modify [simp]: "fst ` set (modify_key k f m) = fst ` set m"
  by (force simp: modify_key_def)

lemma keys_eraseKey: "fst ` set (eraseKey k m) = fst ` set m - {k}"
  by (auto simp: eraseKey_def)

lemma keys_touchEntry [simp]: "fst ` set (rdc_entries (touchEntry now k c)) = fst ` set (rdc_entries c)"
  by (simp add: touchEntry_def)

lemma keys_liveReadEntry: "fst ` set (rdc_entries (snd (liveReadEntry now k c))) \<subseteq> fst ` set (rdc_entries c)"
  by (auto simp: liveReadEntry_def keys_eraseKey eraseKey_def split: option.splits)

lemma readStep_keys:
  "fst ` set (rdc_entries (readStep op c)) \<subseteq> set_option (writtenRead op) \<union> fst ` set (rdc_entries c)"
proof (cases op)
  case (RGet now k)
  then show ?thesis using keys_liveReadEntry [of now k c]
    by (simp add: getRead_def case_prod_beta split: option.splits)
next
  case (RGetCerts now k)
  then show ?thesis using keys_liveReadEntry [of now k c]
    by (simp add: getCertificates_def case_prod_beta split: option.splits)
next
  case (RPut now k s)
  show ?thesis unfolding RPut putRead_def readStep.simps Let_def case_prod_beta using keys_assign_by by simp
next
  case (RPutCerts now k cs)
  show ?thesis unfolding RPutCerts putCertificates_def readStep.simps Let_def case_prod_beta using keys_assign_by by simp
qed (auto simp: invalidateRead_def clearRead_def eraseKey_def split: option.splits)

lemma snapStep_keys:
  "fst ` set (snc_entries (snd (snapStep op ([], c)))) \<subseteq> set_option (writtenSnapshot op) \<union> fst ` set (snc_entries c)"
proof (cases op)
  case (SPut now k s)
  then show ?thesis using keys_assign_by by (simp add: putSnapshot_def Let_def split: option.splits)
next
  case (SGet now k)
  then show ?thesis
    by (auto simp: getSnapshot_def liveSnapshot_def keys_eraseKey eraseKey_def split: option.splits)
qed (auto simp: invalidateSnapshot_def clearSnapshots_def eraseKey_def split: option.splits)

lemma credStep_keys: "dom (credStep op c) \<subseteq> insert (writtenCredential op) (dom c)"
  by (cases op) (auto simp: putCan_def putMrz_def markCredentialWrong_def noteLastPromptYieldedNothing_def noteRefusal_def
      split: option.splits if_splits)

text \<open>The hook drops exactly the keys it is given.\<close>

lemma occupied_invalidate: "occupied (invalidateCardRemovalCaches k cs) = occupied cs - {k}"
proof -
  have "fst ` set (rdc_entries (invalidateRead k c)) = fst ` set (rdc_entries c) - {k}" for c
    by (auto simp: invalidateRead_def keys_eraseKey map_of_eq_None_iff split: option.splits)
  moreover have "fst ` set (snc_entries (invalidateSnapshot k c)) = fst ` set (snc_entries c) - {k}" for c
    by (auto simp: invalidateSnapshot_def keys_eraseKey map_of_eq_None_iff split: option.splits)
  ultimately show ?thesis by (auto simp: occupied_def invalidateCardRemovalCaches_def invalidateCred_def)
qed

lemma occupied_hook: "occupied (fold (\<lambda>(c, n). invalidateCardRemovalCaches (keyOf c)) gone cs) = occupied cs - keyOf ` fst ` set gone"
  by (induction gone arbitrary: cs) (auto simp: occupied_invalidate)

section \<open>Nothing of a card that is gone\<close>

definition events :: "SystemStep list \<Rightarrow> MonitorEvent list" where
  "events steps = concat (map (\<lambda>st. case st of SysEvent ev \<Rightarrow> [ev] | _ \<Rightarrow> []) steps)"

lemma length_events: "length (events steps) \<le> length steps"
  by (induction steps) (auto simp: events_def split: SystemStep.splits)

lemma systemRun_bridge: "sys_bridge (systemRun caps keyOf obs w steps) = bridgeRun caps obs True (events steps)"
proof -
  have "sys_bridge (fold (systemStep caps keyOf) steps s) = fold (dispatch caps) (events steps) (sys_bridge s)" for s
    by (induction steps arbitrary: s) (auto simp: events_def Let_def split: SystemStep.splits)
  then show ?thesis by (simp add: systemRun_def bridgeRun_def systemInit_def)
qed

lemma present_or_gone:
  "keyOf ` ran (pm_cardIds (br_model b)) - keyOf ` fst ` goneBetween b b' \<subseteq> keyOf ` ran (pm_cardIds (br_model b'))"
proof
  fix k
  assume k: "k \<in> keyOf ` ran (pm_cardIds (br_model b)) - keyOf ` fst ` goneBetween b b'"
  then obtain c n where c: "k = keyOf c" "pm_cardIds (br_model b) n = Some c" by (auto simp: ran_def)
  then have "(c, n) \<notin> goneBetween b b'" using k by (metis DiffD2 fst_conv imageI)
  then have "pm_cardIds (br_model b') n = Some c" using c by (simp add: goneBetween_def)
  then show "k \<in> keyOf ` ran (pm_cardIds (br_model b'))" using c by (auto simp: ran_def)
qed

lemma occupied_write:
  assumes "occupied cs \<subseteq> K" "set_option k \<subseteq> K"
  shows "k = writtenRead op \<Longrightarrow> occupied (onRead op cs) \<subseteq> K"
    "k = writtenSnapshot op' \<Longrightarrow> occupied (onSnapshot op' cs) \<subseteq> K"
    "k = Some (writtenCredential op'') \<Longrightarrow> occupied (onCredential op'' cs) \<subseteq> K"
proof -
  note occ = assms(1) [unfolded occupied_def]
  assume "k = writtenRead op"
  then have "fst ` set (rdc_entries (readStep op (cc_reads cs))) \<subseteq> K"
    using readStep_keys [of op "cc_reads cs"] occ assms(2) by blast
  then show "occupied (onRead op cs) \<subseteq> K" using occ by (simp add: occupied_def onRead_def)
next
  note occ = assms(1) [unfolded occupied_def]
  assume "k = writtenSnapshot op'"
  then have "fst ` set (snc_entries (snd (snapStep op' ([], cc_snapshots cs)))) \<subseteq> K"
    using snapStep_keys [of op' "cc_snapshots cs"] occ assms(2) by blast
  then show "occupied (onSnapshot op' cs) \<subseteq> K" using occ by (simp add: occupied_def onSnapshot_def)
next
  note occ = assms(1) [unfolded occupied_def]
  assume "k = Some (writtenCredential op'')"
  then have "dom (credStep op'' (cc_credentials cs)) \<subseteq> K"
    using credStep_keys [of op'' "cc_credentials cs"] occ assms(2) by auto
  then show "occupied (onCredential op'' cs) \<subseteq> K" using occ by (simp add: occupied_def onCredential_def)
qed

lemma systemStep_confined:
  assumes occ: "occupied (sys_caches s) \<subseteq> presentKeys keyOf s" and w: "writesInPlace keyOf st s"
    and rep: "\<And>ev. st = SysEvent ev \<Longrightarrow> reports (sys_bridge s) (dispatch caps ev (sys_bridge s))"
  shows "occupied (sys_caches (systemStep caps keyOf st s)) \<subseteq> presentKeys keyOf (systemStep caps keyOf st s)"
proof (cases "\<exists>ev. st = SysEvent ev")
  case True
  then obtain ev where ev: "st = SysEvent ev" by blast
  let ?b = "sys_bridge s" and ?b' = "dispatch caps ev (sys_bridge s)"
  obtain new where new: "br_keysRemoved ?b' = br_keysRemoved ?b @ new" "set new = goneBetween ?b ?b'"
    using rep [OF ev] unfolding reports_def by blast
  have a: "occupied (sys_caches (systemStep caps keyOf st s)) = occupied (sys_caches s) - keyOf ` fst ` set new"
    unfolding ev systemStep.simps Let_def runHook_def by (simp add: new(1) occupied_hook)
  have b: "presentKeys keyOf s - keyOf ` fst ` set new \<subseteq> presentKeys keyOf (systemStep caps keyOf st s)"
    using present_or_gone [of keyOf ?b ?b'] unfolding presentKeys_def ev systemStep.simps Let_def new(2) by simp
  show ?thesis unfolding a by (rule subset_trans [OF Diff_mono [OF occ subset_refl] b])
next
  case False
  have k: "set_option (written st) \<subseteq> presentKeys keyOf s" using w by (simp add: writesInPlace_def split: option.splits)
  have "presentKeys keyOf (systemStep caps keyOf st s) = presentKeys keyOf s"
    using False by (cases st) (simp_all add: presentKeys_def)
  moreover have "occupied (sys_caches (systemStep caps keyOf st s)) \<subseteq> presentKeys keyOf s"
  proof (cases st)
    case (SysRead op)
    then show ?thesis using occupied_write(1) [OF occ k, of op] by simp
  next
    case (SysSnapshot op)
    then show ?thesis using occupied_write(2) [OF occ k, of op] by simp
  next
    case (SysCredential op)
    then show ?thesis using occupied_write(3) [OF occ k, of op] by simp
  qed (use False in blast)
  ultimately show ?thesis by simp
qed

lemma allInPlace_snoc:
  "allInPlace caps keyOf (steps @ [st]) s \<longleftrightarrow>
   allInPlace caps keyOf steps s \<and> writesInPlace keyOf st (fold (systemStep caps keyOf) steps s)"
  by (induction steps arbitrary: s) auto

lemma systemRun_reports:
  assumes "2 * (length steps + 1) < 2 ^ 64"
  shows "reports (sys_bridge (systemRun caps keyOf obs w steps)) (dispatch caps ev (sys_bridge (systemRun caps keyOf obs w steps)))"
proof -
  have "2 * (length (events steps) + 1) < 2 ^ 64" using length_events [of steps] assms by simp
  then show ?thesis unfolding systemRun_bridge
    using bridgeRun_inv [of "events steps" caps obs] dispatch_step [OF _ _ _ _ refl, of "length (events steps)"] by auto
qed

text \<open>C9. While operations write only for cards in place, the three caches together hold entries only of
  cards in place, after any interleaving of monitor events, cache reads and cache writes. The counter
  of identifiers has room for the events.\<close>

theorem caches_hold_present_cards:
  assumes "allInPlace caps keyOf steps (systemInit obs w)" "2 * length steps < 2 ^ 64"
  shows "occupied (sys_caches (systemRun caps keyOf obs w steps)) \<subseteq> presentKeys keyOf (systemRun caps keyOf obs w steps)"
  using assms
proof (induction steps rule: rev_induct)
  case Nil
  then show ?case by (simp add: systemRun_def systemInit_def occupied_def snapshotCacheInit_def)
next
  case (snoc st steps)
  have "occupied (sys_caches (systemStep caps keyOf st (systemRun caps keyOf obs w steps)))
      \<subseteq> presentKeys keyOf (systemStep caps keyOf st (systemRun caps keyOf obs w steps))"
    using snoc by (intro systemStep_confined systemRun_reports)
      (auto simp: allInPlace_snoc systemRun_def [symmetric])
  then show ?case by (simp add: systemRun_def)
qed

definition sample_read :: CardReadSnapshot where
  "sample_read = \<lparr> crs_cardType = ''eid'', crs_groups = [] \<rparr>"

definition sample_steps :: "SystemStep list" where
  "sample_steps = [SysEvent (EvReaderAdded ''A''), SysEvent (EvCardInserted ''A'' (Some [0x3B])),
     SysCredential (CPutCan ''2'' ''123456''), SysRead (RPut 0 ''2'' sample_read), SysEvent (EvCardRemoved ''A'')]"

definition decimalKey :: "ObjectId \<Rightarrow> string" where
  "decimalKey c = to_string (unat c)"

lemma inj_decimalKey: "inj decimalKey"
  by (rule injI) (simp add: decimalKey_def word_unat_eq_iff)

lemma sample_reported: "br_keysRemoved (bridgeRun (\<lambda>_. 0) allObservers True (events sample_steps)) = [(2, ''A'')]"
  by code_simp

lemma sample_in_place: "allInPlace (\<lambda>_. 0) decimalKey sample_steps (systemInit allObservers 0)"
proof -
  let ?b = "dispatch (\<lambda>_. 0) (EvCardInserted ''A'' (Some [0x3B])) (dispatch (\<lambda>_. 0) (EvReaderAdded ''A'') (bridgeInit allObservers True))"
  have "pm_cardIds (br_model ?b) ''A'' = Some 2" "decimalKey 2 = ''2''" by code_simp+
  then have "''2'' \<in> decimalKey ` ran (pm_cardIds (br_model ?b))" by (metis imageI ranI)
  then show ?thesis
    by (simp add: sample_steps_def writesInPlace_def presentKeys_def Let_def systemInit_def del: dispatch.simps)
qed

theorem caches_hold_present_cards_witness:
  "allInPlace (\<lambda>_. 0) decimalKey sample_steps (systemInit allObservers 0)
   \<and> decimalKey 2 \<notin> occupied (sys_caches (systemRun (\<lambda>_. 0) decimalKey allObservers 0 sample_steps))"
proof -
  have "2 \<notin> ran (pm_cardIds (br_model (bridgeRun (\<lambda>_. 0) allObservers True (events sample_steps))))"
    using bridgeRun_inv [of "events sample_steps" "\<lambda>_. 0" allObservers] sample_reported
    by (simp add: bridgeInv_def sample_steps_def events_def)
  then have "decimalKey 2 \<notin> presentKeys decimalKey (systemRun (\<lambda>_. 0) decimalKey allObservers 0 sample_steps)"
    by (simp add: presentKeys_def systemRun_bridge inj_image_mem_iff [OF inj_decimalKey])
  then show ?thesis
    using caches_hold_present_cards [OF sample_in_place] sample_in_place by (auto simp: sample_steps_def)
qed

section \<open>A read that ends too late\<close>

fun leavesRead :: "string \<Rightarrow> SystemStep \<Rightarrow> bool" where
  "leavesRead k (SysRead (RPut now k' s)) = (k' \<noteq> k)"
| "leavesRead k (SysRead (RInvalidate k')) = (k' \<noteq> k)"
| "leavesRead k (SysRead RClear) = False"
| "leavesRead k _ = True"

definition servesRead :: "string \<Rightarrow> CardReadSnapshot \<Rightarrow> CardSystem \<Rightarrow> bool" where
  "servesRead k snap s =
     (rdc_idleWindow (cc_reads (sys_caches s)) = kNoIdleExpiry \<and> fst (cached (cc_reads (sys_caches s)) k) = Some snap)"

lemma readStep_leaves:
  assumes "rdc_idleWindow c = kNoIdleExpiry" "leavesRead k (SysRead op)"
  shows "fst (cached (readStep op c) k) = fst (cached c k)"
  using assms readStep_cached [OF assms(1), of op k] by (cases op) simp_all

lemma hook_leaves:
  assumes "rdc_idleWindow (cc_reads cs) = kNoIdleExpiry" "k \<notin> keyOf ` fst ` set gone"
    and cs': "cs' = fold (\<lambda>(c, n). invalidateCardRemovalCaches (keyOf c)) gone cs"
  shows "rdc_idleWindow (cc_reads cs') = kNoIdleExpiry \<and> cached (cc_reads cs') k = cached (cc_reads cs) k"
  using assms
proof (induction gone arbitrary: cs)
  case (Cons g gone)
  let ?cs = "invalidateCardRemovalCaches (keyOf (fst g)) cs"
  have "cc_reads ?cs = readStep (RInvalidate (keyOf (fst g))) (cc_reads cs)"
    by (simp add: invalidateCardRemovalCaches_def)
  then have "rdc_idleWindow (cc_reads ?cs) = kNoIdleExpiry" "cached (cc_reads ?cs) k = cached (cc_reads cs) k"
    using Cons.prems readStep_cached [OF Cons.prems(1), of "RInvalidate (keyOf (fst g))" k]
      readStep_window [of "RInvalidate (keyOf (fst g))" "cc_reads cs"] by auto
  then show ?case using Cons.IH [of ?cs] Cons.prems by (simp add: case_prod_beta)
qed simp

lemma systemStep_serves:
  assumes sv: "servesRead (keyOf c) snap s" and leave: "leavesRead (keyOf c) st" and inj: "inj keyOf"
    and gone: "c \<in> fst ` set (br_keysRemoved (sys_bridge s))"
    and rep: "\<And>ev. st = SysEvent ev \<Longrightarrow> reports (sys_bridge s) (dispatch caps ev (sys_bridge s))
        \<and> distinct (map fst (br_keysRemoved (dispatch caps ev (sys_bridge s))))"
  shows "servesRead (keyOf c) snap (systemStep caps keyOf st s)
      \<and> c \<in> fst ` set (br_keysRemoved (sys_bridge (systemStep caps keyOf st s)))"
proof (cases st)
  case (SysEvent ev)
  let ?b = "sys_bridge s" and ?b' = "dispatch caps ev (sys_bridge s)"
  obtain new where new: "br_keysRemoved ?b' = br_keysRemoved ?b @ new" using rep [OF SysEvent] by (auto simp: reports_def)
  have "c \<notin> fst ` set new" using rep [OF SysEvent] gone unfolding new by auto
  then have "keyOf c \<notin> keyOf ` fst ` set new" using inj by (simp add: inj_image_mem_iff)
  then show ?thesis
    using hook_leaves [OF _ _ refl, of "sys_caches s" "keyOf c" keyOf new] sv SysEvent gone new
    by (simp add: servesRead_def runHook_def Let_def image_Un)
next
  case (SysRead op)
  then show ?thesis using sv leave gone readStep_leaves [of "cc_reads (sys_caches s)" "keyOf c" op]
    by (simp add: servesRead_def onRead_def)
qed (use sv gone in \<open>simp_all add: servesRead_def onSnapshot_def onCredential_def\<close>)

lemma systemRun_distinct:
  assumes "2 * length steps < 2 ^ 64"
  shows "distinct (map fst (br_keysRemoved (sys_bridge (systemRun caps keyOf obs w steps))))"
proof -
  have "2 * length (events steps) < 2 ^ 64" using length_events [of steps] assms by simp
  then show ?thesis unfolding systemRun_bridge using bridgeRun_inv [of "events steps" caps obs] by (simp add: bridgeInv_def)
qed

lemma systemRun_snoc: "systemRun caps keyOf obs w (steps @ [st]) = systemStep caps keyOf st (systemRun caps keyOf obs w steps)"
  by (simp add: systemRun_def)

lemma systemRun_window: "rdc_idleWindow (cc_reads (sys_caches (systemRun caps keyOf obs w steps))) = kNoIdleExpiry"
proof (induction steps rule: rev_induct)
  case Nil
  then show ?case by (simp add: systemRun_def systemInit_def)
next
  case (snoc st steps)
  have "rdc_idleWindow (cc_reads (invalidateCardRemovalCaches k cs)) = rdc_idleWindow (cc_reads cs)" for k cs
    by (simp add: invalidateCardRemovalCaches_def invalidateRead_def split: option.splits)
  then have "rdc_idleWindow (cc_reads (fold (\<lambda>(c, n). invalidateCardRemovalCaches (keyOf c)) gone cs)) = rdc_idleWindow (cc_reads cs)"
    for gone :: "(ObjectId \<times> string) list" and cs by (induction gone arbitrary: cs) (simp_all add: case_prod_beta)
  then show ?case using snoc unfolding systemRun_snoc
    by (cases st) (simp_all add: Let_def runHook_def onRead_def onSnapshot_def onCredential_def)
qed

text \<open>C38. The premise of the previous property matters, and the operations do not establish it: a read
  stored after the removal of its card was reported stays in the cache of reads, which never expires,
  through any later steps for other cards. Identifiers are not reported twice, so no later hook drops it.\<close>

theorem late_read_outlives_card:
  assumes "(c, n) \<in> set (br_keysRemoved (sys_bridge (systemRun caps keyOf obs w before)))" "inj keyOf"
    and "list_all (leavesRead (keyOf c)) after"
    and "2 * (length before + 1 + length after) < 2 ^ 64"
  shows "fst (getRead now (keyOf c)
           (cc_reads (sys_caches (systemRun caps keyOf obs w (before @ [SysRead (RPut t (keyOf c) snap)] @ after))))) = Some snap"
proof -
  let ?run = "\<lambda>post. systemRun caps keyOf obs w (before @ [SysRead (RPut t (keyOf c) snap)] @ post)"
  have "servesRead (keyOf c) snap (?run after) \<and> c \<in> fst ` set (br_keysRemoved (sys_bridge (?run after)))"
    using assms(3,4)
  proof (induction after rule: rev_induct)
    case Nil
    let ?s = "systemRun caps keyOf obs w before"
    have run: "?run [] = systemStep caps keyOf (SysRead (RPut t (keyOf c) snap)) ?s" by (simp add: systemRun_snoc)
    have "c \<in> fst ` set (br_keysRemoved (sys_bridge (?run [])))" using assms(1) unfolding run by force
    moreover have "servesRead (keyOf c) snap (?run [])"
      unfolding run using systemRun_window [of caps keyOf obs w before]
        readStep_cached [of "cc_reads (sys_caches ?s)" "RPut t (keyOf c) snap" "keyOf c"]
      by (simp add: servesRead_def onRead_def del: readStep.simps)
    ultimately show ?case by blast
  next
    case (snoc st after)
    have e: "?run (after @ [st]) = systemStep caps keyOf st (?run after)" by (simp add: systemRun_def)
    have IH: "servesRead (keyOf c) snap (?run after)" "c \<in> fst ` set (br_keysRemoved (sys_bridge (?run after)))"
      using snoc by simp_all
    have rep: "reports (sys_bridge (?run after)) (dispatch caps ev (sys_bridge (?run after)))
        \<and> distinct (map fst (br_keysRemoved (dispatch caps ev (sys_bridge (?run after)))))" if "st = SysEvent ev" for ev
    proof -
      have "distinct (map fst (br_keysRemoved (sys_bridge (?run (after @ [st])))))"
        by (rule systemRun_distinct) (use snoc.prems in simp)
      then show ?thesis
        using that snoc.prems systemRun_reports [of "before @ [SysRead (RPut t (keyOf c) snap)] @ after" caps keyOf obs w ev]
        unfolding e by (simp add: Let_def)
    qed
    show ?case unfolding e by (rule systemStep_serves [OF IH(1) _ assms(2) IH(2) rep]) (use snoc.prems in simp_all)
  qed
  then show ?thesis using get_production(1) by (simp add: servesRead_def)
qed

theorem late_read_outlives_card_witness:
  "fst (getRead 9 (decimalKey 2) (cc_reads (sys_caches (systemRun (\<lambda>_. 0) decimalKey allObservers 0
      (sample_steps @ [SysRead (RPut 5 (decimalKey 2) sample_read)] @ [SysEvent (EvReaderRemoved ''A'')]))))) = Some sample_read"
proof (rule late_read_outlives_card [where n = "''A''"])
  show "(2, ''A'') \<in> set (br_keysRemoved (sys_bridge (systemRun (\<lambda>_. 0) decimalKey allObservers 0 sample_steps)))"
    by (simp add: systemRun_bridge sample_reported)
  show "inj decimalKey" by (rule inj_decimalKey)
qed (simp_all add: sample_steps_def)

end
