(* ===== verification/Prompts.thy ===== *)
theory Prompts
  imports Credentials
begin

text \<open>
  One prompt at a time per card: \<^verbatim>\<open>PromptSerializer\<close> (\<^verbatim>\<open>operations/PromptSerializer.cpp\<close>), a mutex and one
  condition variable with a queue of tickets per card; the decorator around the prompter
  (\<^verbatim>\<open>operations/SerializingPrompter.h\<close>); the minting and stamping of prompts
  (\<^verbatim>\<open>operations/PromptIdMinter.h\<close>, \<^verbatim>\<open>operations/PromptContext.h\<close>, \<^verbatim>\<open>operations/PromptPolicy.h\<close>). Every stretch
  of code under the mutex is one definition. \<open>PromptWorld\<close> puts threads around them: each runs one call of
  \<^verbatim>\<open>serialize\<close>, and sleeps on the condition variable until a notification or a spurious wake. A cancel
  token is a flag and, for a registered callback, a notification that comes after it.
\<close>

section \<open>Deadlines and stamps\<close>

datatype PromptKind = Prompt_Pin | Prompt_Can | Prompt_Mrz | Prompt_ChangePin

fun deadlineFor :: "PromptKind \<Rightarrow> u32" where
  "deadlineFor Prompt_Pin = 60000"
| "deadlineFor Prompt_Can = 120000"
| "deadlineFor Prompt_Mrz = 300000"
| "deadlineFor Prompt_ChangePin = 180000"

definition kLongestDeadline :: u32 where
  "kLongestDeadline = 300000"

fun kindToken :: "PromptKind \<Rightarrow> string" where
  "kindToken Prompt_Pin = ''pin''"
| "kindToken Prompt_Can = ''can''"
| "kindToken Prompt_Mrz = ''mrz''"
| "kindToken Prompt_ChangePin = ''change_pin''"

definition kindFromToken :: "string \<Rightarrow> PromptKind option" where
  "kindFromToken token = find (\<lambda>k. token = kindToken k) [Prompt_Pin, Prompt_Can, Prompt_Mrz, Prompt_ChangePin]"

definition deadlineForWireKind :: "string \<Rightarrow> u32" where
  "deadlineForWireKind kind = (case kindFromToken kind of Some k \<Rightarrow> deadlineFor k | None \<Rightarrow> 0)"

record PromptIdMinter =
  pim_runNonce :: string
  pim_counter :: u64

definition mint :: "PromptIdMinter \<Rightarrow> string \<times> PromptIdMinter" where
  "mint m = (let n = pim_counter m + 1
     in (pim_runNonce m @ '':'' @ to_string (unat n), m\<lparr>pim_counter := n\<rparr>))"

definition stampPrompt :: "PromptOptions \<Rightarrow> ReaderIdentity \<Rightarrow> PromptIdMinter \<Rightarrow> PromptKind \<Rightarrow> PromptOptions \<times> PromptIdMinter" where
  "stampPrompt opts reader minter kind =
     (let (pid, minter') = mint minter;
          alternative = fold (\<lambda>offered alt. max alt (deadlineForWireKind offered)) (po_altKinds opts) 0
      in (opts\<lparr>po_promptId := pid, po_reader := reader, po_deadlineMs := deadlineFor kind,
               po_altDeadlineMs := alternative\<rparr>, minter'))"

definition dismissIfEmpty :: "PromptResult \<Rightarrow> PromptResult" where
  "dismissIfEmpty r =
     (if pr_status r = PS_Ok \<and> pr_secret r = Some [] then \<lparr> pr_status = PS_Cancelled, pr_secret = None, pr_chosenKind = None \<rparr>
      else r)"

record PinChangePromptResult =
  pcr_status :: PromptStatus
  pcr_current :: "string option"
  pcr_newPin :: "string option"

definition dismissChangeIfEmpty :: "PinChangePromptResult \<Rightarrow> PinChangePromptResult" where
  "dismissChangeIfEmpty r =
     (if pcr_status r = PS_Ok \<and> (pcr_current r = Some [] \<or> pcr_newPin r = Some [])
      then \<lparr> pcr_status = PS_Cancelled, pcr_current = None, pcr_newPin = None \<rparr> else r)"

section \<open>The serializer\<close>

record Gate =
  g_waiters :: "u64 list"
  g_held :: bool

record PromptSerializer =
  ser_nextTicket :: u64
  ser_gates :: "(string \<times> Gate) list"
  ser_idMinter :: PromptIdMinter
  ser_livePrompts :: "(string \<times> string) list"

definition gateOf :: "string \<Rightarrow> PromptSerializer \<Rightarrow> Gate" where
  "gateOf key s = (case map_of (ser_gates s) key of Some g \<Rightarrow> g | None \<Rightarrow> \<lparr> g_waiters = [], g_held = False \<rparr>)"

definition enqueue :: "string \<Rightarrow> PromptSerializer \<Rightarrow> u64 \<times> PromptSerializer" where
  "enqueue key s =
     (let myTicket = ser_nextTicket s; gate = gateOf key s
      in (myTicket, s\<lparr>ser_nextTicket := myTicket + 1,
            ser_gates := assign_by (<) key (gate\<lparr>g_waiters := g_waiters gate @ [myTicket]\<rparr>) (ser_gates s)\<rparr>))"

definition atHead :: "string \<Rightarrow> u64 \<Rightarrow> PromptSerializer \<Rightarrow> bool" where
  "atHead key myTicket s =
     (case map_of (ser_gates s) key of
        None \<Rightarrow> False
      | Some g \<Rightarrow> (case g_waiters g of [] \<Rightarrow> False | front # rest \<Rightarrow> front = myTicket))"

definition slotFree :: "string \<Rightarrow> PromptSerializer \<Rightarrow> bool" where
  "slotFree key s = (case map_of (ser_gates s) key of None \<Rightarrow> True | Some g \<Rightarrow> \<not> g_held g)"

text \<open>The two ways out of \<^verbatim>\<open>acquire\<close>: cancelled, and with the slot.\<close>

definition leaveQueue :: "string \<Rightarrow> u64 \<Rightarrow> PromptSerializer \<Rightarrow> PromptSerializer" where
  "leaveQueue key myTicket s =
     (case map_of (ser_gates s) key of
        None \<Rightarrow> s
      | Some g \<Rightarrow>
          (let waiters = remove1 myTicket (g_waiters g)
           in if waiters = [] \<and> \<not> g_held g then s\<lparr>ser_gates := eraseKey key (ser_gates s)\<rparr>
              else s\<lparr>ser_gates := assign_by (<) key (g\<lparr>g_waiters := waiters\<rparr>) (ser_gates s)\<rparr>))"

definition takeSlot :: "string \<Rightarrow> PromptSerializer \<Rightarrow> PromptSerializer" where
  "takeSlot key s =
     (let mine = gateOf key s
      in s\<lparr>ser_gates := assign_by (<) key \<lparr> g_waiters = tl (g_waiters mine), g_held = True \<rparr> (ser_gates s)\<rparr>)"

definition release :: "string \<Rightarrow> PromptSerializer \<Rightarrow> PromptSerializer" where
  "release key s =
     (case map_of (ser_gates s) key of
        None \<Rightarrow> s
      | Some g \<Rightarrow> if g_waiters g = [] then s\<lparr>ser_gates := eraseKey key (ser_gates s)\<rparr>
                  else s\<lparr>ser_gates := assign_by (<) key (g\<lparr>g_held := False\<rparr>) (ser_gates s)\<rparr>)"

definition hasPendingPrompt :: "PromptSerializer \<Rightarrow> bool" where
  "hasPendingPrompt s = list_ex (\<lambda>(key, g). g_held g \<or> g_waiters g \<noteq> []) (ser_gates s)"

text \<open>An empty identifier is not registered, and its guard forgets nothing.\<close>

definition registerLivePrompt :: "string \<Rightarrow> string \<Rightarrow> PromptSerializer \<Rightarrow> PromptSerializer" where
  "registerLivePrompt cardKey promptId s =
     (if promptId = [] then s else s\<lparr>ser_livePrompts := assign_by (<) promptId cardKey (ser_livePrompts s)\<rparr>)"

definition forgetLivePrompt :: "string \<Rightarrow> PromptSerializer \<Rightarrow> PromptSerializer" where
  "forgetLivePrompt promptId s =
     (if promptId = [] then s else s\<lparr>ser_livePrompts := eraseKey promptId (ser_livePrompts s)\<rparr>)"

definition liveIdsFor :: "string \<Rightarrow> PromptSerializer \<Rightarrow> string list" where
  "liveIdsFor cardKey s = map fst (filter (\<lambda>(i, key). key = cardKey) (ser_livePrompts s))"

definition liveIds :: "PromptSerializer \<Rightarrow> string list" where
  "liveIds s = map fst (ser_livePrompts s)"

definition mintFor :: "PromptSerializer \<Rightarrow> string \<times> PromptSerializer" where
  "mintFor s = (let (pid, m) = mint (ser_idMinter s) in (pid, s\<lparr>ser_idMinter := m\<rparr>))"

section \<open>Threads around it\<close>

text \<open>Where a call of \<^verbatim>\<open>serialize\<close> stands: before and after its cancel callback is registered; in the queue
  with its ticket, asleep or not; with the slot, before the prompt is stamped, before it is registered
  as live, while it is shown, and after it was answered or found unwanted.\<close>

datatype PromptThread =
    PtStart string
  | PtRegistered string
  | PtWaiting string u64 bool
  | PtGranted string
  | PtStamped string string
  | PtShowing string string
  | PtClosing string

record PromptWorld =
  pw_serializer :: PromptSerializer
  pw_threads :: "nat \<rightharpoonup> PromptThread"
  pw_cancelled :: "nat set"
  pw_notifying :: "nat set"

fun awake :: "PromptThread \<Rightarrow> PromptThread" where
  "awake (PtWaiting key ticket asleep) = PtWaiting key ticket False"
| "awake th = th"

definition notifyAll :: "PromptWorld \<Rightarrow> PromptWorld" where
  "notifyAll w = w\<lparr>pw_threads := \<lambda>t. map_option awake (pw_threads w t)\<rparr>"

definition setThread :: "nat \<Rightarrow> PromptThread option \<Rightarrow> PromptWorld \<Rightarrow> PromptWorld" where
  "setThread t th w = w\<lparr>pw_threads := (pw_threads w)(t := th)\<rparr>"

definition onSerializer :: "(PromptSerializer \<Rightarrow> PromptSerializer) \<Rightarrow> PromptWorld \<Rightarrow> PromptWorld" where
  "onSerializer f w = w\<lparr>pw_serializer := f (pw_serializer w)\<rparr>"

fun callbackRegistered :: "PromptThread option \<Rightarrow> bool" where
  "callbackRegistered (Some (PtRegistered key)) = True"
| "callbackRegistered (Some (PtWaiting key ticket asleep)) = True"
| "callbackRegistered _ = False"

text \<open>The first evaluation of the wait condition and every one after a wake.\<close>

definition checkWait :: "nat \<Rightarrow> string \<Rightarrow> u64 \<Rightarrow> PromptWorld \<Rightarrow> PromptWorld" where
  "checkWait t key ticket w =
     (if t \<in> pw_cancelled w then notifyAll (setThread t None (onSerializer (leaveQueue key ticket) w))
      else if slotFree key (pw_serializer w) \<and> atHead key ticket (pw_serializer w)
      then setThread t (Some (PtGranted key)) (onSerializer (takeSlot key) w)
      else setThread t (Some (PtWaiting key ticket True)) w)"

inductive pstep :: "PromptWorld \<Rightarrow> PromptWorld \<Rightarrow> bool" where
  call: "pw_threads w t = None \<Longrightarrow> pstep w (setThread t (Some (PtStart key)) w)"
| set_cancelled:
    "pstep w (w\<lparr>pw_cancelled := insert t (pw_cancelled w),
                pw_notifying := (if callbackRegistered (pw_threads w t) then insert t (pw_notifying w) else pw_notifying w)\<rparr>)"
| callback: "t \<in> pw_notifying w \<Longrightarrow> pstep w (notifyAll (w\<lparr>pw_notifying := pw_notifying w - {t}\<rparr>))"
| spurious: "pw_threads w t = Some (PtWaiting key ticket True) \<Longrightarrow> pstep w (setThread t (Some (PtWaiting key ticket False)) w)"
| register: "pw_threads w t = Some (PtStart key) \<Longrightarrow> pstep w (setThread t (Some (PtRegistered key)) w)"
| queue:
    "pw_threads w t = Some (PtRegistered key) \<Longrightarrow> enqueue key (pw_serializer w) = (ticket, s) \<Longrightarrow>
     pstep w (setThread t (Some (PtWaiting key ticket False)) (w\<lparr>pw_serializer := s\<rparr>))"
| check: "pw_threads w t = Some (PtWaiting key ticket False) \<Longrightarrow> pstep w (checkWait t key ticket w)"
| unwanted: "pw_threads w t = Some (PtGranted key) \<Longrightarrow> pstep w (setThread t (Some (PtClosing key)) w)"
| stamp:
    "pw_threads w t = Some (PtGranted key) \<Longrightarrow> mintFor (pw_serializer w) = (pid, s) \<Longrightarrow>
     pstep w (setThread t (Some (PtStamped key pid)) (w\<lparr>pw_serializer := s\<rparr>))"
| live:
    "pw_threads w t = Some (PtStamped key pid) \<Longrightarrow>
     pstep w (setThread t (Some (PtShowing key pid)) (onSerializer (registerLivePrompt key pid) w))"
| answered:
    "pw_threads w t = Some (PtShowing key pid) \<Longrightarrow>
     pstep w (setThread t (Some (PtClosing key)) (onSerializer (forgetLivePrompt pid) w))"
| release:
    "pw_threads w t = Some (PtClosing key) \<Longrightarrow>
     pstep w (notifyAll (setThread t None (onSerializer (release key) w)))"

definition promptInit :: "string \<Rightarrow> PromptWorld" where
  "promptInit nonce =
     \<lparr> pw_serializer = \<lparr> ser_nextTicket = 0, ser_gates = [], ser_idMinter = \<lparr> pim_runNonce = nonce, pim_counter = 0 \<rparr>,
                         ser_livePrompts = [] \<rparr>,
       pw_threads = Map.empty, pw_cancelled = {}, pw_notifying = {} \<rparr>"

text \<open>Runs of \<open>n\<close> steps.\<close>

inductive preach :: "nat \<Rightarrow> PromptWorld \<Rightarrow> bool" where
  init: "preach 0 (promptInit nonce)"
| step: "preach n w \<Longrightarrow> pstep w w' \<Longrightarrow> preach (Suc n) w'"

end
