(* ===== verification/PromptRuns.thy ===== *)
theory PromptRuns
  imports Prompts
begin

text \<open>
  What the serializer guarantees in every run of its threads: one prompt per card, first come first
  served; the list of live prompts is the list of those shown; and no thread sleeps through its turn.
\<close>

section \<open>The operations on queues and slots\<close>

definition queues :: "PromptSerializer \<Rightarrow> string \<Rightarrow> u64 list" where
  "queues s k = g_waiters (gateOf k s)"

definition slots :: "PromptSerializer \<Rightarrow> string \<Rightarrow> bool" where
  "slots s k = g_held (gateOf k s)"

lemma atHead_iff: "atHead k tk s \<longleftrightarrow> (\<exists>rest. queues s k = tk # rest)"
  by (auto simp: atHead_def queues_def gateOf_def split: option.splits list.splits)

lemma slotFree_iff: "slotFree k s \<longleftrightarrow> \<not> slots s k"
  by (auto simp: slotFree_def slots_def gateOf_def split: option.splits)

lemma map_of_eraseKey [simp]: "map_of (eraseKey k m) k' = (if k' = k then None else map_of m k')"
  by (simp add: eraseKey_def)

lemma enqueue_facts:
  assumes "enqueue k s = (tk, s')"
  shows "queues s' = (queues s)(k := queues s k @ [tk])" "slots s' = slots s" "tk = ser_nextTicket s"
    "ser_nextTicket s' = tk + 1" "ser_idMinter s' = ser_idMinter s" "ser_livePrompts s' = ser_livePrompts s"
  using assms by (auto simp: enqueue_def Let_def queues_def slots_def gateOf_def fun_eq_iff split: option.splits if_splits)

lemma leaveQueue_facts:
  "queues (leaveQueue k tk s) = (queues s)(k := remove1 tk (queues s k))" "slots (leaveQueue k tk s) = slots s"
  "ser_nextTicket (leaveQueue k tk s) = ser_nextTicket s" "ser_idMinter (leaveQueue k tk s) = ser_idMinter s"
  "ser_livePrompts (leaveQueue k tk s) = ser_livePrompts s"
  by (auto simp: leaveQueue_def Let_def queues_def slots_def gateOf_def fun_eq_iff split: option.splits)

lemma takeSlot_facts:
  "queues (takeSlot k s) = (queues s)(k := tl (queues s k))" "slots (takeSlot k s) = (slots s)(k := True)"
  "ser_nextTicket (takeSlot k s) = ser_nextTicket s" "ser_idMinter (takeSlot k s) = ser_idMinter s"
  "ser_livePrompts (takeSlot k s) = ser_livePrompts s"
  by (auto simp: takeSlot_def Let_def queues_def slots_def gateOf_def fun_eq_iff)

lemma release_facts:
  "queues (Prompts.release k s) = queues s" "slots (Prompts.release k s) = (slots s)(k := False)"
  "ser_nextTicket (Prompts.release k s) = ser_nextTicket s" "ser_idMinter (Prompts.release k s) = ser_idMinter s"
  "ser_livePrompts (Prompts.release k s) = ser_livePrompts s"
  by (auto simp: release_def queues_def slots_def gateOf_def fun_eq_iff split: option.splits)

lemma live_facts:
  "queues (registerLivePrompt k i s) = queues s" "slots (registerLivePrompt k i s) = slots s"
  "ser_nextTicket (registerLivePrompt k i s) = ser_nextTicket s" "ser_idMinter (registerLivePrompt k i s) = ser_idMinter s"
  "queues (forgetLivePrompt i s) = queues s" "slots (forgetLivePrompt i s) = slots s"
  "ser_nextTicket (forgetLivePrompt i s) = ser_nextTicket s" "ser_idMinter (forgetLivePrompt i s) = ser_idMinter s"
  "ser_gates (registerLivePrompt k i s) = ser_gates s" "ser_gates (forgetLivePrompt i s) = ser_gates s"
  "ser_livePrompts (registerLivePrompt k i s) = (if i = [] then ser_livePrompts s else assign_by (<) i k (ser_livePrompts s))"
  "ser_livePrompts (forgetLivePrompt i s) = (if i = [] then ser_livePrompts s else eraseKey i (ser_livePrompts s))"
  by (simp_all add: registerLivePrompt_def forgetLivePrompt_def queues_def slots_def gateOf_def fun_eq_iff)

lemma mintFor_facts:
  assumes "mintFor s = (pid, s')"
  shows "queues s' = queues s" "slots s' = slots s" "ser_nextTicket s' = ser_nextTicket s"
    "ser_livePrompts s' = ser_livePrompts s" "ser_gates s' = ser_gates s"
    "pim_runNonce (ser_idMinter s') = pim_runNonce (ser_idMinter s)"
    "pim_counter (ser_idMinter s') = pim_counter (ser_idMinter s) + 1"
    "pid = pim_runNonce (ser_idMinter s) @ '':'' @ to_string (unat (pim_counter (ser_idMinter s) + 1))"
  using assms by (auto simp: mintFor_def mint_def Let_def queues_def slots_def gateOf_def fun_eq_iff)

section \<open>Tickets, slots and live prompts\<close>

text \<open>\<open>W\<close> says which thread waits where with which ticket, \<open>Q\<close> are the queues.\<close>

definition queueInv :: "(nat \<rightharpoonup> string \<times> u64) \<Rightarrow> (string \<Rightarrow> u64 list) \<Rightarrow> u64 \<Rightarrow> bool" where
  "queueInv W Q n =
     ((\<forall>k tk. tk \<in> set (Q k) \<longleftrightarrow> (\<exists>t. W t = Some (k, tk)))
      \<and> (\<forall>k. sorted_wrt (<) (Q k))
      \<and> (\<forall>t t' k k' tk. W t = Some (k, tk) \<longrightarrow> W t' = Some (k', tk) \<longrightarrow> t = t')
      \<and> (\<forall>t k tk. W t = Some (k, tk) \<longrightarrow> tk < n))"

lemma queueInvD:
  assumes "queueInv W Q n"
  shows "tk \<in> set (Q k) \<longleftrightarrow> (\<exists>t. W t = Some (k, tk))" "sorted_wrt (<) (Q k)"
    "W t = Some (k, tk) \<Longrightarrow> W t' = Some (k', tk) \<Longrightarrow> t = t'" "W t = Some (k, tk) \<Longrightarrow> tk < n"
  using assms unfolding queueInv_def by blast+

lemma queueInv_add:
  assumes inv: "queueInv W Q n" and t: "W t = None" and room: "n < n + 1"
  shows "queueInv (W(t \<mapsto> (k, n))) (Q(k := Q k @ [n])) (n + 1)"
  unfolding queueInv_def
proof (intro conjI allI impI)
  have old: "tk < n" if "W t' = Some (k', tk)" for t' k' tk using queueInvD(4) [OF inv that] .
  have q: "tk < n" if "tk \<in> set (Q k')" for k' tk using that old queueInvD(1) [OF inv] by blast
  show "tk \<in> set ((Q(k := Q k @ [n])) k') \<longleftrightarrow> (\<exists>t'. (W(t \<mapsto> (k, n))) t' = Some (k', tk))" for k' tk
  proof -
    have "(W(t \<mapsto> (k, n))) t' = Some (k', tk) \<longleftrightarrow> t' = t \<and> k' = k \<and> tk = n \<or> W t' = Some (k', tk)" for t'
      using t by auto
    then show ?thesis using queueInvD(1) [OF inv, of tk k'] by auto
  qed
  show "sorted_wrt (<) ((Q(k := Q k @ [n])) k')" for k'
    using queueInvD(2) [OF inv] q by (simp add: sorted_wrt_append)
  show "t1 = t2" if "(W(t \<mapsto> (k, n))) t1 = Some (k1, tk)" "(W(t \<mapsto> (k, n))) t2 = Some (k2, tk)" for t1 t2 k1 k2 tk
    using that old queueInvD(3) [OF inv] by (auto split: if_splits)
  show "tk < n + 1" if "(W(t \<mapsto> (k, n))) t1 = Some (k1, tk)" for t1 k1 tk
    using that old room by (auto split: if_splits intro: less_trans)
qed

lemma queueInv_drop:
  assumes inv: "queueInv W Q n" and t: "W t = Some (k, tk)"
  shows "queueInv (W(t := None)) (Q(k := remove1 tk (Q k))) n"
  unfolding queueInv_def
proof (intro conjI allI impI)
  have d: "distinct (Q k)" using queueInvD(2) [OF inv, of k] by (metis strict_sorted_iff)
  show "tk' \<in> set ((Q(k := remove1 tk (Q k))) k') \<longleftrightarrow> (\<exists>t'. (W(t := None)) t' = Some (k', tk'))" for k' tk'
  proof (cases "k' = k \<and> tk' = tk")
    case True
    have "(W(t := None)) t' \<noteq> Some (k, tk)" for t' using queueInvD(3) [OF inv t, of t' k] by auto
    then show ?thesis using True d by (simp add: set_remove1_eq)
  next
    case False
    have "(W(t := None)) t' = Some (k', tk') \<longleftrightarrow> W t' = Some (k', tk')" for t' using False t by auto
    then show ?thesis using False d queueInvD(1) [OF inv, of tk' k'] by (auto simp: set_remove1_eq)
  qed
  show "sorted_wrt (<) ((Q(k := remove1 tk (Q k))) k')" for k'
    using queueInvD(2) [OF inv, of k] queueInvD(2) [OF inv, of k'] by (simp add: strict_sorted_iff sorted_remove1)
  show "t1 = t2" if "(W(t := None)) t1 = Some (k1, tk')" "(W(t := None)) t2 = Some (k2, tk')" for t1 t2 k1 k2 tk'
    using that queueInvD(3) [OF inv] by (auto split: if_splits)
  show "tk' < n" if "(W(t := None)) t1 = Some (k1, tk')" for t1 k1 tk'
    using that queueInvD(4) [OF inv] by (auto split: if_splits)
qed

definition slotInv :: "(nat \<rightharpoonup> string) \<Rightarrow> (string \<Rightarrow> bool) \<Rightarrow> bool" where
  "slotInv H B =
     ((\<forall>k. B k \<longleftrightarrow> (\<exists>t. H t = Some k)) \<and> (\<forall>t t' k. H t = Some k \<longrightarrow> H t' = Some k \<longrightarrow> t = t'))"

lemma slotInv_take: "slotInv H B \<Longrightarrow> H t = None \<Longrightarrow> \<not> B k \<Longrightarrow> slotInv (H(t \<mapsto> k)) (B(k := True))"
  unfolding slotInv_def by (auto split: if_splits) (metis option.distinct(1))+

lemma slotInv_give: "slotInv H B \<Longrightarrow> H t = Some k \<Longrightarrow> slotInv (H(t := None)) (B(k := False))"
  unfolding slotInv_def by (auto split: if_splits) (metis option.inject)+

text \<open>\<open>S\<close> says which prompt a thread shows, \<open>M\<close> which identifier it was given, \<open>L\<close> are the live prompts.\<close>

definition liveInv :: "(nat \<rightharpoonup> string \<times> string) \<Rightarrow> (nat \<rightharpoonup> string) \<Rightarrow> (string \<times> string) list \<Rightarrow> PromptIdMinter \<Rightarrow> bool" where
  "liveInv S M L m =
     (distinct (map fst L)
      \<and> (\<forall>i k. (i, k) \<in> set L \<longleftrightarrow> (\<exists>t. S t = Some (k, i)))
      \<and> (\<forall>t k i. S t = Some (k, i) \<longrightarrow> M t = Some i)
      \<and> (\<forall>t i. M t = Some i \<longrightarrow> (\<exists>n \<le> unat (pim_counter m). i = pim_runNonce m @ '':'' @ to_string n))
      \<and> (\<forall>t t' i. M t = Some i \<longrightarrow> M t' = Some i \<longrightarrow> t = t'))"

lemma liveInvI:
  assumes "distinct (map fst L)" "\<And>i k. (i, k) \<in> set L \<longleftrightarrow> (\<exists>t. S t = Some (k, i))"
    "\<And>t k i. S t = Some (k, i) \<Longrightarrow> M t = Some i"
    "\<And>t i. M t = Some i \<Longrightarrow> \<exists>n \<le> unat (pim_counter m). i = pim_runNonce m @ '':'' @ to_string n"
    "\<And>t t' i. M t = Some i \<Longrightarrow> M t' = Some i \<Longrightarrow> t = t'"
  shows "liveInv S M L m"
  using assms unfolding liveInv_def by blast

lemma liveInvD:
  assumes "liveInv S M L m"
  shows "distinct (map fst L)" "(i, k) \<in> set L \<longleftrightarrow> (\<exists>t. S t = Some (k, i))" "S t = Some (k, i) \<Longrightarrow> M t = Some i"
    "M t = Some i \<Longrightarrow> \<exists>n \<le> unat (pim_counter m). i = pim_runNonce m @ '':'' @ to_string n"
    "M t = Some i \<Longrightarrow> M t' = Some i \<Longrightarrow> t = t'"
  using assms unfolding liveInv_def by blast+

lemma liveInv_mint:
  assumes inv: "liveInv S M L m" and t: "M t = None" and room: "unat (pim_counter m + 1) = Suc (unat (pim_counter m))"
    and m': "m' = m\<lparr>pim_counter := pim_counter m + 1\<rparr>"
  shows "liveInv S (M(t \<mapsto> pim_runNonce m @ '':'' @ to_string (unat (pim_counter m + 1)))) L m'"
proof (rule liveInvI)
  show "distinct (map fst L)" by (rule liveInvD(1) [OF inv])
  show "(i, k) \<in> set L \<longleftrightarrow> (\<exists>t. S t = Some (k, i))" for i k by (rule liveInvD(2) [OF inv])
  let ?new = "pim_runNonce m @ '':'' @ to_string (unat (pim_counter m + 1))"
  have fresh: "M t' \<noteq> Some ?new" for t'
  proof
    assume "M t' = Some ?new"
    then obtain n where "n \<le> unat (pim_counter m)" "?new = pim_runNonce m @ '':'' @ to_string n"
      using liveInvD(4) [OF inv] by blast
    then show False using room by simp
  qed
  show "(M(t \<mapsto> ?new)) t' = Some i" if "S t' = Some (k, i)" for t' k i
    using liveInvD(3) [OF inv that] t by auto
  show "\<exists>n \<le> unat (pim_counter m'). i = pim_runNonce m' @ '':'' @ to_string n" if "(M(t \<mapsto> ?new)) t' = Some i" for t' i
    using that liveInvD(4) [OF inv, of t' i] room unfolding m' by (cases "t' = t") (auto intro: le_SucI)
  show "t1 = t2" if "(M(t \<mapsto> ?new)) t1 = Some i" "(M(t \<mapsto> ?new)) t2 = Some i" for t1 t2 i
    using that liveInvD(5) [OF inv, of t1 i t2] fresh by (auto split: if_splits)
qed

lemma liveInv_show:
  assumes inv: "liveInv S M L m" and t: "S t = None" "M t = Some i"
  shows "liveInv (S(t \<mapsto> (k, i))) M (assign_by (<) i k L) m"
proof (rule liveInvI)
  have "i \<notin> fst ` set L"
  proof
    assume "i \<in> fst ` set L"
    then obtain k' t' where s: "S t' = Some (k', i)" using liveInvD(2) [OF inv] by fastforce
    then have "t' = t" using liveInvD(3) [OF inv s] liveInvD(5) [OF inv] t(2) by blast
    then show False using s t(1) by simp
  qed
  then have none: "map_of L i = None" by (simp add: map_of_eq_None_iff)
  then show "distinct (map fst (assign_by (<) i k L))"
    using liveInvD(1) [OF inv] by (simp add: distinct_assign_by)
  have set: "set (assign_by (<) i k L) = insert (i, k) (set L)" using none by (simp add: assign_by_def)
  show "(i', k') \<in> set (assign_by (<) i k L) \<longleftrightarrow> (\<exists>t'. (S(t \<mapsto> (k, i))) t' = Some (k', i'))" for i' k'
    unfolding set using liveInvD(2) [OF inv, of i' k'] t(1) by auto (metis option.distinct(1))
  show "M t' = Some i'" if "(S(t \<mapsto> (k, i))) t' = Some (k', i')" for t' k' i'
    using that t liveInvD(3) [OF inv] by (auto split: if_splits)
qed (use liveInvD(4,5) [OF inv] in blast)+

lemma liveInv_forget:
  assumes inv: "liveInv S M L m" and t: "S t = Some (k, i)"
  shows "liveInv (S(t := None)) (M(t := None)) (eraseKey i L) m"
proof (rule liveInvI)
  have only: "t' = t" if "S t' = Some (k', i)" for t' k'
    using liveInvD(3) [OF inv that] liveInvD(3) [OF inv t] liveInvD(5) [OF inv] by blast
  show "distinct (map fst (eraseKey i L))" using liveInvD(1) [OF inv] by (simp add: eraseKey_def distinct_map_filter)
  show "(i', k') \<in> set (eraseKey i L) \<longleftrightarrow> (\<exists>t'. (S(t := None)) t' = Some (k', i'))" for i' k'
  proof (cases "i' = i")
    case True
    have "(S(t := None)) t' \<noteq> Some (k', i)" for t' using only [of t' k'] by auto
    then show ?thesis using True by (simp add: eraseKey_def)
  next
    case False
    have "(S(t := None)) t' = Some (k', i') \<longleftrightarrow> S t' = Some (k', i')" for t' using False t by auto
    then show ?thesis using False liveInvD(2) [OF inv, of i' k'] by (simp add: eraseKey_def)
  qed
  show "(M(t := None)) t' = Some i'" if "(S(t := None)) t' = Some (k', i')" for t' k' i'
    using that liveInvD(3) [OF inv] by (auto split: if_splits)
  show "\<exists>n \<le> unat (pim_counter m). i' = pim_runNonce m @ '':'' @ to_string n" if "(M(t := None)) t' = Some i'" for t' i'
    using that liveInvD(4) [OF inv] by (auto split: if_splits)
  show "t1 = t2" if "(M(t := None)) t1 = Some i'" "(M(t := None)) t2 = Some i'" for t1 t2 i'
    using that liveInvD(5) [OF inv] by (auto split: if_splits)
qed

section \<open>The threads\<close>

fun waitTicket :: "PromptThread \<Rightarrow> (string \<times> u64) option" where
  "waitTicket (PtWaiting k tk asleep) = Some (k, tk)"
| "waitTicket _ = None"

fun holds :: "PromptThread \<Rightarrow> string option" where
  "holds (PtGranted k) = Some k"
| "holds (PtStamped k i) = Some k"
| "holds (PtShowing k i) = Some k"
| "holds (PtClosing k) = Some k"
| "holds _ = None"

fun shownPrompt :: "PromptThread \<Rightarrow> (string \<times> string) option" where
  "shownPrompt (PtShowing k i) = Some (k, i)"
| "shownPrompt _ = None"

fun givenId :: "PromptThread \<Rightarrow> string option" where
  "givenId (PtStamped k i) = Some i"
| "givenId (PtShowing k i) = Some i"
| "givenId _ = None"

definition atThreads :: "(PromptThread \<Rightarrow> 'b option) \<Rightarrow> PromptWorld \<Rightarrow> nat \<rightharpoonup> 'b" where
  "atThreads f w t = Option.bind (pw_threads w t) f"

lemma atThreads_steps [simp]:
  "atThreads f (setThread t th w) = (atThreads f w)(t := Option.bind th f)"
  "atThreads f (w\<lparr>pw_serializer := s\<rparr>) = atThreads f w"
  "atThreads f (w\<lparr>pw_cancelled := c\<rparr>) = atThreads f w"
  "atThreads f (w\<lparr>pw_notifying := n\<rparr>) = atThreads f w"
  "atThreads f (onSerializer g w) = atThreads f w"
  by (auto simp: atThreads_def setThread_def onSerializer_def fun_eq_iff)

lemma atThreads_notifyAll [simp]:
  "atThreads waitTicket (notifyAll w) = atThreads waitTicket w" "atThreads holds (notifyAll w) = atThreads holds w"
  "atThreads shownPrompt (notifyAll w) = atThreads shownPrompt w" "atThreads givenId (notifyAll w) = atThreads givenId w"
proof -
  have "waitTicket (awake th) = waitTicket th" "holds (awake th) = holds th" "shownPrompt (awake th) = shownPrompt th"
    "givenId (awake th) = givenId th" for th
    by (cases th; simp)+
  then show "atThreads waitTicket (notifyAll w) = atThreads waitTicket w" "atThreads holds (notifyAll w) = atThreads holds w"
    "atThreads shownPrompt (notifyAll w) = atThreads shownPrompt w" "atThreads givenId (notifyAll w) = atThreads givenId w"
    by (auto simp: atThreads_def notifyAll_def fun_eq_iff Option.bind_map_option comp_def)
qed

lemma world_steps [simp]:
  "pw_serializer (setThread t th w) = pw_serializer w" "pw_serializer (notifyAll w) = pw_serializer w"
  "pw_serializer (onSerializer f w) = f (pw_serializer w)"
  by (simp_all add: setThread_def notifyAll_def onSerializer_def)

definition gatesInv :: "PromptSerializer \<Rightarrow> bool" where
  "gatesInv s = (distinct (map fst (ser_gates s)) \<and> (\<forall>(k, g) \<in> set (ser_gates s). g_held g \<or> g_waiters g \<noteq> []))"

lemma gatesInv_assign:
  "gatesInv s \<Longrightarrow> g_held g \<or> g_waiters g \<noteq> [] \<Longrightarrow> gatesInv (s\<lparr>ser_gates := assign_by (<) k g (ser_gates s)\<rparr>)"
  unfolding gatesInv_def by (auto simp: distinct_assign_by dest!: set_assign_by)

lemma gatesInv_erase: "gatesInv s \<Longrightarrow> gatesInv (s\<lparr>ser_gates := eraseKey k (ser_gates s)\<rparr>)"
  unfolding gatesInv_def by (auto simp: eraseKey_def distinct_map_filter)

lemma gatesInv_more: "ser_gates s' = ser_gates s \<Longrightarrow> gatesInv s' = gatesInv s"
  by (simp add: gatesInv_def)

lemma gatesInv_ops:
  assumes "gatesInv s"
  shows "enqueue k s = (tk, s') \<Longrightarrow> gatesInv s'" "gatesInv (leaveQueue k tk s)" "gatesInv (takeSlot k s)"
    "gatesInv (Prompts.release k s)"
proof -
  assume "enqueue k s = (tk, s')"
  then have "s' = (s\<lparr>ser_nextTicket := ser_nextTicket s + 1\<rparr>)\<lparr>ser_gates := assign_by (<) k
      ((gateOf k s)\<lparr>g_waiters := g_waiters (gateOf k s) @ [ser_nextTicket s]\<rparr>) (ser_gates (s\<lparr>ser_nextTicket := ser_nextTicket s + 1\<rparr>))\<rparr>"
    by (auto simp: enqueue_def Let_def)
  moreover have "gatesInv (s\<lparr>ser_nextTicket := ser_nextTicket s + 1\<rparr>)" using assms by (simp add: gatesInv_def)
  ultimately show "gatesInv s'" by (simp only:) (rule gatesInv_assign, simp_all)
next
  show "gatesInv (leaveQueue k tk s)"
    using assms by (auto simp: leaveQueue_def Let_def gatesInv_erase split: option.splits intro!: gatesInv_assign)
  show "gatesInv (takeSlot k s)" using assms by (simp add: takeSlot_def Let_def gatesInv_assign)
  show "gatesInv (Prompts.release k s)"
    using assms by (simp add: release_def gatesInv_erase gatesInv_assign split: option.splits)
qed

text \<open>A sleeping thread has nothing to do: its token is not cancelled, or its callback is still to come;
  and it is not its turn.\<close>

definition itsTurn :: "PromptSerializer \<Rightarrow> string \<Rightarrow> u64 \<Rightarrow> bool" where
  "itsTurn s k tk = (slotFree k s \<and> atHead k tk s)"

definition sleepInv :: "PromptWorld \<Rightarrow> bool" where
  "sleepInv w = (\<forall>t k tk. pw_threads w t = Some (PtWaiting k tk True) \<longrightarrow>
     (if t \<in> pw_cancelled w then t \<in> pw_notifying w else \<not> itsTurn (pw_serializer w) k tk))"

lemma sleepInvI:
  assumes "\<And>t k tk. pw_threads w t = Some (PtWaiting k tk True) \<Longrightarrow> t \<in> pw_cancelled w \<Longrightarrow> t \<in> pw_notifying w"
    "\<And>t k tk. pw_threads w t = Some (PtWaiting k tk True) \<Longrightarrow> t \<notin> pw_cancelled w \<Longrightarrow> \<not> itsTurn (pw_serializer w) k tk"
  shows "sleepInv w"
  using assms by (simp add: sleepInv_def)

lemma sleepInvD:
  assumes "sleepInv w" "pw_threads w t = Some (PtWaiting k tk True)"
  shows "t \<in> pw_cancelled w \<Longrightarrow> t \<in> pw_notifying w" "t \<notin> pw_cancelled w \<Longrightarrow> \<not> itsTurn (pw_serializer w) k tk"
  using assms by (simp_all add: sleepInv_def)

lemma itsTurn_iff: "itsTurn s k tk \<longleftrightarrow> \<not> slots s k \<and> (\<exists>rest. queues s k = tk # rest)"
  by (simp add: itsTurn_def slotFree_iff atHead_iff)

definition worldInv :: "nat \<Rightarrow> PromptWorld \<Rightarrow> bool" where
  "worldInv n w =
     (queueInv (atThreads waitTicket w) (queues (pw_serializer w)) (ser_nextTicket (pw_serializer w))
      \<and> slotInv (atThreads holds w) (slots (pw_serializer w))
      \<and> liveInv (atThreads shownPrompt w) (atThreads givenId w) (ser_livePrompts (pw_serializer w)) (ser_idMinter (pw_serializer w))
      \<and> gatesInv (pw_serializer w)
      \<and> unat (ser_nextTicket (pw_serializer w)) \<le> n \<and> unat (pim_counter (ser_idMinter (pw_serializer w))) \<le> n)"

lemma worldInvI:
  assumes "queueInv (atThreads waitTicket w) (queues (pw_serializer w)) (ser_nextTicket (pw_serializer w))"
    "slotInv (atThreads holds w) (slots (pw_serializer w))"
    "liveInv (atThreads shownPrompt w) (atThreads givenId w) (ser_livePrompts (pw_serializer w)) (ser_idMinter (pw_serializer w))"
    "gatesInv (pw_serializer w)" "unat (ser_nextTicket (pw_serializer w)) \<le> n"
    "unat (pim_counter (ser_idMinter (pw_serializer w))) \<le> n"
  shows "worldInv n w"
  using assms by (simp add: worldInv_def)

lemma worldInvD:
  assumes "worldInv n w"
  shows "queueInv (atThreads waitTicket w) (queues (pw_serializer w)) (ser_nextTicket (pw_serializer w))"
    "slotInv (atThreads holds w) (slots (pw_serializer w))"
    "liveInv (atThreads shownPrompt w) (atThreads givenId w) (ser_livePrompts (pw_serializer w)) (ser_idMinter (pw_serializer w))"
    "gatesInv (pw_serializer w)" "unat (ser_nextTicket (pw_serializer w)) \<le> n"
    "unat (pim_counter (ser_idMinter (pw_serializer w))) \<le> n"
  using assms by (simp_all add: worldInv_def)

text \<open>A thread that changes nothing the invariant looks at.\<close>

lemma fun_upd_None_triv: "f t = x \<Longrightarrow> f(t := x) = f"
  by auto

lemma atThread: "pw_threads w t = Some th \<Longrightarrow> atThreads f w t = f th" "pw_threads w t = None \<Longrightarrow> atThreads f w t = None"
  by (simp_all add: atThreads_def)

lemma atThreads_same:
  "pw_threads w t = th \<Longrightarrow> Option.bind th f = f th' \<Longrightarrow> atThreads f (setThread t (Some th') w) = atThreads f w"
  by (auto simp: atThreads_def fun_eq_iff setThread_def)

lemma worldInv_idle:
  assumes "worldInv n w" "pw_threads w t = th" "Option.bind th waitTicket = waitTicket th'" "Option.bind th holds = holds th'"
    "Option.bind th shownPrompt = shownPrompt th'" "Option.bind th givenId = givenId th'"
  shows "worldInv (Suc n) (setThread t (Some th') w)"
  using assms by (simp add: worldInv_def atThreads_same [OF assms(2)] del: atThreads_steps(1))

lemma worldInv_check:
  assumes inv: "worldInv n w" and t: "pw_threads w t = Some (PtWaiting k tk False)"
  shows "worldInv (Suc n) (checkWait t k tk w)"
proof -
  note facts = worldInvD [OF inv] and th = atThread(1) [OF t]
  have drop: "queueInv ((atThreads waitTicket w)(t := None)) ((queues (pw_serializer w))(k := remove1 tk (queues (pw_serializer w) k)))
      (ser_nextTicket (pw_serializer w))"
    by (rule queueInv_drop [OF facts(1)]) (simp add: th)
  consider "t \<in> pw_cancelled w" | "t \<notin> pw_cancelled w" "slotFree k (pw_serializer w) \<and> atHead k tk (pw_serializer w)"
    | "t \<notin> pw_cancelled w" "\<not> (slotFree k (pw_serializer w) \<and> atHead k tk (pw_serializer w))" by blast
  then show ?thesis
  proof cases
    case 1
    then show ?thesis using facts drop
      by (intro worldInvI) (simp_all add: th checkWait_def leaveQueue_facts fun_upd_None_triv gatesInv_ops)
  next
    case 2
    then obtain rest where q: "queues (pw_serializer w) k = tk # rest" by (auto simp: atHead_iff)
    have "slotInv ((atThreads holds w)(t \<mapsto> k)) ((slots (pw_serializer w))(k := True))"
      using 2 facts(2) by (intro slotInv_take) (simp_all add: th slotFree_iff)
    then show ?thesis using 2 facts drop q
      by (intro worldInvI) (simp_all add: th checkWait_def takeSlot_facts fun_upd_None_triv gatesInv_ops)
  next
    case 3
    then have "checkWait t k tk w = setThread t (Some (PtWaiting k tk True)) w" by (auto simp: checkWait_def)
    then show ?thesis using worldInv_idle [OF inv t, of "PtWaiting k tk True"] by simp
  qed
qed

lemma worldInv_step:
  assumes inv: "worldInv n w" and st: "pstep w w'" and room: "n + 1 < 2 ^ 64"
  shows "worldInv (Suc n) w'"
proof -
  note facts = worldInvD [OF inv]
  have next_lt: "ser_nextTicket (pw_serializer w) < ser_nextTicket (pw_serializer w) + 1"
    and next_u: "unat (ser_nextTicket (pw_serializer w) + 1) = Suc (unat (ser_nextTicket (pw_serializer w)))"
    using facts(5) room by (simp_all add: word_less_nat_alt unat_word_ariths)
  have count_u: "unat (pim_counter (ser_idMinter (pw_serializer w)) + 1) = Suc (unat (pim_counter (ser_idMinter (pw_serializer w))))"
    using facts(6) room by (simp add: unat_word_ariths)
  from st show ?thesis
  proof cases
    case (call t k)
    then show ?thesis using worldInv_idle [OF inv call(2)] by simp
  next
    case (set_cancelled t)
    then show ?thesis using inv by (simp add: worldInv_def)
  next
    case (callback t)
    then show ?thesis using inv by (simp add: worldInv_def)
  next
    case (spurious t k tk)
    then show ?thesis using worldInv_idle [OF inv spurious(2)] by simp
  next
    case (register t k)
    then show ?thesis using worldInv_idle [OF inv register(2)] by simp
  next
    case (queue t k tk s)
    note e = enqueue_facts [OF queue(3)] and th = atThread(1) [OF queue(2)]
    have "queueInv ((atThreads waitTicket w)(t \<mapsto> (k, tk))) ((queues (pw_serializer w))(k := queues (pw_serializer w) k @ [tk])) (tk + 1)"
      unfolding e(3) by (rule queueInv_add [OF facts(1) _ next_lt]) (simp add: th)
    then show ?thesis unfolding queue(1) using facts next_u
      by (intro worldInvI) (simp_all add: th e fun_upd_None_triv gatesInv_ops(1) [OF facts(4) queue(3)])
  next
    case (check t k tk)
    then show ?thesis using worldInv_check [OF inv] by simp
  next
    case (unwanted t k)
    then show ?thesis using worldInv_idle [OF inv unwanted(2)] by simp
  next
    case (stamp t k pid s)
    note e = mintFor_facts [OF stamp(3)] and th = atThread(1) [OF stamp(2)]
    let ?m = "ser_idMinter (pw_serializer w)"
    have m: "ser_idMinter s = ?m\<lparr>pim_counter := pim_counter ?m + 1\<rparr>" by (rule PromptIdMinter.equality) (simp_all add: e)
    have "liveInv (atThreads shownPrompt w) ((atThreads givenId w)(t \<mapsto> pid)) (ser_livePrompts (pw_serializer w)) (ser_idMinter s)"
      unfolding e(8) m by (rule liveInv_mint [OF facts(3) _ count_u refl]) (simp add: th)
    then show ?thesis unfolding stamp(1) using facts count_u
      by (intro worldInvI) (simp_all add: th e(1-5,7) fun_upd_None_triv fun_upd_idem gatesInv_more [OF e(5)])
  next
    case (live t k pid)
    note th = atThread(1) [OF live(2)]
    obtain m where "pid = pim_runNonce (ser_idMinter (pw_serializer w)) @ '':'' @ to_string m"
      using liveInvD(4) [OF facts(3), of t pid] by (auto simp: th)
    then have ne: "pid \<noteq> []" by simp
    have "liveInv ((atThreads shownPrompt w)(t \<mapsto> (k, pid))) (atThreads givenId w)
        (assign_by (<) pid k (ser_livePrompts (pw_serializer w))) (ser_idMinter (pw_serializer w))"
      by (rule liveInv_show [OF facts(3)]) (simp_all add: th)
    then show ?thesis unfolding live(1) using facts ne
      by (intro worldInvI) (simp_all add: th live_facts fun_upd_idem gatesInv_more [OF live_facts(9)])
  next
    case (answered t k pid)
    note th = atThread(1) [OF answered(2)]
    obtain m where "pid = pim_runNonce (ser_idMinter (pw_serializer w)) @ '':'' @ to_string m"
      using liveInvD(4) [OF facts(3), of t pid] by (auto simp: th)
    then have ne: "pid \<noteq> []" by simp
    have "liveInv ((atThreads shownPrompt w)(t := None)) ((atThreads givenId w)(t := None))
        (eraseKey pid (ser_livePrompts (pw_serializer w))) (ser_idMinter (pw_serializer w))"
      by (rule liveInv_forget [OF facts(3)]) (simp add: th)
    then show ?thesis unfolding answered(1) using facts ne
      by (intro worldInvI) (simp_all add: th live_facts fun_upd_idem gatesInv_more [OF live_facts(10)])
  next
    case (release t k)
    note th = atThread(1) [OF release(2)]
    have "slotInv ((atThreads holds w)(t := None)) ((slots (pw_serializer w))(k := False))"
      by (rule slotInv_give [OF facts(2)]) (simp add: th)
    then show ?thesis unfolding release(1) using facts
      by (intro worldInvI) (simp_all add: th release_facts fun_upd_None_triv gatesInv_ops)
  qed
qed

lemma worldInv_init: "worldInv 0 (promptInit nonce)"
proof -
  have "gateOf k (pw_serializer (promptInit nonce)) = \<lparr> g_waiters = [], g_held = False \<rparr>" for k
    by (simp add: gateOf_def promptInit_def)
  moreover have "pw_threads (promptInit nonce) t = None" for t by (simp add: promptInit_def)
  ultimately show ?thesis
    by (simp add: worldInv_def queueInv_def slotInv_def liveInv_def gatesInv_def queues_def slots_def atThreads_def)
      (simp add: promptInit_def)
qed

lemma preach_inv: "preach n w \<Longrightarrow> n < 2 ^ 64 \<Longrightarrow> worldInv n w"
  by (induction rule: preach.induct) (use worldInv_init worldInv_step in auto)

section \<open>No thread sleeps through its turn\<close>

lemma sleepInv_notify: "sleepInv (notifyAll w)"
proof -
  have "awake th \<noteq> PtWaiting k tk True" for th k tk by (cases th) simp_all
  then show ?thesis by (auto simp: sleepInv_def notifyAll_def)
qed

lemma sleepInv_thread:
  assumes "sleepInv w"
    "\<And>k tk. th = Some (PtWaiting k tk True) \<Longrightarrow> t \<notin> pw_cancelled w \<and> \<not> itsTurn (pw_serializer w) k tk"
  shows "sleepInv (setThread t th w)"
proof (rule sleepInvI)
  fix t' k tk
  assume t': "pw_threads (setThread t th w) t' = Some (PtWaiting k tk True)"
  show "t' \<in> pw_notifying (setThread t th w)" if "t' \<in> pw_cancelled (setThread t th w)"
    using that t' assms(2) sleepInvD(1) [OF assms(1), of t' k tk] by (auto simp: setThread_def split: if_splits)
  show "\<not> itsTurn (pw_serializer (setThread t th w)) k tk" if "t' \<notin> pw_cancelled (setThread t th w)"
    using that t' assms(2) sleepInvD(2) [OF assms(1), of t' k tk] by (auto simp: setThread_def split: if_splits)
qed

lemma sleepInv_serializer:
  assumes "sleepInv w"
    "\<And>t k tk. pw_threads w t = Some (PtWaiting k tk True) \<Longrightarrow> itsTurn s k tk \<Longrightarrow> itsTurn (pw_serializer w) k tk"
  shows "sleepInv (w\<lparr>pw_serializer := s\<rparr>)"
proof (rule sleepInvI)
  fix t k tk
  assume "pw_threads (w\<lparr>pw_serializer := s\<rparr>) t = Some (PtWaiting k tk True)"
  then have t: "pw_threads w t = Some (PtWaiting k tk True)" by simp
  show "t \<in> pw_notifying (w\<lparr>pw_serializer := s\<rparr>)" if "t \<in> pw_cancelled (w\<lparr>pw_serializer := s\<rparr>)"
    using that sleepInvD(1) [OF assms(1) t] by simp
  show "\<not> itsTurn (pw_serializer (w\<lparr>pw_serializer := s\<rparr>)) k tk" if "t \<notin> pw_cancelled (w\<lparr>pw_serializer := s\<rparr>)"
    using that sleepInvD(2) [OF assms(1) t] assms(2) [OF t] by auto
qed

lemma sleepInv_awake: "sleepInv w \<Longrightarrow> \<forall>k tk. th \<noteq> Some (PtWaiting k tk True) \<Longrightarrow> sleepInv (setThread t th w)"
  by (rule sleepInv_thread) auto

lemma sleepInv_queue:
  assumes w: "worldInv n w" and inv: "sleepInv w" and e: "enqueue k (pw_serializer w) = (tk, s)"
  shows "sleepInv (w\<lparr>pw_serializer := s\<rparr>)"
proof (rule sleepInv_serializer [OF inv])
  fix t k' tk'
  assume t: "pw_threads w t = Some (PtWaiting k' tk' True)" and turn: "itsTurn s k' tk'"
  have "atThreads waitTicket w t = Some (k', tk')" using t by (simp add: atThreads_def)
  then have "tk' \<in> set (queues (pw_serializer w) k')" using queueInvD(1) [OF worldInvD(1) [OF w]] by blast
  then show "itsTurn (pw_serializer w) k' tk'"
    using turn enqueue_facts(1,2) [OF e] by (cases "queues (pw_serializer w) k'") (auto simp: itsTurn_iff split: if_splits)
qed

lemma sleepInv_check:
  assumes inv: "sleepInv w"
  shows "sleepInv (checkWait t k tk w)"
proof -
  consider "t \<in> pw_cancelled w" | "t \<notin> pw_cancelled w" "itsTurn (pw_serializer w) k tk"
    | "t \<notin> pw_cancelled w" "\<not> itsTurn (pw_serializer w) k tk" by blast
  then show ?thesis
  proof cases
    case 1
    then show ?thesis unfolding checkWait_def by (simp add: sleepInv_notify)
  next
    case 2
    have "sleepInv (onSerializer (takeSlot k) w)"
      unfolding onSerializer_def
      by (rule sleepInv_serializer [OF inv]) (auto simp: itsTurn_iff takeSlot_facts split: if_splits)
    then show ?thesis using 2 by (simp add: checkWait_def itsTurn_def sleepInv_awake)
  next
    case 3
    then have "checkWait t k tk w = setThread t (Some (PtWaiting k tk True)) w" by (auto simp: checkWait_def itsTurn_def)
    moreover have "sleepInv (setThread t (Some (PtWaiting k tk True)) w)"
      by (rule sleepInv_thread [OF inv]) (use 3 in simp)
    ultimately show ?thesis by simp
  qed
qed

lemma sleepInv_step:
  assumes w: "worldInv n w" and inv: "sleepInv w" and st: "pstep w w'"
  shows "sleepInv w'"
  using st
proof cases
  case (set_cancelled t)
  show ?thesis unfolding set_cancelled(1) using sleepInvD [OF inv] by (intro sleepInvI) auto
next
  case (queue t k tk s)
  show ?thesis unfolding queue(1) by (rule sleepInv_thread [OF sleepInv_queue [OF w inv queue(3)]]) simp
next
  case (check t k tk)
  show ?thesis unfolding check(1) by (rule sleepInv_check [OF inv])
next
  case (stamp t k pid s)
  have "sleepInv (w\<lparr>pw_serializer := s\<rparr>)"
    by (rule sleepInv_serializer [OF inv]) (simp add: itsTurn_iff mintFor_facts [OF stamp(3)])
  then show ?thesis unfolding stamp(1) by (rule sleepInv_thread) simp
next
  case (live t k pid)
  have "sleepInv (onSerializer (registerLivePrompt k pid) w)"
    unfolding onSerializer_def by (rule sleepInv_serializer [OF inv]) (simp add: itsTurn_iff live_facts)
  then show ?thesis unfolding live(1) by (rule sleepInv_thread) simp
next
  case (answered t k pid)
  have "sleepInv (onSerializer (forgetLivePrompt pid) w)"
    unfolding onSerializer_def by (rule sleepInv_serializer [OF inv]) (simp add: itsTurn_iff live_facts)
  then show ?thesis unfolding answered(1) by (rule sleepInv_thread) simp
qed (simp_all add: sleepInv_notify sleepInv_awake [OF inv])

lemma preach_sleep: "preach n w \<Longrightarrow> n < 2 ^ 64 \<Longrightarrow> sleepInv w"
proof (induction rule: preach.induct)
  case (init nonce)
  then show ?case by (simp add: sleepInv_def promptInit_def)
next
  case (step n w w')
  then show ?case using sleepInv_step [OF preach_inv [OF step(1)]] by simp
qed

section \<open>What the serializer promises\<close>

lemma gate_entry: "gatesInv s \<Longrightarrow> (k, g) \<in> set (ser_gates s) \<Longrightarrow> gateOf k s = g"
  by (simp add: gatesInv_def gateOf_def)

lemma hasPendingPrompt_iff: "gatesInv s \<Longrightarrow> hasPendingPrompt s \<longleftrightarrow> (\<exists>k. slots s k \<or> queues s k \<noteq> [])"
proof
  assume inv: "gatesInv s" and "hasPendingPrompt s"
  then obtain k g where "(k, g) \<in> set (ser_gates s)" "g_held g \<or> g_waiters g \<noteq> []"
    by (auto simp: hasPendingPrompt_def list_ex_iff)
  then show "\<exists>k. slots s k \<or> queues s k \<noteq> []" using gate_entry [OF inv] by (auto simp: slots_def queues_def)
next
  assume "\<exists>k. slots s k \<or> queues s k \<noteq> []"
  then obtain k g where "map_of (ser_gates s) k = Some g" "g_held g \<or> g_waiters g \<noteq> []"
    by (auto simp: slots_def queues_def gateOf_def split: option.splits)
  then show "hasPendingPrompt s" by (auto simp: hasPendingPrompt_def list_ex_iff dest!: map_of_SomeD)
qed

lemma waiting_somewhere: "queueInv W Q n \<Longrightarrow> (\<exists>k. Q k \<noteq> []) \<longleftrightarrow> (\<exists>t. W t \<noteq> None)"
proof -
  assume inv: "queueInv W Q n"
  have "Q k \<noteq> [] \<longleftrightarrow> (\<exists>tk t. W t = Some (k, tk))" for k
    using queueInvD(1) [OF inv, of _ k] by (metis last_in_set list.set(1) empty_iff)
  then show ?thesis by auto
qed

text \<open>C10. In every run at most one thread per card is between taking the slot and giving it back; the live
  prompts of a card are exactly the prompts shown for it, so at most one; and a prompt counts as pending
  exactly while a thread waits or has a slot. The 64-bit counters have room for the run.\<close>

theorem one_prompt_per_card:
  assumes "preach n w" "n < 2 ^ 64"
  shows "(\<forall>t t' k. atThreads holds w t = Some k \<and> atThreads holds w t' = Some k \<longrightarrow> t = t')
     \<and> (\<forall>i k. i \<in> set (liveIdsFor k (pw_serializer w)) \<longleftrightarrow> (\<exists>t. pw_threads w t = Some (PtShowing k i)))
     \<and> (\<forall>k. length (liveIdsFor k (pw_serializer w)) \<le> 1) \<and> distinct (liveIds (pw_serializer w))
     \<and> (hasPendingPrompt (pw_serializer w) \<longleftrightarrow> (\<exists>t. atThreads waitTicket w t \<noteq> None \<or> atThreads holds w t \<noteq> None))"
proof -
  note facts = worldInvD [OF preach_inv [OF assms]]
  have one: "atThreads holds w t = Some k \<Longrightarrow> atThreads holds w t' = Some k \<Longrightarrow> t = t'" for t t' k
    using facts(2) unfolding slotInv_def by blast
  have shown: "atThreads shownPrompt w t = Some (k, i) \<longleftrightarrow> pw_threads w t = Some (PtShowing k i)" for t k i
  proof -
    have "shownPrompt th = Some (k, i) \<longleftrightarrow> th = PtShowing k i" for th by (cases th) auto
    then show ?thesis by (auto simp: atThreads_def bind_eq_Some_conv)
  qed
  have ids: "i \<in> set (liveIdsFor k (pw_serializer w)) \<longleftrightarrow> (\<exists>t. pw_threads w t = Some (PtShowing k i))" for i k
    using liveInvD(2) [OF facts(3), of i k] by (force simp: liveIdsFor_def shown)
  have "distinct (liveIdsFor k (pw_serializer w))" for k
    using liveInvD(1) [OF facts(3)] by (simp add: liveIdsFor_def distinct_map_filter)
  moreover have "i = i'" if "i \<in> set (liveIdsFor k (pw_serializer w))" "i' \<in> set (liveIdsFor k (pw_serializer w))" for i i' k
  proof -
    from that obtain t t' where t: "pw_threads w t = Some (PtShowing k i)" "pw_threads w t' = Some (PtShowing k i')"
      unfolding ids by blast
    then have "t = t'" by (intro one [of t k t']) (simp_all add: atThreads_def)
    then show ?thesis using t by simp
  qed
  ultimately have short: "length (liveIdsFor k (pw_serializer w)) \<le> 1" for k
    by (metis (no_types, lifting) card_le_Suc0_iff_eq distinct_card List.finite_set One_nat_def)
  have "hasPendingPrompt (pw_serializer w) \<longleftrightarrow> (\<exists>t. atThreads waitTicket w t \<noteq> None \<or> atThreads holds w t \<noteq> None)"
    using waiting_somewhere [OF facts(1)] facts(2) unfolding hasPendingPrompt_iff [OF facts(4)] slotInv_def by auto
  then show ?thesis using one ids short liveInvD(1) [OF facts(3)] unfolding liveIds_def by blast
qed

text \<open>C18. Slots are given in the order of arrival: a thread that gets the slot of a card found it free, was
  not cancelled, and has the lowest ticket of all threads waiting for that card; and a thread that arrives
  gets a ticket above all those waiting.\<close>

theorem prompts_first_come:
  assumes "preach n w" "n < 2 ^ 64" "pw_threads w t = Some (PtWaiting k tk False)"
    "pw_threads (checkWait t k tk w) t = Some (PtGranted k)"
  shows "(\<forall>t'. atThreads holds w t' \<noteq> Some k) \<and> t \<notin> pw_cancelled w
     \<and> (\<forall>t' tk' a. pw_threads w t' = Some (PtWaiting k tk' a) \<longrightarrow> tk \<le> tk')
     \<and> (\<forall>k' t' k'' tk' a. pw_threads w t' = Some (PtWaiting k'' tk' a) \<longrightarrow> tk' < fst (enqueue k' (pw_serializer w)))"
proof -
  note facts = worldInvD [OF preach_inv [OF assms(1,2)]]
  have turn: "t \<notin> pw_cancelled w" "itsTurn (pw_serializer w) k tk"
    using assms(4) by (auto simp: checkWait_def setThread_def notifyAll_def itsTurn_def split: if_splits)
  then obtain rest where q: "\<not> slots (pw_serializer w) k" "queues (pw_serializer w) k = tk # rest" by (auto simp: itsTurn_iff)
  have "tk \<le> tk'" if "pw_threads w t' = Some (PtWaiting k tk' a)" for t' tk' a
  proof -
    have "atThreads waitTicket w t' = Some (k, tk')" using that by (simp add: atThreads_def)
    then have "tk' \<in> set (tk # rest)" using queueInvD(1) [OF facts(1), of tk' k] q by auto
    then show ?thesis using queueInvD(2) [OF facts(1), of k] q by auto
  qed
  moreover have "tk' < fst (enqueue k' (pw_serializer w))" if "pw_threads w t' = Some (PtWaiting k'' tk' a)" for k' t' k'' tk' a
    using queueInvD(4) [OF facts(1), of t' k'' tk'] that by (simp add: atThreads_def enqueue_def Let_def)
  ultimately show ?thesis using q(1) facts(2) turn unfolding slotInv_def by blast
qed

text \<open>C14. No wakeup is lost: a sleeping thread has no cancelled token unless its callback is still to come,
  and it is not its turn. So while threads wait for a card, one thread of that card has the slot, or is
  awake, or is about to be notified: they never all sleep.\<close>

theorem no_lost_wakeup:
  assumes "preach n w" "n < 2 ^ 64" "pw_threads w t = Some (PtWaiting k tk asleep)"
  shows "(asleep \<longrightarrow> (t \<in> pw_cancelled w \<longrightarrow> t \<in> pw_notifying w)
            \<and> (slotFree k (pw_serializer w) \<and> atHead k tk (pw_serializer w) \<longrightarrow> t \<in> pw_cancelled w))
     \<and> (\<exists>t'. atThreads holds w t' = Some k \<or> (\<exists>tk'. pw_threads w t' = Some (PtWaiting k tk' False))
           \<or> (\<exists>tk'. pw_threads w t' = Some (PtWaiting k tk' True)) \<and> t' \<in> pw_notifying w)"
proof -
  note facts = worldInvD [OF preach_inv [OF assms(1,2)]] and sl = preach_sleep [OF assms(1,2)]
  have "\<exists>t'. atThreads holds w t' = Some k \<or> (\<exists>tk'. pw_threads w t' = Some (PtWaiting k tk' False))
           \<or> (\<exists>tk'. pw_threads w t' = Some (PtWaiting k tk' True)) \<and> t' \<in> pw_notifying w"
  proof (cases "slots (pw_serializer w) k")
    case True
    then show ?thesis using facts(2) unfolding slotInv_def by blast
  next
    case False
    have "tk \<in> set (queues (pw_serializer w) k)"
      using queueInvD(1) [OF facts(1), of tk k] atThread(1) [OF assms(3), of waitTicket] by auto
    then obtain tk1 rest where q: "queues (pw_serializer w) k = tk1 # rest" by (cases "queues (pw_serializer w) k") auto
    then obtain t1 where "atThreads waitTicket w t1 = Some (k, tk1)" using queueInvD(1) [OF facts(1), of tk1 k] by auto
    moreover have "waitTicket th = Some (k, tk1) \<Longrightarrow> \<exists>a. th = PtWaiting k tk1 a" for th by (cases th) auto
    ultimately obtain a where t1: "pw_threads w t1 = Some (PtWaiting k tk1 a)" by (auto simp: atThreads_def bind_eq_Some_conv)
    then show ?thesis
    proof (cases a)
      case True
      then show ?thesis using t1 sleepInvD [OF sl, of t1 k tk1] False q by (auto simp: itsTurn_iff)
    qed auto
  qed
  moreover have "asleep \<longrightarrow> (t \<in> pw_cancelled w \<longrightarrow> t \<in> pw_notifying w)
      \<and> (slotFree k (pw_serializer w) \<and> atHead k tk (pw_serializer w) \<longrightarrow> t \<in> pw_cancelled w)"
    using sleepInvD [OF sl, of t k tk] assms(3) unfolding itsTurn_def by auto
  ultimately show ?thesis by blast
qed

text \<open>Stamped deadlines, the main one and that of the offered alternatives, stay within the longest.\<close>

lemma stampPrompt_deadlines:
  "po_deadlineMs (fst (stampPrompt opts reader m kind)) \<le> kLongestDeadline
   \<and> po_altDeadlineMs (fst (stampPrompt opts reader m kind)) \<le> kLongestDeadline"
proof -
  have d: "deadlineFor k \<le> kLongestDeadline" for k by (cases k) (simp_all add: kLongestDeadline_def)
  then have "deadlineForWireKind x \<le> kLongestDeadline" for x
    by (simp add: deadlineForWireKind_def kLongestDeadline_def split: option.splits)
  then have "fold (\<lambda>x alt. max alt (deadlineForWireKind x)) xs a \<le> kLongestDeadline" if "a \<le> kLongestDeadline" for xs a
    using that by (induction xs arbitrary: a) simp_all
  then show ?thesis using d by (simp add: stampPrompt_def Let_def case_prod_beta kLongestDeadline_def)
qed

lemma dismissIfEmpty_nonempty: "pr_status (dismissIfEmpty r) = PS_Ok \<Longrightarrow> pr_secret (dismissIfEmpty r) \<noteq> Some []"
  by (auto simp: dismissIfEmpty_def split: if_splits)

section \<open>A first run\<close>

definition sample_queued :: PromptWorld where
  "sample_queued =
     (let w = setThread 5 (Some (PtRegistered ''7'')) (setThread 5 (Some (PtStart ''7'')) (promptInit ''ab''));
          (tk, s) = enqueue ''7'' (pw_serializer w)
      in setThread 5 (Some (PtWaiting ''7'' tk False)) (w\<lparr>pw_serializer := s\<rparr>))"

lemma sample_queued_reached: "preach 3 sample_queued"
proof -
  let ?w1 = "setThread 5 (Some (PtStart ''7'')) (promptInit ''ab'')" and ?w2 = "\<lambda>w. setThread 5 (Some (PtRegistered ''7'')) w"
  have 1: "preach (Suc 0) ?w1"
    by (rule preach.step [OF preach.init], rule pstep.call) (simp add: promptInit_def)
  have 2: "preach (Suc (Suc 0)) (?w2 ?w1)"
    by (rule preach.step [OF 1], rule pstep.register) (simp add: setThread_def)
  obtain tk s where e: "enqueue ''7'' (pw_serializer (?w2 ?w1)) = (tk, s)" by (cases "enqueue ''7'' (pw_serializer (?w2 ?w1))")
  have "preach (Suc (Suc (Suc 0))) (setThread 5 (Some (PtWaiting ''7'' tk False)) ((?w2 ?w1)\<lparr>pw_serializer := s\<rparr>))"
    by (rule preach.step [OF 2], rule pstep.queue [OF _ e]) (simp add: setThread_def)
  then show ?thesis unfolding sample_queued_def Let_def e by (simp add: numeral_3_eq_3)
qed

lemma sample_queued_thread: "pw_threads sample_queued 5 = Some (PtWaiting ''7'' 0 False)"
  "pw_threads (checkWait 5 ''7'' 0 sample_queued) 5 = Some (PtGranted ''7'')"
  by (simp_all add: sample_queued_def enqueue_def promptInit_def Let_def checkWait_def setThread_def slotFree_def atHead_def
      gateOf_def onSerializer_def)

theorem one_prompt_per_card_witness:
  "\<exists>w. preach 4 w \<and> atThreads holds w 5 = Some ''7'' \<and> hasPendingPrompt (pw_serializer w)
     \<and> liveIdsFor ''7'' (pw_serializer w) = []"
proof -
  let ?w = "checkWait 5 ''7'' 0 sample_queued"
  have "preach (Suc 3) ?w" by (rule preach.step [OF sample_queued_reached]) (rule pstep.check [OF sample_queued_thread(1)])
  then have p: "preach 4 ?w" by simp
  have h: "atThreads holds ?w 5 = Some ''7''" using sample_queued_thread(2) by (simp add: atThreads_def)
  have l: "4 < (2::nat) ^ 64" by simp
  note facts = one_prompt_per_card [OF p l]
  have "liveIdsFor ''7'' (pw_serializer ?w) = []"
  proof (rule ccontr)
    assume "liveIdsFor ''7'' (pw_serializer ?w) \<noteq> []"
    then obtain i where "i \<in> set (liveIdsFor ''7'' (pw_serializer ?w))" using hd_in_set by blast
    then obtain t where t: "pw_threads ?w t = Some (PtShowing ''7'' i)" using facts by blast
    then have "atThreads holds ?w t = Some ''7''" by (simp add: atThreads_def)
    then have "t = 5" using facts h by blast
    then show False using t sample_queued_thread(2) by simp
  qed
  moreover have "hasPendingPrompt (pw_serializer ?w)" using facts h by blast
  ultimately show ?thesis using p h by blast
qed

theorem prompts_first_come_witness:
  "preach 3 sample_queued \<and> pw_threads (checkWait 5 ''7'' 0 sample_queued) 5 = Some (PtGranted ''7'')
   \<and> (\<forall>t'. atThreads holds sample_queued t' \<noteq> Some ''7'')"
  using prompts_first_come [OF sample_queued_reached _ sample_queued_thread] sample_queued_reached sample_queued_thread by simp

theorem no_lost_wakeup_witness:
  "preach 3 sample_queued \<and> (\<exists>t'. atThreads holds sample_queued t' = Some ''7''
      \<or> (\<exists>tk'. pw_threads sample_queued t' = Some (PtWaiting ''7'' tk' False))
      \<or> (\<exists>tk'. pw_threads sample_queued t' = Some (PtWaiting ''7'' tk' True)) \<and> t' \<in> pw_notifying sample_queued)"
  using no_lost_wakeup [OF sample_queued_reached _ sample_queued_thread(1)] sample_queued_reached by simp

end
