(* ===== verification/Operations.thy ===== *)
theory Operations
  imports CardHolder Presence
begin

text \<open>
  The scheduler of card operations (\<^verbatim>\<open>operations/OperationManager.cpp\<close>): one worker thread with a queue
  per reader, the tables that find an operation by its identifier and by its caller, the grace list of
  finished operations, and the teardown of a reader. Objects live on a heap, here a set of references:
  deleting one takes it out. Every stretch of code under one mutex is one definition; \<open>ostep\<close> interleaves
  the threads inside them: callers of \<^verbatim>\<open>publish\<close>, \<^verbatim>\<open>enqueueOnReaderWorker\<close>, \<^verbatim>\<open>removeReader\<close> and
  \<^verbatim>\<open>sweepFinished\<close>, and the worker loops. What an operation does on the card is not looked at.
\<close>

section \<open>Workers\<close>

type_synonym OpRef = nat
type_synonym WorkerRef = nat

record ReaderWorker =
  rw_queue :: "OpRef list"
  rw_inFlight :: "OpRef option"
  rw_abandoned :: bool
  rw_pendingInvalidate :: bool
  rw_hold :: bool
  rw_holdDirty :: bool
  rw_stop :: bool

definition kMaxQueuedOpsPerReader :: nat where
  "kMaxQueuedOpsPerReader = 32"

definition freshWorker :: ReaderWorker where
  "freshWorker = \<lparr> rw_queue = [], rw_inFlight = None, rw_abandoned = False, rw_pendingInvalidate = False,
                   rw_hold = False, rw_holdDirty = False, rw_stop = False \<rparr>"

definition admits :: "ReaderWorker \<Rightarrow> bool" where
  "admits rw = (length (rw_queue rw) < kMaxQueuedOpsPerReader)"

definition pushOp :: "OpRef \<Rightarrow> ReaderWorker \<Rightarrow> ReaderWorker" where
  "pushOp r rw = rw\<lparr>rw_queue := rw_queue rw @ [r]\<rparr>"

definition requestInvalidate :: "ReaderWorker \<Rightarrow> ReaderWorker" where
  "requestInvalidate rw = rw\<lparr>rw_pendingInvalidate := True\<rparr>"

definition requestHold :: "bool \<Rightarrow> ReaderWorker \<Rightarrow> ReaderWorker" where
  "requestHold hold rw = rw\<lparr>rw_hold := hold, rw_holdDirty := True\<rparr>"

text \<open>One pass of the loop up to where it lets go of the mutex. The wait ends on its condition or on the
  idle deadline; the condition false after the wait means the deadline.\<close>

datatype LoopAct = ActStop | ActHolder HolderOp | ActRun OpRef

definition waitCondition :: "ReaderWorker \<Rightarrow> bool" where
  "waitCondition rw = (rw_queue rw \<noteq> [] \<or> rw_pendingInvalidate rw \<or> rw_holdDirty rw \<or> rw_stop rw)"

definition loopIteration :: "ReaderWorker \<Rightarrow> LoopAct \<times> ReaderWorker" where
  "loopIteration rw =
     (if rw_stop rw then (ActStop, rw)
      else if rw_pendingInvalidate rw then (ActHolder HInvalidate, rw\<lparr>rw_pendingInvalidate := False\<rparr>)
      else if rw_holdDirty rw
      then (ActHolder (if rw_hold rw then HAcquireHold else HReleaseHold), rw\<lparr>rw_holdDirty := False\<rparr>)
      else if \<not> waitCondition rw then (ActHolder (HSweep (rw_hold rw)), rw)
      else (ActRun (hd (rw_queue rw)), rw\<lparr>rw_queue := tl (rw_queue rw), rw_inFlight := Some (hd (rw_queue rw))\<rparr>))"

definition clearInFlight :: "ReaderWorker \<Rightarrow> ReaderWorker" where
  "clearInFlight rw = rw\<lparr>rw_inFlight := None\<rparr>"

definition takeQueue :: "ReaderWorker \<Rightarrow> ReaderWorker" where
  "takeQueue rw = rw\<lparr>rw_queue := []\<rparr>"

section \<open>Tables\<close>

record OperationManager =
  om_counter :: u64
  om_workers :: "ObjectId \<rightharpoonup> WorkerRef"
  om_zombies :: "WorkerRef list"
  om_byId :: "u64 \<rightharpoonup> OpRef"
  om_finished :: "(OpRef \<times> time) list"
  om_senderToOps :: "string \<rightharpoonup> u64 set"
  om_opToSender :: "u64 \<rightharpoonup> string"

definition nextOperationId :: "OperationManager \<Rightarrow> u64 \<times> OperationManager" where
  "nextOperationId m = (om_counter m + 1, m\<lparr>om_counter := om_counter m + 1\<rparr>)"

definition recordSender :: "u64 \<Rightarrow> string \<Rightarrow> OperationManager \<Rightarrow> OperationManager" where
  "recordSender i sender m =
     m\<lparr>om_senderToOps := (om_senderToOps m)(sender \<mapsto> insert i (case om_senderToOps m sender of Some s \<Rightarrow> s | None \<Rightarrow> {})),
       om_opToSender := (om_opToSender m)(i \<mapsto> sender)\<rparr>"

definition trackOp :: "u64 \<Rightarrow> OpRef \<Rightarrow> OperationManager \<Rightarrow> OperationManager" where
  "trackOp i r m =
     (case om_byId m i of Some r' \<Rightarrow> m | None \<Rightarrow> m\<lparr>om_byId := (om_byId m)(i \<mapsto> r)\<rparr>)"

text \<open>The two halves of \<^verbatim>\<open>forgetOpById\<close>, each under its own mutex.\<close>

definition forgetPath :: "u64 \<Rightarrow> OperationManager \<Rightarrow> OperationManager" where
  "forgetPath i m = (if i = 0 then m else m\<lparr>om_byId := (om_byId m)(i := None)\<rparr>)"

definition forgetSenders :: "u64 \<Rightarrow> OperationManager \<Rightarrow> OperationManager" where
  "forgetSenders i m =
     (if i = 0 then m else
      case om_opToSender m i of
        None \<Rightarrow> m
      | Some sender \<Rightarrow>
          m\<lparr>om_senderToOps := (case om_senderToOps m sender of
               None \<Rightarrow> om_senderToOps m
             | Some s \<Rightarrow> (om_senderToOps m)(sender := (if s - {i} = {} then None else Some (s - {i})))),
            om_opToSender := (om_opToSender m)(i := None)\<rparr>)"

definition takeSenderOps :: "string \<Rightarrow> OperationManager \<Rightarrow> u64 set \<times> OperationManager" where
  "takeSenderOps client m =
     (case om_senderToOps m client of
        None \<Rightarrow> ({}, m)
      | Some s \<Rightarrow> (s, m\<lparr>om_senderToOps := (om_senderToOps m)(client := None),
                         om_opToSender := (\<lambda>i. if i \<in> s then None else om_opToSender m i)\<rparr>))"

definition finishOp :: "OpRef \<Rightarrow> time \<Rightarrow> OperationManager \<Rightarrow> OperationManager" where
  "finishOp r now m = m\<lparr>om_finished := om_finished m @ [(r, now)]\<rparr>"

definition takeExpired :: "time \<Rightarrow> time \<Rightarrow> OperationManager \<Rightarrow> OpRef list \<times> OperationManager" where
  "takeExpired now grace m =
     (map fst (takeWhile (\<lambda>(r, at). grace \<le> now - at) (om_finished m)),
      m\<lparr>om_finished := dropWhile (\<lambda>(r, at). grace \<le> now - at) (om_finished m)\<rparr>)"

section \<open>Threads\<close>

text \<open>Operations moved out of a list to be scrubbed from the tables and deleted: those still to be scrubbed,
  the one whose senders are to be scrubbed next, and all of them.\<close>

datatype Scrub = Scrub "OpRef list" "OpRef option" "OpRef list"

datatype Loop =
    LoopIdle
  | LoopRunning OpRef
  | LoopRan OpRef
  | LoopStopping
  | LoopDrain Scrub
  | LoopExited

datatype ManagerCaller =
    PubStart ObjectId string u64
  | PubWorker WorkerRef string u64
  | PubAdmitted WorkerRef string u64
  | PubMade WorkerRef string u64 OpRef
  | PubRecorded WorkerRef u64 OpRef
  | PubTracked WorkerRef OpRef
  | PubPushed WorkerRef
  | ProbeStart ObjectId
  | ProbeWorker WorkerRef
  | RemTaken WorkerRef
  | RemStopped WorkerRef
  | RemScrub WorkerRef "OpRef option" Scrub
  | RemGrace WorkerRef "OpRef option"
  | RemAbandon WorkerRef OpRef
  | RemForgot WorkerRef OpRef bool
  | Sweeping Scrub

record World =
  wd_om :: OperationManager
  wd_workers :: "WorkerRef \<rightharpoonup> ReaderWorker"
  wd_loops :: "WorkerRef \<rightharpoonup> Loop"
  wd_callers :: "nat \<rightharpoonup> ManagerCaller"
  wd_opId :: "OpRef \<Rightarrow> u64"
  wd_live :: "OpRef set"
  wd_nextRef :: OpRef

fun callerWorker :: "ManagerCaller \<Rightarrow> WorkerRef option" where
  "callerWorker (PubWorker w c i) = Some w"
| "callerWorker (PubAdmitted w c i) = Some w"
| "callerWorker (PubMade w c i r) = Some w"
| "callerWorker (PubRecorded w i r) = Some w"
| "callerWorker (PubTracked w r) = Some w"
| "callerWorker (PubPushed w) = Some w"
| "callerWorker (ProbeWorker w) = Some w"
| "callerWorker (RemTaken w) = Some w"
| "callerWorker (RemStopped w) = Some w"
| "callerWorker (RemScrub w f s) = Some w"
| "callerWorker (RemGrace w f) = Some w"
| "callerWorker (RemAbandon w r) = Some w"
| "callerWorker (RemForgot w r b) = Some w"
| "callerWorker _ = None"

definition setCaller :: "nat \<Rightarrow> ManagerCaller option \<Rightarrow> World \<Rightarrow> World" where
  "setCaller c x s = s\<lparr>wd_callers := (wd_callers s)(c := x)\<rparr>"

definition setLoop :: "WorkerRef \<Rightarrow> Loop option \<Rightarrow> World \<Rightarrow> World" where
  "setLoop w x s = s\<lparr>wd_loops := (wd_loops s)(w := x)\<rparr>"

definition setWorker :: "WorkerRef \<Rightarrow> ReaderWorker option \<Rightarrow> World \<Rightarrow> World" where
  "setWorker w x s = s\<lparr>wd_workers := (wd_workers s)(w := x)\<rparr>"

definition onManager :: "(OperationManager \<Rightarrow> OperationManager) \<Rightarrow> World \<Rightarrow> World" where
  "onManager f s = s\<lparr>wd_om := f (wd_om s)\<rparr>"

definition newOp :: "u64 \<Rightarrow> World \<Rightarrow> World" where
  "newOp i s = s\<lparr>wd_opId := (wd_opId s)(wd_nextRef s := i), wd_live := insert (wd_nextRef s) (wd_live s),
                 wd_nextRef := wd_nextRef s + 1\<rparr>"

definition deleteOps :: "OpRef list \<Rightarrow> World \<Rightarrow> World" where
  "deleteOps rs s = s\<lparr>wd_live := wd_live s - set rs\<rparr>"

text \<open>The worker of a reader, made and started when there is none.\<close>

definition workerFor :: "ObjectId \<Rightarrow> WorkerRef \<Rightarrow> World \<Rightarrow> World" where
  "workerFor reader w s =
     (case om_workers (wd_om s) reader of
        Some w' \<Rightarrow> s
      | None \<Rightarrow> setWorker w (Some freshWorker) (setLoop w (Some LoopIdle)
                  (onManager (\<lambda>m. m\<lparr>om_workers := (om_workers m)(reader \<mapsto> w)\<rparr>) s)))"

inductive scrubStep :: "World \<Rightarrow> Scrub \<Rightarrow> World \<Rightarrow> Scrub \<Rightarrow> bool" where
  path: "scrubStep s (Scrub (r # todo) None doomed) (onManager (forgetPath (wd_opId s r)) s) (Scrub todo (Some r) doomed)"
| senders: "scrubStep s (Scrub todo (Some r) doomed) (onManager (forgetSenders (wd_opId s r)) s) (Scrub todo None doomed)"

fun loopAfter :: "LoopAct \<Rightarrow> Loop" where
  "loopAfter ActStop = LoopStopping"
| "loopAfter (ActHolder op) = LoopIdle"
| "loopAfter (ActRun r) = LoopRunning r"

text \<open>The steps. The flag says whether a caller may still push on a worker that was told to stop: nothing
  in \<^verbatim>\<open>publish\<close> and \<^verbatim>\<open>enqueueOnReaderWorker\<close> looks at that.\<close>

inductive ostep :: "bool \<Rightarrow> World \<Rightarrow> World \<Rightarrow> bool" for late :: bool where
  publish: "wd_callers s c = None \<Longrightarrow> nextOperationId (wd_om s) = (i, m) \<Longrightarrow>
    ostep late s (setCaller c (Some (PubStart reader caller i)) (s\<lparr>wd_om := m\<rparr>))"
| publish_worker: "wd_callers s c = Some (PubStart reader caller i) \<Longrightarrow> wd_loops s w = None \<Longrightarrow> wd_workers s w = None \<Longrightarrow>
    om_workers (wd_om (workerFor reader w s)) reader = Some w' \<Longrightarrow>
    ostep late s (setCaller c (Some (PubWorker w' caller i)) (workerFor reader w s))"
| publish_full: "wd_callers s c = Some (PubWorker w caller i) \<Longrightarrow> wd_workers s w = Some rw \<Longrightarrow> \<not> admits rw \<Longrightarrow>
    ostep late s (setCaller c None s)"
| publish_admit: "wd_callers s c = Some (PubWorker w caller i) \<Longrightarrow> wd_workers s w = Some rw \<Longrightarrow> admits rw \<Longrightarrow>
    ostep late s (setCaller c (Some (PubAdmitted w caller i)) s)"
| publish_make: "wd_callers s c = Some (PubAdmitted w caller i) \<Longrightarrow>
    ostep late s (setCaller c (Some (PubMade w caller i (wd_nextRef s))) (newOp 0 s))"
| publish_record: "wd_callers s c = Some (PubMade w caller i r) \<Longrightarrow>
    ostep late s (setCaller c (Some (PubRecorded w i r))
      (onManager (if caller = [] then id else recordSender i caller) s))"
| publish_track: "wd_callers s c = Some (PubRecorded w i r) \<Longrightarrow>
    ostep late s (setCaller c (Some (PubTracked w r)) (onManager (trackOp i r) (s\<lparr>wd_opId := (wd_opId s)(r := i)\<rparr>)))"
| publish_push: "wd_callers s c = Some (PubTracked w r) \<Longrightarrow> wd_workers s w = Some rw \<Longrightarrow> late \<or> \<not> rw_stop rw \<Longrightarrow>
    ostep late s (setCaller c (Some (PubPushed w)) (setWorker w (Some (pushOp r rw)) s))"
| publish_return: "wd_callers s c = Some (PubPushed w) \<Longrightarrow> ostep late s (setCaller c None s)"
| probe: "wd_callers s c = None \<Longrightarrow> ostep late s (setCaller c (Some (ProbeStart reader)) s)"
| probe_worker: "wd_callers s c = Some (ProbeStart reader) \<Longrightarrow> wd_loops s w = None \<Longrightarrow> wd_workers s w = None \<Longrightarrow>
    om_workers (wd_om (workerFor reader w s)) reader = Some w' \<Longrightarrow>
    ostep late s (setCaller c (Some (ProbeWorker w')) (workerFor reader w s))"
| probe_full: "wd_callers s c = Some (ProbeWorker w) \<Longrightarrow> wd_workers s w = Some rw \<Longrightarrow> \<not> admits rw \<Longrightarrow>
    ostep late s (setCaller c None s)"
| probe_push: "wd_callers s c = Some (ProbeWorker w) \<Longrightarrow> wd_workers s w = Some rw \<Longrightarrow> admits rw \<Longrightarrow> late \<or> \<not> rw_stop rw \<Longrightarrow>
    ostep late s (setCaller c None (setWorker w (Some (pushOp (wd_nextRef s) rw)) (newOp 0 s)))"
| signal: "om_workers (wd_om s) reader = Some w \<Longrightarrow> wd_workers s w = Some rw \<Longrightarrow> f = requestInvalidate \<or> f = requestHold h \<Longrightarrow>
    ostep late s (setWorker w (Some (f rw)) s)"
| loop_pass: "wd_loops s w = Some LoopIdle \<Longrightarrow> wd_workers s w = Some rw \<Longrightarrow> loopIteration rw = (act, rw') \<Longrightarrow>
    ostep late s (setLoop w (Some (loopAfter act)) (setWorker w (Some rw') s))"
| loop_ran: "wd_loops s w = Some (LoopRunning r) \<Longrightarrow> wd_workers s w = Some rw \<Longrightarrow>
    ostep late s (setLoop w (Some (LoopRan r)) (setWorker w (Some (clearInFlight rw)) s))"
| loop_abandoned: "wd_loops s w = Some (LoopRan r) \<Longrightarrow> wd_workers s w = Some rw \<Longrightarrow> rw_abandoned rw \<Longrightarrow>
    ostep late s (setLoop w (Some LoopExited) (deleteOps [r] s))"
| loop_finished: "wd_loops s w = Some (LoopRan r) \<Longrightarrow> wd_workers s w = Some rw \<Longrightarrow> \<not> rw_abandoned rw \<Longrightarrow>
    ostep late s (setLoop w (Some LoopIdle) (onManager (finishOp r now) s))"
| loop_drain: "wd_loops s w = Some LoopStopping \<Longrightarrow> wd_workers s w = Some rw \<Longrightarrow>
    ostep late s (setLoop w (Some (LoopDrain (Scrub (rw_queue rw) None (rw_queue rw)))) (setWorker w (Some (takeQueue rw)) s))"
| loop_scrub: "wd_loops s w = Some (LoopDrain sc) \<Longrightarrow> scrubStep s sc s' sc' \<Longrightarrow>
    ostep late s (setLoop w (Some (LoopDrain sc')) s')"
| loop_exit: "wd_loops s w = Some (LoopDrain (Scrub [] None doomed)) \<Longrightarrow>
    ostep late s (setLoop w (Some LoopExited) (deleteOps doomed s))"
| remove: "wd_callers s c = None \<Longrightarrow> om_workers (wd_om s) reader = Some w \<Longrightarrow>
    ostep late s (setCaller c (Some (RemTaken w)) (onManager (\<lambda>m. m\<lparr>om_workers := (om_workers m)(reader := None)\<rparr>) s))"
| remove_stop: "wd_callers s c = Some (RemTaken w) \<Longrightarrow> wd_workers s w = Some rw \<Longrightarrow>
    ostep late s (setCaller c (Some (RemStopped w)) (setWorker w (Some (rw\<lparr>rw_stop := True\<rparr>)) s))"
| remove_drain: "wd_callers s c = Some (RemStopped w) \<Longrightarrow> wd_workers s w = Some rw \<Longrightarrow>
    ostep late s (setCaller c (Some (RemScrub w (rw_inFlight rw) (Scrub (rw_queue rw) None (rw_queue rw))))
      (setWorker w (Some (takeQueue rw)) s))"
| remove_scrub: "wd_callers s c = Some (RemScrub w f sc) \<Longrightarrow> scrubStep s sc s' sc' \<Longrightarrow>
    ostep late s (setCaller c (Some (RemScrub w f sc')) s')"
| remove_delete: "wd_callers s c = Some (RemScrub w f (Scrub [] None doomed)) \<Longrightarrow>
    ostep late s (setCaller c (Some (RemGrace w f)) (deleteOps doomed s))"
| remove_join: "wd_callers s c = Some (RemGrace w f) \<Longrightarrow> wd_workers s w = Some rw \<Longrightarrow> f = None \<or> rw_inFlight rw = None \<Longrightarrow>
    ostep late s (setCaller c None s)"
| remove_abandon: "wd_callers s c = Some (RemGrace w (Some r)) \<Longrightarrow> wd_workers s w = Some rw \<Longrightarrow> rw_inFlight rw \<noteq> None \<Longrightarrow>
    ostep late s (setCaller c (Some (RemAbandon w r)) s)"
| abandon_path: "wd_callers s c = Some (RemAbandon w r) \<Longrightarrow>
    ostep late s (setCaller c (Some (RemForgot w r False)) (onManager (forgetPath (wd_opId s r)) s))"
| abandon_senders: "wd_callers s c = Some (RemForgot w r False) \<Longrightarrow>
    ostep late s (setCaller c (Some (RemForgot w r True)) (onManager (forgetSenders (wd_opId s r)) s))"
| abandon: "wd_callers s c = Some (RemForgot w r True) \<Longrightarrow> wd_workers s w = Some rw \<Longrightarrow>
    ostep late s (setCaller c None (setWorker w (Some (rw\<lparr>rw_abandoned := True\<rparr>))
      (onManager (\<lambda>m. m\<lparr>om_zombies := om_zombies m @ [w]\<rparr>) s)))"
| expire: "wd_callers s c = None \<Longrightarrow> takeExpired now grace (wd_om s) = (rs, m) \<Longrightarrow>
    ostep late s (setCaller c (Some (Sweeping (Scrub rs None rs))) (s\<lparr>wd_om := m\<rparr>))"
| expire_scrub: "wd_callers s c = Some (Sweeping sc) \<Longrightarrow> scrubStep s sc s' sc' \<Longrightarrow>
    ostep late s (setCaller c (Some (Sweeping sc')) s')"
| expire_delete: "wd_callers s c = Some (Sweeping (Scrub [] None doomed)) \<Longrightarrow>
    ostep late s (setCaller c None (deleteOps doomed s))"
| disconnect: "takeSenderOps client (wd_om s) = (ids, m) \<Longrightarrow> ostep late s (s\<lparr>wd_om := m\<rparr>)"
| destroy: "wd_workers s w = Some rw \<Longrightarrow> \<forall>reader. om_workers (wd_om s) reader \<noteq> Some w \<Longrightarrow> w \<notin> set (om_zombies (wd_om s)) \<Longrightarrow>
    \<forall>c x. wd_callers s c = Some x \<longrightarrow> callerWorker x \<noteq> Some w \<Longrightarrow> wd_loops s w = Some LoopExited \<Longrightarrow>
    ostep late s (setWorker w None (deleteOps (rw_queue rw) s))"

definition managerInit :: World where
  "managerInit =
     \<lparr> wd_om = \<lparr> om_counter = 0, om_workers = Map.empty, om_zombies = [], om_byId = Map.empty, om_finished = [],
                 om_senderToOps = Map.empty, om_opToSender = Map.empty \<rparr>,
       wd_workers = Map.empty, wd_loops = Map.empty, wd_callers = Map.empty, wd_opId = (\<lambda>_. 0), wd_live = {}, wd_nextRef = 0 \<rparr>"

inductive oreach :: "bool \<Rightarrow> nat \<Rightarrow> World \<Rightarrow> bool" for late :: bool where
  init: "oreach late 0 managerInit"
| step: "oreach late n s \<Longrightarrow> ostep late s s' \<Longrightarrow> oreach late (Suc n) s'"

end
