(* ===== verification/OperationShape.thy ===== *)
theory OperationShape
  imports Operations
begin

text \<open>
  How the workers of the scheduler, their loops and the callers fit together in every run in which no
  operation is pushed on a worker that was told to stop: a worker has a loop and is in flight exactly while
  the loop runs an operation, and what stopped has an empty queue.
\<close>

section \<open>Workers, loops and callers fit together\<close>

lemmas world_defs = setCaller_def setLoop_def setWorker_def onManager_def deleteOps_def newOp_def

lemma scrubStep_facts:
  assumes "scrubStep s sc s' sc'"
  shows "wd_workers s' = wd_workers s" "wd_loops s' = wd_loops s" "wd_callers s' = wd_callers s" "wd_opId s' = wd_opId s"
    "wd_live s' = wd_live s" "wd_nextRef s' = wd_nextRef s" "om_workers (wd_om s') = om_workers (wd_om s)"
    "om_finished (wd_om s') = om_finished (wd_om s)" "om_zombies (wd_om s') = om_zombies (wd_om s)"
    "om_counter (wd_om s') = om_counter (wd_om s)"
  using assms by (auto elim!: scrubStep.cases simp: onManager_def forgetPath_def forgetSenders_def split: option.splits)

lemma workerFor_cases:
  obtains w' where "om_workers (wd_om s) reader = Some w'" "workerFor reader w s = s"
  | "om_workers (wd_om s) reader = None"
    "workerFor reader w s = setWorker w (Some freshWorker) (setLoop w (Some LoopIdle)
       (onManager (\<lambda>m. m\<lparr>om_workers := (om_workers m)(reader \<mapsto> w)\<rparr>) s))"
  by (cases "om_workers (wd_om s) reader") (auto simp: workerFor_def)

fun pastDrain :: "ManagerCaller \<Rightarrow> WorkerRef option" where
  "pastDrain (RemScrub w f sc) = Some w"
| "pastDrain (RemGrace w f) = Some w"
| "pastDrain (RemAbandon w r) = Some w"
| "pastDrain (RemForgot w r b) = Some w"
| "pastDrain _ = None"

fun pastStop :: "ManagerCaller \<Rightarrow> WorkerRef option" where
  "pastStop (RemStopped w) = Some w"
| "pastStop x = pastDrain x"

fun stoppedLoop :: "Loop \<Rightarrow> bool" where
  "stoppedLoop LoopStopping = True"
| "stoppedLoop (LoopDrain sc) = True"
| "stoppedLoop LoopExited = True"
| "stoppedLoop _ = False"

fun drainedLoop :: "Loop \<Rightarrow> bool" where
  "drainedLoop (LoopDrain sc) = True"
| "drainedLoop LoopExited = True"
| "drainedLoop _ = False"

text \<open>What is known of one worker, given its loop.\<close>

definition workerOk :: "ReaderWorker \<Rightarrow> Loop \<Rightarrow> bool" where
  "workerOk rw l =
     ((\<forall>r. rw_inFlight rw = Some r \<longleftrightarrow> l = LoopRunning r)
      \<and> (stoppedLoop l \<longrightarrow> rw_stop rw) \<and> (drainedLoop l \<longrightarrow> rw_queue rw = [])
      \<and> (rw_abandoned rw \<longrightarrow> rw_stop rw \<and> rw_queue rw = []))"

definition shapeInv :: "World \<Rightarrow> bool" where
  "shapeInv s =
     ((\<forall>w rw. wd_workers s w = Some rw \<longrightarrow> (\<exists>l. wd_loops s w = Some l \<and> workerOk rw l))
      \<and> (\<forall>reader w. om_workers (wd_om s) reader = Some w \<longrightarrow> wd_workers s w \<noteq> None)
      \<and> (\<forall>c x w. wd_callers s c = Some x \<longrightarrow> callerWorker x = Some w \<longrightarrow> wd_workers s w \<noteq> None)
      \<and> (\<forall>c x w rw. wd_callers s c = Some x \<longrightarrow> wd_workers s w = Some rw \<longrightarrow>
            (pastStop x = Some w \<longrightarrow> rw_stop rw) \<and> (pastDrain x = Some w \<longrightarrow> rw_queue rw = [])))"

lemma shapeInvI:
  assumes "\<And>w rw. wd_workers s w = Some rw \<Longrightarrow> \<exists>l. wd_loops s w = Some l \<and> workerOk rw l"
    "\<And>reader w. om_workers (wd_om s) reader = Some w \<Longrightarrow> wd_workers s w \<noteq> None"
    "\<And>c x w. wd_callers s c = Some x \<Longrightarrow> callerWorker x = Some w \<Longrightarrow> wd_workers s w \<noteq> None"
    "\<And>c x w rw. wd_callers s c = Some x \<Longrightarrow> wd_workers s w = Some rw \<Longrightarrow> pastStop x = Some w \<Longrightarrow> rw_stop rw"
    "\<And>c x w rw. wd_callers s c = Some x \<Longrightarrow> wd_workers s w = Some rw \<Longrightarrow> pastDrain x = Some w \<Longrightarrow> rw_queue rw = []"
  shows "shapeInv s"
  using assms unfolding shapeInv_def by blast

lemma shapeInvD:
  assumes "shapeInv s"
  shows "wd_workers s w = Some rw \<Longrightarrow> \<exists>l. wd_loops s w = Some l \<and> workerOk rw l"
    "om_workers (wd_om s) reader = Some w \<Longrightarrow> wd_workers s w \<noteq> None"
    "wd_callers s c = Some x \<Longrightarrow> callerWorker x = Some w \<Longrightarrow> wd_workers s w \<noteq> None"
    "wd_callers s c = Some x \<Longrightarrow> wd_workers s w = Some rw \<Longrightarrow> pastStop x = Some w \<Longrightarrow> rw_stop rw"
    "wd_callers s c = Some x \<Longrightarrow> wd_workers s w = Some rw \<Longrightarrow> pastDrain x = Some w \<Longrightarrow> rw_queue rw = []"
  using assms unfolding shapeInv_def by blast+

lemma pastDrain_pastStop: "pastDrain x = Some w \<Longrightarrow> pastStop x = Some w"
  by (cases x) simp_all

lemma pastStop_callerWorker: "pastStop x = Some w \<Longrightarrow> callerWorker x = Some w"
  by (cases x) simp_all

text \<open>The ways the parts change.\<close>

lemma shape_setCaller:
  assumes "shapeInv s" "\<And>y w. x = Some y \<Longrightarrow> callerWorker y = Some w \<Longrightarrow> wd_workers s w \<noteq> None"
    "\<And>y w rw. x = Some y \<Longrightarrow> pastStop y = Some w \<Longrightarrow> wd_workers s w = Some rw \<Longrightarrow> rw_stop rw"
    "\<And>y w rw. x = Some y \<Longrightarrow> pastDrain y = Some w \<Longrightarrow> wd_workers s w = Some rw \<Longrightarrow> rw_queue rw = []"
  shows "shapeInv (setCaller c x s)"
proof (rule shapeInvI)
  show "\<exists>l. wd_loops (setCaller c x s) w = Some l \<and> workerOk rw l" if "wd_workers (setCaller c x s) w = Some rw" for w rw
    using that shapeInvD(1) [OF assms(1)] by (simp add: world_defs)
  show "wd_workers (setCaller c x s) w \<noteq> None" if "om_workers (wd_om (setCaller c x s)) reader = Some w" for reader w
    using that shapeInvD(2) [OF assms(1)] by (simp add: world_defs)
  show "wd_workers (setCaller c x s) w \<noteq> None" if "wd_callers (setCaller c x s) c' = Some y" "callerWorker y = Some w" for c' y w
    using that shapeInvD(3) [OF assms(1), of c' y w] assms(2) [of y w] by (simp add: world_defs split: if_splits)
  show "rw_stop rw" if "wd_callers (setCaller c x s) c' = Some y" "wd_workers (setCaller c x s) w = Some rw" "pastStop y = Some w" for c' y w rw
    using that shapeInvD(4) [OF assms(1), of c' y w rw] assms(3) [of y w rw] by (simp add: world_defs split: if_splits)
  show "rw_queue rw = []" if "wd_callers (setCaller c x s) c' = Some y" "wd_workers (setCaller c x s) w = Some rw" "pastDrain y = Some w" for c' y w rw
    using that shapeInvD(5) [OF assms(1), of c' y w rw] assms(4) [of y w rw] by (simp add: world_defs split: if_splits)
qed

lemma shape_caller:
  assumes "shapeInv s" "\<forall>w. callerWorker y = Some w \<longrightarrow> wd_workers s w \<noteq> None"
    "\<forall>w rw. pastStop y = Some w \<longrightarrow> wd_workers s w = Some rw \<longrightarrow> rw_stop rw"
    "\<forall>w rw. pastDrain y = Some w \<longrightarrow> wd_workers s w = Some rw \<longrightarrow> rw_queue rw = []"
  shows "shapeInv (setCaller c (Some y) s)"
  by (rule shape_setCaller [OF assms(1)]) (use assms(2-4) in auto)

lemma shape_caller_none: "shapeInv s \<Longrightarrow> shapeInv (setCaller c None s)"
  by (rule shape_setCaller) simp_all

lemma shape_worker:
  assumes inv: "shapeInv s" and w: "wd_workers s w = Some rw" and l: "workerOk rw' l"
    and st: "rw_stop rw \<longrightarrow> rw_stop rw'" and q: "rw_queue rw = [] \<longrightarrow> rw_stop rw \<longrightarrow> rw_queue rw' = []"
  shows "shapeInv (setLoop w (Some l) (setWorker w (Some rw') s))"
proof (rule shapeInvI)
  let ?s = "setLoop w (Some l) (setWorker w (Some rw') s)"
  show "\<exists>l. wd_loops ?s w1 = Some l \<and> workerOk rw1 l" if "wd_workers ?s w1 = Some rw1" for w1 rw1
    using that l shapeInvD(1) [OF inv, of w1 rw1] by (auto simp: world_defs split: if_splits)
  show "wd_workers ?s w1 \<noteq> None" if "om_workers (wd_om ?s) reader = Some w1" for reader w1
    using that shapeInvD(2) [OF inv] by (simp add: world_defs)
  show "wd_workers ?s w1 \<noteq> None" if "wd_callers ?s c = Some x" "callerWorker x = Some w1" for c x w1
    using that shapeInvD(3) [OF inv, of c x w1] by (simp add: world_defs)
  show stop: "rw_stop rw1" if "wd_callers ?s c = Some x" "wd_workers ?s w1 = Some rw1" "pastStop x = Some w1" for c x w1 rw1
    using that w st shapeInvD(4) [OF inv, of c x w1] by (auto simp: world_defs split: if_splits)
  show "rw_queue rw1 = []" if "wd_callers ?s c = Some x" "wd_workers ?s w1 = Some rw1" "pastDrain x = Some w1" for c x w1 rw1
    using that w q shapeInvD(4) [OF inv, of c x w1] pastDrain_pastStop [of x w1] shapeInvD(5) [OF inv, of c x w1]
    by (auto simp: world_defs split: if_splits)
qed

lemma shape_same:
  assumes "shapeInv s" "wd_workers s' = wd_workers s" "wd_loops s' = wd_loops s" "wd_callers s' = wd_callers s"
    "\<forall>reader w. om_workers (wd_om s') reader = Some w \<longrightarrow> om_workers (wd_om s) reader = Some w"
  shows "shapeInv s'"
  using assms(1) shapeInvD(2) [OF assms(1)] assms(5) unfolding shapeInv_def assms(2-4) by blast

lemma shape_loop:
  assumes "shapeInv s" "\<And>rw. wd_workers s w = Some rw \<Longrightarrow> workerOk rw l"
  shows "shapeInv (setLoop w (Some l) s)"
  using assms unfolding shapeInv_def by (auto simp: setLoop_def)

lemma shape_worker_only:
  assumes inv: "shapeInv s" and w: "wd_workers s w = Some rw" and l: "\<And>l. workerOk rw l \<Longrightarrow> workerOk rw' l"
    and st: "rw_stop rw \<longrightarrow> rw_stop rw'" and q: "rw_queue rw = [] \<longrightarrow> rw_stop rw \<longrightarrow> rw_queue rw' = []"
  shows "shapeInv (setWorker w (Some rw') s)"
proof -
  obtain l0 where l0: "wd_loops s w = Some l0" "workerOk rw l0" using shapeInvD(1) [OF inv w] by blast
  have "setLoop w (Some l0) (setWorker w (Some rw') s) = setWorker w (Some rw') s"
    using l0(1) by (simp add: world_defs fun_upd_idem)
  then show ?thesis using shape_worker [OF inv w l [OF l0(2)] st q] by simp
qed

lemma shape_workerFor:
  assumes inv: "shapeInv s" and fresh: "wd_loops s w = None" "wd_workers s w = None"
  shows "shapeInv (workerFor reader w s)"
proof (cases rule: workerFor_cases [of s reader w])
  case (1 w')
  then show ?thesis using inv by simp
next
  case 2
  let ?s = "workerFor reader w s"
  have upd: "wd_workers ?s = (wd_workers s)(w \<mapsto> freshWorker)" "wd_loops ?s = (wd_loops s)(w \<mapsto> LoopIdle)"
    "wd_callers ?s = wd_callers s" "om_workers (wd_om ?s) = (om_workers (wd_om s))(reader \<mapsto> w)"
    using 2 by (simp_all add: world_defs)
  have ok: "workerOk freshWorker LoopIdle" by (simp add: workerOk_def freshWorker_def)
  show ?thesis
  proof (rule shapeInvI)
    show "\<exists>l. wd_loops ?s w1 = Some l \<and> workerOk rw l" if "wd_workers ?s w1 = Some rw" for w1 rw
      using that ok shapeInvD(1) [OF inv, of w1 rw] by (auto simp: upd split: if_splits)
    show "wd_workers ?s w1 \<noteq> None" if "om_workers (wd_om ?s) reader' = Some w1" for reader' w1
      using that shapeInvD(2) [OF inv, of reader' w1] by (auto simp: upd split: if_splits)
    show "wd_workers ?s w1 \<noteq> None" if "wd_callers ?s c = Some x" "callerWorker x = Some w1" for c x w1
      using that shapeInvD(3) [OF inv, of c x w1] by (simp add: upd)
    have no: "pastStop x \<noteq> Some w" if "wd_callers ?s c = Some x" for c x
      using that shapeInvD(3) [OF inv, of c x w] pastStop_callerWorker [of x w] fresh(2) by (auto simp: upd)
    show "rw_stop rw" if "wd_callers ?s c = Some x" "wd_workers ?s w1 = Some rw" "pastStop x = Some w1" for c x w1 rw
      using that no [OF that(1)] shapeInvD(4) [OF inv, of c x w1 rw] by (auto simp: upd split: if_splits)
    show "rw_queue rw = []" if "wd_callers ?s c = Some x" "wd_workers ?s w1 = Some rw" "pastDrain x = Some w1" for c x w1 rw
      using that no [OF that(1)] pastDrain_pastStop [OF that(3)] shapeInvD(5) [OF inv, of c x w1 rw]
      by (auto simp: upd split: if_splits)
  qed
qed

lemma shape_destroy:
  assumes inv: "shapeInv s" and "\<forall>reader. om_workers (wd_om s) reader \<noteq> Some w"
    "\<forall>c x. wd_callers s c = Some x \<longrightarrow> callerWorker x \<noteq> Some w"
  shows "shapeInv (setWorker w None s)"
proof (rule shapeInvI)
  let ?s = "setWorker w None s"
  show "\<exists>l. wd_loops ?s w1 = Some l \<and> workerOk rw l" if "wd_workers ?s w1 = Some rw" for w1 rw
    using that shapeInvD(1) [OF inv, of w1 rw] by (auto simp: world_defs split: if_splits)
  show "wd_workers ?s w1 \<noteq> None" if "om_workers (wd_om ?s) reader = Some w1" for reader w1
    using that assms(2) shapeInvD(2) [OF inv, of reader w1] by (auto simp: world_defs)
  show "wd_workers ?s w1 \<noteq> None" if "wd_callers ?s c = Some x" "callerWorker x = Some w1" for c x w1
    using that assms(3) shapeInvD(3) [OF inv, of c x w1] by (auto simp: world_defs)
  show "rw_stop rw" if "wd_callers ?s c = Some x" "wd_workers ?s w1 = Some rw" "pastStop x = Some w1" for c x w1 rw
    using that shapeInvD(4) [OF inv, of c x w1 rw] by (auto simp: world_defs split: if_splits)
  show "rw_queue rw = []" if "wd_callers ?s c = Some x" "wd_workers ?s w1 = Some rw" "pastDrain x = Some w1" for c x w1 rw
    using that shapeInvD(5) [OF inv, of c x w1 rw] by (auto simp: world_defs split: if_splits)
qed

lemma loopIteration_ok:
  assumes "workerOk rw LoopIdle" "loopIteration rw = (act, rw')"
  shows "workerOk rw' (loopAfter act)" "rw_stop rw' = rw_stop rw" "rw_stop rw \<Longrightarrow> rw' = rw" "rw_abandoned rw' = rw_abandoned rw"
  using assms by (auto simp: loopIteration_def workerOk_def waitCondition_def split: if_splits)

lemma shape_manager: "shapeInv s \<Longrightarrow> om_workers (f (wd_om s)) = om_workers (wd_om s) \<Longrightarrow> shapeInv (onManager f s)"
  by (erule shape_same) (auto simp: onManager_def)

lemma shape_remover:
  assumes "shapeInv s" "wd_callers s c = Some x" "pastDrain x = Some w"
  obtains rw where "wd_workers s w = Some rw" "rw_stop rw" "rw_queue rw = []"
proof -
  have st: "pastStop x = Some w" using pastDrain_pastStop [OF assms(3)] .
  obtain rw where rw: "wd_workers s w = Some rw" using shapeInvD(3) [OF assms(1,2) pastStop_callerWorker [OF st]] by blast
  show thesis by (rule that [OF rw shapeInvD(4) [OF assms(1,2) rw st] shapeInvD(5) [OF assms(1,2) rw assms(3)]])
qed

lemma shape_ops [intro]:
  assumes "shapeInv s"
  shows "shapeInv (deleteOps rs s)" "shapeInv (newOp i s)" "shapeInv (s\<lparr>wd_opId := f\<rparr>)"
    "scrubStep s sc s1 sc1 \<Longrightarrow> shapeInv s1"
  by (rule shape_same [OF assms]; simp add: world_defs scrubStep_facts)+

lemma manager_workers [simp]:
  "om_workers (recordSender i c m) = om_workers m" "om_workers (trackOp i r m) = om_workers m"
  "om_workers (forgetPath i m) = om_workers m" "om_workers (forgetSenders i m) = om_workers m"
  "om_workers (finishOp r t m) = om_workers m"
  by (simp_all add: recordSender_def trackOp_def forgetPath_def forgetSenders_def finishOp_def split: option.splits)

lemma setters [simp]:
  "wd_workers (setCaller c x s) = wd_workers s" "wd_loops (setCaller c x s) = wd_loops s"
  "wd_callers (setCaller c x s) = (wd_callers s)(c := x)" "wd_om (setCaller c x s) = wd_om s"
  "wd_workers (setLoop w l s) = wd_workers s" "wd_loops (setLoop w l s) = (wd_loops s)(w := l)"
  "wd_callers (setLoop w l s) = wd_callers s" "wd_om (setLoop w l s) = wd_om s"
  "wd_workers (setWorker w rw s) = (wd_workers s)(w := rw)" "wd_loops (setWorker w rw s) = wd_loops s"
  "wd_callers (setWorker w rw s) = wd_callers s" "wd_om (setWorker w rw s) = wd_om s"
  "wd_workers (onManager f s) = wd_workers s" "wd_loops (onManager f s) = wd_loops s"
  "wd_callers (onManager f s) = wd_callers s" "wd_om (onManager f s) = f (wd_om s)"
  "wd_workers (deleteOps rs s) = wd_workers s" "wd_loops (deleteOps rs s) = wd_loops s"
  "wd_callers (deleteOps rs s) = wd_callers s" "wd_om (deleteOps rs s) = wd_om s"
  "wd_workers (newOp i s) = wd_workers s" "wd_loops (newOp i s) = wd_loops s"
  "wd_callers (newOp i s) = wd_callers s" "wd_om (newOp i s) = wd_om s"
  by (simp_all add: world_defs)

lemma workerOk_push: "\<not> rw_stop rw \<Longrightarrow> workerOk rw l \<Longrightarrow> workerOk (pushOp r rw) l"
  by (cases l) (auto simp: workerOk_def pushOp_def)

lemma shape_push:
  assumes "shapeInv s" "wd_workers s w = Some rw" "\<not> rw_stop rw"
  shows "shapeInv (setWorker w (Some (pushOp r rw)) s)"
proof (rule shape_worker_only [OF assms(1,2)])
  show "workerOk (pushOp r rw) l" if "workerOk rw l" for l by (rule workerOk_push [OF assms(3) that])
qed (use assms(3) in \<open>simp_all add: pushOp_def\<close>)

lemma shape_step:
  assumes inv: "shapeInv s" and st: "ostep False s s'"
  shows "shapeInv s'"
  using st
proof cases
  case (publish c i m reader caller)
  have "om_workers m = om_workers (wd_om s)" using publish(3) by (auto simp: nextOperationId_def)
  then have "shapeInv (s\<lparr>wd_om := m\<rparr>)" by (intro shape_same [OF inv]) simp_all
  then show ?thesis unfolding publish(1) by (rule shape_caller) simp_all
next
  case (publish_worker c reader caller i w w')
  have *: "shapeInv (workerFor reader w s)" by (rule shape_workerFor [OF inv publish_worker(3,4)])
  show ?thesis unfolding publish_worker(1)
    by (rule shape_caller [OF *]) (use shapeInvD(2) [OF * publish_worker(5)] in simp_all)
next
  case (publish_full c w caller i rw)
  then show ?thesis using shape_caller_none [OF inv] by simp
next
  case (publish_admit c w caller i rw)
  show ?thesis unfolding publish_admit(1) by (rule shape_caller [OF inv]) (simp_all add: publish_admit(3))
next
  case (publish_make c w caller i)
  have "wd_workers s w \<noteq> None" using shapeInvD(3) [OF inv publish_make(2)] by simp
  then show ?thesis unfolding publish_make(1) by (intro shape_caller [OF shape_ops(2) [OF inv]]) simp_all
next
  case (publish_record c w caller i r)
  have "wd_workers s w \<noteq> None" using shapeInvD(3) [OF inv publish_record(2)] by simp
  then show ?thesis unfolding publish_record(1) by (intro shape_caller shape_manager inv) simp_all
next
  case (publish_track c w i r)
  have "wd_workers s w \<noteq> None" using shapeInvD(3) [OF inv publish_track(2)] by simp
  then show ?thesis unfolding publish_track(1)
    by (intro shape_caller [OF shape_manager [OF shape_ops(3) [OF inv]]]) simp_all
next
  case (publish_push c w r rw)
  show ?thesis unfolding publish_push(1)
    by (rule shape_caller [OF shape_push [OF inv publish_push(3)]]) (use publish_push(4) in simp_all)
next
  case (publish_return c w)
  then show ?thesis using shape_caller_none [OF inv] by simp
next
  case (probe c reader)
  show ?thesis unfolding probe(1) by (rule shape_caller [OF inv]) simp_all
next
  case (probe_worker c reader w w')
  have *: "shapeInv (workerFor reader w s)" by (rule shape_workerFor [OF inv probe_worker(3,4)])
  show ?thesis unfolding probe_worker(1)
    by (rule shape_caller [OF *]) (use shapeInvD(2) [OF * probe_worker(5)] in simp_all)
next
  case (probe_full c w rw)
  then show ?thesis using shape_caller_none [OF inv] by simp
next
  case (probe_push c w rw)
  have "shapeInv (setWorker w (Some (pushOp (wd_nextRef s) rw)) (newOp 0 s))"
    by (rule shape_push [OF shape_ops(2) [OF inv]]) (use probe_push(3,5) in simp_all)
  then show ?thesis unfolding probe_push(1) by (rule shape_caller_none)
next
  case (signal reader w rw f h)
  have same: "rw_queue (f rw) = rw_queue rw" "rw_inFlight (f rw) = rw_inFlight rw" "rw_stop (f rw) = rw_stop rw"
    "rw_abandoned (f rw) = rw_abandoned rw"
    using signal(4) by (auto simp: requestInvalidate_def requestHold_def)
  show ?thesis unfolding signal(1)
    by (rule shape_worker_only [OF inv signal(3)]) (auto simp: same workerOk_def)
next
  case (loop_pass w rw act rw')
  have ok: "workerOk rw LoopIdle" using shapeInvD(1) [OF inv loop_pass(3)] loop_pass(2) by simp
  show ?thesis unfolding loop_pass(1)
    by (rule shape_worker [OF inv loop_pass(3)]) (use loopIteration_ok [OF ok loop_pass(4)] in simp_all)
next
  case (loop_ran w r rw)
  have ok: "workerOk rw (LoopRunning r)" using shapeInvD(1) [OF inv loop_ran(3)] loop_ran(2) by simp
  show ?thesis unfolding loop_ran(1)
    by (rule shape_worker [OF inv loop_ran(3)]) (use ok in \<open>auto simp: workerOk_def clearInFlight_def\<close>)
next
  case (loop_abandoned w r rw)
  have ok: "workerOk rw (LoopRan r)" using shapeInvD(1) [OF inv loop_abandoned(3)] loop_abandoned(2) by simp
  show ?thesis unfolding loop_abandoned(1)
    by (rule shape_loop [OF shape_ops(1) [OF inv]]) (use ok loop_abandoned(3,4) in \<open>auto simp: workerOk_def\<close>)
next
  case (loop_finished w r rw now)
  have ok: "workerOk rw (LoopRan r)" using shapeInvD(1) [OF inv loop_finished(3)] loop_finished(2) by simp
  have *: "shapeInv (onManager (finishOp r now) s)" by (rule shape_manager [OF inv]) simp
  show ?thesis unfolding loop_finished(1)
    by (rule shape_loop [OF *]) (use ok loop_finished(3,4) in \<open>auto simp: workerOk_def\<close>)
next
  case (loop_drain w rw)
  have ok: "workerOk rw LoopStopping" using shapeInvD(1) [OF inv loop_drain(3)] loop_drain(2) by simp
  show ?thesis unfolding loop_drain(1)
    by (rule shape_worker [OF inv loop_drain(3)]) (use ok in \<open>auto simp: workerOk_def takeQueue_def\<close>)
next
  case (loop_scrub w sc s1 sc1)
  have ok: "workerOk rw (LoopDrain sc1)" if "wd_workers s w = Some rw" for rw
    using shapeInvD(1) [OF inv that] loop_scrub(2) by (auto simp: workerOk_def)
  have *: "shapeInv s1" by (rule shape_ops(4) [OF inv loop_scrub(3)])
  show ?thesis unfolding loop_scrub(1)
    by (rule shape_loop [OF *]) (simp add: ok scrubStep_facts [OF loop_scrub(3)])
next
  case (loop_exit w doomed)
  have ok: "workerOk rw LoopExited" if "wd_workers s w = Some rw" for rw
    using shapeInvD(1) [OF inv that] loop_exit(2) by (auto simp: workerOk_def)
  show ?thesis unfolding loop_exit(1)
    by (rule shape_loop [OF shape_ops(1) [OF inv]]) (simp add: ok)
next
  case (remove c reader w)
  have *: "shapeInv (onManager (\<lambda>m. m\<lparr>om_workers := (om_workers m)(reader := None)\<rparr>) s)"
    by (rule shape_same [OF inv]) simp_all
  show ?thesis unfolding remove(1) by (rule shape_caller [OF *]) (use shapeInvD(2) [OF inv remove(3)] in \<open>simp_all\<close>)
next
  case (remove_stop c w rw)
  have *: "shapeInv (setWorker w (Some (rw\<lparr>rw_stop := True\<rparr>)) s)"
    by (rule shape_worker_only [OF inv remove_stop(3)]) (auto simp: workerOk_def)
  show ?thesis unfolding remove_stop(1) by (rule shape_caller [OF *]) simp_all
next
  case (remove_drain c w rw)
  have *: "shapeInv (setWorker w (Some (takeQueue rw)) s)"
    by (rule shape_worker_only [OF inv remove_drain(3)]) (auto simp: workerOk_def takeQueue_def)
  show ?thesis unfolding remove_drain(1)
    by (rule shape_caller [OF *]) (use shapeInvD(4) [OF inv remove_drain(2,3)] in \<open>simp_all add: takeQueue_def fun_upd_same\<close>)
next
  case (remove_scrub c w f sc s1 sc1)
  obtain rw0 where d: "wd_workers s w = Some rw0" "rw_stop rw0" "rw_queue rw0 = []"
    by (rule shape_remover [OF inv remove_scrub(2)]) simp_all
  show ?thesis unfolding remove_scrub(1)
    by (rule shape_caller [OF shape_ops(4) [OF inv remove_scrub(3)]]) (simp_all add: d scrubStep_facts [OF remove_scrub(3)])
next
  case (remove_delete c w f doomed)
  obtain rw0 where d: "wd_workers s w = Some rw0" "rw_stop rw0" "rw_queue rw0 = []"
    by (rule shape_remover [OF inv remove_delete(2)]) simp_all
  show ?thesis unfolding remove_delete(1) by (rule shape_caller [OF shape_ops(1) [OF inv]]) (simp_all add: d)
next
  case (remove_join c w f rw)
  then show ?thesis using shape_caller_none [OF inv] by simp
next
  case (remove_abandon c w r rw)
  obtain rw0 where d: "wd_workers s w = Some rw0" "rw_stop rw0" "rw_queue rw0 = []"
    by (rule shape_remover [OF inv remove_abandon(2)]) simp_all
  show ?thesis unfolding remove_abandon(1) by (rule shape_caller [OF inv]) (simp_all add: d)
next
  case (abandon_path c w r)
  obtain rw0 where d: "wd_workers s w = Some rw0" "rw_stop rw0" "rw_queue rw0 = []"
    by (rule shape_remover [OF inv abandon_path(2)]) simp_all
  show ?thesis unfolding abandon_path(1) by (rule shape_caller [OF shape_manager [OF inv]]) (simp_all add: d)
next
  case (abandon_senders c w r)
  obtain rw0 where d: "wd_workers s w = Some rw0" "rw_stop rw0" "rw_queue rw0 = []"
    by (rule shape_remover [OF inv abandon_senders(2)]) simp_all
  show ?thesis unfolding abandon_senders(1) by (rule shape_caller [OF shape_manager [OF inv]]) (simp_all add: d)
next
  case (abandon c w r rw)
  let ?s = "onManager (\<lambda>m. m\<lparr>om_zombies := om_zombies m @ [w]\<rparr>) s"
  have *: "shapeInv ?s" by (rule shape_manager [OF inv]) simp
  have "shapeInv (setWorker w (Some (rw\<lparr>rw_abandoned := True\<rparr>)) ?s)"
    by (rule shape_worker_only [OF *])
      (use abandon(3) shapeInvD(4) [OF inv abandon(2,3)] shapeInvD(5) [OF inv abandon(2,3)] in \<open>auto simp: workerOk_def\<close>)
  then show ?thesis unfolding abandon(1) by (rule shape_caller_none)
next
  case (expire c now grace rs m)
  have "om_workers m = om_workers (wd_om s)" using expire(3) by (auto simp: takeExpired_def)
  then have "shapeInv (s\<lparr>wd_om := m\<rparr>)" by (intro shape_same [OF inv]) simp_all
  then show ?thesis unfolding expire(1) by (rule shape_caller) simp_all
next
  case (expire_scrub c sc s1 sc1)
  show ?thesis unfolding expire_scrub(1) by (rule shape_caller [OF shape_ops(4) [OF inv expire_scrub(3)]]) simp_all
next
  case (expire_delete c doomed)
  show ?thesis unfolding expire_delete(1) by (rule shape_caller_none [OF shape_ops(1) [OF inv]])
next
  case (disconnect client ids m)
  have "om_workers m = om_workers (wd_om s)" using disconnect(2) by (auto simp: takeSenderOps_def split: option.splits)
  then show ?thesis unfolding disconnect(1) by (intro shape_same [OF inv]) simp_all
next
  case (destroy w rw)
  have "shapeInv (deleteOps (rw_queue rw) s)" by (rule shape_ops(1) [OF inv])
  then show ?thesis unfolding destroy(1) by (rule shape_destroy) (use destroy(3,5) in simp_all)
qed

end
