(* ===== verification/OperationOwners.thy ===== *)
theory OperationOwners
  imports OperationShape
begin

text \<open>
  Who owns the operations of the scheduler: every step moves operations from one owner to another, makes one
  or deletes those of one owner, and the operation a teardown remembers is none that is being published.
\<close>

section \<open>Every operation has one owner\<close>

text \<open>The places that own operations: queues, the frame of a worker loop, the frames of callers, and the
  list of finished operations.\<close>

datatype Box = BQueue WorkerRef | BLoop WorkerRef | BCaller nat | BFinished

fun scrubOps :: "Scrub \<Rightarrow> OpRef list" where
  "scrubOps (Scrub todo pending doomed) = doomed"

fun callerOps :: "ManagerCaller \<Rightarrow> OpRef list" where
  "callerOps (PubMade w c i r) = [r]"
| "callerOps (PubRecorded w i r) = [r]"
| "callerOps (PubTracked w r) = [r]"
| "callerOps (RemScrub w f sc) = scrubOps sc"
| "callerOps (Sweeping sc) = scrubOps sc"
| "callerOps _ = []"

fun loopOps :: "Loop \<Rightarrow> OpRef list" where
  "loopOps (LoopRunning r) = [r]"
| "loopOps (LoopRan r) = [r]"
| "loopOps (LoopDrain sc) = scrubOps sc"
| "loopOps _ = []"

fun box :: "World \<Rightarrow> Box \<Rightarrow> OpRef list" where
  "box s (BQueue w) = (case wd_workers s w of None \<Rightarrow> [] | Some rw \<Rightarrow> rw_queue rw)"
| "box s (BLoop w) = (case wd_loops s w of None \<Rightarrow> [] | Some l \<Rightarrow> loopOps l)"
| "box s (BCaller c) = (case wd_callers s c of None \<Rightarrow> [] | Some x \<Rightarrow> callerOps x)"
| "box s BFinished = map fst (om_finished (wd_om s))"

lemma box_same:
  assumes "wd_workers s' = wd_workers s" "wd_loops s' = wd_loops s" "wd_callers s' = wd_callers s"
    "om_finished (wd_om s') = om_finished (wd_om s)"
  shows "box s' = box s"
proof
  show "box s' b = box s b" for b by (cases b) (simp_all add: assms)
qed

lemma box_set:
  "box (setCaller c x s) = (box s)(BCaller c := (case x of None \<Rightarrow> [] | Some y \<Rightarrow> callerOps y))"
  "box (setLoop w l s) = (box s)(BLoop w := (case l of None \<Rightarrow> [] | Some y \<Rightarrow> loopOps y))"
  "box (setWorker w rw s) = (box s)(BQueue w := (case rw of None \<Rightarrow> [] | Some y \<Rightarrow> rw_queue y))"
  "box (onManager f s) = (box s)(BFinished := map fst (om_finished (f (wd_om s))))"
  "box (s\<lparr>wd_om := m\<rparr>) = (box s)(BFinished := map fst (om_finished m))"
  "box (newOp i s) = box s" "box (deleteOps rs s) = box s" "box (s\<lparr>wd_opId := g\<rparr>) = box s"
proof -
  show "box (setCaller c x s) = (box s)(BCaller c := (case x of None \<Rightarrow> [] | Some y \<Rightarrow> callerOps y))"
    by (rule ext, rename_tac b, case_tac b) simp_all
  show "box (setLoop w l s) = (box s)(BLoop w := (case l of None \<Rightarrow> [] | Some y \<Rightarrow> loopOps y))"
    by (rule ext, rename_tac b, case_tac b) simp_all
  show "box (setWorker w rw s) = (box s)(BQueue w := (case rw of None \<Rightarrow> [] | Some y \<Rightarrow> rw_queue y))"
    by (rule ext, rename_tac b, case_tac b) simp_all
  show "box (onManager f s) = (box s)(BFinished := map fst (om_finished (f (wd_om s))))"
    by (rule ext, rename_tac b, case_tac b) simp_all
  show "box (s\<lparr>wd_om := m\<rparr>) = (box s)(BFinished := map fst (om_finished m))"
    by (rule ext, rename_tac b, case_tac b) simp_all
qed (rule box_same; simp)+

definition ownInv :: "(Box \<Rightarrow> OpRef list) \<Rightarrow> OpRef set \<Rightarrow> nat \<Rightarrow> bool" where
  "ownInv B live n =
     ((\<forall>b. distinct (B b)) \<and> (\<forall>b b' r. r \<in> set (B b) \<longrightarrow> r \<in> set (B b') \<longrightarrow> b = b')
      \<and> (\<forall>b. set (B b) \<subseteq> live) \<and> (\<forall>r \<in> live. r < n))"

lemma ownInvD:
  assumes "ownInv B live n"
  shows "distinct (B b)" "r \<in> set (B b) \<Longrightarrow> r \<in> set (B b') \<Longrightarrow> b = b'" "set (B b) \<subseteq> live" "r \<in> live \<Longrightarrow> r < n"
  using assms unfolding ownInv_def by blast+

text \<open>Ownership is kept, no operation loses its owner without being deleted, and a new one has an owner.\<close>

definition keepsOwned :: "(Box \<Rightarrow> OpRef list) \<Rightarrow> OpRef set \<Rightarrow> (Box \<Rightarrow> OpRef list) \<Rightarrow> OpRef set \<Rightarrow> nat \<Rightarrow> bool" where
  "keepsOwned B live B' live' n' =
     (ownInv B' live' n' \<and> (\<forall>r b. r \<in> live' \<longrightarrow> r \<in> set (B b) \<longrightarrow> (\<exists>b'. r \<in> set (B' b')))
      \<and> (\<forall>r \<in> live'. r \<in> live \<or> (\<exists>b'. r \<in> set (B' b'))))"

lemma own_same: "ownInv B live n \<Longrightarrow> keepsOwned B live B live n"
  by (auto simp: keepsOwned_def)

lemma own_new:
  assumes "ownInv B live n"
  shows "keepsOwned B live (B(b := B b @ [n])) (insert n live) (n + 1)"
proof -
  have "n \<notin> live" using ownInvD(4) [OF assms] by blast
  then have new: "n \<notin> set (B b')" for b' using ownInvD(3) [OF assms, of b'] by blast
  have "ownInv (B(b := B b @ [n])) (insert n live) (n + 1)"
    unfolding ownInv_def
  proof (intro conjI allI impI ballI)
    show "distinct ((B(b := B b @ [n])) b')" for b' using ownInvD(1) [OF assms] new by simp
    show "b1 = b2" if "r \<in> set ((B(b := B b @ [n])) b1)" "r \<in> set ((B(b := B b @ [n])) b2)" for b1 b2 r
      using that ownInvD(2) [OF assms, of r] new by (auto split: if_splits)
    show "set ((B(b := B b @ [n])) b') \<subseteq> insert n live" for b' using ownInvD(3) [OF assms] by auto
    show "r < n + 1" if "r \<in> insert n live" for r using that ownInvD(4) [OF assms] by (auto intro: less_SucI)
  qed
  moreover have "\<exists>b2. r \<in> set ((B(b := B b @ [n])) b2)" if "r \<in> set (B b1)" for r b1
    using that by (intro exI [of _ b1]) auto
  moreover have "n \<in> set ((B(b := B b @ [n])) b)" by simp
  ultimately show ?thesis unfolding keepsOwned_def by blast
qed

lemma own_move:
  assumes own: "ownInv B live n" and b: "b \<noteq> b'" and d: "distinct (xs @ ys)"
    and e: "set xs \<union> set ys = set (B b) \<union> set (B b')"
  shows "keepsOwned B live (B(b := xs, b' := ys)) live n"
proof -
  let ?B = "B(b := xs, b' := ys)"
  have in_new: "r \<in> set (?B b1) \<Longrightarrow> r \<in> set (B b) \<or> r \<in> set (B b') \<or> b1 \<noteq> b \<and> b1 \<noteq> b' \<and> r \<in> set (B b1)" for r b1
    using e by (auto split: if_splits)
  have "ownInv ?B live n"
    unfolding ownInv_def
  proof (intro conjI allI impI ballI)
    show "distinct (?B b1)" for b1 using d ownInvD(1) [OF own] by simp
    show "b1 = b2" if "r \<in> set (?B b1)" "r \<in> set (?B b2)" for b1 b2 r
    proof (cases "b1 \<in> {b, b'} \<and> b2 \<in> {b, b'}")
      case True
      then show ?thesis using that d b by auto
    next
      case False
      then show ?thesis using in_new [OF that(1)] in_new [OF that(2)] ownInvD(2) [OF own, of r] e that by (auto split: if_splits)
    qed
    show "set (?B b1) \<subseteq> live" for b1 using in_new [of _ b1] ownInvD(3) [OF own] by blast
    show "r < n" if "r \<in> live" for r using ownInvD(4) [OF own that] .
  qed
  moreover have "\<exists>b2. r \<in> set (?B b2)" if "r \<in> set (B b1)" for r b1
  proof (cases "b1 = b \<or> b1 = b'")
    case True
    then have "r \<in> set (?B b) \<or> r \<in> set (?B b')" using that e b by auto
    then show ?thesis by blast
  next
    case False
    then show ?thesis using that by (intro exI [of _ b1]) simp
  qed
  ultimately show ?thesis by (simp add: keepsOwned_def)
qed

lemma own_delete:
  assumes own: "ownInv B live n"
  shows "keepsOwned B live (B(b := [])) (live - set (B b)) n"
proof -
  have "ownInv (B(b := [])) (live - set (B b)) n"
    unfolding ownInv_def
  proof (intro conjI allI impI ballI)
    show "distinct ((B(b := [])) b1)" for b1 using ownInvD(1) [OF own] by simp
    show "b1 = b2" if "r \<in> set ((B(b := [])) b1)" "r \<in> set ((B(b := [])) b2)" for b1 b2 r
      using that ownInvD(2) [OF own, of r] by (auto split: if_splits)
    show "set ((B(b := [])) b1) \<subseteq> live - set (B b)" for b1
    proof (cases "b1 = b")
      case False
      then have "r \<notin> set (B b)" if "r \<in> set (B b1)" for r using that ownInvD(2) [OF own, of r b1 b] by blast
      then show ?thesis using False ownInvD(3) [OF own, of b1] by auto
    qed simp
    show "r < n" if "r \<in> live - set (B b)" for r using that ownInvD(4) [OF own] by blast
  qed
  then show ?thesis unfolding keepsOwned_def by (metis DiffD1 DiffD2 fun_upd_other)
qed

definition opsInv :: "World \<Rightarrow> bool" where
  "opsInv s = ownInv (box s) (wd_live s) (wd_nextRef s)"

definition opsKept :: "World \<Rightarrow> World \<Rightarrow> bool" where
  "opsKept s s' = keepsOwned (box s) (wd_live s) (box s') (wd_live s') (wd_nextRef s')"

lemma opsKept_inv: "opsKept s s' \<Longrightarrow> opsInv s'"
  by (simp add: opsKept_def keepsOwned_def opsInv_def)

lemma opsKept_same: "opsInv s \<Longrightarrow> box s' = box s \<Longrightarrow> wd_live s' = wd_live s \<Longrightarrow> wd_nextRef s' = wd_nextRef s \<Longrightarrow> opsKept s s'"
  by (simp add: opsKept_def opsInv_def own_same)

lemma heap_set [simp]:
  "wd_live (setCaller c x s) = wd_live s" "wd_nextRef (setCaller c x s) = wd_nextRef s" "wd_opId (setCaller c x s) = wd_opId s"
  "wd_live (setLoop w l s) = wd_live s" "wd_nextRef (setLoop w l s) = wd_nextRef s" "wd_opId (setLoop w l s) = wd_opId s"
  "wd_live (setWorker w rw s) = wd_live s" "wd_nextRef (setWorker w rw s) = wd_nextRef s" "wd_opId (setWorker w rw s) = wd_opId s"
  "wd_live (onManager f s) = wd_live s" "wd_nextRef (onManager f s) = wd_nextRef s" "wd_opId (onManager f s) = wd_opId s"
  "wd_live (deleteOps rs s) = wd_live s - set rs" "wd_nextRef (deleteOps rs s) = wd_nextRef s" "wd_opId (deleteOps rs s) = wd_opId s"
  "wd_live (newOp i s) = insert (wd_nextRef s) (wd_live s)" "wd_nextRef (newOp i s) = wd_nextRef s + 1"
  "wd_opId (newOp i s) = (wd_opId s)(wd_nextRef s := i)"
  by (simp_all add: world_defs)

lemma manager_finished [simp]:
  "om_finished (recordSender i c m) = om_finished m" "om_finished (trackOp i r m) = om_finished m"
  "om_finished (forgetPath i m) = om_finished m" "om_finished (forgetSenders i m) = om_finished m"
  by (simp_all add: recordSender_def trackOp_def forgetPath_def forgetSenders_def split: option.splits)

lemma box_workerFor:
  assumes "wd_loops s w = None" "wd_workers s w = None"
  shows "box (workerFor reader w s) = box s" "wd_live (workerFor reader w s) = wd_live s"
    "wd_nextRef (workerFor reader w s) = wd_nextRef s" "wd_callers (workerFor reader w s) = wd_callers s"
    "wd_opId (workerFor reader w s) = wd_opId s" "om_byId (wd_om (workerFor reader w s)) = om_byId (wd_om s)"
proof -
  have "box (workerFor reader w s) = box s \<and> wd_live (workerFor reader w s) = wd_live s \<and> wd_nextRef (workerFor reader w s) = wd_nextRef s
      \<and> wd_callers (workerFor reader w s) = wd_callers s \<and> wd_opId (workerFor reader w s) = wd_opId s
      \<and> om_byId (wd_om (workerFor reader w s)) = om_byId (wd_om s)"
    by (cases rule: workerFor_cases [of s reader w]) (simp_all add: box_set fun_upd_idem assms freshWorker_def)
  then show "box (workerFor reader w s) = box s" "wd_live (workerFor reader w s) = wd_live s"
    "wd_nextRef (workerFor reader w s) = wd_nextRef s" "wd_callers (workerFor reader w s) = wd_callers s"
    "wd_opId (workerFor reader w s) = wd_opId s" "om_byId (wd_om (workerFor reader w s)) = om_byId (wd_om s)" by simp_all
qed

lemma scrubStep_ops: "scrubStep s sc s' sc' \<Longrightarrow> scrubOps sc' = scrubOps sc"
  by (auto elim!: scrubStep.cases)

lemma scrubStep_box: "scrubStep s sc s' sc' \<Longrightarrow> box s' = box s"
  by (rule box_same) (simp_all add: scrubStep_facts)

lemma opsKept_new:
  assumes "opsInv s" "box s' = (box s)(b := box s b @ [wd_nextRef s])" "wd_live s' = insert (wd_nextRef s) (wd_live s)"
    "wd_nextRef s' = wd_nextRef s + 1"
  shows "opsKept s s'"
  using own_new [of "box s" "wd_live s" "wd_nextRef s" b] assms by (simp add: opsKept_def opsInv_def)

lemma opsKept_move:
  assumes "opsInv s" "box s' = (box s)(b := xs, b' := ys)" "b \<noteq> b'" "mset (xs @ ys) = mset (box s b @ box s b')"
    "wd_live s' = wd_live s" "wd_nextRef s' = wd_nextRef s"
  shows "opsKept s s'"
proof -
  have own: "ownInv (box s) (wd_live s) (wd_nextRef s)" using assms(1) by (simp add: opsInv_def)
  have "distinct (box s b @ box s b')" using ownInvD(1,2) [OF own] assms(3) by auto
  then have d: "distinct (xs @ ys)" using assms(4) by (metis mset_eq_imp_distinct_iff)
  have "set (xs @ ys) = set (box s b @ box s b')" using assms(4) by (metis set_mset_mset)
  then have e: "set xs \<union> set ys = set (box s b) \<union> set (box s b')" by simp
  show ?thesis using own_move [OF own assms(3) d e] assms(2,5,6) by (simp add: opsKept_def)
qed

lemma opsKept_delete:
  assumes "opsInv s" "box s' = (box s)(b := [])" "wd_live s' = wd_live s - set (box s b)" "wd_nextRef s' = wd_nextRef s"
  shows "opsKept s s'"
  using own_delete [of "box s" "wd_live s" "wd_nextRef s" b] assms by (simp add: opsKept_def opsInv_def)

lemma ops_step:
  assumes own: "opsInv s" and st: "ostep late s s'"
  shows "opsKept s s'"
  using st
proof cases
  case (publish c i m reader caller)
  have "om_finished m = om_finished (wd_om s)" using publish(3) by (auto simp: nextOperationId_def)
  then show ?thesis by (intro opsKept_same [OF own]) (simp_all add: publish(1,2) box_set fun_upd_idem)
next
  case (publish_worker c reader caller i w w')
  show ?thesis by (rule opsKept_same [OF own])
    (simp_all add: publish_worker(1,2) box_set box_workerFor [OF publish_worker(3,4)] fun_upd_idem)
next
  case (publish_full c w caller i rw)
  show ?thesis by (rule opsKept_same [OF own]) (simp_all add: publish_full(1) box_set fun_upd_idem publish_full(2))
next
  case (publish_admit c w caller i rw)
  show ?thesis by (rule opsKept_same [OF own]) (simp_all add: publish_admit(1) box_set fun_upd_idem publish_admit(2))
next
  case (publish_make c w caller i)
  show ?thesis by (rule opsKept_new [OF own, of _ "BCaller c"]) (simp_all add: publish_make(1,2) box_set)
next
  case (publish_record c w caller i r)
  show ?thesis by (rule opsKept_same [OF own]) (simp_all add: publish_record(1) box_set fun_upd_idem publish_record(2))
next
  case (publish_track c w i r)
  show ?thesis by (rule opsKept_same [OF own]) (simp_all add: publish_track(1) box_set fun_upd_idem publish_track(2))
next
  case (publish_push c w r rw)
  show ?thesis by (rule opsKept_move [OF own, of _ "BQueue w" "rw_queue rw @ [r]" "BCaller c" "[]"])
    (simp_all add: publish_push(1,2,3) box_set pushOp_def)
next
  case (publish_return c w)
  show ?thesis by (rule opsKept_same [OF own]) (simp_all add: publish_return(1) box_set fun_upd_idem publish_return(2))
next
  case (probe c reader)
  show ?thesis by (rule opsKept_same [OF own]) (simp_all add: probe(1) box_set fun_upd_idem probe(2))
next
  case (probe_worker c reader w w')
  show ?thesis by (rule opsKept_same [OF own])
    (simp_all add: probe_worker(1,2) box_set box_workerFor [OF probe_worker(3,4)] fun_upd_idem)
next
  case (probe_full c w rw)
  show ?thesis by (rule opsKept_same [OF own]) (simp_all add: probe_full(1) box_set fun_upd_idem probe_full(2))
next
  case (probe_push c w rw)
  show ?thesis by (rule opsKept_new [OF own, of _ "BQueue w"])
    (simp_all add: probe_push(1,2,3) box_set pushOp_def fun_upd_twist fun_upd_idem)
next
  case (signal reader w rw f h)
  have "rw_queue (f rw) = rw_queue rw" using signal(4) by (auto simp: requestInvalidate_def requestHold_def)
  then show ?thesis by (intro opsKept_same [OF own]) (simp_all add: signal(1,3) box_set fun_upd_idem)
next
  case (loop_pass w rw act rw')
  show ?thesis
  proof (cases "\<exists>r. act = ActRun r")
    case True
    then obtain r where r: "act = ActRun r" by blast
    then have q: "rw_queue rw = r # rw_queue rw'"
      using loop_pass(4) by (cases "rw_queue rw") (auto simp: loopIteration_def waitCondition_def split: if_splits)
    show ?thesis by (rule opsKept_move [OF own, of _ "BQueue w" "rw_queue rw'" "BLoop w" "[r]"])
      (simp_all add: loop_pass(1,2,3) box_set r q)
  next
    case False
    then have "rw_queue rw' = rw_queue rw" "loopOps (loopAfter act) = []"
      using loop_pass(4) by (auto simp: loopIteration_def split: if_splits)
    then show ?thesis by (intro opsKept_same [OF own]) (simp_all add: loop_pass(1,2,3) box_set fun_upd_idem)
  qed
next
  case (loop_ran w r rw)
  show ?thesis by (rule opsKept_same [OF own]) (simp_all add: loop_ran(1,2,3) box_set fun_upd_idem clearInFlight_def)
next
  case (loop_abandoned w r rw)
  show ?thesis by (rule opsKept_delete [OF own, of _ "BLoop w"]) (simp_all add: loop_abandoned(1,2) box_set)
next
  case (loop_finished w r rw now)
  show ?thesis by (rule opsKept_move [OF own, of _ BFinished "map fst (om_finished (wd_om s)) @ [r]" "BLoop w" "[]"])
    (simp_all add: loop_finished(1,2) box_set finishOp_def)
next
  case (loop_drain w rw)
  show ?thesis by (rule opsKept_move [OF own, of _ "BQueue w" "[]" "BLoop w" "rw_queue rw"])
    (simp_all add: loop_drain(1,2,3) box_set takeQueue_def)
next
  case (loop_scrub w sc s1 sc1)
  show ?thesis by (rule opsKept_same [OF own])
    (simp_all add: loop_scrub(1,2) box_set scrubStep_box [OF loop_scrub(3)] scrubStep_ops [OF loop_scrub(3)]
      scrubStep_facts [OF loop_scrub(3)] fun_upd_idem)
next
  case (loop_exit w doomed)
  show ?thesis by (rule opsKept_delete [OF own, of _ "BLoop w"]) (simp_all add: loop_exit(1,2) box_set)
next
  case (remove c reader w)
  show ?thesis by (rule opsKept_same [OF own]) (simp_all add: remove(1) box_set fun_upd_idem remove(2))
next
  case (remove_stop c w rw)
  show ?thesis by (rule opsKept_same [OF own]) (simp_all add: remove_stop(1,2,3) box_set fun_upd_idem)
next
  case (remove_drain c w rw)
  show ?thesis by (rule opsKept_move [OF own, of _ "BQueue w" "[]" "BCaller c" "rw_queue rw"])
    (simp_all add: remove_drain(1,2,3) box_set takeQueue_def)
next
  case (remove_scrub c w f sc s1 sc1)
  show ?thesis by (rule opsKept_same [OF own])
    (simp_all add: remove_scrub(1,2) box_set scrubStep_box [OF remove_scrub(3)] scrubStep_ops [OF remove_scrub(3)]
      scrubStep_facts [OF remove_scrub(3)] fun_upd_idem)
next
  case (remove_delete c w f doomed)
  show ?thesis by (rule opsKept_delete [OF own, of _ "BCaller c"]) (simp_all add: remove_delete(1,2) box_set)
next
  case (remove_join c w f rw)
  show ?thesis by (rule opsKept_same [OF own]) (simp_all add: remove_join(1) box_set fun_upd_idem remove_join(2))
next
  case (remove_abandon c w r rw)
  show ?thesis by (rule opsKept_same [OF own]) (simp_all add: remove_abandon(1) box_set fun_upd_idem remove_abandon(2))
next
  case (abandon_path c w r)
  show ?thesis by (rule opsKept_same [OF own]) (simp_all add: abandon_path(1) box_set fun_upd_idem abandon_path(2))
next
  case (abandon_senders c w r)
  show ?thesis by (rule opsKept_same [OF own]) (simp_all add: abandon_senders(1) box_set fun_upd_idem abandon_senders(2))
next
  case (abandon c w r rw)
  show ?thesis by (rule opsKept_same [OF own]) (simp_all add: abandon(1,2,3) box_set fun_upd_idem)
next
  case (expire c now grace rs m)
  have "map fst (om_finished (wd_om s)) = rs @ map fst (om_finished m)"
    using expire(3) by (auto simp: takeExpired_def simp flip: map_append)
  then show ?thesis by (intro opsKept_move [OF own, of _ BFinished "map fst (om_finished m)" "BCaller c" rs])
    (simp_all add: expire(1,2) box_set)
next
  case (expire_scrub c sc s1 sc1)
  show ?thesis by (rule opsKept_same [OF own])
    (simp_all add: expire_scrub(1,2) box_set scrubStep_box [OF expire_scrub(3)] scrubStep_ops [OF expire_scrub(3)]
      scrubStep_facts [OF expire_scrub(3)] fun_upd_idem)
next
  case (expire_delete c doomed)
  show ?thesis by (rule opsKept_delete [OF own, of _ "BCaller c"]) (simp_all add: expire_delete(1,2) box_set)
next
  case (disconnect client ids m)
  have "om_finished m = om_finished (wd_om s)" using disconnect(2) by (auto simp: takeSenderOps_def split: option.splits)
  then show ?thesis by (intro opsKept_same [OF own]) (simp_all add: disconnect(1) box_set fun_upd_idem)
next
  case (destroy w rw)
  show ?thesis by (rule opsKept_delete [OF own, of _ "BQueue w"]) (simp_all add: destroy(1,2) box_set)
qed

section \<open>What a teardown remembers\<close>

text \<open>A teardown keeps a pointer to the operation that was in flight when it drained the queue. No caller of
  \<^verbatim>\<open>publish\<close> owns that operation, and the loop runs no other.\<close>

fun remRef :: "ManagerCaller option \<Rightarrow> (WorkerRef \<times> OpRef) option" where
  "remRef (Some (RemScrub w (Some r) sc)) = Some (w, r)"
| "remRef (Some (RemGrace w (Some r))) = Some (w, r)"
| "remRef (Some (RemAbandon w r)) = Some (w, r)"
| "remRef (Some (RemForgot w r b)) = Some (w, r)"
| "remRef _ = None"

fun pubOps :: "ManagerCaller option \<Rightarrow> OpRef set" where
  "pubOps (Some (PubMade w c i r)) = {r}"
| "pubOps (Some (PubRecorded w i r)) = {r}"
| "pubOps (Some (PubTracked w r)) = {r}"
| "pubOps _ = {}"

fun runOps :: "Loop option \<Rightarrow> OpRef set" where
  "runOps (Some (LoopRunning r)) = {r}"
| "runOps (Some (LoopRan r)) = {r}"
| "runOps _ = {}"

definition remInv :: "World \<Rightarrow> bool" where
  "remInv s = (\<forall>c w r. remRef (wd_callers s c) = Some (w, r) \<longrightarrow>
     r < wd_nextRef s \<and> (\<forall>c'. r \<notin> pubOps (wd_callers s c')) \<and> runOps (wd_loops s w) \<subseteq> {r})"

lemma remRef_worker: "remRef (Some x) = Some (w, r) \<Longrightarrow> pastDrain x = Some w"
  by (cases "Some x" rule: remRef.cases) auto

lemma rem_keep:
  assumes "remInv s" "wd_nextRef s \<le> wd_nextRef s'"
    "\<And>c. remRef (wd_callers s' c) = None \<or> remRef (wd_callers s' c) = remRef (wd_callers s c)"
    "\<And>c. pubOps (wd_callers s' c) \<subseteq> insert (wd_nextRef s) (pubOps (wd_callers s c))"
    "\<And>w. (\<forall>c r. remRef (wd_callers s c) \<noteq> Some (w, r)) \<or> runOps (wd_loops s' w) \<subseteq> runOps (wd_loops s w)"
  shows "remInv s'"
  unfolding remInv_def
proof (intro allI impI)
  fix c w r assume "remRef (wd_callers s' c) = Some (w, r)"
  then have old: "remRef (wd_callers s c) = Some (w, r)" using assms(3) [of c] by auto
  then have r: "r < wd_nextRef s" "\<forall>c'. r \<notin> pubOps (wd_callers s c')" "runOps (wd_loops s w) \<subseteq> {r}"
    using assms(1) unfolding remInv_def by blast+
  have "r \<notin> pubOps (wd_callers s' c')" for c' using assms(4) [of c'] r(1,2) by auto
  then show "r < wd_nextRef s' \<and> (\<forall>c'. r \<notin> pubOps (wd_callers s' c')) \<and> runOps (wd_loops s' w) \<subseteq> {r}"
    using r assms(2) assms(5) [of w] old by auto
qed

lemma loops_workerFor: "wd_loops s w = None \<Longrightarrow> runOps (wd_loops (workerFor reader w s) w') = runOps (wd_loops s w')"
  by (cases rule: workerFor_cases [of s reader w]) auto

lemma no_remover:
  assumes "shapeInv s" "wd_workers s w = Some rw" "\<not> rw_stop rw"
  shows "remRef (wd_callers s c) \<noteq> Some (w, r)"
proof
  assume rem: "remRef (wd_callers s c) = Some (w, r)"
  then obtain x where x: "wd_callers s c = Some x" by (cases "wd_callers s c") auto
  then have "pastDrain x = Some w" using rem remRef_worker by auto
  then obtain rw' where "wd_workers s w = Some rw'" "rw_stop rw'" by (rule shape_remover [OF assms(1) x])
  then show False using assms(2,3) by simp
qed

lemma rem_step:
  assumes inv: "remInv s" and own: "opsInv s" and shape: "shapeInv s" and st: "ostep late s s'"
  shows "remInv s'"
  using st
proof cases
  case (publish c i m reader caller)
  show ?thesis by (rule rem_keep [OF inv]) (simp_all add: subset_insertI publish(1,2))
next
  case (publish_worker c reader caller i w w')
  show ?thesis by (rule rem_keep [OF inv])
    (simp_all add: subset_insertI publish_worker(1,2) box_workerFor [OF publish_worker(3,4)] loops_workerFor [OF publish_worker(3)])
next
  case (publish_full c w caller i rw)
  show ?thesis by (rule rem_keep [OF inv]) (simp_all add: subset_insertI publish_full(1,2))
next
  case (publish_admit c w caller i rw)
  show ?thesis by (rule rem_keep [OF inv]) (simp_all add: subset_insertI publish_admit(1,2))
next
  case (publish_make c w caller i)
  show ?thesis by (rule rem_keep [OF inv]) (simp_all add: subset_insertI publish_make(1,2))
next
  case (publish_record c w caller i r)
  show ?thesis by (rule rem_keep [OF inv]) (simp_all add: subset_insertI publish_record(1,2))
next
  case (publish_track c w i r)
  show ?thesis by (rule rem_keep [OF inv]) (simp_all add: subset_insertI publish_track(1,2))
next
  case (publish_push c w r rw)
  show ?thesis by (rule rem_keep [OF inv]) (simp_all add: subset_insertI publish_push(1,2))
next
  case (publish_return c w)
  show ?thesis by (rule rem_keep [OF inv]) (simp_all add: subset_insertI publish_return(1,2))
next
  case (probe c reader)
  show ?thesis by (rule rem_keep [OF inv]) (simp_all add: subset_insertI probe(1,2))
next
  case (probe_worker c reader w w')
  show ?thesis by (rule rem_keep [OF inv])
    (simp_all add: subset_insertI probe_worker(1,2) box_workerFor [OF probe_worker(3,4)] loops_workerFor [OF probe_worker(3)])
next
  case (probe_full c w rw)
  show ?thesis by (rule rem_keep [OF inv]) (simp_all add: subset_insertI probe_full(1,2))
next
  case (probe_push c w rw)
  show ?thesis by (rule rem_keep [OF inv]) (simp_all add: subset_insertI probe_push(1,2))
next
  case (signal reader w rw f h)
  show ?thesis by (rule rem_keep [OF inv]) (simp_all add: subset_insertI signal(1))
next
  case (loop_pass w rw act rw')
  show ?thesis
  proof (cases "rw_stop rw")
    case True
    then have "act = ActStop" using loop_pass(4) by (simp add: loopIteration_def)
    then show ?thesis by (intro rem_keep [OF inv]) (simp_all add: subset_insertI loop_pass(1))
  next
    case False
    then show ?thesis using no_remover [OF shape loop_pass(3)] by (intro rem_keep [OF inv]) (auto simp: loop_pass(1))
  qed
next
  case (loop_ran w r rw)
  show ?thesis by (rule rem_keep [OF inv]) (simp_all add: subset_insertI loop_ran(1,2))
next
  case (loop_abandoned w r rw)
  show ?thesis by (rule rem_keep [OF inv]) (simp_all add: subset_insertI loop_abandoned(1,2))
next
  case (loop_finished w r rw now)
  show ?thesis by (rule rem_keep [OF inv]) (simp_all add: subset_insertI loop_finished(1,2))
next
  case (loop_drain w rw)
  show ?thesis by (rule rem_keep [OF inv]) (simp_all add: subset_insertI loop_drain(1,2))
next
  case (loop_scrub w sc s1 sc1)
  show ?thesis by (rule rem_keep [OF inv]) (simp_all add: subset_insertI loop_scrub(1,2) scrubStep_facts [OF loop_scrub(3)])
next
  case (loop_exit w doomed)
  show ?thesis by (rule rem_keep [OF inv]) (simp_all add: subset_insertI loop_exit(1,2))
next
  case (remove c reader w)
  show ?thesis by (rule rem_keep [OF inv]) (simp_all add: subset_insertI remove(1,2))
next
  case (remove_stop c w rw)
  show ?thesis by (rule rem_keep [OF inv]) (simp_all add: subset_insertI remove_stop(1,2))
next
  case (remove_drain c w rw)
  obtain l where l: "wd_loops s w = Some l" "workerOk rw l" using shapeInvD(1) [OF shape remove_drain(3)] by blast
  have new: "r < wd_nextRef s \<and> (\<forall>c'. r \<notin> pubOps (wd_callers s c')) \<and> runOps (wd_loops s w) \<subseteq> {r}" if "rw_inFlight rw = Some r" for r
  proof -
    have lr: "l = LoopRunning r" using l(2) that unfolding workerOk_def by blast
    then have b: "r \<in> set (box s (BLoop w))" using l(1) by simp
    have "r \<in> wd_live s" using ownInvD(3) [OF own [unfolded opsInv_def], of "BLoop w"] b by blast
    then have n: "r < wd_nextRef s" using ownInvD(4) [OF own [unfolded opsInv_def]] by blast
    have "r \<notin> pubOps (wd_callers s c')" for c'
    proof
      assume "r \<in> pubOps (wd_callers s c')"
      then have "r \<in> set (box s (BCaller c'))" by (cases "wd_callers s c'" rule: pubOps.cases) auto
      then show False using ownInvD(2) [OF own [unfolded opsInv_def] b] by blast
    qed
    then show ?thesis using n lr l(1) by simp
  qed
  show ?thesis unfolding remInv_def
  proof (intro allI impI)
    fix c1 w1 r1 assume r1: "remRef (wd_callers s' c1) = Some (w1, r1)"
    have "r1 < wd_nextRef s \<and> (\<forall>c'. r1 \<notin> pubOps (wd_callers s c')) \<and> runOps (wd_loops s w1) \<subseteq> {r1}"
    proof (cases "c1 = c")
      case True
      then have "rw_inFlight rw = Some r1 \<and> w1 = w" using r1 by (cases "rw_inFlight rw") (auto simp: remove_drain(1))
      then show ?thesis using new by blast
    next
      case False
      then have "remRef (wd_callers s c1) = Some (w1, r1)" using r1 by (simp add: remove_drain(1))
      then show ?thesis using inv unfolding remInv_def by blast
    qed
    then show "r1 < wd_nextRef s' \<and> (\<forall>c'. r1 \<notin> pubOps (wd_callers s' c')) \<and> runOps (wd_loops s' w1) \<subseteq> {r1}"
      by (simp add: remove_drain(1))
  qed
next
  case (remove_scrub c w f sc s1 sc1)
  have "remRef (Some (RemScrub w f sc1)) = remRef (Some (RemScrub w f sc))" by (cases f) simp_all
  then show ?thesis by (intro rem_keep [OF inv]) (simp_all add: subset_insertI remove_scrub(1,2) scrubStep_facts [OF remove_scrub(3)])
next
  case (remove_delete c w f doomed)
  have "remRef (Some (RemGrace w f)) = remRef (Some (RemScrub w f (Scrub [] None doomed)))" by (cases f) simp_all
  then show ?thesis by (intro rem_keep [OF inv]) (simp_all add: subset_insertI remove_delete(1,2))
next
  case (remove_join c w f rw)
  show ?thesis by (rule rem_keep [OF inv]) (simp_all add: subset_insertI remove_join(1,2))
next
  case (remove_abandon c w r rw)
  show ?thesis by (rule rem_keep [OF inv]) (simp_all add: subset_insertI remove_abandon(1,2))
next
  case (abandon_path c w r)
  show ?thesis by (rule rem_keep [OF inv]) (simp_all add: subset_insertI abandon_path(1,2))
next
  case (abandon_senders c w r)
  show ?thesis by (rule rem_keep [OF inv]) (simp_all add: subset_insertI abandon_senders(1,2))
next
  case (abandon c w r rw)
  show ?thesis by (rule rem_keep [OF inv]) (simp_all add: subset_insertI abandon(1,2))
next
  case (expire c now grace rs m)
  show ?thesis by (rule rem_keep [OF inv]) (simp_all add: subset_insertI expire(1,2))
next
  case (expire_scrub c sc s1 sc1)
  show ?thesis by (rule rem_keep [OF inv]) (simp_all add: subset_insertI expire_scrub(1,2) scrubStep_facts [OF expire_scrub(3)])
next
  case (expire_delete c doomed)
  show ?thesis by (rule rem_keep [OF inv]) (simp_all add: subset_insertI expire_delete(1,2))
next
  case (disconnect client ids m)
  show ?thesis by (rule rem_keep [OF inv]) (simp_all add: subset_insertI disconnect(1))
next
  case (destroy w rw)
  show ?thesis by (rule rem_keep [OF inv]) (simp_all add: subset_insertI destroy(1,2))
qed

end
