(* ===== verification/OperationRuns.thy ===== *)
theory OperationRuns
  imports OperationOwners
begin

text \<open>
  Runs of the scheduler. While no operation is pushed on a worker that was told to stop, the table of
  operations never holds a deleted one, whatever the threads do; with such a push it can.
\<close>

section \<open>The table of operations\<close>

text \<open>The references that are out of the table for good, by the place that holds them: an operation not yet
  tracked, those already scrubbed, and what an abandoned worker still runs.\<close>

fun scrubbed :: "Scrub \<Rightarrow> OpRef set" where
  "scrubbed (Scrub todo pending doomed) = set doomed - set todo"

fun cleanCaller :: "ManagerCaller option \<Rightarrow> OpRef set" where
  "cleanCaller (Some (PubMade w c i r)) = {r}"
| "cleanCaller (Some (PubRecorded w i r)) = {r}"
| "cleanCaller (Some (RemScrub w f sc)) = scrubbed sc"
| "cleanCaller (Some (RemForgot w r b)) = {r}"
| "cleanCaller (Some (Sweeping sc)) = scrubbed sc"
| "cleanCaller _ = {}"

fun cleanLoop :: "bool \<Rightarrow> Loop option \<Rightarrow> OpRef set" where
  "cleanLoop abandoned (Some (LoopDrain sc)) = scrubbed sc"
| "cleanLoop abandoned l = (if abandoned then runOps l else {})"

definition abandonedAt :: "World \<Rightarrow> WorkerRef \<Rightarrow> bool" where
  "abandonedAt s w = (case wd_workers s w of None \<Rightarrow> False | Some rw \<Rightarrow> rw_abandoned rw)"

fun clean :: "World \<Rightarrow> Box \<Rightarrow> OpRef set" where
  "clean s (BCaller c) = cleanCaller (wd_callers s c)"
| "clean s (BLoop w) = cleanLoop (abandonedAt s w) (wd_loops s w)"
| "clean s _ = {}"

definition trackInv :: "World \<Rightarrow> bool" where
  "trackInv s = (\<forall>i r. om_byId (wd_om s) i = Some r \<longrightarrow>
     wd_opId s r = i \<and> i \<noteq> 0 \<and> (\<exists>b. r \<in> set (box s b)) \<and> (\<forall>b. r \<notin> clean s b))"

lemma trackInvD:
  assumes "trackInv s" "om_byId (wd_om s) i = Some r"
  shows "wd_opId s r = i" "i \<noteq> 0" "\<exists>b. r \<in> set (box s b)" "r \<notin> clean s b"
  using assms unfolding trackInv_def by blast+

lemma track_live: "trackInv s \<Longrightarrow> opsInv s \<Longrightarrow> om_byId (wd_om s) i = Some r \<Longrightarrow> r \<in> wd_live s \<and> r < wd_nextRef s"
  using trackInvD(3) [of s i r] ownInvD(3,4) [of "box s" "wd_live s" "wd_nextRef s"] unfolding opsInv_def by blast

lemma clean_same:
  assumes "wd_workers s' = wd_workers s" "wd_loops s' = wd_loops s" "wd_callers s' = wd_callers s"
  shows "clean s' = clean s"
proof
  show "clean s' b = clean s b" for b by (cases b) (simp_all add: assms abandonedAt_def)
qed

lemma clean_set:
  "clean (setCaller c x s) = (clean s)(BCaller c := cleanCaller x)"
  "clean (setLoop w l s) = (clean s)(BLoop w := cleanLoop (abandonedAt s w) l)"
  "clean (setWorker w rw s) = (clean s)(BLoop w := cleanLoop (case rw of None \<Rightarrow> False | Some y \<Rightarrow> rw_abandoned y) (wd_loops s w))"
  "clean (onManager f s) = clean s" "clean (s\<lparr>wd_om := m\<rparr>) = clean s"
  "clean (newOp i s) = clean s" "clean (deleteOps rs s) = clean s" "clean (s\<lparr>wd_opId := g\<rparr>) = clean s"
proof -
  show "clean (setCaller c x s) = (clean s)(BCaller c := cleanCaller x)"
    by (rule ext, rename_tac b, case_tac b) (simp_all add: abandonedAt_def)
  show "clean (setLoop w l s) = (clean s)(BLoop w := cleanLoop (abandonedAt s w) l)"
    by (rule ext, rename_tac b, case_tac b) (simp_all add: abandonedAt_def)
  show "clean (setWorker w rw s) = (clean s)(BLoop w := cleanLoop (case rw of None \<Rightarrow> False | Some y \<Rightarrow> rw_abandoned y) (wd_loops s w))"
    by (rule ext, rename_tac b, case_tac b) (simp_all add: abandonedAt_def)
qed (rule clean_same; simp)+

lemma clean_workerFor:
  assumes "wd_loops s w = None" "wd_workers s w = None"
  shows "clean (workerFor reader w s) = clean s"
  by (cases rule: workerFor_cases [of s reader w]) (simp_all add: clean_set fun_upd_idem assms abandonedAt_def freshWorker_def)

lemma track_keep:
  assumes inv: "trackInv s" and kept: "opsKept s s'"
    and keep: "\<And>i r. om_byId (wd_om s') i = Some r \<Longrightarrow> om_byId (wd_om s) i = Some r \<and> wd_opId s' r = wd_opId s r \<and> r \<in> wd_live s'"
    and cl: "\<And>i r b. om_byId (wd_om s') i = Some r \<Longrightarrow> r \<in> clean s' b \<Longrightarrow> \<exists>b'. r \<in> clean s b'"
  shows "trackInv s'"
  unfolding trackInv_def
proof (intro allI impI)
  fix i r assume ir: "om_byId (wd_om s') i = Some r"
  note k = keep [OF ir] and d = trackInvD [OF inv conjunct1 [OF keep [OF ir]]]
  obtain b where "r \<in> set (box s b)" using d(3) by blast
  then have "\<exists>b'. r \<in> set (box s' b')" using kept k unfolding opsKept_def keepsOwned_def by blast
  then show "wd_opId s' r = i \<and> i \<noteq> 0 \<and> (\<exists>b. r \<in> set (box s' b)) \<and> (\<forall>b. r \<notin> clean s' b)"
    using k d cl [OF ir] by auto
qed

lemma track_same:
  assumes inv: "trackInv s \<and> opsInv s" and kept: "opsKept s s'"
    and eq: "om_byId (wd_om s') = om_byId (wd_om s)" "wd_opId s' = wd_opId s" "wd_live s' = wd_live s"
    and cl: "\<And>b. clean s' b \<subseteq> clean s b"
  shows "trackInv s'"
proof (rule track_keep [OF conjunct1 [OF inv] kept])
  show "om_byId (wd_om s) i = Some r \<and> wd_opId s' r = wd_opId s r \<and> r \<in> wd_live s'" if "om_byId (wd_om s') i = Some r" for i r
    using that eq inv track_live [of s i r] by simp
  show "\<exists>b'. r \<in> clean s b'" if "r \<in> clean s' b" for r b using that cl by blast
qed

lemma track_delete:
  assumes inv: "trackInv s \<and> opsInv s" and kept: "opsKept s s'"
    and eq: "om_byId (wd_om s') = om_byId (wd_om s)" "wd_opId s' = wd_opId s" "wd_live s' = wd_live s - D" "D \<subseteq> clean s b0"
    and cl: "\<And>b. clean s' b \<subseteq> clean s b"
  shows "trackInv s'"
proof (rule track_keep [OF conjunct1 [OF inv] kept])
  show "om_byId (wd_om s) i = Some r \<and> wd_opId s' r = wd_opId s r \<and> r \<in> wd_live s'" if "om_byId (wd_om s') i = Some r" for i r
    using that eq inv track_live [of s i r] trackInvD(4) [of s i r b0] by auto
  show "\<exists>b'. r \<in> clean s b'" if "r \<in> clean s' b" for r b using that cl by blast
qed

text \<open>Taking an operation out of the table makes it clean.\<close>

lemma track_forget:
  assumes inv: "trackInv s \<and> opsInv s" and kept: "opsKept s s'"
    and eq: "om_byId (wd_om s') = om_byId (forgetPath (wd_opId s r) (wd_om s))" "wd_opId s' = wd_opId s" "wd_live s' = wd_live s"
    and cl: "\<And>b. clean s' b \<subseteq> insert r (clean s b)"
  shows "trackInv s'"
proof (rule track_keep [OF conjunct1 [OF inv] kept])
  have sub: "om_byId (wd_om s) i = Some r1" and ne: "r1 \<noteq> r" if "om_byId (wd_om s') i = Some r1" for i r1
  proof -
    show old: "om_byId (wd_om s) i = Some r1" using that eq(1) by (auto simp: forgetPath_def split: if_splits)
    show "r1 \<noteq> r" using that eq(1) trackInvD(1,2) [OF conjunct1 [OF inv] old] by (auto simp: forgetPath_def split: if_splits)
  qed
  show "om_byId (wd_om s) i = Some r1 \<and> wd_opId s' r1 = wd_opId s r1 \<and> r1 \<in> wd_live s'" if "om_byId (wd_om s') i = Some r1" for i r1
    using sub [OF that] eq inv track_live [of s i r1] by simp
  show "\<exists>b'. r1 \<in> clean s b'" if "om_byId (wd_om s') i = Some r1" "r1 \<in> clean s' b" for i r1 b
    using ne [OF that(1)] that(2) cl by blast
qed

lemma track_scrub:
  assumes inv: "trackInv s \<and> opsInv s" and kept: "opsKept s s'" and sc: "scrubStep s sc s1 sc1"
    and eq: "om_byId (wd_om s') = om_byId (wd_om s1)" "wd_opId s' = wd_opId s" "wd_live s' = wd_live s"
    and cl: "clean s' = (clean s)(b := scrubbed sc1)" "clean s b = scrubbed sc"
  shows "trackInv s'"
  using sc
proof cases
  case (path r todo doomed)
  show ?thesis by (rule track_forget [OF inv kept _ eq(2,3), of r]) (use cl in \<open>auto simp: path eq(1) split: if_splits\<close>)
next
  case (senders todo r doomed)
  have "om_byId (forgetSenders i m) = om_byId m" for i m by (simp add: forgetSenders_def split: option.splits)
  then show ?thesis by (intro track_same [OF inv kept _ eq(2,3)]) (use cl in \<open>auto simp: senders eq(1) split: if_splits\<close>)
qed

lemma clean_owned: "r \<in> clean s b \<Longrightarrow> r \<in> set (box s b) \<or> (\<exists>c w. remRef (wd_callers s c) = Some (w, r))"
proof (cases b)
  case (BLoop w)
  assume "r \<in> clean s b"
  moreover have "scrubbed sc \<subseteq> set (scrubOps sc)" for sc by (cases sc) auto
  ultimately show ?thesis using BLoop by (cases "wd_loops s w" rule: runOps.cases) (auto split: if_splits)
next
  case (BCaller c)
  assume r: "r \<in> clean s b"
  have "scrubbed sc \<subseteq> set (scrubOps sc)" for sc by (cases sc) auto
  then show ?thesis using r BCaller by (cases "wd_callers s c" rule: cleanCaller.cases) (auto intro: exI [of _ c])
qed simp_all

lemma byId_manager [simp]:
  "om_byId (recordSender i c m) = om_byId m" "om_byId (forgetSenders i m) = om_byId m" "om_byId (finishOp r now m) = om_byId m"
  by (simp_all add: recordSender_def forgetSenders_def finishOp_def split: option.splits)

text \<open>The identifiers of operations being published are not the zero that means none.\<close>

fun pubIds :: "ManagerCaller option \<Rightarrow> u64 set" where
  "pubIds (Some (PubStart reader c i)) = {i}"
| "pubIds (Some (PubWorker w c i)) = {i}"
| "pubIds (Some (PubAdmitted w c i)) = {i}"
| "pubIds (Some (PubMade w c i r)) = {i}"
| "pubIds (Some (PubRecorded w i r)) = {i}"
| "pubIds _ = {}"

definition idInv :: "nat \<Rightarrow> World \<Rightarrow> bool" where
  "idInv n s = (unat (om_counter (wd_om s)) \<le> n \<and> (\<forall>c. 0 \<notin> pubIds (wd_callers s c)))"

lemma track_publish:
  assumes inv: "trackInv s" and own: "opsInv s" and rem: "remInv s" and kept: "opsKept s s'"
    and c: "wd_callers s c = Some (PubRecorded w i r)" and i: "i \<noteq> 0"
    and s': "s' = setCaller c (Some (PubTracked w r)) (onManager (trackOp i r) (s\<lparr>wd_opId := (wd_opId s)(r := i)\<rparr>))"
  shows "trackInv s'"
  unfolding trackInv_def
proof (intro allI impI)
  fix i1 r1 assume ir: "om_byId (wd_om s') i1 = Some r1"
  have mine: "r \<in> set (box s (BCaller c))" "r \<in> clean s (BCaller c)" using c by simp_all
  have cl: "clean s' = (clean s)(BCaller c := {})" "box s' = box s" using c by (simp_all add: s' clean_set box_set fun_upd_idem)
  show "wd_opId s' r1 = i1 \<and> i1 \<noteq> 0 \<and> (\<exists>b. r1 \<in> set (box s' b)) \<and> (\<forall>b. r1 \<notin> clean s' b)"
  proof (cases "om_byId (wd_om s) i1 = Some r1")
    case True
    have "r1 \<noteq> r" using trackInvD(4) [OF inv True] mine(2) by blast
    then have "wd_opId s' r1 = wd_opId s r1" by (simp add: s')
    moreover have "r1 \<notin> clean s' b" for b using trackInvD(4) [OF inv True] cl by simp
    ultimately show ?thesis using trackInvD [OF inv True] cl(2) by simp
  next
    case False
    then have new: "i1 = i" "r1 = r" using ir by (auto simp: s' trackOp_def split: option.splits if_splits)
    have "r \<notin> clean s' b" for b
    proof
      assume "r \<in> clean s' b"
      then have b: "b \<noteq> BCaller c" "r \<in> clean s b" using cl(1) by (auto split: if_splits)
      have "r \<notin> set (box s b)" using ownInvD(2) [OF own [unfolded opsInv_def] mine(1)] b(1) by blast
      then obtain c1 w1 where "remRef (wd_callers s c1) = Some (w1, r)" using clean_owned [OF b(2)] by blast
      then have "r \<notin> pubOps (wd_callers s c)" using rem unfolding remInv_def by blast
      then show False using c by simp
    qed
    moreover have "\<exists>b. r \<in> set (box s' b)" unfolding cl(2) using mine(1) by blast
    moreover have "wd_opId s' r = i" by (simp add: s')
    ultimately show ?thesis using i new by blast
  qed
qed

lemma track_step:
  assumes inv: "trackInv s \<and> opsInv s" and rem: "remInv s" and shape: "shapeInv s" and ids: "idInv n s" and st: "ostep late s s'"
  shows "trackInv s'"
proof -
  have kept: "opsKept s s'" using ops_step st inv by blast
  from st show ?thesis
proof cases
  case (publish c i m reader caller)
  have "om_byId m = om_byId (wd_om s)" using publish(3) by (auto simp: nextOperationId_def)
  then show ?thesis by (intro track_same [OF inv kept]) (simp_all add: publish(1,2) clean_set)
next
  case (publish_worker c reader caller i w w')
  show ?thesis by (rule track_same [OF inv kept])
    (simp_all add: publish_worker(1,2) clean_set box_workerFor [OF publish_worker(3,4)] clean_workerFor [OF publish_worker(3,4)])
next
  case (publish_full c w caller i rw)
  show ?thesis by (rule track_same [OF inv kept]) (simp_all add: publish_full(1,2) clean_set abandonedAt_def)
next
  case (publish_admit c w caller i rw)
  show ?thesis by (rule track_same [OF inv kept]) (simp_all add: publish_admit(1,2) clean_set abandonedAt_def)
next
  case (publish_make c w caller i)
  show ?thesis
  proof (rule track_keep [OF conjunct1 [OF inv] kept])
    fix i1 r1 assume "om_byId (wd_om s') i1 = Some r1"
    then have old: "om_byId (wd_om s) i1 = Some r1" by (simp add: publish_make(1))
    then have r1: "r1 \<in> wd_live s \<and> r1 < wd_nextRef s" using track_live inv by blast
    then show "om_byId (wd_om s) i1 = Some r1 \<and> wd_opId s' r1 = wd_opId s r1 \<and> r1 \<in> wd_live s'"
      using old by (simp add: publish_make(1))
    show "\<exists>b'. r1 \<in> clean s b'" if "r1 \<in> clean s' b" for b
      using that r1 by (intro exI [of _ b]) (auto simp: publish_make(1,2) clean_set split: if_splits)
  qed
next
  case (publish_record c w caller i r)
  show ?thesis by (rule track_same [OF inv kept]) (simp_all add: publish_record(1,2) clean_set abandonedAt_def)
next
  case (publish_track c w i r)
  have "i \<noteq> 0" using ids publish_track(2) unfolding idInv_def by (metis insertI1 pubIds.simps(5))
  then show ?thesis using track_publish [OF _ _ rem kept publish_track(2) _ publish_track(1)] inv by blast
next
  case (publish_push c w r rw)
  show ?thesis by (rule track_same [OF inv kept]) (simp_all add: publish_push(1,2,3) clean_set abandonedAt_def pushOp_def fun_upd_idem)
next
  case (publish_return c w)
  show ?thesis by (rule track_same [OF inv kept]) (simp_all add: publish_return(1,2) clean_set abandonedAt_def)
next
  case (probe c reader)
  show ?thesis by (rule track_same [OF inv kept]) (simp_all add: probe(1,2) clean_set abandonedAt_def)
next
  case (probe_worker c reader w w')
  show ?thesis by (rule track_same [OF inv kept])
    (simp_all add: probe_worker(1,2) clean_set box_workerFor [OF probe_worker(3,4)] clean_workerFor [OF probe_worker(3,4)])
next
  case (probe_full c w rw)
  show ?thesis by (rule track_same [OF inv kept]) (simp_all add: probe_full(1,2) clean_set abandonedAt_def)
next
  case (probe_push c w rw)
  show ?thesis
  proof (rule track_keep [OF conjunct1 [OF inv] kept])
    fix i1 r1 assume "om_byId (wd_om s') i1 = Some r1"
    then have old: "om_byId (wd_om s) i1 = Some r1" by (simp add: probe_push(1))
    then have r1: "r1 \<in> wd_live s \<and> r1 < wd_nextRef s" using track_live inv by blast
    then show "om_byId (wd_om s) i1 = Some r1 \<and> wd_opId s' r1 = wd_opId s r1 \<and> r1 \<in> wd_live s'"
      using old by (simp add: probe_push(1))
    show "\<exists>b'. r1 \<in> clean s b'" if "r1 \<in> clean s' b" for b
      using that r1 by (intro exI [of _ b]) (auto simp: probe_push(1,2,3) clean_set pushOp_def abandonedAt_def split: if_splits)
  qed
next
  case (signal reader w rw f h)
  have "rw_abandoned (f rw) = rw_abandoned rw" using signal(4) by (auto simp: requestInvalidate_def requestHold_def)
  then show ?thesis by (intro track_same [OF inv kept]) (simp_all add: signal(1,3) clean_set abandonedAt_def)
next
  case (loop_pass w rw act rw')
  obtain l where "wd_loops s w = Some l" "workerOk rw l" using shapeInvD(1) [OF shape loop_pass(3)] by blast
  then have ok: "workerOk rw LoopIdle" using loop_pass(2) by simp
  have ab: "rw_abandoned rw' = rw_abandoned rw" using loopIteration_ok(4) [OF ok loop_pass(4)] .
  have "cleanLoop (rw_abandoned rw') (Some (loopAfter act)) = {}"
  proof (cases "rw_abandoned rw")
    case True
    then have "act = ActStop" using ok loop_pass(4) by (auto simp: workerOk_def loopIteration_def)
    then show ?thesis by simp
  next
    case False
    then show ?thesis using ab by (cases act) simp_all
  qed
  then show ?thesis by (intro track_same [OF inv kept]) (simp_all add: loop_pass(1,2) clean_set abandonedAt_def)
next
  case (loop_ran w r rw)
  show ?thesis by (rule track_same [OF inv kept]) (simp_all add: loop_ran(1,2,3) clean_set abandonedAt_def clearInFlight_def)
next
  case (loop_abandoned w r rw)
  show ?thesis by (rule track_delete [OF inv kept, of "{r}" "BLoop w"]) (simp_all add: loop_abandoned(1-4) clean_set abandonedAt_def)
next
  case (loop_finished w r rw now)
  show ?thesis by (rule track_same [OF inv kept]) (simp_all add: loop_finished(1,2) clean_set abandonedAt_def)
next
  case (loop_drain w rw)
  show ?thesis by (rule track_same [OF inv kept]) (simp_all add: loop_drain(1,2) clean_set abandonedAt_def)
next
  case (loop_scrub w sc s1 sc1)
  show ?thesis by (rule track_scrub [OF inv kept loop_scrub(3), of "BLoop w"])
    (simp_all add: loop_scrub(1,2) clean_set scrubStep_facts [OF loop_scrub(3)] clean_same [OF scrubStep_facts(1-3) [OF loop_scrub(3)]])
next
  case (loop_exit w doomed)
  show ?thesis by (rule track_delete [OF inv kept, of "set doomed" "BLoop w"]) (simp_all add: loop_exit(1,2) clean_set)
next
  case (remove c reader w)
  show ?thesis by (rule track_same [OF inv kept]) (simp_all add: remove(1,2) clean_set abandonedAt_def)
next
  case (remove_stop c w rw)
  show ?thesis by (rule track_same [OF inv kept]) (simp_all add: remove_stop(1,2,3) clean_set abandonedAt_def)
next
  case (remove_drain c w rw)
  show ?thesis by (rule track_same [OF inv kept]) (simp_all add: remove_drain(1,2,3) clean_set abandonedAt_def takeQueue_def)
next
  case (remove_scrub c w f sc s1 sc1)
  show ?thesis by (rule track_scrub [OF inv kept remove_scrub(3), of "BCaller c"])
    (simp_all add: remove_scrub(1,2) clean_set scrubStep_facts [OF remove_scrub(3)] clean_same [OF scrubStep_facts(1-3) [OF remove_scrub(3)]])
next
  case (remove_delete c w f doomed)
  show ?thesis by (rule track_delete [OF inv kept, of "set doomed" "BCaller c"]) (simp_all add: remove_delete(1,2) clean_set)
next
  case (remove_join c w f rw)
  show ?thesis by (rule track_same [OF inv kept]) (simp_all add: remove_join(1,2) clean_set abandonedAt_def)
next
  case (remove_abandon c w r rw)
  show ?thesis by (rule track_same [OF inv kept]) (simp_all add: remove_abandon(1,2) clean_set abandonedAt_def)
next
  case (abandon_path c w r)
  show ?thesis by (rule track_forget [OF inv kept, of r]) (auto simp: abandon_path(1,2) clean_set)
next
  case (abandon_senders c w r)
  show ?thesis by (rule track_same [OF inv kept]) (simp_all add: abandon_senders(1,2) clean_set abandonedAt_def)
next
  case (abandon c w r rw)
  have "runOps (wd_loops s w) \<subseteq> {r}" using rem abandon(2) unfolding remInv_def by (metis remRef.simps(4))
  moreover have "cleanLoop True l \<subseteq> cleanLoop b l \<union> runOps l" for b l by (cases l rule: runOps.cases) auto
  ultimately have "cleanLoop True (wd_loops s w) \<subseteq> insert r (clean s (BLoop w))" by fastforce
  then have cl: "clean s' b \<subseteq> insert r (clean s b)" for b by (auto simp: abandon(1) clean_set)
  show ?thesis
  proof (rule track_keep [OF conjunct1 [OF inv] kept])
    fix i1 r1 assume "om_byId (wd_om s') i1 = Some r1"
    then have old: "om_byId (wd_om s) i1 = Some r1" by (simp add: abandon(1))
    show "om_byId (wd_om s) i1 = Some r1 \<and> wd_opId s' r1 = wd_opId s r1 \<and> r1 \<in> wd_live s'"
      using old track_live inv by (simp add: abandon(1))
    have "r \<in> clean s (BCaller c)" using abandon(2) by simp
    then show "\<exists>b'. r1 \<in> clean s b'" if "r1 \<in> clean s' b" for b using that cl by blast
  qed
next
  case (expire c now grace rs m)
  have "om_byId m = om_byId (wd_om s)" using expire(3) by (auto simp: takeExpired_def)
  then show ?thesis by (intro track_same [OF inv kept]) (simp_all add: expire(1,2) clean_set)
next
  case (expire_scrub c sc s1 sc1)
  show ?thesis by (rule track_scrub [OF inv kept expire_scrub(3), of "BCaller c"])
    (simp_all add: expire_scrub(1,2) clean_set scrubStep_facts [OF expire_scrub(3)] clean_same [OF scrubStep_facts(1-3) [OF expire_scrub(3)]])
next
  case (expire_delete c doomed)
  show ?thesis by (rule track_delete [OF inv kept, of "set doomed" "BCaller c"]) (simp_all add: expire_delete(1,2) clean_set)
next
  case (disconnect client ids m)
  have "om_byId m = om_byId (wd_om s)" using disconnect(2) by (auto simp: takeSenderOps_def split: option.splits)
  then show ?thesis by (intro track_same [OF inv kept]) (simp_all add: disconnect(1) clean_set)
next
  case (destroy w rw)
  have "rw_queue rw = []" using shapeInvD(1) [OF shape destroy(2)] destroy(6) by (auto simp: workerOk_def)
  then show ?thesis by (intro track_same [OF inv kept]) (simp_all add: destroy(1,6) clean_set)
qed
qed

section \<open>Runs\<close>

lemma counter_manager [simp]:
  "om_counter (recordSender i c m) = om_counter m" "om_counter (trackOp i r m) = om_counter m"
  "om_counter (forgetPath i m) = om_counter m" "om_counter (forgetSenders i m) = om_counter m"
  "om_counter (finishOp r now m) = om_counter m"
  by (simp_all add: recordSender_def trackOp_def forgetPath_def forgetSenders_def finishOp_def split: option.splits)

lemma counter_workerFor: "om_counter (wd_om (workerFor reader w s)) = om_counter (wd_om s)"
  by (cases rule: workerFor_cases [of s reader w]) simp_all

lemma id_keep:
  assumes "idInv n s" "om_counter (wd_om s') = om_counter (wd_om s)"
    "\<And>c. pubIds (wd_callers s' c) \<subseteq> pubIds (wd_callers s c)"
  shows "idInv (Suc n) s'"
  using assms unfolding idInv_def by fastforce

lemma id_step:
  assumes inv: "idInv n s" and n: "Suc n < 2 ^ 64" and st: "ostep late s s'"
  shows "idInv (Suc n) s'"
  using st
proof cases
  case (publish c i m reader caller)
  have cnt: "unat (om_counter (wd_om s)) \<le> n" using inv by (simp add: idInv_def)
  have i: "i = om_counter (wd_om s) + 1" "om_counter m = i" using publish(3) by (auto simp: nextOperationId_def)
  have "unat i = Suc (unat (om_counter (wd_om s)))"
    unfolding i(1) by (subst unat_plus_if') (use cnt n in simp)
  then have "unat i \<le> Suc n" "i \<noteq> 0" using cnt by auto
  then show ?thesis using inv i(2) by (simp add: idInv_def publish(1))
next
  case (publish_worker c reader caller i w w')
  show ?thesis by (rule id_keep [OF inv]) (use publish_worker(2) in \<open>simp_all add: publish_worker(1) box_workerFor [OF publish_worker(3,4)] counter_workerFor\<close>)
next
  case (publish_full c w caller i rw)
  show ?thesis by (rule id_keep [OF inv]) (simp_all add: publish_full(1,2))
next
  case (publish_admit c w caller i rw)
  show ?thesis by (rule id_keep [OF inv]) (simp_all add: publish_admit(1,2))
next
  case (publish_make c w caller i)
  show ?thesis by (rule id_keep [OF inv]) (simp_all add: publish_make(1,2))
next
  case (publish_record c w caller i r)
  show ?thesis by (rule id_keep [OF inv]) (simp_all add: publish_record(1,2))
next
  case (publish_track c w i r)
  show ?thesis by (rule id_keep [OF inv]) (simp_all add: publish_track(1,2))
next
  case (publish_push c w r rw)
  show ?thesis by (rule id_keep [OF inv]) (simp_all add: publish_push(1,2))
next
  case (publish_return c w)
  show ?thesis by (rule id_keep [OF inv]) (simp_all add: publish_return(1,2))
next
  case (probe c reader)
  show ?thesis by (rule id_keep [OF inv]) (simp_all add: probe(1,2))
next
  case (probe_worker c reader w w')
  show ?thesis by (rule id_keep [OF inv]) (use probe_worker(2) in \<open>simp_all add: probe_worker(1) box_workerFor [OF probe_worker(3,4)] counter_workerFor\<close>)
next
  case (probe_full c w rw)
  show ?thesis by (rule id_keep [OF inv]) (simp_all add: probe_full(1,2))
next
  case (probe_push c w rw)
  show ?thesis by (rule id_keep [OF inv]) (simp_all add: probe_push(1,2))
next
  case (signal reader w rw f h)
  show ?thesis by (rule id_keep [OF inv]) (simp_all add: signal(1))
next
  case (loop_pass w rw act rw')
  show ?thesis by (rule id_keep [OF inv]) (simp_all add: loop_pass(1,2))
next
  case (loop_ran w r rw)
  show ?thesis by (rule id_keep [OF inv]) (simp_all add: loop_ran(1,2))
next
  case (loop_abandoned w r rw)
  show ?thesis by (rule id_keep [OF inv]) (simp_all add: loop_abandoned(1,2))
next
  case (loop_finished w r rw now)
  show ?thesis by (rule id_keep [OF inv]) (simp_all add: loop_finished(1,2))
next
  case (loop_drain w rw)
  show ?thesis by (rule id_keep [OF inv]) (simp_all add: loop_drain(1,2))
next
  case (loop_scrub w sc s1 sc1)
  show ?thesis by (rule id_keep [OF inv]) (simp_all add: loop_scrub(1,2) scrubStep_facts [OF loop_scrub(3)])
next
  case (loop_exit w doomed)
  show ?thesis by (rule id_keep [OF inv]) (simp_all add: loop_exit(1,2))
next
  case (remove c reader w)
  show ?thesis by (rule id_keep [OF inv]) (simp_all add: remove(1,2))
next
  case (remove_stop c w rw)
  show ?thesis by (rule id_keep [OF inv]) (simp_all add: remove_stop(1,2))
next
  case (remove_drain c w rw)
  show ?thesis by (rule id_keep [OF inv]) (simp_all add: remove_drain(1,2))
next
  case (remove_scrub c w f sc s1 sc1)
  show ?thesis by (rule id_keep [OF inv]) (simp_all add: remove_scrub(1,2) scrubStep_facts [OF remove_scrub(3)])
next
  case (remove_delete c w f doomed)
  show ?thesis by (rule id_keep [OF inv]) (simp_all add: remove_delete(1,2))
next
  case (remove_join c w f rw)
  show ?thesis by (rule id_keep [OF inv]) (simp_all add: remove_join(1,2))
next
  case (remove_abandon c w r rw)
  show ?thesis by (rule id_keep [OF inv]) (simp_all add: remove_abandon(1,2))
next
  case (abandon_path c w r)
  show ?thesis by (rule id_keep [OF inv]) (simp_all add: abandon_path(1,2))
next
  case (abandon_senders c w r)
  show ?thesis by (rule id_keep [OF inv]) (simp_all add: abandon_senders(1,2))
next
  case (abandon c w r rw)
  show ?thesis by (rule id_keep [OF inv]) (simp_all add: abandon(1,2))
next
  case (expire c now grace rs m)
  have "om_counter m = om_counter (wd_om s)" using expire(3) by (auto simp: takeExpired_def)
  then show ?thesis by (intro id_keep [OF inv]) (simp_all add: expire(1))
next
  case (expire_scrub c sc s1 sc1)
  show ?thesis by (rule id_keep [OF inv]) (simp_all add: expire_scrub(1,2) scrubStep_facts [OF expire_scrub(3)])
next
  case (expire_delete c doomed)
  show ?thesis by (rule id_keep [OF inv]) (simp_all add: expire_delete(1,2))
next
  case (disconnect client ids m)
  have "om_counter m = om_counter (wd_om s)" using disconnect(2) by (auto simp: takeSenderOps_def split: option.splits)
  then show ?thesis by (intro id_keep [OF inv]) (simp_all add: disconnect(1))
next
  case (destroy w rw)
  show ?thesis by (rule id_keep [OF inv]) (simp_all add: destroy(1,2))
qed

lemma run_owned:
  assumes "oreach late n s"
  shows "opsInv s \<and> (\<forall>r \<in> wd_live s. \<exists>b. r \<in> set (box s b))"
  using assms
proof induction
  case init
  have "box managerInit b = []" for b by (cases b) (simp_all add: managerInit_def)
  moreover have "wd_live managerInit = {}" by (simp add: managerInit_def)
  ultimately show ?case by (simp add: opsInv_def ownInv_def)
next
  case (step n s s')
  then have kept: "opsKept s s'" using ops_step by blast
  then have "\<forall>r \<in> wd_live s'. \<exists>b. r \<in> set (box s' b)"
    using step.IH unfolding opsKept_def keepsOwned_def by blast
  then show ?case using opsKept_inv [OF kept] by blast
qed

lemma run_tracked:
  assumes "oreach False n s" "n < 2 ^ 64"
  shows "shapeInv s \<and> remInv s \<and> trackInv s \<and> idInv n s"
  using assms
proof induction
  case init
  show ?case by (simp add: managerInit_def shapeInv_def remInv_def trackInv_def idInv_def)
next
  case (step n s s')
  then have IH: "shapeInv s" "remInv s" "trackInv s" "idInv n s" by auto
  have own: "opsInv s" using run_owned step.hyps(1) by blast
  show ?case using shape_step [OF IH(1) step.hyps(2)] rem_step [OF IH(2) own IH(1) step.hyps(2)]
      track_step [OF _ IH(2,1,4) step.hyps(2)] id_step [OF IH(4) step.prems step.hyps(2)] IH(3) own by blast
qed

text \<open>C4. Whatever publishers, disconnects, teardowns, sweeps and worker loops do in whatever order, as long as
  nothing is pushed on a worker that was told to stop the table of operations never holds a pointer to a
  deleted operation, and finds each operation under its own identifier: a cancel, or the disconnect of a
  client, touches live operations only.\<close>

theorem table_never_dangles:
  assumes "oreach False n s" "n < 2 ^ 64" "om_byId (wd_om s) i = Some r"
  shows "r \<in> wd_live s \<and> wd_opId s r = i"
proof -
  have t: "trackInv s" using run_tracked [OF assms(1,2)] by blast
  have "opsInv s" using run_owned [OF assms(1)] by blast
  then show ?thesis using track_live [OF t _ assms(3)] trackInvD(1) [OF t assms(3)] by blast
qed

text \<open>C15. No operation is lost and none has two owners: at every moment of every run, late pushes included,
  an operation that exists is held by exactly one queue, worker loop, caller or the list of finished ones.\<close>

theorem operations_one_owner:
  assumes "oreach late n s" "r \<in> wd_live s"
  shows "\<exists>!b. r \<in> set (box s b)"
  using run_owned [OF assms(1)] assms(2) ownInvD(2) [of "box s" "wd_live s" "wd_nextRef s" r] unfolding opsInv_def by blast

section \<open>A push on a stopped worker\<close>

text \<open>One publisher, a client \<^verbatim>\<open>app\<close>, on reader 5, up to where the operation is tracked.\<close>

definition tracked1 :: World where
  "tracked1 = setCaller 0 (Some (PubTracked 0 0)) (setWorker 0 (Some freshWorker) (setLoop 0 (Some LoopIdle)
     (onManager (\<lambda>m. m\<lparr>om_counter := 1, om_workers := [5 \<mapsto> 0], om_byId := [1 \<mapsto> 0],
        om_senderToOps := [''app'' \<mapsto> {1}], om_opToSender := [1 \<mapsto> ''app'']\<rparr>)
     (managerInit\<lparr>wd_opId := (\<lambda>_. 0)(0 := 1), wd_live := {0}, wd_nextRef := 1\<rparr>))))"

lemma run_step: "oreach late n s \<Longrightarrow> ostep late s s' \<Longrightarrow> s' = t \<Longrightarrow> oreach late (Suc n) t"
  using oreach.step by blast

lemmas run_defs = world_defs managerInit_def nextOperationId_def workerFor_def freshWorker_def admits_def
  kMaxQueuedOpsPerReader_def recordSender_def trackOp_def pushOp_def tracked1_def loopIteration_def takeQueue_def

lemma tracked1_reached: "oreach late 6 tracked1"
proof -
  let ?m = "wd_om managerInit"
  note st = oreach.step
  have "oreach late 1 (setCaller 0 (Some (PubStart 5 ''app'' 1)) (managerInit\<lparr>wd_om := ?m\<lparr>om_counter := 1\<rparr>\<rparr>))" (is "oreach late 1 ?s1")
    using st [OF oreach.init ostep.publish [of managerInit 0 1]] by (simp add: run_defs)
  then have "oreach late 2 (setCaller 0 (Some (PubWorker 0 ''app'' 1)) (workerFor 5 0 ?s1))" (is "oreach late 2 ?s2")
    using st [OF _ ostep.publish_worker [of ?s1 0 5 "''app''" 1 0 0]] by (simp add: run_defs numeral_2_eq_2)
  then have "oreach late 3 (setCaller 0 (Some (PubAdmitted 0 ''app'' 1)) ?s2)" (is "oreach late 3 ?s3")
    using st [OF _ ostep.publish_admit [of ?s2 0 0 "''app''" 1 freshWorker]] by (simp add: run_defs eval_nat_numeral)
  then have "oreach late 4 (setCaller 0 (Some (PubMade 0 ''app'' 1 0)) (newOp 0 ?s3))" (is "oreach late 4 ?s4")
    using st [OF _ ostep.publish_make [of ?s3 0 0 "''app''" 1]] by (simp add: run_defs eval_nat_numeral)
  then have "oreach late 5 (setCaller 0 (Some (PubRecorded 0 1 0)) (onManager (recordSender 1 ''app'') ?s4))" (is "oreach late 5 ?s5")
    using st [OF _ ostep.publish_record [of ?s4 0 0 "''app''" 1 0]] by (simp add: run_defs eval_nat_numeral)
  then have "oreach late 6 (setCaller 0 (Some (PubTracked 0 0)) (onManager (trackOp 1 0) (?s5\<lparr>wd_opId := (wd_opId ?s5)(0 := 1)\<rparr>)))"
    using st [OF _ ostep.publish_track [of ?s5 0 0 1 0]] by (simp add: run_defs eval_nat_numeral)
  then show ?thesis by (simp add: run_defs)
qed

theorem table_never_dangles_witness:
  "oreach False 6 tracked1 \<and> om_byId (wd_om tracked1) 1 = Some 0 \<and> 0 \<in> wd_live tracked1 \<and> wd_opId tracked1 0 = 1"
  using table_never_dangles [OF tracked1_reached, of 1 0] tracked1_reached by (simp add: run_defs)

theorem operations_one_owner_witness:
  "oreach True 6 tracked1 \<and> 0 \<in> wd_live tracked1 \<and> (\<exists>!b. 0 \<in> set (box tracked1 b))"
  using operations_one_owner [OF tracked1_reached [of True], of 0] tracked1_reached by (simp add: run_defs)

text \<open>The reader is removed between the tracking and the push: the worker stops, drains its empty queue and
  exits, the teardown finds nothing and returns.\<close>

lemma removed_meanwhile:
  obtains s where "oreach late 14 s" "wd_callers s = [0 \<mapsto> PubTracked 0 0]" "wd_loops s = [0 \<mapsto> LoopExited]"
    "wd_workers s = [0 \<mapsto> freshWorker\<lparr>rw_stop := True\<rparr>]" "om_workers (wd_om s) = Map.empty" "om_zombies (wd_om s) = []"
    "om_byId (wd_om s) = [1 \<mapsto> 0]" "om_senderToOps (wd_om s) = [''app'' \<mapsto> {1}]" "wd_live s = {0}"
proof -
  note st = oreach.step and r0 = tracked1_reached [of late]
  let ?rw = "freshWorker\<lparr>rw_stop := True\<rparr>"
  have "oreach late 7 (setCaller 1 (Some (RemTaken 0)) (onManager (\<lambda>m. m\<lparr>om_workers := (om_workers m)(5 := None)\<rparr>) tracked1))"
    (is "oreach late 7 ?s1")
    using st [OF r0 ostep.remove [of tracked1 1 5 0]] by (simp add: run_defs eval_nat_numeral)
  then have "oreach late 8 (setCaller 1 (Some (RemStopped 0)) (setWorker 0 (Some ?rw) ?s1))" (is "oreach late 8 ?s2")
    using st [OF _ ostep.remove_stop [of ?s1 1 0 freshWorker]] by (simp add: run_defs eval_nat_numeral)
  then have "oreach late 9 (setLoop 0 (Some LoopStopping) (setWorker 0 (Some ?rw) ?s2))" (is "oreach late 9 ?s3")
    using st [OF _ ostep.loop_pass [of ?s2 0 ?rw ActStop ?rw]] by (simp add: run_defs eval_nat_numeral)
  then have "oreach late 10 (setLoop 0 (Some (LoopDrain (Scrub [] None []))) (setWorker 0 (Some ?rw) ?s3))" (is "oreach late 10 ?s4")
    using st [OF _ ostep.loop_drain [of ?s3 0 ?rw]] by (simp add: run_defs eval_nat_numeral)
  then have "oreach late 11 (setLoop 0 (Some LoopExited) (deleteOps [] ?s4))" (is "oreach late 11 ?s5")
    using st [OF _ ostep.loop_exit [of ?s4 0 "[]"]] by (simp add: run_defs eval_nat_numeral)
  then have "oreach late 12 (setCaller 1 (Some (RemScrub 0 None (Scrub [] None []))) (setWorker 0 (Some ?rw) ?s5))" (is "oreach late 12 ?s6")
    using st [OF _ ostep.remove_drain [of ?s5 1 0 ?rw]] by (simp add: run_defs eval_nat_numeral)
  then have "oreach late 13 (setCaller 1 (Some (RemGrace 0 None)) (deleteOps [] ?s6))" (is "oreach late 13 ?s7")
    using st [OF _ ostep.remove_delete [of ?s6 1 0 None "[]"]] by (simp add: run_defs eval_nat_numeral)
  then have "oreach late 14 (setCaller 1 None ?s7)" (is "oreach late 14 ?s8")
    using st [OF _ ostep.remove_join [of ?s7 1 0 None ?rw]] by (simp add: run_defs eval_nat_numeral)
  then show thesis by (rule that) (simp_all add: run_defs fun_upd_twist)
qed

text \<open>C39. Nothing in \<^verbatim>\<open>publish\<close> looks at whether the worker it holds was stopped. When the reader goes between
  the tracking of an operation and its push, the operation lands on a worker that has run its last drain:
  it is never run and never finished, and with the last reference to the worker it is deleted while the
  table still points at it. The disconnect of its client then cancels a deleted operation.\<close>

theorem late_push_dangles:
  "\<exists>n s i r. oreach True n s \<and> i \<in> fst (takeSenderOps ''app'' (wd_om s)) \<and> om_byId (wd_om s) i = Some r \<and> r \<notin> wd_live s"
proof -
  obtain s where s: "oreach True 14 s" "wd_callers s = [0 \<mapsto> PubTracked 0 0]" "wd_loops s = [0 \<mapsto> LoopExited]"
    "wd_workers s = [0 \<mapsto> freshWorker\<lparr>rw_stop := True\<rparr>]" "om_workers (wd_om s) = Map.empty" "om_zombies (wd_om s) = []"
    "om_byId (wd_om s) = [1 \<mapsto> 0]" "om_senderToOps (wd_om s) = [''app'' \<mapsto> {1}]" "wd_live s = {0}"
    by (rule removed_meanwhile)
  let ?rw = "freshWorker\<lparr>rw_stop := True, rw_queue := [0]\<rparr>"
  note st = oreach.step
  have "oreach True 15 (setCaller 0 (Some (PubPushed 0)) (setWorker 0 (Some ?rw) s))" (is "oreach True 15 ?s1")
    using st [OF s(1) ostep.publish_push [of s 0 0 0 "freshWorker\<lparr>rw_stop := True\<rparr>"]] s by (simp add: pushOp_def freshWorker_def eval_nat_numeral)
  then have "oreach True 16 (setCaller 0 None ?s1)" (is "oreach True 16 ?s2")
    using st [OF _ ostep.publish_return [of ?s1 0 0]] by (simp add: eval_nat_numeral)
  then have "oreach True 17 (setWorker 0 None (deleteOps [0] ?s2))" (is "oreach True 17 ?s3")
    using st [OF _ ostep.destroy [of ?s2 0 ?rw]] s by (simp add: eval_nat_numeral)
  moreover have "1 \<in> fst (takeSenderOps ''app'' (wd_om ?s3)) \<and> om_byId (wd_om ?s3) 1 = Some 0 \<and> 0 \<notin> wd_live ?s3"
    using s by (simp add: takeSenderOps_def)
  ultimately show ?thesis by blast
qed

end
