(* ===== verification/OperationLife.thy ===== *)
theory OperationLife
  imports WireTypes
begin

text \<open>
  The life of one operation (\<^verbatim>\<open>operations/OperationBase.cpp\<close>): the worker that runs it, its phases, the watchdog
  timer a machine phase arms, cancels, the teardown that finishes a queued operation, and the terminal
  transition that \<^verbatim>\<open>std::call_once\<close> guards. Every access to a shared atomic is a step of the thread that does it,
  except where no other thread can tell; \<open>lstep t\<close> is one step of thread \<open>t\<close>. What the operation does on the card
  is left open: the worker may set any phase and finish with any verdict at any time.
\<close>

section \<open>State\<close>

definition phase_AwaitingConsent :: OperationPhase where "phase_AwaitingConsent = 2"
definition phase_Authenticating :: OperationPhase where "phase_Authenticating = 3"
definition phase_Reading :: OperationPhase where "phase_Reading = 4"
definition phase_Timestamping :: OperationPhase where "phase_Timestamping = 6"
definition phase_Done :: OperationPhase where "phase_Done = 7"

lemmas phase_defs = phase_AwaitingConsent_def phase_Authenticating_def phase_Reading_def phase_Timestamping_def phase_Done_def

definition status_Error :: OperationStatus where "status_Error = 2"
definition code_CardRemoved :: ErrorCode where "code_CardRemoved = 1"
definition code_CommunicationError :: ErrorCode where "code_CommunicationError = 4"
definition code_WatchdogTimeout :: ErrorCode where "code_WatchdogTimeout = 10"

text \<open>What a finish brings: status, error code, message key and fallback text.\<close>

type_synonym Verdict = "OperationStatus \<times> ErrorCode \<times> string \<times> string"

record OperationState =
  os_phase :: OperationPhase
  os_watchdogTimeoutSec :: u32
  os_cancelled :: bool
  os_completed :: bool
  os_terminalStatus :: OperationStatus
  os_terminalErrorCode :: ErrorCode

definition freshState :: "u32 \<Rightarrow> OperationState" where
  "freshState timeoutSec = \<lparr> os_phase = 0, os_watchdogTimeoutSec = timeoutSec, os_cancelled = False, os_completed = False,
     os_terminalStatus = 0, os_terminalErrorCode = 0 \<rparr>"

text \<open>The calls on the channel to the client and on the prompter, in order.\<close>

datatype Sent = SentChanged | SentFinished Verdict | SentPrompterCancel

datatype OnceFlag = OnceFree | OnceRunning nat | OnceDone

datatype FinishStage =
    FinEnter | FinBody | FinVerdict | FinSwapped OperationPhase | FinStatus | FinCode | FinCompleted | FinEmit | FinFlag | FinEnd

text \<open>Where a thread goes after a finish: back into \<^verbatim>\<open>doWork\<close>, out of \<^verbatim>\<open>runOnWorker\<close>, or away.\<close>

datatype After = ToWork | ToQuiesce | Leave

datatype OpThread =
    Working
  | PhaseSwapped OperationPhase OperationPhase
  | PhaseTimer OperationPhase
  | Disarming
  | Quiescing
  | Joining
  | TimerWait
  | TimerExpired
  | TimerLatched
  | Finishing FinishStage Verdict After

record OperationBase =
  op_state :: "OperationState option"
  op_channel :: bool
  op_prompterCancel :: bool
  op_shutdown :: bool
  op_cancelSource :: bool
  op_finishOnce :: OnceFlag
  op_finished :: bool
  op_watchdogArmed :: bool
  op_watchdogFired :: bool
  op_armAttempts :: u32
  op_watchdog :: "nat option"
  op_watchdogStop :: bool
  op_sent :: "Sent list"
  op_threads :: "nat \<rightharpoonup> OpThread"
  op_nextThread :: nat

section \<open>Operations\<close>

definition setOpThread :: "nat \<Rightarrow> OpThread option \<Rightarrow> OperationBase \<Rightarrow> OperationBase" where
  "setOpThread t x s = s\<lparr>op_threads := (op_threads s)(t := x)\<rparr>"

definition onState :: "(OperationState \<Rightarrow> OperationState) \<Rightarrow> OperationBase \<Rightarrow> OperationBase" where
  "onState f s = s\<lparr>op_state := map_option f (op_state s)\<rparr>"

definition send :: "Sent \<Rightarrow> OperationBase \<Rightarrow> OperationBase" where
  "send e s = s\<lparr>op_sent := op_sent s @ [e]\<rparr>"

definition phaseOf :: "OperationBase \<Rightarrow> OperationPhase" where
  "phaseOf s = (case op_state s of None \<Rightarrow> 0 | Some st \<Rightarrow> os_phase st)"

definition requestCancel :: "OperationBase \<Rightarrow> OperationBase" where
  "requestCancel s =
     (let s1 = (onState (\<lambda>st. st\<lparr>os_cancelled := True\<rparr>) s)\<lparr>op_cancelSource := True\<rparr>
      in if phaseOf s = phase_AwaitingConsent \<and> op_prompterCancel s then send SentPrompterCancel s1 else s1)"

definition requestShutdownCancel :: "OperationBase \<Rightarrow> OperationBase" where
  "requestShutdownCancel s = (onState (\<lambda>st. st\<lparr>os_cancelled := True\<rparr>) s)\<lparr>op_cancelSource := True\<rparr>"

text \<open>The exchange of \<^verbatim>\<open>setPhase\<close>, and the notice it sends when the phase changed.\<close>

definition swapPhase :: "OperationPhase \<Rightarrow> OperationBase \<Rightarrow> OperationBase" where
  "swapPhase phase = onState (\<lambda>st. st\<lparr>os_phase := phase\<rparr>)"

definition notePhase :: "OperationPhase \<Rightarrow> OperationPhase \<Rightarrow> OperationBase \<Rightarrow> OperationBase" where
  "notePhase previous phase s = (if op_state s \<noteq> None \<and> previous \<noteq> phase \<and> op_channel s then send SentChanged s else s)"

text \<open>\<open>made\<close> says whether the timer thread could be made.\<close>

definition armWatchdogIfNeeded :: "bool \<Rightarrow> OperationPhase \<Rightarrow> OperationBase \<Rightarrow> OperationBase" where
  "armWatchdogIfNeeded made newPhase s =
     (if newPhase \<noteq> phase_Authenticating \<and> newPhase \<noteq> phase_Reading then s
      else
        let s1 = s\<lparr>op_armAttempts := op_armAttempts s + 1\<rparr>
        in if op_watchdogArmed s then s1
           else
             let s2 = s1\<lparr>op_watchdogArmed := True\<rparr>;
                 timeoutSec = (case op_state s of None \<Rightarrow> 0 | Some st \<Rightarrow> os_watchdogTimeoutSec st)
             in if timeoutSec = 0 \<or> \<not> made then s2
                else setOpThread (op_nextThread s) (Some TimerWait)
                       (s2\<lparr>op_watchdog := Some (op_nextThread s), op_watchdogStop := False, op_nextThread := op_nextThread s + 1\<rparr>))"

text \<open>\<^verbatim>\<open>disarmWatchdog\<close> up to the join.\<close>

definition disarmWatchdog :: "OperationBase \<Rightarrow> OpThread \<times> OperationBase" where
  "disarmWatchdog s =
     (if \<not> op_watchdogArmed s then (Working, s)
      else
        let s1 = s\<lparr>op_watchdogArmed := False\<rparr>
        in if op_watchdog s = None then (Working, s1) else (Disarming, s1\<lparr>op_watchdogStop := True\<rparr>))"

definition stoppedOrFinished :: "OperationBase \<Rightarrow> bool" where
  "stoppedOrFinished s = (op_watchdogStop s \<or> op_finished s)"

definition watchdogVerdict :: Verdict where
  "watchdogVerdict = (status_Error, code_WatchdogTimeout, ''op.watchdog_timeout'', ''Operation exceeded the watchdog timeout'')"

definition cardRemovedVerdict :: Verdict where
  "cardRemovedVerdict = (status_Error, code_CardRemoved, ''op.card_removed'', ''Card removed'')"

definition internalVerdict :: "string \<Rightarrow> Verdict" where
  "internalVerdict what = (status_Error, code_CommunicationError, ''op.internal'', what)"

definition verdict :: "OperationBase \<Rightarrow> Verdict \<Rightarrow> Verdict" where
  "verdict s v = (if op_watchdogFired s then watchdogVerdict else v)"

definition emitFinished :: "Verdict \<Rightarrow> OperationBase \<Rightarrow> OperationBase" where
  "emitFinished v s = (if op_channel s \<and> \<not> op_shutdown s then send (SentFinished v) s else s)"

fun afterThread :: "After \<Rightarrow> OpThread option" where
  "afterThread ToWork = Some Working"
| "afterThread ToQuiesce = Some Quiescing"
| "afterThread Leave = None"

section \<open>Steps\<close>

text \<open>The body of \<^verbatim>\<open>finish\<close>, once the flag is taken: the step from each stage, the verdict it goes on with and the
  stage it leads to.\<close>

fun finishBody :: "FinishStage \<Rightarrow> Verdict \<Rightarrow> OperationBase \<Rightarrow> FinishStage \<times> Verdict \<times> OperationBase" where
  "finishBody FinBody v s = (FinVerdict, verdict s v, s)"
| "finishBody FinVerdict v s = (FinSwapped (phaseOf s), v, swapPhase phase_Done s)"
| "finishBody (FinSwapped previous) v s = (FinStatus, v, notePhase previous phase_Done s)"
| "finishBody FinStatus v s = (FinCode, v, onState (\<lambda>st. st\<lparr>os_terminalStatus := fst v\<rparr>) s)"
| "finishBody FinCode v s = (FinCompleted, v, onState (\<lambda>st. st\<lparr>os_terminalErrorCode := fst (snd v)\<rparr>) s)"
| "finishBody FinCompleted v s = (FinEmit, v, onState (\<lambda>st. st\<lparr>os_completed := True\<rparr>) s)"
| "finishBody FinEmit v s = (FinFlag, v, emitFinished v s)"
| "finishBody FinFlag v s = (FinEnd, v, s\<lparr>op_finished := True\<rparr>)"
| "finishBody stage v s = (stage, v, s)"

inductive lstep :: "nat \<Rightarrow> OperationBase \<Rightarrow> OperationBase \<Rightarrow> bool" where
  work_phase: "op_threads s 0 = Some Working \<Longrightarrow> op_state s \<noteq> None \<Longrightarrow>
    lstep 0 s (setOpThread 0 (Some (PhaseSwapped (phaseOf s) p)) (swapPhase p s))"
| phase_note: "op_threads s 0 = Some (PhaseSwapped previous p) \<Longrightarrow>
    lstep 0 s (setOpThread 0 (Some (if previous = p then Working else PhaseTimer p)) (notePhase previous p s))"
| phase_arm: "op_threads s 0 = Some (PhaseTimer p) \<Longrightarrow> p \<noteq> phase_AwaitingConsent \<Longrightarrow>
    lstep 0 s (setOpThread 0 (Some Working) (armWatchdogIfNeeded made p s))"
| phase_disarm: "op_threads s 0 = Some (PhaseTimer phase_AwaitingConsent) \<Longrightarrow> disarmWatchdog s = (x, s') \<Longrightarrow>
    lstep 0 s (setOpThread 0 (Some x) s')"
| disarm_join: "op_threads s 0 = Some Disarming \<Longrightarrow> op_watchdog s = Some t \<Longrightarrow> op_threads s t = None \<Longrightarrow>
    lstep 0 s (setOpThread 0 (Some Working) (s\<lparr>op_watchdog := None\<rparr>))"
| work_finish: "op_threads s 0 = Some Working \<Longrightarrow> lstep 0 s (setOpThread 0 (Some (Finishing FinEnter v ToWork)) s)"
| work_throws: "op_threads s 0 = Some Working \<Longrightarrow>
    lstep 0 s (setOpThread 0 (Some (Finishing FinEnter (internalVerdict what) ToQuiesce)) s)"
| work_done: "op_threads s 0 = Some Working \<Longrightarrow> lstep 0 s (setOpThread 0 (Some Quiescing) s)"
| quiesce: "op_threads s 0 = Some Quiescing \<Longrightarrow>
    lstep 0 s (if op_watchdog s = None then setOpThread 0 None s else setOpThread 0 (Some Joining) (s\<lparr>op_watchdogStop := True\<rparr>))"
| quiesce_join: "op_threads s 0 = Some Joining \<Longrightarrow> op_watchdog s = Some t \<Longrightarrow> op_threads s t = None \<Longrightarrow>
    lstep 0 s (setOpThread 0 None (s\<lparr>op_watchdog := None\<rparr>))"
| timer_wait: "op_threads s t = Some TimerWait \<Longrightarrow>
    lstep t s (setOpThread t (if stoppedOrFinished s then None else Some TimerExpired) s)"
| timer_latch: "op_threads s t = Some TimerExpired \<Longrightarrow> lstep t s (setOpThread t (Some TimerLatched) (s\<lparr>op_watchdogFired := True\<rparr>))"
| timer_cancel: "op_threads s t = Some TimerLatched \<Longrightarrow>
    lstep t s (setOpThread t (Some (Finishing FinEnter watchdogVerdict Leave)) (requestCancel s))"
| cancel: "op_threads s t = None \<Longrightarrow> lstep t s (requestCancel s)"
| card_removed: "t = op_nextThread s \<Longrightarrow>
    lstep t s (setOpThread t (Some (Finishing FinEnter cardRemovedVerdict Leave)) ((requestCancel s)\<lparr>op_nextThread := op_nextThread s + 1\<rparr>))"
| shutdown: "op_threads s t = None \<Longrightarrow> lstep t s (requestShutdownCancel (s\<lparr>op_shutdown := True\<rparr>))"
| finish_enter: "op_threads s t = Some (Finishing FinEnter v a) \<Longrightarrow> op_finishOnce s = OnceFree \<Longrightarrow>
    lstep t s (setOpThread t (Some (Finishing FinBody v a)) (s\<lparr>op_finishOnce := OnceRunning t\<rparr>))"
| finish_again: "op_threads s t = Some (Finishing FinEnter v a) \<Longrightarrow> op_finishOnce s = OnceDone \<Longrightarrow>
    lstep t s (setOpThread t (afterThread a) s)"
| finish_body: "op_threads s t = Some (Finishing stage v a) \<Longrightarrow> stage \<noteq> FinEnter \<Longrightarrow> stage \<noteq> FinEnd \<Longrightarrow>
    finishBody stage v s = (stage', v', s') \<Longrightarrow> lstep t s (setOpThread t (Some (Finishing stage' v' a)) s')"
| finish_end: "op_threads s t = Some (Finishing FinEnd v a) \<Longrightarrow>
    lstep t s (setOpThread t (afterThread a) (s\<lparr>op_finishOnce := OnceDone\<rparr>))"

text \<open>A new operation with the worker about to run it. Thread 0 is the worker.\<close>

definition lifeInit :: "OperationState option \<Rightarrow> bool \<Rightarrow> bool \<Rightarrow> OperationBase" where
  "lifeInit state channel prompterCancel =
     \<lparr> op_state = state, op_channel = channel, op_prompterCancel = prompterCancel, op_shutdown = False, op_cancelSource = False,
       op_finishOnce = OnceFree, op_finished = False, op_watchdogArmed = False, op_watchdogFired = False, op_armAttempts = 0,
       op_watchdog = None, op_watchdogStop = False, op_sent = [], op_threads = [0 \<mapsto> Working], op_nextThread = 1 \<rparr>"

inductive lreach :: "OperationBase \<Rightarrow> bool" where
  init: "state = None \<or> state = Some (freshState timeoutSec) \<Longrightarrow> lreach (lifeInit state channel prompterCancel)"
| step: "lreach s \<Longrightarrow> lstep t s s' \<Longrightarrow> lreach s'"

inductive lrun :: "OperationBase \<Rightarrow> OperationBase \<Rightarrow> bool" where
  refl: "lrun s s"
| step: "lrun s s' \<Longrightarrow> lstep t s' s'' \<Longrightarrow> lrun s s''"

definition finishedSent :: "OperationBase \<Rightarrow> Verdict list" where
  "finishedSent s = List.map_filter (\<lambda>e. case e of SentFinished v \<Rightarrow> Some v | _ \<Rightarrow> None) (op_sent s)"

end
