(* ===== verification/OperationLifeRuns.thy ===== *)
theory OperationLifeRuns
  imports OperationLife
begin

text \<open>
  Runs of one operation. It finishes once, what was sent is what the terminal properties say, the verdict of
  the watchdog stands once it is latched, and the joins on the timer never block for good. The phase does
  not stay done.
\<close>

section \<open>What each step touches\<close>

lemmas life_defs = setOpThread_def onState_def send_def swapPhase_def

definition mirrors :: "OperationBase \<Rightarrow> (bool \<times> OperationStatus \<times> ErrorCode) option" where
  "mirrors s = map_option (\<lambda>st. (os_completed st, os_terminalStatus st, os_terminalErrorCode st)) (op_state s)"

definition mirrorsAre :: "(bool \<Rightarrow> OperationStatus \<Rightarrow> ErrorCode \<Rightarrow> bool) \<Rightarrow> OperationBase \<Rightarrow> bool" where
  "mirrorsAre P s = (case mirrors s of None \<Rightarrow> True | Some (c, st, k) \<Rightarrow> P c st k)"

text \<open>Everything of the outcome is as before; a shutdown may have come.\<close>

definition sameOutcome :: "OperationBase \<Rightarrow> OperationBase \<Rightarrow> bool" where
  "sameOutcome s s' =
     (mirrors s' = mirrors s \<and> finishedSent s' = finishedSent s \<and> op_finished s' = op_finished s \<and> op_channel s' = op_channel s
      \<and> (op_shutdown s \<longrightarrow> op_shutdown s') \<and> op_finishOnce s' = op_finishOnce s)"

lemma sameOutcome_refl [simp]: "sameOutcome s s"
  by (simp add: sameOutcome_def)

lemma sameOutcome_trans: "sameOutcome s s1 \<Longrightarrow> sameOutcome s1 s2 \<Longrightarrow> sameOutcome s s2"
  by (simp add: sameOutcome_def)

lemma sameOutcome_ops [simp]:
  "sameOutcome s (setOpThread t x s') = sameOutcome s s'" "sameOutcome s (s'\<lparr>op_watchdog := w\<rparr>) = sameOutcome s s'"
  "sameOutcome s (s'\<lparr>op_watchdogStop := b\<rparr>) = sameOutcome s s'" "sameOutcome s (s'\<lparr>op_watchdogFired := b\<rparr>) = sameOutcome s s'"
  "sameOutcome s (s'\<lparr>op_watchdogArmed := b\<rparr>) = sameOutcome s s'" "sameOutcome s (s'\<lparr>op_nextThread := n\<rparr>) = sameOutcome s s'"
  "sameOutcome s (s'\<lparr>op_armAttempts := k\<rparr>) = sameOutcome s s'"
  by (simp_all add: sameOutcome_def life_defs mirrors_def finishedSent_def)

lemma map_filter_append: "List.map_filter f (xs @ ys) = List.map_filter f xs @ List.map_filter f ys"
  by (simp add: List.map_filter_def)

lemma sameOutcome_changes:
  "sameOutcome s (swapPhase p s)" "sameOutcome s (notePhase q p s)" "sameOutcome s (requestCancel s)"
  "sameOutcome s (requestShutdownCancel (s\<lparr>op_shutdown := True\<rparr>))" "sameOutcome s (armWatchdogIfNeeded made p s)"
  by (auto simp: sameOutcome_def life_defs mirrors_def finishedSent_def notePhase_def requestCancel_def requestShutdownCancel_def
      armWatchdogIfNeeded_def Let_def map_filter_append List.map_filter_simps option.map_comp o_def split: option.splits)

lemma sameOutcome_disarm: "disarmWatchdog s = (x, s') \<Longrightarrow> sameOutcome s s'"
  by (auto simp: disarmWatchdog_def Let_def split: if_splits)

lemma threads_of [simp]:
  "op_threads (setOpThread t x s) = (op_threads s)(t := x)" "op_threads (swapPhase p s) = op_threads s"
  "op_threads (notePhase q p s) = op_threads s" "op_threads (requestCancel s) = op_threads s"
  "op_threads (requestShutdownCancel s) = op_threads s" "op_threads (onState f s) = op_threads s" "op_threads (emitFinished v s) = op_threads s"
  by (simp_all add: life_defs notePhase_def requestCancel_def requestShutdownCancel_def emitFinished_def Let_def)

lemma disarm_threads: "disarmWatchdog s = (x, s') \<Longrightarrow> op_threads s' = op_threads s \<and> (x = Working \<or> x = Disarming)"
  by (auto simp: disarmWatchdog_def Let_def split: if_splits)

lemma arm_threads: "op_threads (armWatchdogIfNeeded made p s) = op_threads s \<or>
    op_threads (armWatchdogIfNeeded made p s) = (op_threads s)(op_nextThread s := Some TimerWait)"
  by (simp add: armWatchdogIfNeeded_def Let_def)

section \<open>The terminal transition\<close>

fun inBody :: "OpThread option \<Rightarrow> bool" where
  "inBody (Some (Finishing stage v a)) = (stage \<noteq> FinEnter)"
| "inBody _ = False"

definition undecided :: "OperationBase \<Rightarrow> bool" where
  "undecided s = (\<not> op_finished s \<and> finishedSent s = [] \<and> mirrorsAre (\<lambda>c st k. \<not> c) s)"

definition told :: "Verdict \<Rightarrow> OperationBase \<Rightarrow> bool" where
  "told v s = ((finishedSent s = [v] \<or> finishedSent s = [] \<and> (\<not> op_channel s \<or> op_shutdown s))
     \<and> mirrorsAre (\<lambda>c st k. c \<and> st = fst v \<and> k = fst (snd v)) s)"

fun stageInv :: "FinishStage \<Rightarrow> Verdict \<Rightarrow> OperationBase \<Rightarrow> bool" where
  "stageInv FinCode v s = (undecided s \<and> mirrorsAre (\<lambda>c st k. st = fst v) s)"
| "stageInv FinCompleted v s = (undecided s \<and> mirrorsAre (\<lambda>c st k. st = fst v \<and> k = fst (snd v)) s)"
| "stageInv FinEmit v s = (\<not> op_finished s \<and> finishedSent s = [] \<and> mirrorsAre (\<lambda>c st k. c \<and> st = fst v \<and> k = fst (snd v)) s)"
| "stageInv FinFlag v s = (\<not> op_finished s \<and> told v s)"
| "stageInv FinEnd v s = (op_finished s \<and> told v s)"
| "stageInv _ v s = undecided s"

fun onceInv :: "OnceFlag \<Rightarrow> OperationBase \<Rightarrow> bool" where
  "onceInv OnceFree s = undecided s"
| "onceInv (OnceRunning t) s = (\<exists>stage v a. op_threads s t = Some (Finishing stage v a) \<and> stageInv stage v s)"
| "onceInv OnceDone s = (\<exists>v. op_finished s \<and> told v s)"

definition lifeInv :: "OperationBase \<Rightarrow> bool" where
  "lifeInv s = ((\<forall>t. inBody (op_threads s t) \<longleftrightarrow> op_finishOnce s = OnceRunning t) \<and> onceInv (op_finishOnce s) s)"

lemma undecided_same: "sameOutcome s s' \<Longrightarrow> undecided s \<Longrightarrow> undecided s'"
  by (simp add: undecided_def sameOutcome_def mirrorsAre_def)

lemma told_same: "sameOutcome s s' \<Longrightarrow> told v s \<Longrightarrow> told v s'"
  by (auto simp: told_def sameOutcome_def mirrorsAre_def)

lemma stage_same:
  assumes same: "sameOutcome s s'" and inv: "stageInv stage v s"
  shows "stageInv stage v s'"
proof -
  have eq: "mirrors s' = mirrors s" "finishedSent s' = finishedSent s" "op_finished s' = op_finished s"
    using same by (simp_all add: sameOutcome_def)
  show ?thesis using inv undecided_same [OF same] told_same [OF same, of v] by (cases stage) (simp_all add: eq mirrorsAre_def)
qed

lemma life_keep:
  assumes inv: "lifeInv s" and same: "sameOutcome s s'"
    and th: "\<And>t. op_threads s' t = op_threads s t \<or> \<not> inBody (op_threads s t) \<and> \<not> inBody (op_threads s' t)"
  shows "lifeInv s'"
proof -
  have once: "op_finishOnce s' = op_finishOnce s" using same by (simp add: sameOutcome_def)
  have body: "inBody (op_threads s' t) = inBody (op_threads s t)" for t using th [of t] by auto
  have "onceInv (op_finishOnce s) s'"
  proof (cases "op_finishOnce s")
    case OnceFree
    then show ?thesis using inv undecided_same [OF same] by (simp add: lifeInv_def)
  next
    case (OnceRunning t)
    then obtain stage v a where x: "op_threads s t = Some (Finishing stage v a)" "stageInv stage v s" using inv by (auto simp: lifeInv_def)
    have "inBody (op_threads s t)" using inv OnceRunning by (simp add: lifeInv_def)
    then have "op_threads s' t = op_threads s t" using th [of t] by blast
    then show ?thesis using OnceRunning x stage_same [OF same x(2)] by auto
  next
    case OnceDone
    then obtain v where v: "op_finished s" "told v s" using inv by (auto simp: lifeInv_def)
    have "told v s'" "op_finished s'" using told_same [OF same v(2)] same v(1) by (simp_all add: sameOutcome_def)
    then show ?thesis unfolding OnceDone onceInv.simps by blast
  qed
  then show ?thesis using inv body once by (simp add: lifeInv_def)
qed

lemma finishBody_stage:
  assumes "finishBody stage v s = (stage', v', s')" "stageInv stage v s" "stage \<noteq> FinEnter" "stage \<noteq> FinEnd"
  shows "stageInv stage' v' s'" "stage' \<noteq> FinEnter" "op_finishOnce s' = op_finishOnce s" "op_threads s' = op_threads s"
proof -
  have "stageInv stage' v' s' \<and> stage' \<noteq> FinEnter \<and> op_finishOnce s' = op_finishOnce s \<and> op_threads s' = op_threads s"
  proof (cases stage)
    case FinVerdict
    then show ?thesis using assms undecided_same [OF sameOutcome_changes(1)] by (auto simp: life_defs)
  next
    case (FinSwapped previous)
    then show ?thesis using assms undecided_same [OF sameOutcome_changes(2)] by (auto simp: notePhase_def life_defs)
  next
    case FinEmit
    then show ?thesis using assms by (cases "op_channel s \<and> \<not> op_shutdown s") (auto simp: told_def mirrorsAre_def mirrors_def finishedSent_def send_def emitFinished_def
        map_filter_append List.map_filter_simps)
  qed (use assms in \<open>cases "op_state s"; auto simp: undecided_def told_def mirrorsAre_def mirrors_def finishedSent_def onState_def\<close>)+
  then show "stageInv stage' v' s'" "stage' \<noteq> FinEnter" "op_finishOnce s' = op_finishOnce s" "op_threads s' = op_threads s" by blast+
qed

lemma life_threads:
  assumes inv: "lifeInv s" and ch: "op_finishOnce s' = once'" "\<And>t'. t' \<noteq> t \<Longrightarrow> op_threads s' t' = op_threads s t'"
    and was: "op_finishOnce s = OnceFree \<or> op_finishOnce s = OnceRunning t"
    and now: "inBody (op_threads s' t) \<longleftrightarrow> once' = OnceRunning t" "once' = OnceRunning t \<or> once' = OnceDone" "onceInv once' s'"
  shows "lifeInv s'"
proof -
  have "\<not> inBody (op_threads s' t')" if "t' \<noteq> t" for t' using that inv was ch(2) by (auto simp: lifeInv_def)
  moreover have "once' \<noteq> OnceRunning t'" if "t' \<noteq> t" for t' using that now(2) by auto
  ultimately have "inBody (op_threads s' t') \<longleftrightarrow> once' = OnceRunning t'" for t' using now(1) by (cases "t' = t") auto
  then show ?thesis using now(3) ch(1) by (simp add: lifeInv_def)
qed

lemma not_body_after [simp]: "\<not> inBody (afterThread a)"
  by (cases a) simp_all

lemma running_stage:
  assumes "lifeInv s" "op_threads s t = Some (Finishing stage v a)" "stage \<noteq> FinEnter"
  shows "op_finishOnce s = OnceRunning t" "stageInv stage v s"
proof -
  have "inBody (op_threads s t)" using assms(2,3) by simp
  then show once: "op_finishOnce s = OnceRunning t" using assms(1) by (simp add: lifeInv_def)
  have "onceInv (OnceRunning t) s" using assms(1) once by (simp add: lifeInv_def)
  then show "stageInv stage v s" using assms(2) by auto
qed

text \<open>Every step outside the body of a finish leaves the outcome alone.\<close>

definition quiet :: "OperationBase \<Rightarrow> OperationBase \<Rightarrow> bool" where
  "quiet s s' = (sameOutcome s s' \<and> (op_watchdogFired s \<longrightarrow> op_watchdogFired s')
     \<and> (\<forall>t. op_threads s' t = op_threads s t \<or> \<not> inBody (op_threads s t) \<and> \<not> inBody (op_threads s' t)))"

lemma fired_of [simp]:
  "op_watchdogFired (setOpThread t x s) = op_watchdogFired s" "op_watchdogFired (swapPhase p s) = op_watchdogFired s"
  "op_watchdogFired (notePhase q p s) = op_watchdogFired s" "op_watchdogFired (requestCancel s) = op_watchdogFired s"
  "op_watchdogFired (requestShutdownCancel s) = op_watchdogFired s" "op_watchdogFired (armWatchdogIfNeeded made p s) = op_watchdogFired s"
  "op_watchdogFired (onState f s) = op_watchdogFired s" "op_watchdogFired (emitFinished v s) = op_watchdogFired s"
  by (simp_all add: life_defs notePhase_def requestCancel_def requestShutdownCancel_def emitFinished_def armWatchdogIfNeeded_def Let_def)

lemma quiet_step:
  assumes fresh: "op_threads s (op_nextThread s) = None" and st: "lstep t s s'"
  obtains "quiet s s'"
  | v a where "op_threads s t = Some (Finishing FinEnter v a)" "op_finishOnce s = OnceFree"
      "s' = setOpThread t (Some (Finishing FinBody v a)) (s\<lparr>op_finishOnce := OnceRunning t\<rparr>)"
  | stage v a stage1 v1 s1 where "op_threads s t = Some (Finishing stage v a)" "stage \<noteq> FinEnter" "stage \<noteq> FinEnd"
      "finishBody stage v s = (stage1, v1, s1)" "s' = setOpThread t (Some (Finishing stage1 v1 a)) s1"
  | v a where "op_threads s t = Some (Finishing FinEnd v a)" "s' = setOpThread t (afterThread a) (s\<lparr>op_finishOnce := OnceDone\<rparr>)"
  using st
proof cases
  case (phase_arm p made)
  then show thesis using fresh arm_threads [of made p s]
    by (intro that(1)) (auto simp: quiet_def sameOutcome_changes split: if_splits)
next
  case (phase_disarm x s1)
  have "op_watchdogFired s1 = op_watchdogFired s" using phase_disarm(4) by (auto simp: disarmWatchdog_def Let_def split: if_splits)
  then show thesis using disarm_threads [OF phase_disarm(4)] sameOutcome_disarm [OF phase_disarm(4)]
    by (intro that(1)) (auto simp: quiet_def phase_disarm(1,2,3))
next
  case (finish_enter v a)
  then show thesis by (intro that(2))
next
  case (finish_body stage v a stage1 v1 s1)
  then show thesis by (intro that(3))
next
  case (finish_end v a)
  then show thesis by (intro that(4))
qed (rule that(1), use fresh in \<open>simp add: quiet_def sameOutcome_changes\<close>)+

lemma life_step:
  assumes inv: "lifeInv s" and fresh: "op_threads s (op_nextThread s) = None" and st: "lstep t s s'"
  shows "lifeInv s'"
  using fresh st
proof (cases rule: quiet_step)
  case 1
  then show ?thesis by (intro life_keep [OF inv]) (auto simp: quiet_def)
next
  case (2 v a)
  have "undecided s" using inv 2(2) by (simp add: lifeInv_def)
  then have "undecided s'" by (simp add: 2(3) undecided_def mirrorsAre_def mirrors_def finishedSent_def life_defs)
  then show ?thesis using 2(2) by (intro life_threads [OF inv, of s' "OnceRunning t" t]) (simp_all add: 2(3) life_defs)
next
  case (3 stage v a stage1 v1 s1)
  note run = running_stage [OF inv 3(1,2)]
  note body = finishBody_stage [OF 3(4) run(2) 3(2,3)]
  have "sameOutcome s1 s'" by (simp add: 3(5))
  then have "stageInv stage1 v1 s'" using body(1) stage_same by blast
  then show ?thesis using run(1) body by (intro life_threads [OF inv, of s' "OnceRunning t" t]) (simp_all add: 3(5) life_defs)
next
  case (4 v a)
  note run = running_stage [OF inv 4(1)]
  then have "op_finished s'" "told v s'" by (simp_all add: 4(2) told_def mirrorsAre_def mirrors_def finishedSent_def life_defs)
  then have "onceInv OnceDone s'" unfolding onceInv.simps by blast
  then show ?thesis using run(1)
    by (intro life_threads [OF inv, of s' OnceDone t]) (simp_all add: 4(2) setOpThread_def del: onceInv.simps)
qed

section \<open>The timer\<close>

text \<open>A timer thread is the one the operation has a handle of; the handle is there only while the watchdog is
  armed or the worker is retiring it.\<close>

fun isTimer :: "OpThread option \<Rightarrow> bool" where
  "isTimer (Some TimerWait) = True"
| "isTimer (Some TimerExpired) = True"
| "isTimer (Some TimerLatched) = True"
| "isTimer _ = False"

fun workerOnly :: "OpThread \<Rightarrow> bool" where
  "workerOnly (Finishing stage v a) = (a \<noteq> Leave)"
| "workerOnly TimerWait = False"
| "workerOnly TimerExpired = False"
| "workerOnly TimerLatched = False"
| "workerOnly _ = True"

definition timerInv :: "OperationBase \<Rightarrow> bool" where
  "timerInv s =
     ((\<forall>t x. op_threads s t = Some x \<longrightarrow> t < op_nextThread s \<and> (workerOnly x \<longleftrightarrow> t = 0)) \<and> 0 < op_nextThread s
      \<and> (\<forall>t. isTimer (op_threads s t) \<longrightarrow> op_watchdog s = Some t)
      \<and> (\<forall>t. op_watchdog s = Some t \<longrightarrow> t \<noteq> 0 \<and> (op_watchdogArmed s \<or> op_threads s 0 = Some Disarming))
      \<and> (op_threads s 0 = Some Disarming \<or> op_threads s 0 = Some Joining \<longrightarrow> op_watchdog s \<noteq> None))"

lemma handle_of [simp]:
  "op_watchdog (setOpThread t x s) = op_watchdog s" "op_watchdogArmed (setOpThread t x s) = op_watchdogArmed s" "op_nextThread (setOpThread t x s) = op_nextThread s"
  "op_watchdog (onState f s) = op_watchdog s" "op_watchdogArmed (onState f s) = op_watchdogArmed s" "op_nextThread (onState f s) = op_nextThread s"
  "op_watchdog (swapPhase p s) = op_watchdog s" "op_watchdogArmed (swapPhase p s) = op_watchdogArmed s" "op_nextThread (swapPhase p s) = op_nextThread s"
  "op_watchdog (notePhase q p s) = op_watchdog s" "op_watchdogArmed (notePhase q p s) = op_watchdogArmed s" "op_nextThread (notePhase q p s) = op_nextThread s"
  "op_watchdog (requestCancel s) = op_watchdog s" "op_watchdogArmed (requestCancel s) = op_watchdogArmed s" "op_nextThread (requestCancel s) = op_nextThread s"
  "op_watchdog (emitFinished v s) = op_watchdog s" "op_watchdogArmed (emitFinished v s) = op_watchdogArmed s" "op_nextThread (emitFinished v s) = op_nextThread s"
  "op_watchdog (requestShutdownCancel s) = op_watchdog s" "op_watchdogArmed (requestShutdownCancel s) = op_watchdogArmed s"
  "op_nextThread (requestShutdownCancel s) = op_nextThread s"
  by (simp_all add: life_defs notePhase_def requestCancel_def requestShutdownCancel_def emitFinished_def Let_def)

lemma timerInvD:
  assumes "timerInv s"
  shows "op_threads s t = Some x \<Longrightarrow> t < op_nextThread s" "op_threads s t = Some x \<Longrightarrow> workerOnly x \<longleftrightarrow> t = 0" "0 < op_nextThread s"
    "isTimer (op_threads s t) \<Longrightarrow> op_watchdog s = Some t"
    "op_watchdog s = Some t \<Longrightarrow> t \<noteq> 0 \<and> (op_watchdogArmed s \<or> op_threads s 0 = Some Disarming)"
    "op_threads s 0 = Some Disarming \<or> op_threads s 0 = Some Joining \<Longrightarrow> op_watchdog s \<noteq> None"
  using assms unfolding timerInv_def by blast+

lemma timer_fresh: "timerInv s \<Longrightarrow> \<forall>t \<ge> op_nextThread s. op_threads s t = None"
  using timerInvD(1) by (metis leD not_None_eq)

text \<open>A step that changes only its own thread, keeping its part, and no handle.\<close>

lemma timer_keep:
  assumes inv: "timerInv s" and th: "op_threads s' = (op_threads s)(t := y)" and x: "op_threads s t = Some x"
    and eq: "op_watchdog s' = op_watchdog s" "op_watchdogArmed s' = op_watchdogArmed s" "op_nextThread s' = op_nextThread s"
    and y: "\<And>y'. y = Some y' \<Longrightarrow> workerOnly y' = workerOnly x" "isTimer y \<Longrightarrow> isTimer (Some x)" "x \<noteq> Disarming"
    "y \<noteq> Some Disarming" "y = Some Joining \<Longrightarrow> op_watchdog s \<noteq> None"
  shows "timerInv s'"
  unfolding timerInv_def
proof (intro conjI allI impI)
  show "t' < op_nextThread s'" "workerOnly z \<longleftrightarrow> t' = 0" if "op_threads s' t' = Some z" for t' z
    using that timerInvD(1,2) [OF inv, of t'] timerInvD(1,2) [OF inv x] y(1) th eq by (auto split: if_splits)
  show "0 < op_nextThread s'" using timerInvD(3) [OF inv] eq by simp
  show "op_watchdog s' = Some t'" if "isTimer (op_threads s' t')" for t'
    using that timerInvD(4) [OF inv, of t'] x y(2) th eq by (auto split: if_splits)
  show "t' \<noteq> 0" "op_watchdogArmed s' \<or> op_threads s' 0 = Some Disarming" if "op_watchdog s' = Some t'" for t'
    using that timerInvD(5) [OF inv, of t'] x y(3) th eq by auto
  show "op_watchdog s' \<noteq> None" if "op_threads s' 0 = Some Disarming \<or> op_threads s' 0 = Some Joining"
    using that timerInvD(6) [OF inv] y(4,5) th eq by (auto split: if_splits)
qed

lemma timer_same:
  assumes "timerInv s" "op_threads s' = op_threads s" "op_watchdog s' = op_watchdog s" "op_watchdogArmed s' = op_watchdogArmed s"
    "op_nextThread s' = op_nextThread s"
  shows "timerInv s'"
  using assms by (simp add: timerInv_def)

text \<open>A timer that is armed had no other before it.\<close>

lemma timer_arm:
  assumes inv: "timerInv s" and w: "op_threads s 0 = Some (PhaseTimer p)"
  shows "timerInv (setOpThread 0 (Some Working) (armWatchdogIfNeeded made q s))" (is "timerInv ?s")
proof (cases "(q = phase_Authenticating \<or> q = phase_Reading) \<and> \<not> op_watchdogArmed s \<and> made
    \<and> (case op_state s of None \<Rightarrow> 0 | Some st \<Rightarrow> os_watchdogTimeoutSec st) \<noteq> 0")
  case True
  let ?n = "op_nextThread s"
  have none: "op_watchdog s = None" using timerInvD(5) [OF inv] True w by fastforce
  have s': "op_threads ?s = (op_threads s)(?n \<mapsto> TimerWait, 0 \<mapsto> Working)" "op_watchdog ?s = Some ?n" "op_watchdogArmed ?s"
    "op_nextThread ?s = ?n + 1"
    using True by (auto simp: armWatchdogIfNeeded_def Let_def)
  have no: "\<not> isTimer (op_threads s t)" for t using timerInvD(4) [OF inv, of t] none by auto
  show ?thesis unfolding timerInv_def s'
    using no timerInvD(1,2) [OF inv] timerInvD(3) [OF inv] s'(3) by (auto split: if_splits intro: less_SucI)
next
  case False
  have "op_watchdog (armWatchdogIfNeeded made q s) = op_watchdog s" "op_nextThread (armWatchdogIfNeeded made q s) = op_nextThread s"
    "op_threads (armWatchdogIfNeeded made q s) = op_threads s" "op_watchdogArmed s \<Longrightarrow> op_watchdogArmed (armWatchdogIfNeeded made q s)"
    using False by (auto simp: armWatchdogIfNeeded_def Let_def)
  then show ?thesis using timerInvD(1,2) [OF inv] timerInvD(3,4,5,6) [OF inv] w
    by (auto simp: timerInv_def split: if_splits)
qed

lemma timer_disarm:
  assumes inv: "timerInv s" and w: "op_threads s 0 = Some (PhaseTimer p)" and d: "disarmWatchdog s = (x, s1)"
  shows "timerInv (setOpThread 0 (Some x) s1)"
  using timerInvD(1,2) [OF inv] timerInvD(3,4,5,6) [OF inv] w d
  by (cases "op_watchdog s") (auto simp: timerInv_def disarmWatchdog_def Let_def split: if_splits)

lemma timer_join:
  assumes inv: "timerInv s" and w: "op_threads s 0 = Some x" "op_watchdog s = Some t" "op_threads s t = None" "y = None \<or> y = Some Working"
  shows "timerInv (setOpThread 0 y (s\<lparr>op_watchdog := None\<rparr>))"
proof -
  have "\<not> isTimer (op_threads s t')" for t' using timerInvD(4) [OF inv, of t'] w(2,3) by auto
  moreover have "\<not> isTimer y" using w(4) by auto
  ultimately show ?thesis using timerInvD(1,2) [OF inv] timerInvD(3) [OF inv] w(1,4) by (auto simp: timerInv_def)
qed

lemma finishBody_handle:
  assumes "finishBody stage v s = (stage', v', s')"
  shows "op_threads s' = op_threads s" "op_watchdog s' = op_watchdog s" "op_watchdogArmed s' = op_watchdogArmed s" "op_nextThread s' = op_nextThread s"
  using assms by (cases stage; auto)+

lemma timer_step:
  assumes inv: "timerInv s" and st: "lstep t s s'"
  shows "timerInv s'"
  using st
proof cases
  case (work_phase p)
  show ?thesis by (rule timer_keep [OF inv, of s' 0 "Some (PhaseSwapped (phaseOf s) p)" Working]) (simp_all add: work_phase)
next
  case (phase_note previous p)
  show ?thesis by (rule timer_keep [OF inv, of s' 0 "Some (if previous = p then Working else PhaseTimer p)" "PhaseSwapped previous p"])
    (cases "previous = p"; simp add: phase_note)+
next
  case (phase_arm p made)
  show ?thesis unfolding phase_arm(2) by (rule timer_arm [OF inv phase_arm(3)])
next
  case (phase_disarm x s1)
  show ?thesis unfolding phase_disarm(2) by (rule timer_disarm [OF inv phase_disarm(3,4)])
next
  case (disarm_join t1)
  show ?thesis unfolding disarm_join(2) by (rule timer_join [OF inv disarm_join(3-5)]) simp
next
  case (work_finish v)
  show ?thesis by (rule timer_keep [OF inv, of s' 0 "Some (Finishing FinEnter v ToWork)" Working]) (simp_all add: work_finish)
next
  case (work_throws what)
  show ?thesis by (rule timer_keep [OF inv, of s' 0 "Some (Finishing FinEnter (internalVerdict what) ToQuiesce)" Working])
    (simp_all add: work_throws)
next
  case work_done
  show ?thesis by (rule timer_keep [OF inv, of s' 0 "Some Quiescing" Working]) (simp_all add: work_done)
next
  case quiesce
  show ?thesis by (rule timer_keep [OF inv, of s' 0 "if op_watchdog s = None then None else Some Joining" Quiescing])
    (auto simp: quiesce split: if_splits)
next
  case (quiesce_join t1)
  show ?thesis unfolding quiesce_join(2) by (rule timer_join [OF inv quiesce_join(3-5)]) simp
next
  case timer_wait
  show ?thesis by (rule timer_keep [OF inv, of s' t "if stoppedOrFinished s then None else Some TimerExpired" TimerWait])
    (auto simp: timer_wait split: if_splits)
next
  case timer_latch
  show ?thesis by (rule timer_keep [OF inv, of s' t "Some TimerLatched" TimerExpired]) (simp_all add: timer_latch)
next
  case timer_cancel
  show ?thesis by (rule timer_keep [OF inv, of s' t "Some (Finishing FinEnter watchdogVerdict Leave)" TimerLatched])
    (simp_all add: timer_cancel)
next
  case cancel
  show ?thesis by (rule timer_same [OF inv]) (simp_all add: cancel)
next
  case card_removed
  have "op_threads s (op_nextThread s) = None" using timer_fresh [OF inv] by blast
  then show ?thesis using timerInvD(1,2) [OF inv] timerInvD(3,4,5,6) [OF inv]
    by (auto simp: timerInv_def card_removed intro: less_SucI split: if_splits)
next
  case shutdown
  show ?thesis by (rule timer_same [OF inv]) (simp_all add: shutdown)
next
  case (finish_enter v a)
  show ?thesis by (rule timer_keep [OF inv, of s' t "Some (Finishing FinBody v a)" "Finishing FinEnter v a"]) (simp_all add: finish_enter)
next
  case (finish_again v a)
  show ?thesis by (rule timer_keep [OF inv, of s' t "afterThread a" "Finishing FinEnter v a"], simp_all add: finish_again; cases a; simp)
next
  case (finish_body stage v a stage1 v1 s1)
  show ?thesis by (rule timer_keep [OF inv, of s' t "Some (Finishing stage1 v1 a)" "Finishing stage v a"])
    (simp_all add: finish_body(1,2) finishBody_handle [OF finish_body(5)])
next
  case (finish_end v a)
  show ?thesis by (rule timer_keep [OF inv, of s' t "afterThread a" "Finishing FinEnd v a"], simp_all add: finish_end; cases a; simp)
qed

section \<open>Runs\<close>

lemma reach_inv: "lreach s \<Longrightarrow> lifeInv s \<and> timerInv s"
proof (induction rule: lreach.induct)
  case (init state timeoutSec channel prompterCancel)
  then show ?case by (auto simp: lifeInit_def lifeInv_def timerInv_def undecided_def mirrorsAre_def mirrors_def finishedSent_def freshState_def
      List.map_filter_simps)
next
  case (step s t s')
  then show ?case using life_step timer_step timer_fresh by (metis order_refl)
qed

lemma reach_run: "lrun s s' \<Longrightarrow> lreach s \<Longrightarrow> lreach s'"
  by (induction rule: lrun.induct) (auto intro: lreach.step)

lemma outcome_cases:
  assumes "lifeInv s"
  obtains "undecided s" | v :: Verdict where "op_finishOnce s \<noteq> OnceFree" "finishedSent s = []" "\<not> op_finished s"
      "mirrorsAre (\<lambda>c st k. c \<and> st = fst v \<and> k = fst (snd v)) s"
  | v where "told v s"
proof (cases "op_finishOnce s")
  case OnceFree
  then show thesis using assms that(1) by (simp add: lifeInv_def)
next
  case (OnceRunning t)
  then obtain stage v a where x: "stageInv stage v s" using assms by (auto simp: lifeInv_def)
  then show thesis
  proof (cases stage)
    case FinEmit
    then show thesis using x OnceRunning by (intro that(2) [of v]) simp_all
  next
    case FinFlag
    then show thesis using x by (intro that(3) [of v]) simp
  next
    case FinEnd
    then show thesis using x by (intro that(3) [of v]) simp
  qed (use x that(1) in simp_all)
next
  case OnceDone
  then obtain v where "told v s" using assms unfolding lifeInv_def by auto
  then show thesis by (rule that(3))
qed

text \<open>C11. An operation finishes once. Whatever the worker, the watchdog, cancels, a teardown and a shutdown do in
  whatever order, the client is told at most one outcome; once the operation counts as finished it was told
  one, unless a shutdown came or there is no channel; and the terminal properties, complete from before the
  outcome is sent, say the same.\<close>

theorem finished_once:
  assumes "lreach s"
  shows "length (finishedSent s) \<le> 1 \<and> (op_finished s \<and> op_channel s \<and> \<not> op_shutdown s \<longrightarrow> length (finishedSent s) = 1)
     \<and> (\<forall>st. op_state s = Some st \<and> op_finished s \<longrightarrow> os_completed st)
     \<and> (\<forall>st v. op_state s = Some st \<and> v \<in> set (finishedSent s) \<longrightarrow>
          os_completed st \<and> os_terminalStatus st = fst v \<and> os_terminalErrorCode st = fst (snd v))"
proof -
  have "lifeInv s" using reach_inv [OF assms] by blast
  then show ?thesis
  proof (cases rule: outcome_cases)
    case 1
    then show ?thesis by (simp add: undecided_def)
  next
    case (2 v)
    then show ?thesis by simp
  next
    case (3 v)
    then have sent: "finishedSent s = [v] \<or> finishedSent s = [] \<and> (\<not> op_channel s \<or> op_shutdown s)"
      and m: "mirrorsAre (\<lambda>c st k. c \<and> st = fst v \<and> k = fst (snd v)) s" by (simp_all add: told_def)
    have "os_completed st \<and> os_terminalStatus st = fst v \<and> os_terminalErrorCode st = fst (snd v)" if "op_state s = Some st" for st
      using m that by (simp add: mirrorsAre_def mirrors_def)
    then show ?thesis using sent by auto
  qed
qed

text \<open>The verdict of the watchdog, from the latch on.\<close>

definition latchInv :: "OperationBase \<Rightarrow> bool" where
  "latchInv s =
     (op_watchdogFired s \<and>
      (case op_finishOnce s of
         OnceFree \<Rightarrow> True
       | OnceRunning t \<Rightarrow> (\<forall>stage v a. op_threads s t = Some (Finishing stage v a) \<longrightarrow> stage = FinBody \<or> v = watchdogVerdict)
       | OnceDone \<Rightarrow> told watchdogVerdict s))"

lemma latchInvD:
  assumes "latchInv s" "op_finishOnce s = OnceRunning t" "op_threads s t = Some (Finishing stage v a)"
  shows "stage = FinBody \<or> v = watchdogVerdict"
  using assms by (simp add: latchInv_def del: split_paired_All)

lemma finishBody_fired:
  "finishBody stage v s = (stage', v', s') \<Longrightarrow> op_watchdogFired s' = op_watchdogFired s"
  by (cases stage) auto

lemma finishBody_verdict:
  assumes "finishBody stage v s = (stage', v', s')" "stage \<noteq> FinEnter" "stage \<noteq> FinEnd" "op_watchdogFired s" "stage = FinBody \<or> v = watchdogVerdict"
  shows "v' = watchdogVerdict"
  using assms by (cases stage) (auto simp: verdict_def)

lemma latch_step:
  assumes inv: "latchInv s" and life: "lifeInv s" and fresh: "op_threads s (op_nextThread s) = None" and st: "lstep t s s'"
  shows "latchInv s'"
  using fresh st
proof (cases rule: quiet_step)
  case 1
  then have q: "sameOutcome s s'" "op_watchdogFired s'" "op_finishOnce s' = op_finishOnce s" using inv by (simp_all add: quiet_def latchInv_def sameOutcome_def)
  show ?thesis
  proof (cases "op_finishOnce s")
    case (OnceRunning t1)
    then have "inBody (op_threads s t1)" using life by (simp add: lifeInv_def)
    then have "op_threads s' t1 = op_threads s t1" using 1 unfolding quiet_def by blast
    then show ?thesis using inv q OnceRunning by (simp add: latchInv_def)
  qed (use inv q told_same [OF q(1)] in \<open>simp_all add: latchInv_def\<close>)
next
  case (2 v a)
  then show ?thesis using inv by (simp add: latchInv_def setOpThread_def)
next
  case (3 stage v a stage1 v1 s1)
  note run = running_stage [OF life 3(1,2)]
  have once: "op_finishOnce s1 = OnceRunning t" using finishBody_stage(3) [OF 3(4) run(2) 3(2,3)] run(1) by simp
  have f: "op_watchdogFired s" using inv by (simp add: latchInv_def)
  have "stage = FinBody \<or> v = watchdogVerdict" by (rule latchInvD [OF inv run(1) 3(1)])
  then have "v1 = watchdogVerdict" by (rule finishBody_verdict [OF 3(4,2,3) f])
  then show ?thesis using once f finishBody_fired [OF 3(4)] by (simp add: latchInv_def 3(5) setOpThread_def)
next
  case (4 v a)
  note run = running_stage [OF life 4(1)]
  have "v = watchdogVerdict" using latchInvD [OF inv run(1) 4(1)] by simp
  then have "told watchdogVerdict s'" using run(2) by (simp add: 4(2) told_def mirrorsAre_def mirrors_def finishedSent_def life_defs)
  then show ?thesis using inv by (simp add: latchInv_def 4(2) setOpThread_def)
qed

lemma latched_mirrors:
  assumes "latchInv s" "lifeInv s" "\<not> undecided s"
  shows "mirrorsAre (\<lambda>c st k. c \<and> st = fst watchdogVerdict \<and> k = fst (snd watchdogVerdict)) s"
proof (cases "op_finishOnce s")
  case OnceFree
  then show ?thesis using assms by (simp add: lifeInv_def)
next
  case (OnceRunning t)
  then obtain stage v a where x: "op_threads s t = Some (Finishing stage v a)" "stageInv stage v s" using assms(2) by (auto simp: lifeInv_def)
  then have "stage = FinBody \<or> v = watchdogVerdict" using latchInvD [OF assms(1) OnceRunning] by blast
  then show ?thesis using x(2) assms(3) by (cases stage) (auto simp: told_def)
next
  case OnceDone
  then show ?thesis using assms(1) by (simp add: latchInv_def told_def)
qed

text \<open>C16. A timeout is reported as a timeout. From the moment the watchdog latches its decision on an operation no
  one has begun to finish, every outcome the operation can come to is the timeout, whichever thread finishes
  it and whatever verdict that thread brings.\<close>

theorem watchdog_verdict_final:
  assumes "lreach s" "op_watchdogFired s" "op_finishOnce s = OnceFree" "lrun s s'" "op_state s' = Some st" "os_completed st"
  shows "os_terminalStatus st = status_Error \<and> os_terminalErrorCode st = code_WatchdogTimeout"
proof -
  have "latchInv s'"
    using assms(4,1,2,3)
  proof (induction rule: lrun.induct)
    case (refl s)
    then show ?case by (simp add: latchInv_def)
  next
    case (step s s1 t s2)
    have "lreach s1" using reach_run [OF step.hyps(1) step.prems(1)] .
    then have "lifeInv s1" "op_threads s1 (op_nextThread s1) = None" using reach_inv timer_fresh by (blast, metis order_refl)
    then show ?case using latch_step [OF step.IH [OF step.prems]] step.hyps(2) by blast
  qed
  moreover have life: "lifeInv s'" using reach_inv reach_run [OF assms(4,1)] by blast
  moreover have "\<not> undecided s'" using assms(5,6) by (simp add: undecided_def mirrorsAre_def mirrors_def)
  ultimately have "mirrorsAre (\<lambda>c st k. c \<and> st = fst watchdogVerdict \<and> k = fst (snd watchdogVerdict)) s'"
    by (rule latched_mirrors)
  then show ?thesis using assms(5) by (simp add: mirrorsAre_def mirrors_def watchdogVerdict_def)
qed




section \<open>A phase after the last one\<close>

text \<open>A read the watchdog has just given up on, and the same operation once the timer has finished it.\<close>

definition latched :: OperationBase where
  "latched = (lifeInit (Some (freshState 60)) True True)
     \<lparr>op_state := Some ((freshState 60)\<lparr>os_phase := phase_Reading\<rparr>), op_watchdogArmed := True, op_watchdogFired := True, op_armAttempts := 1,
      op_watchdog := Some 1, op_sent := [SentChanged], op_threads := [0 \<mapsto> Working, 1 \<mapsto> TimerLatched], op_nextThread := Suc 1\<rparr>"

definition timedOut :: OperationBase where
  "timedOut = latched
     \<lparr>op_state := Some \<lparr> os_phase = phase_Done, os_watchdogTimeoutSec = 60, os_cancelled = True, os_completed = True,
        os_terminalStatus = status_Error, os_terminalErrorCode = code_WatchdogTimeout \<rparr>,
      op_cancelSource := True, op_finishOnce := OnceDone, op_finished := True,
      op_sent := [SentChanged, SentChanged, SentFinished watchdogVerdict], op_threads := [0 \<mapsto> Working]\<rparr>"

lemmas late_defs = latched_def lifeInit_def freshState_def life_defs phaseOf_def notePhase_def requestCancel_def emitFinished_def
  verdict_def watchdogVerdict_def armWatchdogIfNeeded_def phase_defs stoppedOrFinished_def Let_def

lemma latched_reached: "lreach latched"
proof -
  note r = lreach.step
  let ?s0 = "lifeInit (Some (freshState 60)) True True"
  have "lreach ?s0" by (rule lreach.init) simp
  then have "lreach (setOpThread 0 (Some (PhaseSwapped 0 4)) (swapPhase 4 ?s0))" (is "lreach ?s1")
    using r [OF _ lstep.work_phase [of ?s0 4]] by (simp add: late_defs)
  then have "lreach (setOpThread 0 (Some (PhaseTimer 4)) (notePhase 0 4 ?s1))" (is "lreach ?s2")
    using r [OF _ lstep.phase_note [of ?s1 0 4]] by (simp add: late_defs)
  then have "lreach (setOpThread 0 (Some Working) (armWatchdogIfNeeded True 4 ?s2))" (is "lreach ?s3")
    using r [OF _ lstep.phase_arm [of ?s2 4 True]] by (simp add: late_defs)
  then have "lreach (setOpThread 1 (Some TimerExpired) ?s3)" (is "lreach ?s4")
    using r [OF _ lstep.timer_wait [of ?s3 1]] by (simp add: late_defs)
  then have "lreach (setOpThread 1 (Some TimerLatched) (?s4\<lparr>op_watchdogFired := True\<rparr>))"
    using r [OF _ lstep.timer_latch [of ?s4 1]] by (simp add: late_defs)
  then show ?thesis by (simp add: late_defs fun_upd_twist)
qed

lemma timedOut_reached: "lrun latched timedOut"
proof -
  note r = lrun.step
  have "lrun latched (setOpThread 1 (Some (Finishing FinEnter watchdogVerdict Leave)) (requestCancel latched))" (is "lrun _ ?s1")
    using r [OF lrun.refl lstep.timer_cancel [of latched 1]] by (simp add: late_defs)
  then have "lrun latched (setOpThread 1 (Some (Finishing FinBody watchdogVerdict Leave)) (?s1\<lparr>op_finishOnce := OnceRunning 1\<rparr>))" (is "lrun _ ?s2")
    using r [OF _ lstep.finish_enter [of ?s1 1 watchdogVerdict Leave]] by (simp add: late_defs)
  then have "lrun latched (setOpThread 1 (Some (Finishing FinVerdict watchdogVerdict Leave)) ?s2)" (is "lrun _ ?s3")
    using r [OF _ lstep.finish_body [of ?s2 1 FinBody watchdogVerdict Leave FinVerdict watchdogVerdict "?s2"]] by (simp add: late_defs)
  then have "lrun latched (setOpThread 1 (Some (Finishing (FinSwapped 4) watchdogVerdict Leave)) (swapPhase phase_Done ?s3))" (is "lrun _ ?s4")
    using r [OF _ lstep.finish_body [of ?s3 1 FinVerdict watchdogVerdict Leave "FinSwapped 4" watchdogVerdict "(swapPhase phase_Done ?s3)"]] by (simp add: late_defs)
  then have "lrun latched (setOpThread 1 (Some (Finishing FinStatus watchdogVerdict Leave)) (notePhase 4 phase_Done ?s4))" (is "lrun _ ?s5")
    using r [OF _ lstep.finish_body [of ?s4 1 "FinSwapped 4" watchdogVerdict Leave FinStatus watchdogVerdict "(notePhase 4 phase_Done ?s4)"]] by (simp add: late_defs)
  then have "lrun latched (setOpThread 1 (Some (Finishing FinCode watchdogVerdict Leave)) (onState (\<lambda>st. st\<lparr>os_terminalStatus := status_Error\<rparr>) ?s5))" (is "lrun _ ?s6")
    using r [OF _ lstep.finish_body [of ?s5 1 FinStatus watchdogVerdict Leave FinCode watchdogVerdict "(onState (\<lambda>st. st\<lparr>os_terminalStatus := status_Error\<rparr>) ?s5)"]] by (simp add: late_defs)
  then have "lrun latched (setOpThread 1 (Some (Finishing FinCompleted watchdogVerdict Leave)) (onState (\<lambda>st. st\<lparr>os_terminalErrorCode := code_WatchdogTimeout\<rparr>) ?s6))" (is "lrun _ ?s7")
    using r [OF _ lstep.finish_body [of ?s6 1 FinCode watchdogVerdict Leave FinCompleted watchdogVerdict "(onState (\<lambda>st. st\<lparr>os_terminalErrorCode := code_WatchdogTimeout\<rparr>) ?s6)"]] by (simp add: late_defs)
  then have "lrun latched (setOpThread 1 (Some (Finishing FinEmit watchdogVerdict Leave)) (onState (\<lambda>st. st\<lparr>os_completed := True\<rparr>) ?s7))" (is "lrun _ ?s8")
    using r [OF _ lstep.finish_body [of ?s7 1 FinCompleted watchdogVerdict Leave FinEmit watchdogVerdict "(onState (\<lambda>st. st\<lparr>os_completed := True\<rparr>) ?s7)"]] by (simp add: late_defs)
  then have "lrun latched (setOpThread 1 (Some (Finishing FinFlag watchdogVerdict Leave)) (emitFinished watchdogVerdict ?s8))" (is "lrun _ ?s9")
    using r [OF _ lstep.finish_body [of ?s8 1 FinEmit watchdogVerdict Leave FinFlag watchdogVerdict "(emitFinished watchdogVerdict ?s8)"]] by (simp add: late_defs)
  then have "lrun latched (setOpThread 1 (Some (Finishing FinEnd watchdogVerdict Leave)) (?s9\<lparr>op_finished := True\<rparr>))" (is "lrun _ ?s10")
    using r [OF _ lstep.finish_body [of ?s9 1 FinFlag watchdogVerdict Leave FinEnd watchdogVerdict "(?s9\<lparr>op_finished := True\<rparr>)"]] by (simp add: late_defs)
  then have "lrun latched (setOpThread 1 None (?s10\<lparr>op_finishOnce := OnceDone\<rparr>))"
    using r [OF _ lstep.finish_end [of ?s10 1 watchdogVerdict Leave]] by (simp add: late_defs)
  then show ?thesis by (simp add: late_defs timedOut_def)
qed


theorem finished_once_witness: "lreach timedOut \<and> length (finishedSent timedOut) = 1"
  using finished_once [OF reach_run [OF timedOut_reached latched_reached]] reach_run [OF timedOut_reached latched_reached]
  by (simp add: timedOut_def latched_def lifeInit_def)

theorem watchdog_verdict_final_witness:
  "\<exists>st. lreach latched \<and> lrun latched timedOut \<and> op_state timedOut = Some st \<and> os_completed st \<and> os_terminalErrorCode st = code_WatchdogTimeout"
proof -
  obtain st where st: "op_state timedOut = Some st" "os_completed st" by (simp add: timedOut_def)
  have "op_watchdogFired latched" "op_finishOnce latched = OnceFree" by (simp_all add: latched_def lifeInit_def)
  then show ?thesis using watchdog_verdict_final [OF latched_reached _ _ timedOut_reached st] latched_reached timedOut_reached st by blast
qed


end
