(* ===== verification/Spec2Isabelle.thy ===== *)
theory Spec2Isabelle
  imports ClientLaws FramingLaws BrokerLaws DerLaws ObjectLaws CryptokiRuns RemovalRuns PromptRuns OperationRuns OperationLifeRuns
begin

text \<open>
  LibreAgent is an agent process that owns the smart cards of a user session. Clients talk to it over a
  local socket: the Qt client library, and a PKCS#11 module loaded into other programs. This library models
  the agent core and the module and proves what they promise. File names are relative to the repository,
  with \<^verbatim>\<open>include/LibreSCRS/Agent\<close> left out.

  \<^bold>\<open>The parts and how they interact.\<close> Bytes arrive on a socket and are cut into frames (Framing). A frame is one
  CBOR map (Cbor), read as a request by the agent (Messages) and, in the other direction, as a reply or an
  event by the client (ClientCodec). PKCS#11 requests go to the broker (Broker), which asks the rate limiter
  (RateLimit) and the leases of logins (Lease) before anything reaches a card. The module (Cryptoki over
  Module, Session, Objects, Der) serves the C entry points from a snapshot the agent sends. Card requests
  become operations on a worker thread per reader (Operations), which works on the session of that reader
  (CardHolder), asks the holder for secrets (Credentials) through prompts shown one at a time per card
  (Prompts), and keeps what it read (Caches). A monitor of the readers drives the published objects
  (Presence, ReaderLabels), and the removal of a card drops it from the caches.

  \<^bold>\<open>Conventions.\<close> A C++ struct is a record and a variant a datatype; \<^verbatim>\<open>std::expected\<close> is a sum with the error on
  the left and \<^verbatim>\<open>std::optional\<close> an option; \<^verbatim>\<open>std::map\<close> is an association list kept sorted by its comparison, or
  a map where no order is observed. Fixed-width integers are words and wrap as in C++. The clock is an
  argument. Threads are step relations: every stretch of code under one mutex is one definition, and a step
  lets one thread go through one such stretch, so a run is any interleaving. What is not in the repository
  (the kernel, QCBOR, plugins, the card middleware, the authority that asks the user) answers through
  arguments or through the events of a run, and laws it must obey are hypotheses or locale assumptions.

  \<^bold>\<open>Theories and sources.\<close>
  \<^item> Prelude: the result types, sorted association lists behind a locale \<open>std_map\<close>, list and word facts.
  \<^item> Cbor (\<^verbatim>\<open>wire/Cbor.cpp\<close>), WireTypes (\<^verbatim>\<open>wire/Messages.h\<close>, \<^verbatim>\<open>KeyType.h\<close>, \<^verbatim>\<open>wire/SyncError.h\<close>): values, strict decoder,
    encoder, and the message types. What the decoder accepts is canonical and within its caps; decoding
    inverts encoding.
  \<^item> Messages, MessageLaws (\<^verbatim>\<open>wire/Messages.cpp\<close>) and ClientCodec, ClientLaws (\<^verbatim>\<open>wire/ClientCodec.cpp\<close>): requests,
    replies and events survive the wire in both directions; an accepted request was really sent.
  \<^item> Framing, FramingLaws (\<^verbatim>\<open>wire/Framing.cpp\<close>, \<^verbatim>\<open>wire/FrameReassembler.cpp\<close>, \<^verbatim>\<open>wire/FdHarvest.h\<close>): frames with their
    descriptors come out as they went in, however the kernel cuts the stream.
  \<^item> RateLimit (\<^verbatim>\<open>operations/RateLimiter.cpp\<close>), Lease (\<^verbatim>\<open>pkcs11/LeaseManager.cpp\<close>), Mechanisms (\<^verbatim>\<open>crypto/Mechanism.h\<close>),
    Broker, BrokerLaws (\<^verbatim>\<open>pkcs11/Pkcs11Broker.cpp\<close>): who may use private keys, what ends that right, how many
    PIN prompts there can be, in every interleaving of requests and completions.
  \<^item> Der, DerLaws (\<^verbatim>\<open>util/DerLength.h\<close>, \<^verbatim>\<open>pkcs11/EcEncoding.cpp\<close>, \<^verbatim>\<open>util/DisplayText.h\<close>), Objects, ObjectLaws
    (\<^verbatim>\<open>pkcs11/ObjectModel.cpp\<close>, \<^verbatim>\<open>pkcs11/DerivedKeys.cpp\<close>), Session, SessionLaws (\<^verbatim>\<open>pkcs11/SessionState.cpp\<close>): certificate
    fields, slots, mechanisms, attributes, handles and searches of the module.
  \<^item> Module, Cryptoki, CryptokiLaws, CryptokiRuns (\<^verbatim>\<open>pkcs11/Module.cpp\<close>): the entry points split at their lock
    regions, and what holds in every interleaving of the threads inside them: the library is not freed under
    a call, a session has one call at a time, derived keys do not outlive session, login or card.
  \<^item> CardHolder (\<^verbatim>\<open>operations/CardSessionHolder.cpp\<close>, \<^verbatim>\<open>operations/CardPluginRouting.h\<close>): one connection per reader and
    no credentials left behind; which plugin serves a card.
  \<^item> ReaderLabels (\<^verbatim>\<open>value/ReaderLabels.cpp\<close>), HexEncode (\<^verbatim>\<open>util/HexEncode.h\<close>), Presence, PresenceLaws, PresenceRuns
    (\<^verbatim>\<open>presence\<close>): labels tell readers apart; the published objects refine the plain record of which reader
    holds which card, and observers are told every change.
  \<^item> Caches, Credentials, CredentialLaws (\<^verbatim>\<open>cache\<close>, \<^verbatim>\<open>value/CredentialRecord.h\<close>), RemovalRuns: what the caches serve and
    wipe, when the holder is asked and when not, and the caches together with the monitor.
  \<^item> Prompts, PromptRuns (\<^verbatim>\<open>operations/PromptSerializer.cpp\<close>, \<^verbatim>\<open>operations/PromptIdMinter.h\<close>): one prompt per card, in the
    order of arrival, and no wakeup is lost.
  \<^item> Operations, OperationShape, OperationOwners, OperationRuns (\<^verbatim>\<open>operations/OperationManager.cpp\<close>): queues, workers,
    tables and teardown of readers. Every operation has one owner, and the table never points to a deleted
    one, unless an operation is pushed on a worker that was already stopped, which the code allows.
  \<^item> OperationLife, OperationLifeRuns (\<^verbatim>\<open>operations/OperationBase.cpp\<close>): the threads of one operation. It finishes once,
    a latched timeout is reported as a timeout, its threads never wait for each other for good; its phase
    can leave the terminal one.

  \<^bold>\<open>Bounds.\<close> No definition has fuel. Loops over input are structural or have a termination proof; the search for a
  free reader label is a while loop proved to end for every set of taken labels. 64-bit counters wrap; where
  a property needs them not to, the run is shorter than 2 to the 64 steps, and the hypothesis says so.

  \<^bold>\<open>Not modelled.\<close> The flows of single operations (\<^verbatim>\<open>operations/*Flow.cpp\<close>, \<^verbatim>\<open>OperationLauncher\<close>) are sequences of calls into
  the card middleware, and \<^verbatim>\<open>LmSeams\<close> and \<^verbatim>\<open>LmRawCrypto\<close> adapt it; that library is not part of the repository. In
  OperationLife they are a worker that sets any phase and finishes with any verdict. \<^verbatim>\<open>SocketAgentClient\<close> opens
  and polls a socket around the codec modelled here. \<^verbatim>\<open>ConfigStore\<close> and \<^verbatim>\<open>CscaAnchorImport\<close> work on files and through
  OpenSSL. \<^verbatim>\<open>ErrorTaxonomy\<close> and \<^verbatim>\<open>SyncErrorTaxonomy\<close> are constant tables. \<^verbatim>\<open>AgentCore\<close> wires the parts together. Logging, the
  Qt client and the tests are left out.
\<close>

end
